(* ===== verification/Prelude.thy ===== *)
theory Prelude
  imports Main "HOL-Library.AList" "HOL-Library.Multiset"
begin

text \<open>
  Shared vocabulary of the development: the faults a C++ operation can end in, the machine
  integers of the code (\<open>int32_t\<close>, \<open>uint32_t\<close>, \<open>uint64_t\<close>, \<open>size_t\<close>) written as \<open>int\<close> or
  \<open>nat\<close> with their conversions spelled out, and the functions of the C and C++ standard
  library the sources call on character arrays (\<open>strstr\<close>, \<open>strtok\<close>, \<open>strspn\<close>, \<open>atoi\<close>,
  \<open>std::to_string\<close>, \<open>snprintf\<close> into a bounded array), each with the lemmas its callers need.
  A byte is a \<open>char\<close>; a C string is the part of a byte list in front of its first NUL.
\<close>

named_theorems c_eval \<open>unfolding rules for the small C helper functions\<close>
named_theorems res_simps \<open>simplification rules for computations that may fault\<close>

section \<open>Faults\<close>

text \<open>
  What the code does not return from: a null pointer handed to \<open>std::string\<close>, a
  \<open>std::length_error\<close> no caller catches, an access outside a block, a signed overflow or a
  narrowing out of range, a call of an empty \<open>std::function\<close>, and a loop that never ends.
\<close>

datatype fault = NullPointer | LengthError | OutOfBounds | IntRange | BadFunctionCall | Diverges

type_synonym 'a res = "fault + 'a"

definition bindr :: "'a res \<Rightarrow> ('a \<Rightarrow> 'b res) \<Rightarrow> 'b res" where
  "bindr m f = (case m of Inl e \<Rightarrow> Inl e | Inr x \<Rightarrow> f x)"

lemma bindr_simps [simp, res_simps]:
  "bindr (Inl e) f = Inl e"
  "bindr (Inr x) f = f x"
  by (simp_all add: bindr_def)

lemma bindr_eq_Inr_conv:
  "bindr m f = Inr y \<longleftrightarrow> (\<exists>x. m = Inr x \<and> f x = Inr y)"
  by (cases m) simp_all

lemma bindr_eq_Inl_conv:
  "bindr m f = Inl e \<longleftrightarrow> m = Inl e \<or> (\<exists>x. m = Inr x \<and> f x = Inl e)"
  by (cases m) simp_all

lemma bindr_assoc: "bindr (bindr m f) g = bindr m (\<lambda>x. bindr (f x) g)"
  by (cases m) simp_all

section \<open>Machine integers\<close>

abbreviation two31 :: int where "two31 \<equiv> 2147483648"
abbreviation two32 :: int where "two32 \<equiv> 4294967296"
abbreviation u64_mod :: nat where "u64_mod \<equiv> 18446744073709551616"

text \<open>Conversion of any integer to \<open>int32_t\<close> (two's complement, as the compilers do it).\<close>

definition wrap32 :: "int \<Rightarrow> int" where
  "wrap32 x = (x + two31) mod two32 - two31"

definition in_i32 :: "int \<Rightarrow> bool" where
  "in_i32 x \<longleftrightarrow> - two31 \<le> x \<and> x < two31"

lemma wrap32_id [simp]: "in_i32 x \<Longrightarrow> wrap32 x = x"
  by (simp add: wrap32_def in_i32_def)

lemma in_i32_wrap32 [simp]: "in_i32 (wrap32 x)"
proof -
  have "0 \<le> (x + two31) mod two32" "(x + two31) mod two32 < two32" by simp_all
  then show ?thesis by (simp add: wrap32_def in_i32_def)
qed

text \<open>Arithmetic on \<open>int32_t\<close>: signed overflow is undefined behaviour, hence a fault.\<close>

definition i32 :: "int \<Rightarrow> int res" where
  "i32 x = (if in_i32 x then Inr x else Inl IntRange)"

lemma i32_Inr [simp]: "i32 x = Inr y \<longleftrightarrow> in_i32 x \<and> y = x"
  by (auto simp: i32_def)

lemma i32_ok: "in_i32 x \<Longrightarrow> i32 x = Inr x"
  by simp

text \<open>\<open>uint64_t\<close> and \<open>size_t\<close> arithmetic wraps.\<close>

definition u64_add :: "nat \<Rightarrow> nat \<Rightarrow> nat" where
  "u64_add a b = (a + b) mod u64_mod"

definition u64_sub :: "nat \<Rightarrow> nat \<Rightarrow> nat" where
  "u64_sub a b = (a + (u64_mod - b)) mod u64_mod"

definition u64_shl1 :: "nat \<Rightarrow> nat" where
  "u64_shl1 a = (2 * a) mod u64_mod"

lemma u64_add_exact [simp]: "a + b < u64_mod \<Longrightarrow> u64_add a b = a + b"
  by (simp add: u64_add_def)

lemma u64_sub_exact [simp]:
  assumes "b \<le> a" and "a < u64_mod"
  shows "u64_sub a b = a - b"
proof -
  have "a + (u64_mod - b) = (a - b) + u64_mod" using assms by simp
  then have "(a + (u64_mod - b)) mod u64_mod = (a - b) mod u64_mod" by simp
  also have "\<dots> = a - b" using assms by simp
  finally show ?thesis by (simp add: u64_sub_def)
qed

lemma u64_shl1_exact [simp]: "2 * a < u64_mod \<Longrightarrow> u64_shl1 a = 2 * a"
  by (simp add: u64_shl1_def)

section \<open>Bytes and C strings\<close>

abbreviation NUL :: char where "NUL \<equiv> CHR 0x00"
abbreviation CR :: char where "CR \<equiv> CHR 0x0D"
abbreviation LF :: char where "LF \<equiv> CHR 0x0A"
abbreviation crlf :: string where "crlf \<equiv> [CR, LF]"

text \<open>The C string at the start of a byte sequence: everything in front of the first NUL.\<close>

definition cstr :: "string \<Rightarrow> string" where
  "cstr s = takeWhile (\<lambda>c. c \<noteq> NUL) s"

definition no_nul :: "string \<Rightarrow> bool" where
  "no_nul s \<longleftrightarrow> NUL \<notin> set s"

lemma cstr_id [simp]: "no_nul s \<Longrightarrow> cstr s = s"
  unfolding cstr_def no_nul_def by (induction s) auto

lemma no_nul_cstr [simp]: "no_nul (cstr s)"
  by (auto simp: cstr_def no_nul_def dest: set_takeWhileD)

lemma no_nul_append [simp]: "no_nul (s @ t) \<longleftrightarrow> no_nul s \<and> no_nul t"
  by (auto simp: no_nul_def)

lemma no_nul_Nil [simp]: "no_nul []"
  by (simp add: no_nul_def)

lemma no_nul_Cons [simp]: "no_nul (c # s) \<longleftrightarrow> c \<noteq> NUL \<and> no_nul s"
  by (auto simp: no_nul_def)

text \<open>\<open>memchr\<close>: the position of the first occurrence of a byte.\<close>

fun memchr :: "char \<Rightarrow> string \<Rightarrow> nat option" where
  "memchr c [] = None"
| "memchr c (x # xs) = (if x = c then Some 0 else map_option Suc (memchr c xs))"

lemma memchr_None: "memchr c s = None \<longleftrightarrow> c \<notin> set s"
  by (induction s) auto

lemma memchr_append: "c \<notin> set s \<Longrightarrow> memchr c (s @ c # t) = Some (length s)"
  by (induction s) auto

lemma memchr_Some_less: "memchr c s = Some n \<Longrightarrow> n < length s"
  by (induction s arbitrary: n) (auto split: if_splits)

lemma memchr_Some_nth: "memchr c s = Some n \<Longrightarrow> s ! n = c"
  by (induction s arbitrary: n) (auto split: if_splits)

lemma memchr_Some_take: "memchr c s = Some n \<Longrightarrow> c \<notin> set (take n s)"
  by (induction s arbitrary: n) (auto split: if_splits)

text \<open>\<open>strstr\<close> on a C string: the parts in front of and behind the first occurrence.\<close>

fun strstr :: "string \<Rightarrow> string \<Rightarrow> (string \<times> string) option" where
  "strstr del [] = (if del = [] then Some ([], []) else None)"
| "strstr del (x # xs) =
     (if take (length del) (x # xs) = del then Some ([], drop (length del) (x # xs))
      else map_option (\<lambda>(a, b). (x # a, b)) (strstr del xs))"

lemma strstr_char_None: "strstr [c] s = None \<longleftrightarrow> c \<notin> set s"
  by (induction s) auto

lemma strstr_char_append: "c \<notin> set s \<Longrightarrow> strstr [c] (s @ c # t) = Some (s, t)"
  by (induction s) auto

lemma strstr_length: "strstr del s = Some (a, b) \<Longrightarrow> length s = length a + length del + length b"
  by (induction s arbitrary: a b) (auto split: if_splits dest: arg_cong [where f = length])

text \<open>\<open>strtok(s, delims)\<close> on a fresh string: skip delimiters, then the longest run without one.\<close>

definition strtok :: "string \<Rightarrow> string \<Rightarrow> string option" where
  "strtok s ds =
     (let t = takeWhile (\<lambda>c. c \<notin> set ds) (dropWhile (\<lambda>c. c \<in> set ds) s)
      in if t = [] then None else Some t)"

lemma takeWhile_all_append: "(\<And>x. x \<in> set xs \<Longrightarrow> P x) \<Longrightarrow> takeWhile P (xs @ ys) = xs @ takeWhile P ys"
  by (induction xs) auto

lemma strtok_line:
  assumes "s \<noteq> []" and "CR \<notin> set s" and "LF \<notin> set s"
  shows "strtok (s @ crlf) [CR, LF] = Some s"
proof -
  have "dropWhile (\<lambda>c. c \<in> set [CR, LF]) (s @ crlf) = s @ crlf"
    using assms by (cases s) auto
  moreover have "takeWhile (\<lambda>c. c \<notin> set [CR, LF]) (s @ crlf) = s"
    using assms by (subst takeWhile_all_append) auto
  ultimately show ?thesis using assms by (simp add: strtok_def)
qed

lemma strtok_crlf: "strtok crlf [CR, LF] = None"
  by (simp add: strtok_def)

text \<open>\<open>s + strspn(s, " ")\<close>: skip leading spaces.\<close>

definition skip_spaces :: "string \<Rightarrow> string" where
  "skip_spaces s = dropWhile (\<lambda>c. c = CHR '' '') s"

section \<open>Numbers as text\<close>

definition c_isspace :: "char \<Rightarrow> bool" where
  "c_isspace c \<longleftrightarrow> c \<in> {CHR '' '', CHR 0x09, LF, CHR 0x0B, CHR 0x0C, CR}"

definition is_digit :: "char \<Rightarrow> bool" where
  "is_digit c \<longleftrightarrow> (48::nat) \<le> of_char c \<and> of_char c \<le> (57::nat)"

definition digit_val :: "char \<Rightarrow> int" where
  "digit_val c = of_char c - 48"

fun digits_val :: "int \<Rightarrow> string \<Rightarrow> int" where
  "digits_val acc [] = acc"
| "digits_val acc (c # cs) =
     (if is_digit c then digits_val (acc * 10 + digit_val c) cs else acc)"

text \<open>
  \<open>atoi\<close> is \<open>(int) strtol(s, NULL, 10)\<close>: white space, an optional sign, digits; the value is
  clamped to \<open>long\<close> (64 bit) and then converted to \<open>int\<close>.
\<close>

definition clamp64 :: "int \<Rightarrow> int" where
  "clamp64 x = max (- 9223372036854775808) (min 9223372036854775807 x)"

definition c_atoi :: "string \<Rightarrow> int" where
  "c_atoi s =
     (let t = dropWhile c_isspace (cstr s);
          v = (case t of
                 [] \<Rightarrow> 0
               | c # u \<Rightarrow> if c = CHR ''-'' then - digits_val 0 u
                          else if c = CHR ''+'' then digits_val 0 u
                          else digits_val 0 t)
      in wrap32 (clamp64 v))"

definition digit_char :: "nat \<Rightarrow> char" where
  "digit_char d = char_of (48 + d)"

fun nat_digits :: "nat \<Rightarrow> string" where
  "nat_digits n =
     (if n < 10 then [digit_char n] else nat_digits (n div 10) @ [digit_char (n mod 10)])"

declare nat_digits.simps [simp del]

definition to_string :: "int \<Rightarrow> string" where
  "to_string i = (if i < 0 then CHR ''-'' # nat_digits (nat (- i)) else nat_digits (nat i))"

lemma of_char_digit_char: "d < 10 \<Longrightarrow> of_char (digit_char d) = (48 + d :: nat)"
  by (simp add: digit_char_def)

lemma is_digit_digit_char [simp]: "d < 10 \<Longrightarrow> is_digit (digit_char d)"
  by (simp add: is_digit_def of_char_digit_char)

lemma of_char_int: "(of_char c :: int) = int (of_char c :: nat)"
  by (simp add: of_nat_of_char)

lemma digit_val_digit_char [simp]: "d < 10 \<Longrightarrow> digit_val (digit_char d) = int d"
proof -
  assume "d < 10"
  then have "(of_char (digit_char d) :: int) = 48 + int d"
    using of_char_digit_char [of d] of_char_int [of "digit_char d"] by simp
  then show ?thesis by (simp add: digit_val_def)
qed

lemma digits_val_append:
  "list_all is_digit s \<Longrightarrow> digits_val acc (s @ t) = digits_val (digits_val acc s) t"
  by (induction s arbitrary: acc) auto

lemma nat_digits_all_digits [simp]: "list_all is_digit (nat_digits n)"
proof (induction n rule: nat_digits.induct)
  case (1 n)
  then show ?case by (subst nat_digits.simps) auto
qed

lemma nat_digits_nonempty [simp]: "nat_digits n \<noteq> []"
  by (subst nat_digits.simps) simp

lemma digits_val_nat_digits: "digits_val 0 (nat_digits n) = int n"
proof (induction n rule: nat_digits.induct)
  case (1 n)
  show ?case
  proof (cases "n < 10")
    case True
    then show ?thesis by (subst nat_digits.simps) simp
  next
    case False
    have "digits_val 0 (nat_digits n) = digits_val 0 (nat_digits (n div 10) @ [digit_char (n mod 10)])"
      using False by (subst nat_digits.simps) simp
    also have "\<dots> = int (n div 10) * 10 + int (n mod 10)"
      using "1.IH" [OF False] by (simp add: digits_val_append)
    also have "\<dots> = int n" by presburger
    finally show ?thesis .
  qed
qed

lemma is_digit_neq:
  assumes "is_digit c"
  shows "c \<noteq> CHR ''-''" "c \<noteq> CHR ''+''" "c \<noteq> NUL" "\<not> c_isspace c" "c \<noteq> CR" "c \<noteq> LF" "c \<noteq> CHR '' ''"
  using assms by (auto simp: is_digit_def c_isspace_def)

lemma no_nul_digits: "list_all is_digit s \<Longrightarrow> no_nul s"
  by (auto simp: no_nul_def list_all_iff dest: is_digit_neq)

lemma dropWhile_hd: "xs = x # ys \<Longrightarrow> \<not> P x \<Longrightarrow> dropWhile P xs = xs"
  by simp

text \<open>Reading back a printed non-negative number.\<close>

lemma atoi_digits:
  assumes "list_all is_digit s" and "s \<noteq> []"
  shows "c_atoi s = wrap32 (clamp64 (digits_val 0 s))"
proof -
  obtain c u where s: "s = c # u" using assms by (cases s) auto
  have c: "is_digit c" using assms s by simp
  have "cstr s = s" using assms by (simp add: no_nul_digits)
  then show ?thesis using s is_digit_neq [OF c] by (simp add: c_atoi_def Let_def)
qed

lemma atoi_nat_digits:
  assumes "int n < two31"
  shows "c_atoi (nat_digits n) = int n"
  using assms by (simp add: atoi_digits digits_val_nat_digits clamp64_def in_i32_def)

lemma atoi_to_string:
  assumes "0 \<le> i" and "i < two31"
  shows "c_atoi (to_string i) = i"
  using assms atoi_nat_digits [of "nat i"] by (simp add: to_string_def)

lemma to_string_nonempty [simp]: "to_string i \<noteq> []"
  by (simp add: to_string_def)

lemma to_string_digits: "0 \<le> i \<Longrightarrow> list_all is_digit (to_string i)"
  by (simp add: to_string_def)

lemma length_nat_digits_le: "n < 10 ^ k \<Longrightarrow> 0 < k \<Longrightarrow> length (nat_digits n) \<le> k"
proof (induction n arbitrary: k rule: nat_digits.induct)
  case (1 n)
  show ?case
  proof (cases "n < 10")
    case True
    with "1.prems" show ?thesis by (subst nat_digits.simps) simp
  next
    case False
    with "1.prems" obtain j where k: "k = Suc j" "0 < j"
      by (cases k; cases "k - 1") auto
    have "n div 10 < 10 ^ j" using "1.prems"(1) k by (simp add: less_mult_imp_div_less mult.commute)
    then have "length (nat_digits (n div 10)) \<le> j" using "1.IH" [OF False] k by blast
    then show ?thesis using False k by (subst nat_digits.simps) simp
  qed
qed

section \<open>snprintf into a local array\<close>

text \<open>
  \<open>snprintf(buffer, n, ...)\<close> writes at most \<open>n - 1\<close> characters and a NUL; the callers then
  take \<open>strlen(buffer)\<close> characters.
\<close>

definition snprintf_text :: "nat \<Rightarrow> string \<Rightarrow> string" where
  "snprintf_text n s = take (n - 1) s"

lemma snprintf_text_fits [simp]: "length s < n \<Longrightarrow> snprintf_text n s = s"
  by (simp add: snprintf_text_def)

lemma length_snprintf_text: "length (snprintf_text n s) \<le> n - 1"
  by (simp add: snprintf_text_def)

end
