(* ===== verification/Common.thy ===== *)
theory Common
  imports Prelude "HOL-Library.Word"
begin

text \<open>
  \<^verbatim>\<open>base/co_common.h\<close>: the return codes, the request kinds and the socket phases shared by every
  component, the packing of two 32-bit numbers into one \<open>uint64_t\<close> (epoll user data, the key
  of the mutex table), the clock, and \<open>SAFE_CLOSE\<close>. Return codes are \<open>int\<close>, as
  \<open>int32_t\<close> values that are only compared.
\<close>

unbundle bit_operations_syntax

section \<open>Codes\<close>

definition CO_EXCEPTION :: int where [simp]: "CO_EXCEPTION = - 5"
definition CO_CONNECTION_CLOSE :: int where [simp]: "CO_CONNECTION_CLOSE = - 4"
definition CO_AGAIN :: int where [simp]: "CO_AGAIN = - 3"
definition CO_TIMEOUT :: int where [simp]: "CO_TIMEOUT = - 2"
definition CO_ERROR :: int where [simp]: "CO_ERROR = - 1"
definition CO_OK :: int where [simp]: "CO_OK = 0"

definition CO_REQUEST_NORMAL :: int where "CO_REQUEST_NORMAL = 1"
definition CO_REQUEST_UPSTREAM :: int where "CO_REQUEST_UPSTREAM = 2"
definition CO_REQUEST_DETACH :: int where "CO_REQUEST_DETACH = 4"

datatype socket_phase =
  SOCKET_PHASE_NONE | SOCKET_PHASE_CONNECT | SOCKET_PHASE_READ | SOCKET_PHASE_WRITE

section \<open>Two 32-bit numbers in one 64-bit number\<close>

definition GEN_U64 :: "32 word \<Rightarrow> 32 word \<Rightarrow> 64 word" where
  "GEN_U64 high32 low32 = push_bit 32 (ucast high32) OR ucast low32"

definition GET_U64_HIGH32 :: "64 word \<Rightarrow> 32 word" where
  "GET_U64_HIGH32 u = ucast (drop_bit 32 u)"

definition GET_U64_LOW32 :: "64 word \<Rightarrow> 32 word" where
  "GET_U64_LOW32 u = ucast u"

lemma high_gen_u64 [simp]: "GET_U64_HIGH32 (GEN_U64 h l) = h"
  by (rule bit_word_eqI)
    (auto simp: GEN_U64_def GET_U64_HIGH32_def bit_simps dest: bit_imp_le_length)

lemma low_gen_u64 [simp]: "GET_U64_LOW32 (GEN_U64 h l) = l"
  by (rule bit_word_eqI)
    (auto simp: GEN_U64_def GET_U64_LOW32_def bit_simps dest: bit_imp_le_length)

lemma gen_u64_inject [simp]: "GEN_U64 h l = GEN_U64 h' l' \<longleftrightarrow> h = h' \<and> l = l'"
  by (metis high_gen_u64 low_gen_u64)

section \<open>Closing a descriptor\<close>

text \<open>
  \<open>SAFE_CLOSE\<close> closes a positive descriptor and stores \<open>-1\<close>; the set is the set of open
  descriptors of the process.
\<close>

definition SAFE_CLOSE :: "int \<Rightarrow> int set \<Rightarrow> int \<times> int set" where
  "SAFE_CLOSE fd opened = (if fd > 0 then (- 1, opened - {fd}) else (fd, opened))"

lemma SAFE_CLOSE_fd: "fst (SAFE_CLOSE fd opened) \<le> 0"
  by (simp add: SAFE_CLOSE_def)

section \<open>The clock\<close>

text \<open>
  \<open>GET_CURRENTTIME_MS\<close> and \<open>GET_CURRENTTIME_US\<close> from the fields of \<open>struct timeval\<close>; the
  operations that read the clock take its value as an argument.
\<close>

definition GET_CURRENTTIME_MS :: "nat \<Rightarrow> nat \<Rightarrow> nat" where
  "GET_CURRENTTIME_MS sec usec = (sec * 1000 + usec div 1000) mod u64_mod"

definition GET_CURRENTTIME_US :: "nat \<Rightarrow> nat \<Rightarrow> nat" where
  "GET_CURRENTTIME_US sec usec = (sec * 1000000 + usec) mod u64_mod"

end
