(* ===== verification/Buffer.thy ===== *)
theory Buffer
  imports Common
begin

text \<open>
  \<^verbatim>\<open>base/co_buffer.h\<close>, \<^verbatim>\<open>base/co_buffer.cpp\<close>: the growable byte buffer of a connection. The
  memory block behind \<open>m_originBuffer\<close> is the byte list \<open>m_block\<close> (empty for NULL),
  \<open>m_buffer\<close> is the offset of \<open>m_buffer\<close> from \<open>m_originBuffer\<close>, and the three sizes are
  \<open>size_t\<close>, with wrapping arithmetic. \<open>realloc\<close> may fail and leaves fresh bytes
  unspecified: the operations that allocate take a heap that says which sizes it can serve
  and what fresh memory holds. The abstract view is a byte queue (\<open>contents\<close>): the locale
  \<open>byte_queue\<close> states what the protocols rely on, and the buffer interprets it.
\<close>

section \<open>The heap\<close>

record heap =
  h_avail :: "nat \<Rightarrow> bool"
  h_junk :: "nat \<Rightarrow> char"

definition c_realloc :: "heap \<Rightarrow> string \<Rightarrow> nat \<Rightarrow> string option" where
  "c_realloc h blk n =
     (if h_avail h n then Some (take n blk @ map (h_junk h) [length blk..<n]) else None)"

definition c_store :: "string \<Rightarrow> nat \<Rightarrow> string \<Rightarrow> string option" where
  "c_store blk off data =
     (if off + length data \<le> length blk
      then Some (take off blk @ data @ drop (off + length data) blk) else None)"

lemma c_realloc_length: "c_realloc h blk n = Some blk' \<Longrightarrow> length blk' = n"
  by (auto simp: c_realloc_def split: if_splits)

lemma c_realloc_take:
  "c_realloc h blk n = Some blk' \<Longrightarrow> k \<le> length blk \<Longrightarrow> k \<le> n \<Longrightarrow> take k blk' = take k blk"
  by (auto simp: c_realloc_def min_def split: if_splits)

lemma c_store_length: "c_store blk off data = Some blk' \<Longrightarrow> length blk' = length blk"
  by (auto simp: c_store_def split: if_splits)

lemma c_store_ok: "off + length data \<le> length blk \<Longrightarrow>
  c_store blk off data = Some (take off blk @ data @ drop (off + length data) blk)"
  by (simp add: c_store_def)

section \<open>The buffer\<close>

record co_buffer =
  m_userData :: nat
  m_block :: string
  m_totalSize :: nat
  m_buffer :: nat
  m_bufferSize :: nat
  m_misalignSize :: nat

definition new_buffer :: co_buffer where
  "new_buffer = \<lparr>m_userData = 0, m_block = [], m_totalSize = 0, m_buffer = 0,
     m_bufferSize = 0, m_misalignSize = 0\<rparr>"

definition BUFFER_SIZE_4096 :: nat where "BUFFER_SIZE_4096 = 4096"
definition BUFFER_SIZE_MAX :: nat where "BUFFER_SIZE_MAX = u64_mod - 1"

definition get_totalsize :: "co_buffer \<Rightarrow> nat" where "get_totalsize b = m_totalSize b"
definition get_buffersize :: "co_buffer \<Rightarrow> nat" where "get_buffersize b = m_bufferSize b"

definition set_userdata :: "nat \<Rightarrow> co_buffer \<Rightarrow> co_buffer" where
  "set_userdata d b = b\<lparr>m_userData := d\<rparr>"

definition get_userdata :: "co_buffer \<Rightarrow> nat" where "get_userdata b = m_userData b"

text \<open>The valid bytes: \<open>get_bufferdata\<close> read for \<open>get_buffersize\<close> bytes.\<close>

definition contents :: "co_buffer \<Rightarrow> string" where
  "contents b = take (m_bufferSize b) (drop (m_buffer b) (m_block b))"

text \<open>\<open>while (reallocSize < needSize) reallocSize <<= 1\<close> on \<open>size_t\<close>, which may not end.\<close>

partial_function (option) grow_loop :: "nat \<Rightarrow> nat \<Rightarrow> nat option" where
  "grow_loop reallocSize needSize =
     (if reallocSize < needSize then grow_loop (u64_shl1 reallocSize) needSize
      else Some reallocSize)"

text \<open>\<open>memmove(m_originBuffer, m_buffer, m_bufferSize)\<close> and the reset of the offsets.\<close>

definition move_front :: "co_buffer \<Rightarrow> co_buffer res" where
  "move_front b =
     (case c_store (m_block b) 0 (contents b) of
        None \<Rightarrow> Inl OutOfBounds
      | Some blk \<Rightarrow> Inr (b\<lparr>m_block := blk, m_buffer := 0, m_misalignSize := 0\<rparr>))"

definition calc_reallocsize :: "nat \<Rightarrow> nat \<Rightarrow> nat option" where
  "calc_reallocsize totalSize needSize =
     (let reallocSize = (if totalSize < 256 then 256 else totalSize)
      in if reallocSize < BUFFER_SIZE_MAX div 2 then grow_loop reallocSize needSize
         else Some needSize)"

definition buffer_realloc :: "heap \<Rightarrow> nat \<Rightarrow> co_buffer \<Rightarrow> (int \<times> co_buffer) res" where
  "buffer_realloc h reallocSize b =
     (case c_realloc h (m_block b) reallocSize of
        None \<Rightarrow> Inr (CO_ERROR, b)
      | Some blk \<Rightarrow> Inr (CO_OK, b\<lparr>m_block := blk, m_buffer := 0, m_totalSize := reallocSize\<rparr>))"

definition buffer_expand :: "heap \<Rightarrow> nat \<Rightarrow> co_buffer \<Rightarrow> (int \<times> co_buffer) res" where
  "buffer_expand h dataLen b =
     (let usedSize = u64_add (m_misalignSize b) (m_bufferSize b)
      in if m_totalSize b < usedSize then Inr (CO_ERROR, b)
         else if dataLen \<le> u64_sub (m_totalSize b) usedSize then Inr (CO_OK, b)
         else if BUFFER_SIZE_MAX < u64_add usedSize dataLen then Inr (CO_ERROR, b)
         else if dataLen \<le> u64_sub (m_totalSize b) (m_bufferSize b)
         then bindr (move_front b) (\<lambda>b'. Inr (CO_OK, b'))
         else let needSize = u64_add (m_bufferSize b) dataLen
              in case calc_reallocsize (m_totalSize b) needSize of
                   None \<Rightarrow> Inl Diverges
                 | Some reallocSize \<Rightarrow>
                     bindr (if m_buffer b \<noteq> 0 then move_front b else Inr b)
                       (buffer_realloc h reallocSize))"

definition buffer_append :: "heap \<Rightarrow> string \<Rightarrow> co_buffer \<Rightarrow> (int \<times> co_buffer) res" where
  "buffer_append h data b =
     (let bufferUsed = u64_add (m_misalignSize b) (m_bufferSize b);
          dataLen = length data
      in bindr (if u64_sub (m_totalSize b) bufferUsed < dataLen
                then buffer_expand h dataLen b else Inr (CO_OK, b))
           (\<lambda>(ret, b1).
              if ret \<noteq> CO_OK then Inr (CO_ERROR, b1)
              else case c_store (m_block b1) (m_buffer b1 + m_bufferSize b1) data of
                     None \<Rightarrow> Inl OutOfBounds
                   | Some blk \<Rightarrow>
                       Inr (CO_OK, b1\<lparr>m_block := blk,
                                      m_bufferSize := u64_add (m_bufferSize b1) dataLen\<rparr>)))"

definition buffer_erase :: "nat \<Rightarrow> co_buffer \<Rightarrow> int \<times> co_buffer" where
  "buffer_erase dataLen b =
     (if m_bufferSize b \<le> dataLen
      then (CO_OK, b\<lparr>m_buffer := 0, m_bufferSize := 0, m_misalignSize := 0\<rparr>)
      else (CO_OK, b\<lparr>m_buffer := m_buffer b + dataLen,
                     m_bufferSize := u64_sub (m_bufferSize b) dataLen,
                     m_misalignSize := u64_add (m_misalignSize b) dataLen\<rparr>))"

definition buffer_size_expand :: "nat \<Rightarrow> co_buffer \<Rightarrow> int \<times> co_buffer" where
  "buffer_size_expand dataLen b =
     (if m_totalSize b < u64_add (u64_add (m_misalignSize b) (m_bufferSize b)) dataLen
      then (CO_ERROR, b)
      else (CO_OK, b\<lparr>m_bufferSize := u64_add (m_bufferSize b) dataLen\<rparr>))"

definition buffer_reset :: "co_buffer \<Rightarrow> co_buffer" where
  "buffer_reset b = b\<lparr>m_buffer := 0, m_bufferSize := 0, m_misalignSize := 0\<rparr>"

text \<open>
  What \<open>recv\<close> does to the memory behind the valid bytes: it stores the received bytes at
  \<open>get_bufferdata() + get_buffersize()\<close>.
\<close>

definition buffer_recv :: "string \<Rightarrow> co_buffer \<Rightarrow> co_buffer res" where
  "buffer_recv data b =
     (case c_store (m_block b) (m_buffer b + m_bufferSize b) data of
        None \<Rightarrow> Inl OutOfBounds
      | Some blk \<Rightarrow> Inr (b\<lparr>m_block := blk\<rparr>))"

section \<open>Well-formedness\<close>

definition buf_inv :: "co_buffer \<Rightarrow> bool" where
  "buf_inv b \<longleftrightarrow> m_totalSize b = length (m_block b) \<and> m_buffer b = m_misalignSize b
     \<and> m_misalignSize b + m_bufferSize b \<le> m_totalSize b \<and> m_totalSize b < u64_mod"

lemma buf_inv_new [simp]: "buf_inv new_buffer"
  by (simp add: buf_inv_def new_buffer_def)

lemma contents_new [simp]: "contents new_buffer = []"
  by (simp add: contents_def new_buffer_def)

lemma length_contents: "buf_inv b \<Longrightarrow> length (contents b) = m_bufferSize b"
  by (auto simp: buf_inv_def contents_def)

lemma buf_inv_used:
  assumes "buf_inv b"
  shows "u64_add (m_misalignSize b) (m_bufferSize b) = m_misalignSize b + m_bufferSize b"
    and "u64_sub (m_totalSize b) (m_misalignSize b + m_bufferSize b)
           = m_totalSize b - (m_misalignSize b + m_bufferSize b)"
    and "u64_sub (m_totalSize b) (m_bufferSize b) = m_totalSize b - m_bufferSize b"
  using assms by (auto simp: buf_inv_def)

lemma buf_inv_reset [simp]: "buf_inv b \<Longrightarrow> buf_inv (buffer_reset b)"
  and contents_reset [simp]: "contents (buffer_reset b) = []"
  by (auto simp: buf_inv_def buffer_reset_def contents_def)

lemma buf_inv_erase: "buf_inv b \<Longrightarrow> buf_inv (snd (buffer_erase n b))"
  by (auto simp: buf_inv_def buffer_erase_def)

lemma contents_erase: "buf_inv b \<Longrightarrow> contents (snd (buffer_erase n b)) = drop n (contents b)"
proof (cases "m_bufferSize b \<le> n")
  case True
  then show ?thesis by (simp add: buffer_erase_def contents_def)
next
  case False
  assume "buf_inv b"
  with False have "u64_sub (m_bufferSize b) n = m_bufferSize b - n" by (auto simp: buf_inv_def)
  with False show ?thesis by (simp add: buffer_erase_def contents_def drop_take add.commute)
qed

lemma erase_ret [simp]: "fst (buffer_erase n b) = CO_OK"
  by (simp add: buffer_erase_def)

section \<open>The doubling loop\<close>

declare grow_loop.simps [code]

lemma grow_loop_total:
  assumes "0 < r" and "need \<le> 9223372036854775808"
  shows "\<exists>r'. grow_loop r need = Some r' \<and> need \<le> r' \<and> r \<le> r' \<and> (r' = r \<or> r' < 2 * need)"
  using assms
proof (induction "need - r" arbitrary: r rule: less_induct)
  case less
  show ?case
  proof (cases "r < need")
    case False
    then show ?thesis by (subst grow_loop.simps) auto
  next
    case True
    then have shl: "u64_shl1 r = 2 * r" using less.prems by simp
    have "need - 2 * r < need - r" using True less.prems by linarith
    from less.hyps [OF this] less.prems obtain r'
      where r': "grow_loop (2 * r) need = Some r'" "need \<le> r'" "2 * r \<le> r'" "r' = 2 * r \<or> r' < 2 * need"
      by auto
    have "grow_loop r need = Some r'" using True shl r' by (subst grow_loop.simps) simp
    with r' True show ?thesis by auto
  qed
qed

lemma calc_reallocsize_total:
  assumes "tot < need" and "need \<le> 9223372036854775808"
  shows "\<exists>r. calc_reallocsize tot need = Some r \<and> need \<le> r \<and> r < u64_mod
           \<and> r \<le> max 256 (2 * need)"
proof -
  let ?r0 = "if tot < 256 then 256 else tot"
  show ?thesis
  proof (cases "?r0 < BUFFER_SIZE_MAX div 2")
    case True
    have "0 < ?r0" by simp
    from grow_loop_total [OF this assms(2)]
    obtain r where "grow_loop ?r0 need = Some r" "need \<le> r" "r = ?r0 \<or> r < 2 * need"
      by blast
    moreover have "?r0 \<le> max 256 (2 * need)" "?r0 < u64_mod" using assms by auto
    ultimately show ?thesis using True assms by (auto simp: calc_reallocsize_def Let_def)
  next
    case False
    then show ?thesis using assms by (auto simp: calc_reallocsize_def Let_def)
  qed
qed

section \<open>Expansion and append\<close>

lemma move_front_ok:
  assumes "buf_inv b"
  shows "\<exists>b'. move_front b = Inr b' \<and> buf_inv b' \<and> contents b' = contents b
     \<and> m_misalignSize b' = 0 \<and> m_totalSize b' = m_totalSize b \<and> m_bufferSize b' = m_bufferSize b"
  using assms length_contents [OF assms]
  by (auto simp: move_front_def c_store_def buf_inv_def contents_def)

lemma buffer_realloc_ok:
  assumes "buf_inv b" and "m_misalignSize b = 0" and "m_bufferSize b \<le> r" and "r < u64_mod"
  shows "\<exists>ret b'. buffer_realloc h r b = Inr (ret, b') \<and> buf_inv b' \<and> contents b' = contents b
     \<and> m_bufferSize b' = m_bufferSize b \<and> m_misalignSize b' = 0
     \<and> (ret = CO_OK \<and> m_totalSize b' = r \<or> ret = CO_ERROR \<and> \<not> h_avail h r)"
proof (cases "c_realloc h (m_block b) r")
  case None
  then show ?thesis using assms by (auto simp: buffer_realloc_def c_realloc_def split: if_splits)
next
  case (Some blk)
  have "take (m_bufferSize b) blk = take (m_bufferSize b) (m_block b)"
    using c_realloc_take [OF Some, of "m_bufferSize b"] assms by (auto simp: buf_inv_def)
  moreover have "length blk = r" using c_realloc_length [OF Some] .
  moreover have "h_avail h r" using Some by (auto simp: c_realloc_def split: if_splits)
  ultimately show ?thesis using assms Some
    by (auto simp: buffer_realloc_def buf_inv_def contents_def)
qed

text \<open>
  Expansion keeps the valid bytes; on success the block has room for \<open>n\<close> more bytes, and it
  only fails when the allocator refuses.
\<close>

lemma buffer_expand_ok:
  assumes inv: "buf_inv b" and size: "m_bufferSize b + n \<le> 9223372036854775808"
  shows "\<exists>ret b'. buffer_expand h n b = Inr (ret, b') \<and> buf_inv b' \<and> contents b' = contents b
     \<and> m_bufferSize b' = m_bufferSize b
     \<and> (ret = CO_OK \<and> m_misalignSize b' + m_bufferSize b' + n \<le> m_totalSize b'
        \<or> ret = CO_ERROR \<and> (\<exists>r. m_bufferSize b + n \<le> r \<and> \<not> h_avail h r))"
proof -
  note used = buf_inv_used [OF inv]
  have le: "m_misalignSize b + m_bufferSize b \<le> m_totalSize b" "m_totalSize b < u64_mod"
    using inv by (auto simp: buf_inv_def)
  have nomax: "\<not> BUFFER_SIZE_MAX < u64_add (m_misalignSize b + m_bufferSize b) n"
    by (simp add: BUFFER_SIZE_MAX_def u64_add_def less_Suc_eq_le [symmetric])
  consider (room) "n \<le> m_totalSize b - (m_misalignSize b + m_bufferSize b)"
    | (move) "\<not> n \<le> m_totalSize b - (m_misalignSize b + m_bufferSize b)"
        "n \<le> m_totalSize b - m_bufferSize b"
    | (grow) "\<not> n \<le> m_totalSize b - (m_misalignSize b + m_bufferSize b)"
        "\<not> n \<le> m_totalSize b - m_bufferSize b"
    by blast
  then show ?thesis
  proof cases
    case room
    then show ?thesis using inv le by (auto simp: buffer_expand_def Let_def used)
  next
    case move
    obtain b' where "move_front b = Inr b'" "buf_inv b'" "contents b' = contents b"
      "m_misalignSize b' = 0" "m_totalSize b' = m_totalSize b" "m_bufferSize b' = m_bufferSize b"
      using move_front_ok [OF inv] by blast
    with move le nomax show ?thesis by (auto simp: buffer_expand_def Let_def used)
  next
    case grow
    have need: "u64_add (m_bufferSize b) n = m_bufferSize b + n" using size by simp
    have "m_totalSize b < m_bufferSize b + n" using grow le by linarith
    from calc_reallocsize_total [OF this size]
    obtain r where r: "calc_reallocsize (m_totalSize b) (m_bufferSize b + n) = Some r"
      "m_bufferSize b + n \<le> r" "r < u64_mod"
      by blast
    obtain b1 where b1: "(if m_buffer b \<noteq> 0 then move_front b else Inr b) = Inr b1" "buf_inv b1"
      "contents b1 = contents b" "m_misalignSize b1 = 0" "m_bufferSize b1 = m_bufferSize b"
    proof (cases "m_buffer b = 0")
      case True
      then show ?thesis using that [of b] inv by (simp add: buf_inv_def)
    next
      case False
      then show ?thesis using that move_front_ok [OF inv] by auto
    qed
    have le1: "m_bufferSize b1 \<le> r" using r b1 by simp
    obtain ret b' where "buffer_realloc h r b1 = Inr (ret, b')" "buf_inv b'" "contents b' = contents b1"
      "m_bufferSize b' = m_bufferSize b1" "m_misalignSize b' = 0"
      "ret = CO_OK \<and> m_totalSize b' = r \<or> ret = CO_ERROR \<and> \<not> h_avail h r"
      using buffer_realloc_ok [OF b1(2,4) le1 r(3)] by blast
    note re = this
    have "buffer_expand h n b
        = bindr (if m_buffer b \<noteq> 0 then move_front b else Inr b) (buffer_realloc h r)"
      using grow le nomax r(1) by (simp add: buffer_expand_def Let_def used need)
    then have "buffer_expand h n b = Inr (ret, b')" using b1(1) re(1) by simp
    with re b1(3,5) r(2) show ?thesis by auto
  qed
qed

lemma c_store_contents:
  assumes "buf_inv b" and "m_misalignSize b + m_bufferSize b + length data \<le> m_totalSize b"
  shows "\<exists>blk. c_store (m_block b) (m_buffer b + m_bufferSize b) data = Some blk
     \<and> length blk = length (m_block b)
     \<and> take (m_bufferSize b + length data) (drop (m_buffer b) blk) = contents b @ data"
proof -
  let ?o = "m_buffer b + m_bufferSize b"
  let ?blk = "take ?o (m_block b) @ data @ drop (?o + length data) (m_block b)"
  have fit: "?o + length data \<le> length (m_block b)" using assms by (simp add: buf_inv_def)
  have eq: "drop (m_buffer b) ?blk = contents b @ data @ drop (?o + length data) (m_block b)"
    using fit by (simp add: contents_def drop_take)
  have "length (contents b) = m_bufferSize b" using assms by (simp add: length_contents)
  then have "take (m_bufferSize b + length data) (drop (m_buffer b) ?blk) = contents b @ data"
    unfolding eq by simp
  moreover have "c_store (m_block b) ?o data = Some ?blk" using fit by (rule c_store_ok)
  moreover have "length ?blk = length (m_block b)" using fit by simp
  ultimately show ?thesis by blast
qed

lemma buffer_append_ok:
  assumes inv: "buf_inv b" and size: "m_bufferSize b + length data \<le> 9223372036854775808"
  shows "\<exists>ret b'. buffer_append h data b = Inr (ret, b') \<and> buf_inv b'
     \<and> (ret = CO_OK \<and> contents b' = contents b @ data
        \<or> ret = CO_ERROR \<and> contents b' = contents b \<and> (\<exists>r. m_bufferSize b + length data \<le> r \<and> \<not> h_avail h r))"
proof -
  note used = buf_inv_used [OF inv]
  let ?pre = "if u64_sub (m_totalSize b) (m_misalignSize b + m_bufferSize b) < length data
              then buffer_expand h (length data) b else Inr (CO_OK, b)"
  obtain ret b1 where b1: "?pre = Inr (ret, b1)" "buf_inv b1" "contents b1 = contents b"
    "m_bufferSize b1 = m_bufferSize b"
    "ret = CO_OK \<and> m_misalignSize b1 + m_bufferSize b1 + length data \<le> m_totalSize b1
     \<or> ret = CO_ERROR \<and> (\<exists>r. m_bufferSize b + length data \<le> r \<and> \<not> h_avail h r)"
  proof (cases "m_totalSize b - (m_misalignSize b + m_bufferSize b) < length data")
    case True
    then show ?thesis using that buffer_expand_ok [OF inv size, of h] by (auto simp: used)
  next
    case False
    then show ?thesis using that [of CO_OK b] inv by (auto simp: used buf_inv_def)
  qed
  have eq: "buffer_append h data b =
    bindr ?pre (\<lambda>(ret, b1).
              if ret \<noteq> CO_OK then Inr (CO_ERROR, b1)
              else case c_store (m_block b1) (m_buffer b1 + m_bufferSize b1) data of
                     None \<Rightarrow> Inl OutOfBounds
                   | Some blk \<Rightarrow>
                       Inr (CO_OK, b1\<lparr>m_block := blk,
                                      m_bufferSize := u64_add (m_bufferSize b1) (length data)\<rparr>))"
    by (simp add: buffer_append_def Let_def used(1))
  show ?thesis
  proof (cases "ret = CO_OK")
    case True
    then have room: "m_misalignSize b1 + m_bufferSize b1 + length data \<le> m_totalSize b1"
      using b1(5) by auto
    obtain blk where blk: "c_store (m_block b1) (m_buffer b1 + m_bufferSize b1) data = Some blk"
      "length blk = length (m_block b1)"
      "take (m_bufferSize b1 + length data) (drop (m_buffer b1) blk) = contents b1 @ data"
      using c_store_contents [OF b1(2) room] by blast
    have add: "u64_add (m_bufferSize b1) (length data) = m_bufferSize b1 + length data"
      using room b1(2) by (simp add: buf_inv_def)
    show ?thesis
      unfolding eq b1(1) using blk True add room b1(2,3)
      by (auto simp: buf_inv_def contents_def)
  next
    case False
    then show ?thesis unfolding eq b1(1) using b1 by auto
  qed
qed

section \<open>Receiving into the buffer\<close>

text \<open>
  The read loops do \<open>buffer_expand(BUFFER_SIZE_4096)\<close>, \<open>tcp_read\<close> of at most that many
  bytes behind the valid data, then \<open>buffer_size_expand\<close> by the number of bytes read.
\<close>

definition buffer_read :: "heap \<Rightarrow> string \<Rightarrow> co_buffer \<Rightarrow> (int \<times> co_buffer) res" where
  "buffer_read h data b =
     bindr (buffer_expand h BUFFER_SIZE_4096 b)
       (\<lambda>(ret, b1). if ret \<noteq> CO_OK then Inr (ret, b1)
          else bindr (buffer_recv (take BUFFER_SIZE_4096 data) b1)
                 (\<lambda>b2. Inr (buffer_size_expand (length (take BUFFER_SIZE_4096 data)) b2)))"

lemma buffer_recv_expand_ok:
  assumes inv: "buf_inv b" and room: "m_misalignSize b + m_bufferSize b + length data \<le> m_totalSize b"
  shows "\<exists>b1 b2. buffer_recv data b = Inr b1 \<and> buffer_size_expand (length data) b1 = (CO_OK, b2)
     \<and> buf_inv b2 \<and> contents b2 = contents b @ data"
proof -
  obtain blk where blk: "c_store (m_block b) (m_buffer b + m_bufferSize b) data = Some blk"
    "length blk = length (m_block b)"
    "take (m_bufferSize b + length data) (drop (m_buffer b) blk) = contents b @ data"
    using c_store_contents [OF inv room] by blast
  let ?b1 = "b\<lparr>m_block := blk\<rparr>"
  let ?b2 = "?b1\<lparr>m_bufferSize := m_bufferSize b + length data\<rparr>"
  have "buffer_size_expand (length data) ?b1 = (CO_OK, ?b2)"
    using inv room by (auto simp: buffer_size_expand_def buf_inv_def)
  moreover have "buf_inv ?b2" using inv room blk(2) by (auto simp: buf_inv_def)
  moreover have "contents ?b2 = contents b @ data" using blk(3) by (simp add: contents_def)
  ultimately show ?thesis using blk(1) by (auto simp: buffer_recv_def)
qed

lemma buffer_read_ok:
  assumes inv: "buf_inv b" and size: "m_bufferSize b + 4096 \<le> 9223372036854775808"
    and data: "length data \<le> 4096"
  shows "\<exists>ret b'. buffer_read h data b = Inr (ret, b') \<and> buf_inv b'
     \<and> (ret = CO_OK \<and> contents b' = contents b @ data
        \<or> ret = CO_ERROR \<and> contents b' = contents b \<and> (\<exists>r. \<not> h_avail h r))"
proof -
  obtain ret b1 where e: "buffer_expand h 4096 b = Inr (ret, b1)" "buf_inv b1" "contents b1 = contents b"
    "ret = CO_OK \<and> m_misalignSize b1 + m_bufferSize b1 + 4096 \<le> m_totalSize b1
     \<or> ret = CO_ERROR \<and> (\<exists>r. \<not> h_avail h r)"
    using buffer_expand_ok [OF inv size, of h] by blast
  have tk: "take BUFFER_SIZE_4096 data = data" using data by (simp add: BUFFER_SIZE_4096_def)
  show ?thesis
  proof (cases "ret = CO_OK")
    case True
    then have "m_misalignSize b1 + m_bufferSize b1 + length data \<le> m_totalSize b1" using e(4) data by auto
    from buffer_recv_expand_ok [OF e(2) this] obtain b2 b3
      where "buffer_recv data b1 = Inr b2" "buffer_size_expand (length data) b2 = (CO_OK, b3)"
        "buf_inv b3" "contents b3 = contents b1 @ data" by blast
    with True e(1,3) show ?thesis unfolding buffer_read_def tk
      by (simp add: BUFFER_SIZE_4096_def)
  next
    case False
    with e show ?thesis unfolding buffer_read_def tk by (auto simp: BUFFER_SIZE_4096_def)
  qed
qed

section \<open>The byte queue the protocols use\<close>

text \<open>
  The interface the encoders and decoders rely on: appending adds bytes behind the valid
  ones as long as they fit, erasing drops bytes in front, resetting drops all.
\<close>

fun append_all :: "(string \<Rightarrow> 'b \<Rightarrow> (int \<times> 'b) res) \<Rightarrow> string list \<Rightarrow> 'b \<Rightarrow> 'b res" where
  "append_all app [] b = Inr b"
| "append_all app (d # ds) b = bindr (app d b) (\<lambda>(ret, b'). append_all app ds b')"

locale byte_queue =
  fixes inv :: "'b \<Rightarrow> bool" and bytes :: "'b \<Rightarrow> string"
    and append :: "string \<Rightarrow> 'b \<Rightarrow> (int \<times> 'b) res" and erase :: "nat \<Rightarrow> 'b \<Rightarrow> int \<times> 'b"
    and reset :: "'b \<Rightarrow> 'b" and limit :: nat
  assumes append_ok: "inv b \<Longrightarrow> length (bytes b) + length d \<le> limit \<Longrightarrow>
      \<exists>b'. append d b = Inr (CO_OK, b') \<and> inv b' \<and> bytes b' = bytes b @ d"
    and erase_ok: "inv b \<Longrightarrow> inv (snd (erase n b)) \<and> bytes (snd (erase n b)) = drop n (bytes b)"
    and reset_ok: "inv b \<Longrightarrow> inv (reset b) \<and> bytes (reset b) = []"
begin

lemma append_all_ok:
  "inv b \<Longrightarrow> length (bytes b) + length (concat ds) \<le> limit \<Longrightarrow>
   \<exists>b'. append_all append ds b = Inr b' \<and> inv b' \<and> bytes b' = bytes b @ concat ds"
proof (induction ds arbitrary: b)
  case Nil
  then show ?case by simp
next
  case (Cons d ds)
  then obtain b1 where b1: "append d b = Inr (CO_OK, b1)" "inv b1" "bytes b1 = bytes b @ d"
    using append_ok [of b d] by auto
  with Cons.prems Cons.IH [of b1] show ?case by (auto simp: add.assoc)
qed

lemma append_erase:
  assumes "inv b" and "length (bytes b) + length d \<le> limit" and "n \<le> length (bytes b)"
  shows "\<exists>b'. append d b = Inr (CO_OK, b') \<and> bytes (snd (erase n b')) = bytes (snd (erase n b)) @ d"
  using append_ok [OF assms(1,2)] assms(1,3) erase_ok by auto

end

abbreviation buf_limit :: nat where "buf_limit \<equiv> 9223372036854775808"

text \<open>A heap that never refuses: with it the buffer is such a queue.\<close>

definition ample :: "heap \<Rightarrow> bool" where
  "ample h \<longleftrightarrow> (\<forall>n. h_avail h n)"

definition full_heap :: "(nat \<Rightarrow> char) \<Rightarrow> heap" where
  "full_heap j = \<lparr>h_avail = (\<lambda>n. True), h_junk = j\<rparr>"

lemma ample_full_heap [simp]: "ample (full_heap j)"
  by (simp add: ample_def full_heap_def)

lemma buffer_append_ample:
  assumes "ample h" and "buf_inv b" and "length (contents b) + length d \<le> buf_limit"
  shows "\<exists>b'. buffer_append h d b = Inr (CO_OK, b') \<and> buf_inv b' \<and> contents b' = contents b @ d"
proof -
  have "m_bufferSize b + length d \<le> buf_limit" using assms by (simp add: length_contents)
  from buffer_append_ok [OF assms(2) this, of h] show ?thesis using assms(1)
    by (auto simp: ample_def)
qed

interpretation bq: byte_queue buf_inv contents "buffer_append (full_heap j)" buffer_erase buffer_reset buf_limit
  for j
  by unfold_locales
    (use buffer_append_ample [of "full_heap j"] in \<open>simp_all add: buf_inv_erase contents_erase\<close>)

text \<open>A buffer that holds given bytes and has no room left.\<close>

definition buffer_of :: "string \<Rightarrow> co_buffer" where
  "buffer_of s = new_buffer\<lparr>m_block := s, m_totalSize := length s, m_bufferSize := length s\<rparr>"

lemma buffer_of_ok: "length s \<le> buf_limit \<Longrightarrow> buf_inv (buffer_of s)" "contents (buffer_of s) = s"
  by (simp_all add: buffer_of_def buf_inv_def contents_def new_buffer_def)

section \<open>Runs of operations\<close>

datatype buf_op = Append string | Erase nat | Expand nat | Read string | Reset

fun buf_step :: "heap \<Rightarrow> buf_op \<Rightarrow> co_buffer \<Rightarrow> co_buffer res" where
  "buf_step h (Append d) b = bindr (buffer_append h d b) (\<lambda>(ret, b'). Inr b')"
| "buf_step h (Erase n) b = Inr (snd (buffer_erase n b))"
| "buf_step h (Expand n) b = bindr (buffer_expand h n b) (\<lambda>(ret, b'). Inr b')"
| "buf_step h (Read d) b = bindr (buffer_read h d b) (\<lambda>(ret, b'). Inr b')"
| "buf_step h Reset b = Inr (buffer_reset b)"

fun buf_run :: "heap \<Rightarrow> buf_op list \<Rightarrow> co_buffer \<Rightarrow> co_buffer res" where
  "buf_run h [] b = Inr b"
| "buf_run h (x # xs) b = bindr (buf_step h x b) (buf_run h xs)"

text \<open>The same run on the abstract byte queue, and the room it asks for.\<close>

fun queue_step :: "buf_op \<Rightarrow> string \<Rightarrow> string" where
  "queue_step (Append d) s = s @ d"
| "queue_step (Erase n) s = drop n s"
| "queue_step (Expand n) s = s"
| "queue_step (Read d) s = s @ d"
| "queue_step Reset s = []"

fun op_room :: "buf_op \<Rightarrow> nat" where
  "op_room (Append d) = length d"
| "op_room (Erase n) = 0"
| "op_room (Expand n) = n"
| "op_room (Read d) = 4096"
| "op_room Reset = 0"

definition op_ok :: "buf_op \<Rightarrow> bool" where
  "op_ok x = (case x of Read d \<Rightarrow> length d \<le> 4096 | _ \<Rightarrow> True)"

lemma buf_step_refines:
  assumes h: "ample h" and inv: "buf_inv b" and ok: "op_ok x"
    and room: "length (contents b) + op_room x \<le> buf_limit"
  shows "\<exists>b'. buf_step h x b = Inr b' \<and> buf_inv b' \<and> contents b' = queue_step x (contents b)"
proof (cases x)
  case (Append d)
  then show ?thesis using buffer_append_ample [OF h inv, of d] room by auto
next
  case (Erase n)
  then show ?thesis using inv by (simp add: buf_inv_erase contents_erase)
next
  case (Expand n)
  then have "m_bufferSize b + n \<le> buf_limit" using room inv by (simp add: length_contents)
  from buffer_expand_ok [OF inv this, of h] Expand show ?thesis by auto
next
  case (Read d)
  then have "m_bufferSize b + 4096 \<le> buf_limit" "length d \<le> 4096" using room inv ok by (auto simp: op_ok_def length_contents)
  from buffer_read_ok [OF inv this, of h] Read h show ?thesis by (auto simp: ample_def)
next
  case Reset
  then show ?thesis using inv by simp
qed

lemma length_queue_step: "op_ok x \<Longrightarrow> length (queue_step x s) \<le> length s + op_room x"
  by (cases x) (auto simp: op_ok_def)

lemma buf_run_refines:
  "ample h \<Longrightarrow> buf_inv b \<Longrightarrow> list_all op_ok xs \<Longrightarrow>
   length (contents b) + sum_list (map op_room xs) \<le> buf_limit \<Longrightarrow>
   \<exists>b'. buf_run h xs b = Inr b' \<and> buf_inv b' \<and> contents b' = fold queue_step xs (contents b)"
proof (induction xs arbitrary: b)
  case Nil
  then show ?case by simp
next
  case (Cons x xs)
  then obtain b1 where b1: "buf_step h x b = Inr b1" "buf_inv b1" "contents b1 = queue_step x (contents b)"
    using buf_step_refines [of h b x] by auto
  have "length (contents b1) + sum_list (map op_room xs) \<le> buf_limit"
    using Cons.prems length_queue_step [of x "contents b"] b1(3) by (simp add: add.assoc)
  with Cons.IH [of b1] Cons.prems b1 show ?case by simp
qed

text \<open>C23: The buffer is a byte queue: any sequence of appends, reads from a socket, expansions, erasures and
  resets on a new buffer, with an allocator that serves it and at most \<open>2 ^ 63\<close> bytes in all,
  neither faults nor loops, keeps the sizes consistent and holds exactly the bytes of the queue.\<close>

theorem buffer_is_byte_queue:
  assumes "ample h" and "list_all op_ok xs" and "sum_list (map op_room xs) \<le> buf_limit"
  shows "\<exists>b. buf_run h xs new_buffer = Inr b \<and> buf_inv b \<and> contents b = fold queue_step xs []"
  using buf_run_refines [OF assms(1) buf_inv_new assms(2)] assms(3) by simp

theorem buffer_is_byte_queue_witness:
  "\<exists>b. buf_run (full_heap (\<lambda>n. NUL)) [Append ''hello'', Erase 2, Read ''abc'', Expand 600, Append ''x''] new_buffer = Inr b
    \<and> buf_inv b \<and> contents b = fold queue_step [Append ''hello'', Erase 2, Read ''abc'', Expand 600, Append ''x''] []"
  by (rule buffer_is_byte_queue) (simp_all add: op_ok_def)

text \<open>\<open>buffer_expand\<close> never loses data: whatever the allocator does, the valid bytes stay, and
  \<open>CO_OK\<close> means that the block has room for the requested bytes behind them.\<close>

theorem buffer_expand_keeps_bytes:
  assumes "buf_inv b" and "m_bufferSize b + n \<le> buf_limit"
  shows "\<exists>ret b'. buffer_expand h n b = Inr (ret, b') \<and> buf_inv b' \<and> contents b' = contents b
     \<and> (ret = CO_OK \<and> m_buffer b' + m_bufferSize b' + n \<le> length (m_block b') \<or> ret = CO_ERROR)"
  using buffer_expand_ok [OF assms, of h] by (fastforce simp: buf_inv_def)

theorem buffer_expand_keeps_bytes_witness:
  "\<exists>ret b'. buffer_expand \<lparr>h_avail = (\<lambda>n. n < 100), h_junk = (\<lambda>n. NUL)\<rparr> 4096 (buffer_of ''abc'') = Inr (ret, b')
     \<and> buf_inv b' \<and> contents b' = contents (buffer_of ''abc'')
     \<and> (ret = CO_OK \<and> m_buffer b' + m_bufferSize b' + 4096 \<le> length (m_block b') \<or> ret = CO_ERROR)"
  by (rule buffer_expand_keeps_bytes) (simp_all add: buffer_of_ok, simp add: buffer_of_def)

end
