(* ===== verification/Config.thy ===== *)
theory Config
  imports Common
begin

text \<open>
  \<^verbatim>\<open>base/co_config.h\<close>: the configuration the parser fills and the other components read, with the
  default of every field. Heap-allocated configuration objects are values in lists. Field names
  carry the prefix of their structure where two structures share one.
\<close>

definition CONF_CONFIG :: string where "CONF_CONFIG = ''conf''"
definition LOG_LEVEL :: int where "LOG_LEVEL = 1"
definition WORKER_THREADS :: int where "WORKER_THREADS = 4"

definition HOOK_CONFIG :: string where "HOOK_CONFIG = ''hook''"
definition MUTEX_RETRY_TIME :: int where "MUTEX_RETRY_TIME = 100"

definition SERVER_CONFIG :: string where "SERVER_CONFIG = ''server''"
definition SERVER_IP :: string where "SERVER_IP = []"
definition SERVER_PORT :: "16 word" where "SERVER_PORT = 15678"
definition SERVER_HANDLER_NAME :: string where "SERVER_HANDLER_NAME = ''handler''"

definition PROTOCOL_TCP_SERVER :: int where "PROTOCOL_TCP_SERVER = 1"
definition PROTOCOL_HTTP_SERVER :: int where "PROTOCOL_HTTP_SERVER = 2"
definition PROTOCOL_TCP_CLIENT :: int where "PROTOCOL_TCP_CLIENT = 101"
definition PROTOCOL_HTTP_CLIENT :: int where "PROTOCOL_HTTP_CLIENT = 102"
definition PROTOCOL_MAX :: int where "PROTOCOL_MAX = 5"

definition SERVER_MAX_CONNECTIONS :: int where "SERVER_MAX_CONNECTIONS = 65536"
definition SERVER_READ_TIMEOUT :: int where "SERVER_READ_TIMEOUT = 1000"
definition SERVER_WRITE_TIMEOUT :: int where "SERVER_WRITE_TIMEOUT = 1000"
definition SERVER_KEEPALIVE_TIMEOUT :: int where "SERVER_KEEPALIVE_TIMEOUT = 60000"

definition UPSTREAM_CONFIG :: string where "UPSTREAM_CONFIG = ''upstream''"
definition UPSTREAM_MAX_CONNECTIONS :: int where "UPSTREAM_MAX_CONNECTIONS = 65535"
definition UPSTREAM_LOAD_BALANCE_WRR :: int where "UPSTREAM_LOAD_BALANCE_WRR = 1"
definition UPSTREAM_CONN_TIMEOUT :: int where "UPSTREAM_CONN_TIMEOUT = 1000"
definition UPSTREAM_READ_TIMEOUT :: int where "UPSTREAM_READ_TIMEOUT = 1000"
definition UPSTREAM_WRITE_TIMEOUT :: int where "UPSTREAM_WRITE_TIMEOUT = 1000"
definition UPSTREAM_KEEPALIVE_TIMEOUT :: int where "UPSTREAM_KEEPALIVE_TIMEOUT = 60000"
definition UPSTREAM_FAIL_TIMEOUT :: int where "UPSTREAM_FAIL_TIMEOUT = 5000"
definition UPSTREAM_FAIL_MAX_NUM :: int where "UPSTREAM_FAIL_MAX_NUM = 10"
definition UPSTREAM_CONNECTION_MAX_REQUEST :: int where "UPSTREAM_CONNECTION_MAX_REQUEST = 10240"
definition UPSTREAM_CONNECTION_MAX_TIME :: int where "UPSTREAM_CONNECTION_MAX_TIME = 60000"
definition UPSTREAM_RETRY_MAX_NUM :: int where "UPSTREAM_RETRY_MAX_NUM = 3"

lemmas config_constants =
  PROTOCOL_TCP_SERVER_def PROTOCOL_HTTP_SERVER_def PROTOCOL_TCP_CLIENT_def PROTOCOL_HTTP_CLIENT_def
  PROTOCOL_MAX_def

record CoConf =
  cf_logLevel :: int
  cf_workerThreads :: int

record CoConfHook =
  hk_mutexRetryTime :: int

record CoConfServer =
  sv_listenIP :: string
  sv_listenPort :: "16 word"
  sv_serverType :: int
  sv_handlerName :: string
  sv_readTimeout :: int
  sv_writeTimeout :: int
  sv_keepaliveTimeout :: int
  sv_maxConnections :: int

record CoConfUpstreamServer =
  us_host :: string
  us_port :: int
  us_weight :: int
  us_serverkey :: string

record CoConfUpstream =
  up_name :: string
  up_upstreamServers :: "CoConfUpstreamServer list"
  up_loadBalance :: int
  up_connTimeout :: int
  up_readTimeout :: int
  up_writeTimeout :: int
  up_keepaliveTimeout :: int
  up_failTimeout :: int
  up_failMaxnum :: int
  up_maxConnections :: int
  up_connectionMaxRequest :: int
  up_connectionMaxTime :: int
  up_retryMaxnum :: int

record CoConfig =
  m_conf :: CoConf
  m_confHook :: CoConfHook
  m_confServers :: "CoConfServer list"
  m_confUpstreams :: "CoConfUpstream list"

definition new_conf :: CoConf where
  "new_conf = \<lparr>cf_logLevel = LOG_LEVEL, cf_workerThreads = WORKER_THREADS\<rparr>"

definition new_conf_hook :: CoConfHook where
  "new_conf_hook = \<lparr>hk_mutexRetryTime = MUTEX_RETRY_TIME\<rparr>"

definition new_conf_server :: CoConfServer where
  "new_conf_server = \<lparr>sv_listenIP = SERVER_IP, sv_listenPort = SERVER_PORT,
     sv_serverType = PROTOCOL_TCP_SERVER, sv_handlerName = SERVER_HANDLER_NAME,
     sv_readTimeout = SERVER_READ_TIMEOUT, sv_writeTimeout = SERVER_WRITE_TIMEOUT,
     sv_keepaliveTimeout = SERVER_KEEPALIVE_TIMEOUT, sv_maxConnections = SERVER_MAX_CONNECTIONS\<rparr>"

definition new_upstream_server :: "string \<Rightarrow> int \<Rightarrow> int \<Rightarrow> CoConfUpstreamServer" where
  "new_upstream_server host port weight =
     \<lparr>us_host = host, us_port = port, us_weight = weight, us_serverkey = host @ '':'' @ to_string port\<rparr>"

definition new_conf_upstream :: CoConfUpstream where
  "new_conf_upstream = \<lparr>up_name = [], up_upstreamServers = [], up_loadBalance = UPSTREAM_LOAD_BALANCE_WRR,
     up_connTimeout = UPSTREAM_CONN_TIMEOUT, up_readTimeout = UPSTREAM_READ_TIMEOUT,
     up_writeTimeout = UPSTREAM_WRITE_TIMEOUT, up_keepaliveTimeout = UPSTREAM_KEEPALIVE_TIMEOUT,
     up_failTimeout = UPSTREAM_FAIL_TIMEOUT, up_failMaxnum = UPSTREAM_FAIL_MAX_NUM,
     up_maxConnections = UPSTREAM_MAX_CONNECTIONS,
     up_connectionMaxRequest = UPSTREAM_CONNECTION_MAX_REQUEST,
     up_connectionMaxTime = UPSTREAM_CONNECTION_MAX_TIME, up_retryMaxnum = UPSTREAM_RETRY_MAX_NUM\<rparr>"

definition new_config :: CoConfig where
  "new_config = \<lparr>m_conf = new_conf, m_confHook = new_conf_hook, m_confServers = [], m_confUpstreams = []\<rparr>"

end
