(* ===== verification/Tcp_Socket.thy ===== *)
theory Tcp_Socket
  imports Config
begin

text \<open>
  \<^verbatim>\<open>base/co_tcp.h\<close>, \<^verbatim>\<open>base/co_tcp.cpp\<close>: a TCP socket with its address, time limits and
  connection state. The kernel is a parameter: the answers to the calls that configure a socket
  are a list of pairs (return value and \<open>errno\<close>, or the value a call stores), consumed in order,
  and a call behind its end fails; the bytes a socket delivers and accepts are lists of
  \<open>recv_answer\<close> and \<open>send_answer\<close>. A read takes at most the bytes asked for and leaves the rest
  of an answer for the next one; behind the last answer the peer has closed the connection.
\<close>

section \<open>The kernel\<close>

definition EINTR :: int where "EINTR = 4"
definition EAGAIN :: int where "EAGAIN = 11"
definition EBUSY :: int where "EBUSY = 16"
definition EPIPE :: int where "EPIPE = 32"
definition EINPROGRESS :: int where "EINPROGRESS = 115"

type_synonym sys = "(int \<times> int) list"

fun syscall :: "sys \<Rightarrow> (int \<times> int) \<times> sys" where
  "syscall [] = ((- 1, EPIPE), [])"
| "syscall (r # rs) = (r, rs)"

datatype recv_answer = Data string | RecvError int
datatype send_answer = Accept nat | SendError int

fun sys_recv :: "nat \<Rightarrow> recv_answer list \<Rightarrow> (int + string) \<times> recv_answer list" where
  "sys_recv n [] = (Inr [], [])"
| "sys_recv n (Data s # xs) =
     (if length s \<le> n then (Inr s, xs) else (Inr (take n s), Data (drop n s) # xs))"
| "sys_recv n (RecvError e # xs) = (Inl e, xs)"

fun sys_send :: "string \<Rightarrow> send_answer list \<Rightarrow> (int + nat) \<times> send_answer list" where
  "sys_send s [] = (Inl EPIPE, [])"
| "sys_send s (Accept k # xs) = (Inr (min k (length s)), xs)"
| "sys_send s (SendError e # xs) = (Inl e, xs)"

section \<open>The socket object\<close>

record CoTCP =
  tc_ip :: string
  tc_port :: "16 word"
  tc_ipport :: string
  tc_socketfd :: int
  tc_sndTimeoutMs :: int
  tc_rcvTimeoutMs :: int
  tc_connTimeoutMs :: int
  tc_connectState :: bool

definition make_ipport :: "string \<Rightarrow> 16 word \<Rightarrow> string" where
  "make_ipport ip port = ip @ '':'' @ to_string (uint port)"

definition new_tcp :: "string \<Rightarrow> 16 word \<Rightarrow> int \<Rightarrow> int \<Rightarrow> int \<Rightarrow> CoTCP" where
  "new_tcp ip port sndMs rcvMs connMs = \<lparr>tc_ip = ip, tc_port = port, tc_ipport = make_ipport ip port, tc_socketfd = - 1,
     tc_sndTimeoutMs = sndMs, tc_rcvTimeoutMs = rcvMs, tc_connTimeoutMs = connMs, tc_connectState = False\<rparr>"

definition new_tcp_fd :: "int \<Rightarrow> CoTCP" where
  "new_tcp_fd fd = \<lparr>tc_ip = [], tc_port = 0, tc_ipport = [], tc_socketfd = fd, tc_sndTimeoutMs = 0,
     tc_rcvTimeoutMs = 0, tc_connTimeoutMs = 0, tc_connectState = (fd > 0)\<rparr>"

definition tcp_reset :: "CoTCP \<Rightarrow> CoTCP" where
  "tcp_reset t = \<lparr>tc_ip = [], tc_port = 0, tc_ipport = [], tc_socketfd = - 1, tc_sndTimeoutMs = 0,
     tc_rcvTimeoutMs = 0, tc_connTimeoutMs = 0, tc_connectState = False\<rparr>"

text \<open>The descriptor of \<open>SAFE_CLOSE\<close>; what it closes is the descriptor it replaces.\<close>

definition tcp_close :: "CoTCP \<Rightarrow> int \<times> CoTCP" where
  "tcp_close t = (CO_OK, t\<lparr>tc_socketfd := fst (SAFE_CLOSE (tc_socketfd t) {}), tc_connectState := False\<rparr>)"

section \<open>Options\<close>

definition set_block :: "CoTCP \<Rightarrow> sys \<Rightarrow> int \<times> sys" where
  "set_block t s = (let ((r, _), s) = syscall s in (if r = 0 then 1 else 0, s))"

definition set_nonblock :: "CoTCP \<Rightarrow> sys \<Rightarrow> int \<times> sys" where
  "set_nonblock t s = (let ((r, _), s) = syscall s in (r, s))"

definition set_option :: "sys \<Rightarrow> int \<times> sys" where
  "set_option s = (let ((r, _), s) = syscall s in (if r = CO_ERROR then CO_ERROR else CO_OK, s))"

definition set_sndtimeout_ms :: "int \<Rightarrow> CoTCP \<Rightarrow> sys \<Rightarrow> int \<times> CoTCP \<times> sys" where
  "set_sndtimeout_ms timeoutMs t s =
     (let (r, s) = set_option s in (r, t\<lparr>tc_sndTimeoutMs := timeoutMs\<rparr>, s))"

definition set_rcvtimeout_ms :: "int \<Rightarrow> CoTCP \<Rightarrow> sys \<Rightarrow> int \<times> CoTCP \<times> sys" where
  "set_rcvtimeout_ms timeoutMs t s =
     (let (r, s) = set_option s in (r, t\<lparr>tc_rcvTimeoutMs := timeoutMs\<rparr>, s))"

definition set_conntimeout_ms :: "int \<Rightarrow> CoTCP \<Rightarrow> int \<times> CoTCP" where
  "set_conntimeout_ms timeoutMs t = (CO_OK, t\<lparr>tc_connTimeoutMs := timeoutMs\<rparr>)"

definition set_sndbuffer :: "nat \<Rightarrow> CoTCP \<Rightarrow> sys \<Rightarrow> int \<times> sys" where
  "set_sndbuffer bytes t s = set_option s"

definition set_rcvbuffer :: "nat \<Rightarrow> CoTCP \<Rightarrow> sys \<Rightarrow> int \<times> sys" where
  "set_rcvbuffer bytes t s = set_option s"

definition set_nodelay :: "CoTCP \<Rightarrow> sys \<Rightarrow> int \<times> sys" where
  "set_nodelay t s = set_option s"

definition set_reused :: "CoTCP \<Rightarrow> sys \<Rightarrow> int \<times> sys" where
  "set_reused t s =
     (let (r, s) = set_option s in if r = CO_ERROR then (CO_ERROR, s) else set_option s)"

section \<open>Opening\<close>

text \<open>The timeouts are set with \<open>!set_sndtimeout_ms(...)\<close>, as the code has it.\<close>

definition init_ipport :: "string \<Rightarrow> 16 word \<Rightarrow> CoTCP \<Rightarrow> sys \<Rightarrow> int \<times> CoTCP \<times> sys" where
  "init_ipport ip port t s =
     (let t = t\<lparr>tc_ip := ip, tc_port := port, tc_ipport := make_ipport ip port\<rparr>
      in if tc_socketfd t > 0 then (CO_OK, t, s)
         else let ((fd, _), s) = syscall s; t = t\<lparr>tc_socketfd := fd\<rparr>
              in if fd = - 1 then (CO_ERROR, t, s)
                 else let (r1, t, s) = (if tc_sndTimeoutMs t > 0 then set_sndtimeout_ms (tc_sndTimeoutMs t) t s
                                        else (1, t, s))
                      in if r1 = 0 then (CO_ERROR, t, s)
                         else let (r2, t, s) = (if tc_rcvTimeoutMs t > 0 then set_rcvtimeout_ms (tc_rcvTimeoutMs t) t s
                                                else (1, t, s))
                              in if r2 = 0 then (CO_ERROR, t, s) else (CO_OK, t, s))"

text \<open>\<open>peer\<close> is what \<open>getpeername\<close> gives, if it succeeds.\<close>

definition init_client_socketfd :: "int \<Rightarrow> (string \<times> 16 word) option \<Rightarrow> bool \<Rightarrow> CoTCP \<Rightarrow> int \<times> CoTCP" where
  "init_client_socketfd fd peer getPeerInfo t =
     (let t = (if tc_socketfd t \<noteq> - 1 then snd (tcp_close t) else t);
          t = t\<lparr>tc_port := 0, tc_ip := [], tc_ipport := [], tc_socketfd := fd, tc_connectState := True\<rparr>
      in (CO_OK,
          if getPeerInfo then
            (case peer of
               None \<Rightarrow> t
             | Some (ip, port) \<Rightarrow> t\<lparr>tc_ip := ip, tc_port := port, tc_ipport := make_ipport ip port\<rparr>)
          else t))"

definition server_bind :: "CoTCP \<Rightarrow> sys \<Rightarrow> int \<times> sys" where
  "server_bind t s =
     (if tc_port t = 0 then (CO_ERROR, s)
      else let ((r, _), s) = syscall s in (if r = - 1 then CO_ERROR else CO_OK, s))"

definition server_listen :: "int \<Rightarrow> CoTCP \<Rightarrow> sys \<Rightarrow> int \<times> sys" where
  "server_listen requestNum t s = (let ((r, _), s) = syscall s in (if r < 0 then CO_ERROR else CO_OK, s))"

definition tcp_accept :: "CoTCP \<Rightarrow> sys \<Rightarrow> int \<times> int \<times> sys" where
  "tcp_accept t s =
     (if tc_socketfd t \<le> 0 then (CO_ERROR, - 1, s)
      else let ((fd, _), s) = syscall s in (if fd < 0 then CO_ERROR else CO_OK, fd, s))"

text \<open>\<open>connect_ret\<close>: what it makes of the result of \<open>connect\<close> and \<open>errno\<close>.\<close>

definition connect_ret :: "int \<Rightarrow> int \<Rightarrow> CoTCP \<Rightarrow> int \<times> CoTCP" where
  "connect_ret r errno t =
     (if r < 0
      then (if errno = EAGAIN then CO_TIMEOUT else if errno = EINPROGRESS then CO_AGAIN else CO_ERROR, t)
      else if r = 0 then (CO_OK, t\<lparr>tc_connectState := True\<rparr>)
      else (CO_ERROR, t))"

definition can_connect :: "CoTCP \<Rightarrow> bool" where
  "can_connect t \<longleftrightarrow> \<not> (tc_socketfd t < 0 \<or> tc_ip t = [] \<or> tc_port t = 0)"

definition client_connect :: "CoTCP \<Rightarrow> sys \<Rightarrow> int \<times> CoTCP \<times> sys" where
  "client_connect t s =
     (if \<not> can_connect t then (CO_ERROR, t, s)
      else let ((r, errno), s) = syscall s; (ret, t) = connect_ret r errno t in (ret, t, s))"

definition client_reconnect :: "CoTCP \<Rightarrow> sys \<Rightarrow> int \<times> CoTCP \<times> sys" where
  "client_reconnect t s =
     (let t = snd (tcp_close t); ((fd, _), s) = syscall s; t = t\<lparr>tc_socketfd := fd\<rparr>
      in if fd = - 1 then (CO_ERROR, t, s)
         else let (_, t, s) = (if tc_sndTimeoutMs t > 0 then set_sndtimeout_ms (tc_sndTimeoutMs t) t s else (0, t, s));
                  (_, t, s) = (if tc_rcvTimeoutMs t > 0 then set_rcvtimeout_ms (tc_rcvTimeoutMs t) t s else (0, t, s))
              in client_connect t s)"

text \<open>\<open>getsockopt(SO_ERROR)\<close>: the second value of the answer is \<open>errno\<close> or the stored error.\<close>

definition test_connection :: "CoTCP \<Rightarrow> sys \<Rightarrow> int \<times> sys" where
  "test_connection t s =
     (let ((r, v), s) = syscall s; ret = v in (if ret \<noteq> 0 then ret else CO_OK, s))"

section \<open>Reading and writing\<close>

text \<open>\<open>tcp_read_ret\<close>, \<open>tcp_write_ret\<close>: what the two make of the result of \<open>recv\<close> and \<open>send\<close> (or \<open>errno\<close>).\<close>

definition tcp_read_ret :: "int + string \<Rightarrow> int \<times> string" where
  "tcp_read_ret r =
     (case r of
        Inl errno \<Rightarrow> (if errno = EAGAIN then CO_TIMEOUT else CO_ERROR, [])
      | Inr s \<Rightarrow> (if s = [] then CO_CONNECTION_CLOSE else int (length s), s))"

definition tcp_write_ret :: "string \<Rightarrow> int + nat \<Rightarrow> int \<times> string" where
  "tcp_write_ret buf r =
     (case r of
        Inl errno \<Rightarrow> (if errno = EAGAIN then CO_TIMEOUT else CO_ERROR, [])
      | Inr k \<Rightarrow> (int k, take k buf))"

definition tcp_read :: "CoTCP \<Rightarrow> nat \<Rightarrow> recv_answer list \<Rightarrow> int \<times> string \<times> recv_answer list" where
  "tcp_read t bufSize xs =
     (if bufSize = 0 \<or> tc_socketfd t \<le> 0 then (CO_ERROR, [], xs)
      else let (r, xs) = sys_recv bufSize xs; (ret, s) = tcp_read_ret r in (ret, s, xs))"

definition tcp_write :: "CoTCP \<Rightarrow> string \<Rightarrow> send_answer list \<Rightarrow> int \<times> string \<times> send_answer list" where
  "tcp_write t buf xs =
     (if buf = [] \<or> tc_socketfd t \<le> 0 then (CO_ERROR, [], xs)
      else let (r, xs) = sys_send buf xs; (ret, s) = tcp_write_ret buf r in (ret, s, xs))"

lemma tcp_read_length: "tcp_read t n xs = (ret, s, ys) \<Longrightarrow> ret > 0 \<Longrightarrow> ret = int (length s) \<and> length s \<le> n"
  by (cases "(n, xs)" rule: sys_recv.cases) (auto simp: tcp_read_def tcp_read_ret_def split: if_splits)

text \<open>The loops; \<open>got\<close> and \<open>sent\<close> are the bytes so far.\<close>

function readall_loop :: "CoTCP \<Rightarrow> nat \<Rightarrow> string \<Rightarrow> recv_answer list \<Rightarrow> int \<times> string \<times> recv_answer list" where
  "readall_loop t bufSize got xs =
     (let (ret, s, ys) = tcp_read t (bufSize - length got) xs
      in if ret > 0
         then (if length (got @ s) \<ge> bufSize then (int (length (got @ s)), got @ s, ys)
               else readall_loop t bufSize (got @ s) ys)
         else (ret, got, ys))"
  by pat_completeness auto
termination
proof (relation "measure (\<lambda>(t, n, got, xs). n - length got)", goal_cases)
  case (2 t n got xs p ret q s ys)
  then show ?case using tcp_read_length [of t "n - length got" xs ret s ys] by (auto simp flip: length_greater_0_conv)
qed simp

declare readall_loop.simps [simp del]

definition tcp_readall :: "CoTCP \<Rightarrow> nat \<Rightarrow> recv_answer list \<Rightarrow> int \<times> string \<times> recv_answer list" where
  "tcp_readall t bufSize xs = (if bufSize = 0 then (CO_ERROR, [], xs) else readall_loop t bufSize [] xs)"

fun writeall_loop :: "CoTCP \<Rightarrow> string \<Rightarrow> string \<Rightarrow> send_answer list \<Rightarrow> int \<times> string \<times> send_answer list" where
  "writeall_loop t buf sent [] = (fst (tcp_write t (drop (length sent) buf) []), sent, [])"
| "writeall_loop t buf sent (x # xs) =
     (let (ret, s, ys) = tcp_write t (drop (length sent) buf) [x]
      in if ret > 0
         then (if length (sent @ s) \<ge> length buf then (int (length (sent @ s)), sent @ s, ys @ xs)
               else writeall_loop t buf (sent @ s) xs)
         else (ret, sent, ys @ xs))"

definition tcp_writeall :: "CoTCP \<Rightarrow> string \<Rightarrow> send_answer list \<Rightarrow> int \<times> string \<times> send_answer list" where
  "tcp_writeall t buf xs = (if buf = [] then (CO_ERROR, [], xs) else writeall_loop t buf [] xs)"

section \<open>All or nothing\<close>

text \<open>What the peer still delivers in order: the bytes in front of the first error or the end.\<close>

fun stream_of :: "recv_answer list \<Rightarrow> string" where
  "stream_of [] = []"
| "stream_of (Data s # xs) = (if s = [] then [] else s @ stream_of xs)"
| "stream_of (RecvError e # xs) = []"

lemma sys_recv_stream:
  assumes "0 < k" and "stream_of xs \<noteq> []"
  shows "\<exists>s ys. sys_recv k xs = (Inr s, ys) \<and> s \<noteq> [] \<and> length s \<le> k \<and> s @ stream_of ys = stream_of xs"
proof (cases xs)
  case (Cons x zs)
  with assms show ?thesis by (cases x) (auto split: if_splits)
qed (use assms in simp)

lemma tcp_read_stream:
  assumes "0 < tc_socketfd t" and "0 < k" and "stream_of xs \<noteq> []"
  shows "\<exists>s ys. tcp_read t k xs = (int (length s), s, ys) \<and> s \<noteq> [] \<and> length s \<le> k \<and> s @ stream_of ys = stream_of xs"
  using sys_recv_stream [OF assms(2,3)] assms(1,2) by (auto simp: tcp_read_def tcp_read_ret_def)

lemma readall_loop_stream:
  "0 < tc_socketfd t \<Longrightarrow> length got < n \<Longrightarrow> n - length got \<le> length (stream_of xs) \<Longrightarrow>
   \<exists>ys. readall_loop t n got xs = (int n, got @ take (n - length got) (stream_of xs), ys)
     \<and> stream_of ys = drop (n - length got) (stream_of xs)"
proof (induction t n got xs rule: readall_loop.induct)
  case (1 t n got xs)
  have "stream_of xs \<noteq> []" "0 < n - length got" using "1.prems" by auto
  then obtain s ys where r: "tcp_read t (n - length got) xs = (int (length s), s, ys)" "s \<noteq> []"
    "length s \<le> n - length got" "stream_of xs = s @ stream_of ys"
    using tcp_read_stream [OF "1.prems"(1), of "n - length got" xs] by metis
  show ?case
  proof (cases "length (got @ s) \<ge> n")
    case True
    then have "n - length got = length s" "length got + length s = n" using r(3) "1.prems"(2) by auto
    then show ?thesis using r True by (auto simp: readall_loop.simps [of t n got xs])
  next
    case False
    have "\<exists>zs. readall_loop t n (got @ s) ys = (int n, (got @ s) @ take (n - length (got @ s)) (stream_of ys), zs)
        \<and> stream_of zs = drop (n - length (got @ s)) (stream_of ys)"
      by (rule "1.IH" [OF r(1) [symmetric] refl]) (use r False "1.prems" in \<open>auto simp: not_le\<close>)
    moreover have "readall_loop t n got xs = readall_loop t n (got @ s) ys"
      using r(1,2) False by (simp add: readall_loop.simps [of t n got xs])
    ultimately show ?thesis using r(3,4) by (auto simp: not_le)
  qed
qed

lemma tcp_write_prefix:
  "tcp_write t buf xs = (ret, s, ys) \<Longrightarrow> s = take (length s) buf \<and> (ret > 0 \<longrightarrow> ret = int (length s) \<and> 0 < length s)
     \<and> length s \<le> length buf"
  by (cases "(buf, xs)" rule: sys_send.cases) (auto simp: tcp_write_def tcp_write_ret_def min_def split: if_splits)

lemma writeall_loop_prefix:
  "writeall_loop t buf sent xs = (ret, out, ys) \<Longrightarrow> sent = take (length sent) buf \<Longrightarrow> length sent < length buf \<Longrightarrow>
   out = take (length out) buf \<and> length out \<le> length buf \<and> (ret > 0 \<longleftrightarrow> out = buf) \<and> (ret > 0 \<longrightarrow> ret = int (length buf))"
proof (induction t buf sent xs rule: writeall_loop.induct)
  case (1 t buf sent)
  then show ?case by (auto simp: tcp_write_def tcp_write_ret_def split: if_splits)
next
  case (2 t buf sent x xs)
  obtain r s zs where w: "tcp_write t (drop (length sent) buf) [x] = (r, s, zs)" by (metis prod_cases3)
  have p: "s = take (length s) (drop (length sent) buf)" "length s \<le> length buf - length sent"
    "r > 0 \<Longrightarrow> r = int (length s) \<and> 0 < length s"
    using tcp_write_prefix [OF w] by auto
  have pre: "sent @ s = take (length sent + length s) buf"
    using p(1) "2.prems"(2) take_add [of "length sent" "length s" buf] by simp
  show ?case
  proof (cases "r > 0 \<and> length (sent @ s) < length buf")
    case True
    then have "writeall_loop t buf (sent @ s) xs = (ret, out, ys)" using "2.prems"(1) w by auto
    with "2.IH" [OF w [symmetric] refl] True pre show ?thesis by (auto simp: not_le)
  next
    case False
    show ?thesis
    proof (cases "r > 0")
      case True
      with False have "length (sent @ s) = length buf" using p(2) "2.prems"(3) by auto
      with pre have "sent @ s = buf" by simp
      moreover have "0 < int (length sent) + int (length s)" using p(3) [OF True] by linarith
      ultimately show ?thesis using True False w "2.prems"(1) by (auto simp: not_less)
    next
      case no: False
      with w "2.prems" show ?thesis by auto
    qed
  qed
qed

text \<open>C99: \<open>tcp_readall\<close> on a connected socket reads exactly the bytes asked for, in order, however the peer cuts
  them, as long as that many arrive in front of an error or the end of the stream; what follows
  stays unread. \<open>tcp_writeall\<close> sends a prefix of the bytes it is given, and its result is positive
  (their number) exactly if it sent all of them.\<close>

theorem tcp_all_or_nothing:
  assumes "0 < tc_socketfd t" and "0 < n" and "n \<le> length (stream_of xs)" and "buf \<noteq> []"
    and "tcp_writeall t buf zs = (ret, out, zs')"
  shows "(\<exists>ys. tcp_readall t n xs = (int n, take n (stream_of xs), ys) \<and> stream_of ys = drop n (stream_of xs))
    \<and> out = take (length out) buf \<and> (ret > 0 \<longleftrightarrow> out = buf) \<and> (ret > 0 \<longrightarrow> ret = int (length buf))"
proof -
  have "\<exists>ys. tcp_readall t n xs = (int n, take n (stream_of xs), ys) \<and> stream_of ys = drop n (stream_of xs)"
    using readall_loop_stream [of t "[]" n xs] assms(1,2,3) by (simp add: tcp_readall_def)
  moreover have "writeall_loop t buf [] zs = (ret, out, zs')" using assms(4,5) by (simp add: tcp_writeall_def)
  ultimately show ?thesis using writeall_loop_prefix [of t buf "[]" zs ret out zs'] assms(4) by simp
qed

theorem tcp_all_or_nothing_witness:
  "(\<exists>ys. tcp_readall (new_tcp_fd 5) 3 [Data ''ab'', Data ''cd'', RecvError EINTR] = (int 3, take 3 ''abcd'', ys)
      \<and> stream_of ys = ''d'')
    \<and> tcp_writeall (new_tcp_fd 5) ''hello'' [Accept 2, SendError EPIPE] = (CO_ERROR, ''he'', [])"
proof -
  have w: "tcp_writeall (new_tcp_fd 5) ''hello'' [Accept 2, SendError EPIPE] = (CO_ERROR, ''he'', [])"
    by (simp add: tcp_writeall_def tcp_write_def tcp_write_ret_def new_tcp_fd_def EPIPE_def EAGAIN_def)
  show ?thesis
    using tcp_all_or_nothing [of "new_tcp_fd 5" 3 "[Data ''ab'', Data ''cd'', RecvError EINTR]" "''hello''", OF _ _ _ _ w] w
    by (simp add: new_tcp_fd_def)
qed

end
