(* ===== verification/Timer.thy ===== *)
theory Timer
  imports Common
begin

text \<open>
  \<^verbatim>\<open>base/co_timer.h\<close>, \<^verbatim>\<open>base/co_timer.cpp\<close>, \<^verbatim>\<open>core/co_event.h\<close>, \<^verbatim>\<open>core/co_event.cpp\<close>: the
  events of a connection and the timers. \<open>std::multimap\<close> is a list of nodes in the order of their
  keys, equal keys in the order of their insertion; a node has an identity, the iterator an event
  stores to remove its own node. The map's value, a pointer to an event, is the connection and
  the kind of the event. The clock is an argument.
\<close>

section \<open>Events\<close>

datatype event_type = EVENT_TYPE_READ | EVENT_TYPE_WRITE | EVENT_TYPE_SLEEP

type_synonym event_ref = "nat \<times> event_type"

record CoEvent =
  ev_eventType :: event_type
  ev_connection :: nat
  ev_timerNode :: nat
  ev_preHandler :: bool
  ev_flagActive :: bool
  ev_flagTimerSet :: bool

text \<open>\<open>ev_preHandler\<close>: the event has the pre-handler of a sleep event.\<close>

definition new_event :: "event_type \<Rightarrow> nat \<Rightarrow> CoEvent" where
  "new_event type connection = \<lparr>ev_eventType = type, ev_connection = connection, ev_timerNode = 0,
     ev_preHandler = (type = EVENT_TYPE_SLEEP), ev_flagActive = False, ev_flagTimerSet = False\<rparr>"

definition event_reset :: "CoEvent \<Rightarrow> CoEvent" where
  "event_reset e = e\<lparr>ev_flagActive := False, ev_flagTimerSet := False\<rparr>"

definition ref_of :: "CoEvent \<Rightarrow> event_ref" where
  "ref_of e = (ev_connection e, ev_eventType e)"

section \<open>Timers\<close>

definition MAX_EPOLL_WAIT_TIME :: nat where "MAX_EPOLL_WAIT_TIME = 1000"

record timer_node =
  tn_key :: nat
  tn_id :: nat
  tn_event :: event_ref

record CoTimer =
  tm_timers :: "timer_node list"
  tm_next :: nat

definition new_timer :: CoTimer where
  "new_timer = \<lparr>tm_timers = [], tm_next = 0\<rparr>"

text \<open>\<open>multimap::insert\<close>: behind the nodes with a key that is not larger.\<close>

fun insert_node :: "timer_node \<Rightarrow> timer_node list \<Rightarrow> timer_node list" where
  "insert_node n [] = [n]"
| "insert_node n (x # xs) = (if tn_key n < tn_key x then n # x # xs else x # insert_node n xs)"

definition add_timer :: "nat \<Rightarrow> nat \<Rightarrow> CoEvent \<Rightarrow> 'a CoTimer_scheme \<Rightarrow> CoEvent \<times> 'a CoTimer_scheme" where
  "add_timer now timerMs event tm =
     (if ev_flagTimerSet event then (event, tm)
      else (event\<lparr>ev_timerNode := tm_next tm, ev_flagTimerSet := True\<rparr>,
            tm\<lparr>tm_timers := insert_node \<lparr>tn_key = u64_add now timerMs, tn_id = tm_next tm, tn_event = ref_of event\<rparr> (tm_timers tm),
               tm_next := tm_next tm + 1\<rparr>))"

definition del_timer :: "CoEvent \<Rightarrow> 'a CoTimer_scheme \<Rightarrow> CoEvent \<times> 'a CoTimer_scheme" where
  "del_timer event tm =
     (if \<not> ev_flagTimerSet event then (event, tm)
      else (event\<lparr>ev_flagTimerSet := False\<rparr>,
            tm\<lparr>tm_timers := filter (\<lambda>n. tn_id n \<noteq> ev_timerNode event) (tm_timers tm)\<rparr>))"

definition find_timer :: "nat \<Rightarrow> 'a CoTimer_scheme \<Rightarrow> nat" where
  "find_timer now tm =
     (case tm_timers tm of
        [] \<Rightarrow> MAX_EPOLL_WAIT_TIME
      | n # ns \<Rightarrow> if tn_key n > now then tn_key n - now else 0)"

text \<open>
  The loop reads the clock once. \<open>fire\<close> is what it does with the event of a node it has taken out:
  the flags, the pre-handler, and the handlers behind \<open>func_dispatcher\<close>, which may set and remove
  timers, and may fault; so the loop may not end.
\<close>

partial_function (option) process_timer ::
  "(event_ref \<Rightarrow> 'a CoTimer_scheme \<Rightarrow> 'a CoTimer_scheme res) \<Rightarrow> nat \<Rightarrow> 'a CoTimer_scheme \<Rightarrow> 'a CoTimer_scheme res option" where
  "process_timer fire now tm =
     (case tm_timers tm of
        [] \<Rightarrow> Some (Inr tm)
      | n # ns \<Rightarrow> if tn_key n \<le> now
                  then (case fire (tn_event n) (tm\<lparr>tm_timers := ns\<rparr>) of
                          Inl e \<Rightarrow> Some (Inl e)
                        | Inr tm \<Rightarrow> process_timer fire now tm)
                  else Some (Inr tm))"

definition timer_empty :: "'a CoTimer_scheme \<Rightarrow> bool" where
  "timer_empty tm \<longleftrightarrow> tm_timers tm = []"

definition timer_size :: "'a CoTimer_scheme \<Rightarrow> nat" where
  "timer_size tm = length (tm_timers tm)"

section \<open>Order\<close>

text \<open>By the deadline, and among equal deadlines by the order in which the timers were set: the identities count up.\<close>

definition earlier :: "timer_node \<Rightarrow> timer_node \<Rightarrow> bool" where
  "earlier m n \<longleftrightarrow> tn_key m < tn_key n \<or> tn_key m = tn_key n \<and> tn_id m < tn_id n"

definition timers_inv :: "'a CoTimer_scheme \<Rightarrow> bool" where
  "timers_inv tm \<longleftrightarrow> sorted_wrt earlier (tm_timers tm) \<and> distinct (map tn_id (tm_timers tm))
     \<and> (\<forall>n\<in>set (tm_timers tm). tn_id n < tm_next tm)"

lemma timers_inv_sorted: "timers_inv tm \<Longrightarrow> sorted (map tn_key (tm_timers tm))"
  unfolding timers_inv_def sorted_map by (auto elim!: sorted_wrt_mono_rel [rotated] simp: earlier_def)

lemma set_insert_node [simp]: "set (insert_node n xs) = insert n (set xs)"
  by (induction xs) auto

lemma mset_insert_node [simp]: "mset (insert_node n xs) = add_mset n (mset xs)"
  by (induction xs) auto

lemma sorted_insert_node:
  "sorted_wrt earlier xs \<Longrightarrow> \<forall>x\<in>set xs. tn_id x < tn_id n \<Longrightarrow> sorted_wrt earlier (insert_node n xs)"
  by (induction xs) (auto simp: earlier_def)

lemma insert_node_split:
  "insert_node n xs = takeWhile (\<lambda>x. tn_key x \<le> tn_key n) xs @ n # dropWhile (\<lambda>x. tn_key x \<le> tn_key n) xs"
  by (induction xs) auto

lemma filter_remove1: "distinct (map f xs) \<Longrightarrow> x \<in> set xs \<Longrightarrow> filter (\<lambda>y. f y \<noteq> f x) xs = remove1 x xs"
proof (induction xs)
  case (Cons y ys)
  show ?case
  proof (cases "y = x")
    case True
    then have "\<forall>z\<in>set ys. f z \<noteq> f x" using Cons.prems(1) by (auto simp: image_iff)
    then show ?thesis using True by (simp add: filter_id_conv)
  qed (use Cons in auto)
qed simp

lemma distinct_insert_node:
  "distinct (map tn_id (insert_node n xs)) \<longleftrightarrow> tn_id n \<notin> tn_id ` set xs \<and> distinct (map tn_id xs)"
  by (induction xs) auto

lemma distinct_map_filter': "distinct (map f xs) \<Longrightarrow> distinct (map f (filter P xs))"
  by (induction xs) auto

lemma timers_inv_new [simp]: "timers_inv new_timer"
  by (simp add: timers_inv_def new_timer_def)

lemma timers_inv_add: "timers_inv tm \<Longrightarrow> timers_inv (snd (add_timer now ms e tm))"
  by (fastforce simp: add_timer_def timers_inv_def sorted_insert_node distinct_insert_node)

lemma timers_inv_del: "timers_inv tm \<Longrightarrow> timers_inv (snd (del_timer e tm))"
  by (auto simp: del_timer_def timers_inv_def sorted_wrt_filter distinct_map_filter')

text \<open>An event that is set and removed again leaves the timers as they were.\<close>

lemma add_del_timer:
  assumes "timers_inv tm" and "\<not> ev_flagTimerSet e" and "add_timer now ms e tm = (e1, tm1)"
  shows "del_timer e1 tm1 = (e\<lparr>ev_timerNode := tm_next tm\<rparr>, tm\<lparr>tm_next := tm_next tm + 1\<rparr>)"
proof -
  have fresh: "\<And>n. n \<in> set (tm_timers tm) \<Longrightarrow> tn_id n \<noteq> tm_next tm" using assms(1) by (auto simp: timers_inv_def)
  have "filter (\<lambda>n. tn_id n \<noteq> tm_next tm) (insert_node m xs) = xs"
    if "tn_id m = tm_next tm" "\<And>n. n \<in> set xs \<Longrightarrow> tn_id n \<noteq> tm_next tm" for m xs
    using that by (induction xs) auto
  note * = this [OF _ fresh]
  show ?thesis using assms(2,3) by (auto simp: add_timer_def del_timer_def *)
qed

section \<open>The queue of deadlines\<close>

text \<open>
  What the event loop needs of the timers: setting one adds its deadline, taking the next one out
  removes a smallest deadline.
\<close>

locale deadline_queue =
  fixes inv :: "'q \<Rightarrow> bool" and deadlines :: "'q \<Rightarrow> nat multiset"
    and push :: "nat \<Rightarrow> event_ref \<Rightarrow> 'q \<Rightarrow> 'q" and next_node :: "'q \<Rightarrow> ((nat \<times> event_ref) \<times> 'q) option"
  assumes push_ok: "inv q \<Longrightarrow> inv (push k e q) \<and> deadlines (push k e q) = add_mset k (deadlines q)"
    and next_ok: "inv q \<Longrightarrow> next_node q = Some ((k, e), q') \<Longrightarrow>
      inv q' \<and> deadlines q = add_mset k (deadlines q') \<and> (\<forall>j\<in>#deadlines q'. k \<le> j)"
    and next_none: "inv q \<Longrightarrow> next_node q = None \<longleftrightarrow> deadlines q = {#}"
begin

lemma next_least: "inv q \<Longrightarrow> next_node q = Some ((k, e), q') \<Longrightarrow> k \<in># deadlines q \<and> (\<forall>j\<in>#deadlines q. k \<le> j)"
  using next_ok [of q k e q'] by auto

lemma push_next:
  assumes "inv q" and "\<forall>j\<in>#deadlines q. k < j"
  shows "\<exists>e' q'. next_node (push k e q) = Some ((k, e'), q') \<and> deadlines q' = deadlines q"
proof -
  have p: "inv (push k e q)" "deadlines (push k e q) = add_mset k (deadlines q)" using push_ok [OF assms(1)] by blast+
  then have "next_node (push k e q) \<noteq> None" using next_none by fastforce
  then obtain k' e' q' where n: "next_node (push k e q) = Some ((k', e'), q')" by auto
  have "k' = k"
  proof (rule ccontr)
    assume "k' \<noteq> k"
    then have "k' \<in># deadlines q" "k' \<le> k" using next_least [OF p(1) n] p(2) by auto
    with assms(2) show False by auto
  qed
  with n next_ok [OF p(1) n] p(2) show ?thesis by auto
qed

end

definition push_deadline :: "nat \<Rightarrow> event_ref \<Rightarrow> CoTimer \<Rightarrow> CoTimer" where
  "push_deadline k e tm = tm\<lparr>tm_timers := insert_node \<lparr>tn_key = k, tn_id = tm_next tm, tn_event = e\<rparr> (tm_timers tm),
     tm_next := tm_next tm + 1\<rparr>"

definition next_deadline :: "CoTimer \<Rightarrow> ((nat \<times> event_ref) \<times> CoTimer) option" where
  "next_deadline tm = (case tm_timers tm of [] \<Rightarrow> None
     | n # ns \<Rightarrow> Some ((tn_key n, tn_event n), tm\<lparr>tm_timers := ns\<rparr>))"

interpretation dq: deadline_queue timers_inv "\<lambda>tm. image_mset tn_key (mset (tm_timers tm))" push_deadline next_deadline
proof
  fix q :: CoTimer and k :: nat and e :: event_ref
  assume inv: "timers_inv q"
  then show "timers_inv (push_deadline k e q) \<and> image_mset tn_key (mset (tm_timers (push_deadline k e q)))
      = add_mset k (image_mset tn_key (mset (tm_timers q)))"
    by (fastforce simp: push_deadline_def timers_inv_def sorted_insert_node distinct_insert_node)
  show "(next_deadline q = None) = (image_mset tn_key (mset (tm_timers q)) = {#})"
    by (auto simp: next_deadline_def split: list.splits)
  fix q' assume "next_deadline q = Some ((k, e), q')"
  with inv timers_inv_sorted [OF inv] show "timers_inv q' \<and> image_mset tn_key (mset (tm_timers q)) = add_mset k (image_mset tn_key (mset (tm_timers q')))
      \<and> (\<forall>j\<in>#image_mset tn_key (mset (tm_timers q')). k \<le> j)"
    by (auto simp: next_deadline_def timers_inv_def split: list.splits)
qed

lemma add_timer_push:
  "\<not> ev_flagTimerSet e \<Longrightarrow> snd (add_timer now ms e tm) = push_deadline (u64_add now ms) (ref_of e) tm"
  by (simp add: add_timer_def push_deadline_def)

section \<open>Firing\<close>

definition expired :: "nat \<Rightarrow> 'a CoTimer_scheme \<Rightarrow> timer_node list" where
  "expired now tm = filter (\<lambda>n. tn_key n \<le> now) (tm_timers tm)"

lemma expired_first:
  assumes "timers_inv tm" and "expired now tm \<noteq> []"
  shows "\<exists>n ns. tm_timers tm = n # ns \<and> tn_key n \<le> now"
proof (cases "tm_timers tm")
  case Nil
  then show ?thesis using assms(2) by (simp add: expired_def)
next
  case (Cons n ns)
  obtain m where "m \<in> set (tm_timers tm)" "tn_key m \<le> now" using assms(2) by (auto simp: expired_def filter_empty_conv)
  then have "tn_key n \<le> now" using timers_inv_sorted [OF assms(1)] Cons by auto
  with Cons show ?thesis by simp
qed

lemma timers_inv_tl: "timers_inv tm \<Longrightarrow> tm_timers tm = n # ns \<Longrightarrow> timers_inv (tm\<lparr>tm_timers := ns\<rparr>)"
  by (auto simp: timers_inv_def)

lemma process_timer_run:
  fixes tm :: "'a CoTimer_scheme"
  assumes fire: "\<And>e s. timers_inv s \<Longrightarrow> timers_inv (fire e s) \<and> expired now (fire e s) = expired now s"
    and trace: "\<And>e s. trace (fire e s) = trace s @ [e]" "\<And>s x. trace (s\<lparr>tm_timers := x\<rparr>) = trace s"
  shows "timers_inv tm \<Longrightarrow> \<exists>tm'. process_timer (\<lambda>e s. Inr (fire e s)) now tm = Some (Inr tm')
    \<and> trace tm' = trace tm @ map tn_event (expired now tm) \<and> expired now tm' = [] \<and> timers_inv tm'"
proof (induction "length (expired now tm)" arbitrary: tm)
  case 0
  have "process_timer (\<lambda>e s. Inr (fire e s)) now tm = Some (Inr tm)"
  proof (cases "tm_timers tm")
    case Nil
    then show ?thesis by (simp add: process_timer.simps)
  next
    case (Cons n ns)
    then have "\<not> tn_key n \<le> now" using "0.hyps" by (auto simp: expired_def)
    with Cons show ?thesis by (simp add: process_timer.simps)
  qed
  with 0 show ?case by simp
next
  case (Suc k)
  have "expired now tm \<noteq> []" using Suc.hyps(2) by auto
  from expired_first [OF Suc.prems this] obtain n ns where n: "tm_timers tm = n # ns" "tn_key n \<le> now" by blast
  let ?s = "fire (tn_event n) (tm\<lparr>tm_timers := ns\<rparr>)"
  have s: "timers_inv ?s" "expired now ?s = expired now (tm\<lparr>tm_timers := ns\<rparr>)"
    using fire [OF timers_inv_tl [OF Suc.prems n(1)]] by blast+
  have e: "expired now tm = n # expired now (tm\<lparr>tm_timers := ns\<rparr>)" using n by (simp add: expired_def)
  then have "k = length (expired now ?s)" using Suc.hyps(2) s(2) by simp
  from Suc.hyps(1) [OF this s(1)] obtain tm' where "process_timer (\<lambda>e s. Inr (fire e s)) now ?s = Some (Inr tm')"
    "trace tm' = trace ?s @ map tn_event (expired now ?s)" "expired now tm' = []" "timers_inv tm'" by blast
  moreover have "process_timer (\<lambda>e s. Inr (fire e s)) now tm = process_timer (\<lambda>e s. Inr (fire e s)) now ?s"
    using n by (subst process_timer.simps) simp
  ultimately show ?case using trace s(2) e by simp
qed

text \<open>C22: One pass of \<open>process_timer\<close>, with handlers that do not fault, set timers only in the future and take out none that is
  due, ends, fires every event that is due exactly once, in the order of the deadlines and, among equal deadlines, in
  the order in which they were set (\<open>earlier\<close>; the identities of the nodes count up), and leaves none that is due. \<open>add_timer\<close> puts the event of the deadline
  \<open>now + ms\<close> (modulo 2 ^ 64) with the next identity behind all that are not later and before the others, \<open>del_timer\<close> takes out exactly the node of
  the event, both only if the flag of the event says so, and both keep that order.\<close>

theorem timers_fire_in_order:
  fixes tm :: "'a CoTimer_scheme"
  assumes "timers_inv tm"
    and "\<And>e s. timers_inv s \<Longrightarrow> timers_inv (fire e s) \<and> expired now (fire e s) = expired now s"
    and "\<And>e s. trace (fire e s) = trace s @ [e]" and "\<And>s x. trace (s\<lparr>tm_timers := x\<rparr>) = trace s"
  shows "(\<exists>tm'. process_timer (\<lambda>e s. Inr (fire e s)) now tm = Some (Inr tm') \<and> trace tm' = trace tm @ map tn_event (expired now tm)
    \<and> sorted_wrt earlier (expired now tm) \<and> expired now tm' = [] \<and> timers_inv tm')
    \<and> tm_timers (snd (add_timer t ms ev tm)) =
        (if ev_flagTimerSet ev then tm_timers tm
         else takeWhile (\<lambda>n. tn_key n \<le> u64_add t ms) (tm_timers tm)
           @ \<lparr>tn_key = u64_add t ms, tn_id = tm_next tm, tn_event = ref_of ev\<rparr> # dropWhile (\<lambda>n. tn_key n \<le> u64_add t ms) (tm_timers tm))
    \<and> timers_inv (snd (add_timer t ms ev tm)) \<and> (ev_flagTimerSet ev \<or> tm_next tm < tm_next (snd (add_timer t ms ev tm)))
    \<and> (x \<in> set (tm_timers tm) \<and> ev_timerNode ev = tn_id x \<longrightarrow>
        tm_timers (snd (del_timer ev tm)) = (if ev_flagTimerSet ev then remove1 x (tm_timers tm) else tm_timers tm))
    \<and> timers_inv (snd (del_timer ev tm))"
proof (intro conjI)
  show "\<exists>tm'. process_timer (\<lambda>e s. Inr (fire e s)) now tm = Some (Inr tm') \<and> trace tm' = trace tm @ map tn_event (expired now tm)
    \<and> sorted_wrt earlier (expired now tm) \<and> expired now tm' = [] \<and> timers_inv tm'"
    using process_timer_run [of fire now trace tm] assms by (auto simp: expired_def timers_inv_def sorted_wrt_filter)
  show "x \<in> set (tm_timers tm) \<and> ev_timerNode ev = tn_id x \<longrightarrow>
      tm_timers (snd (del_timer ev tm)) = (if ev_flagTimerSet ev then remove1 x (tm_timers tm) else tm_timers tm)"
    using assms(1) by (auto simp: del_timer_def timers_inv_def filter_remove1)
  show "timers_inv (snd (add_timer t ms ev tm))" "timers_inv (snd (del_timer ev tm))"
    by (rule timers_inv_add [OF assms(1)], rule timers_inv_del [OF assms(1)])
qed (auto simp: add_timer_def insert_node_split)

record traced_timer = CoTimer +
  tr :: "event_ref list"

text \<open>A handler that notes its event and sets it again 50 ms later.\<close>

definition again :: "event_ref \<Rightarrow> traced_timer \<Rightarrow> traced_timer" where
  "again e s = snd (add_timer 100 50 (new_event (snd e) (fst e)) (s\<lparr>tr := tr s @ [e]\<rparr>))"

definition timer_sample :: traced_timer where
  "timer_sample = \<lparr>tm_timers = [\<lparr>tn_key = 90, tn_id = 1, tn_event = (7, EVENT_TYPE_READ)\<rparr>,
     \<lparr>tn_key = 100, tn_id = 0, tn_event = (5, EVENT_TYPE_SLEEP)\<rparr>, \<lparr>tn_key = 101, tn_id = 2, tn_event = (6, EVENT_TYPE_WRITE)\<rparr>],
     tm_next = 3, tr = []\<rparr>"

lemma filter_insert_node: "\<not> P n \<Longrightarrow> filter P (insert_node n xs) = filter P xs"
  by (induction xs) auto

lemma again_trace: "tr (again e s) = tr s @ [e]"
  by (simp add: again_def add_timer_def)

lemma again_fire: "timers_inv s \<Longrightarrow> timers_inv (again e s) \<and> expired 100 (again e s) = expired 100 s"
  unfolding again_def using timers_inv_add [of "s\<lparr>tr := tr s @ [e]\<rparr>" 100 50]
  by (auto simp: timers_inv_def add_timer_def expired_def filter_insert_node)

theorem timers_fire_in_order_witness:
  "\<exists>tm'. process_timer (\<lambda>e s. Inr (again e s)) 100 timer_sample = Some (Inr tm') \<and> tr tm' = tr timer_sample @ map tn_event (expired 100 timer_sample)
    \<and> sorted_wrt earlier (expired 100 timer_sample) \<and> expired 100 tm' = [] \<and> timers_inv tm'"
proof -
  have "timers_inv timer_sample" "\<And>s x. tr (s\<lparr>tm_timers := x\<rparr>) = tr s" by (simp_all add: timer_sample_def timers_inv_def earlier_def)
  from timers_fire_in_order [OF this(1) again_fire again_trace this(2)] show ?thesis by blast
qed

text \<open>\<open>find_timer\<close> is the exact time the event loop may sleep: from \<open>now\<close> on, something is due at time \<open>t\<close>
  exactly if \<open>t\<close> is at least \<open>now\<close> plus its result; it is 1000 ms when no timer is set.\<close>

theorem find_timer_exact:
  assumes "timers_inv tm" and "now \<le> t"
  shows "if tm_timers tm = [] then find_timer now tm = 1000 \<and> expired t tm = []
    else expired t tm \<noteq> [] \<longleftrightarrow> now + find_timer now tm \<le> t"
proof (cases "tm_timers tm")
  case Nil
  then show ?thesis by (simp add: find_timer_def MAX_EPOLL_WAIT_TIME_def expired_def)
next
  case (Cons n ns)
  have "expired t tm \<noteq> [] \<longleftrightarrow> tn_key n \<le> t" 
  proof
    assume "expired t tm \<noteq> []"
    from expired_first [OF assms(1) this] Cons show "tn_key n \<le> t" by simp
  next
    assume "tn_key n \<le> t"
    then show "expired t tm \<noteq> []" using Cons by (simp add: expired_def)
  qed
  with Cons assms(2) show ?thesis by (auto simp: find_timer_def)
qed

theorem find_timer_exact_witness:
  "find_timer 80 timer_sample = 10 \<and> (if tm_timers timer_sample = [] then find_timer 80 timer_sample = 1000 \<and> expired 95 timer_sample = []
    else expired 95 timer_sample \<noteq> [] \<longleftrightarrow> 80 + find_timer 80 timer_sample \<le> 95)"
  using find_timer_exact [of timer_sample 80 95] by (simp add: timer_sample_def timers_inv_def earlier_def find_timer_def)

end
