(* ===== verification/Coroutine.thy ===== *)
theory Coroutine
  imports Common
begin

text \<open>
  \<^verbatim>\<open>base/co_coroutine.h\<close>, \<^verbatim>\<open>base/co_coroutine.cpp\<close>: coroutines on one shared stack. The stack is a
  list of bytes that grows downwards; a coroutine that is switched out keeps a copy of the part in
  use. The processor context (\<open>ucontext_t\<close>) is not modelled, the switch itself is what the stack
  and the copy are afterwards. \<open>depth\<close> is the number of bytes between the local variable \<open>dummy\<close>
  and the top of the stack; an \<open>assert\<close> that fails is a fault.
\<close>

definition MIN_SHARED_STACK_SIZE :: nat where "MIN_SHARED_STACK_SIZE = 1024"
definition MAX_SHARED_STACK_SIZE :: nat where "MAX_SHARED_STACK_SIZE = 10 * 1024 * 1024"
definition BEST_SHARED_STACK_SIZE :: nat where "BEST_SHARED_STACK_SIZE = 1024 * 1024"

datatype CoroutineStatus = COROUTINE_READY | COROUTINE_RUNNING | COROUTINE_SUSPEND | COROUTINE_DOWN

text \<open>\<open>cr_func\<close>: the connection whose handler the coroutine runs.\<close>

record CoCoroutine =
  cr_status :: CoroutineStatus
  cr_func :: "nat option"
  cr_interStack :: string
  cr_interStackCap :: nat
  cr_interStackSize :: nat

definition new_coroutine :: CoCoroutine where
  "new_coroutine = \<lparr>cr_status = COROUTINE_READY, cr_func = None, cr_interStack = [],
     cr_interStackCap = 0, cr_interStackSize = 0\<rparr>"

definition coroutine_reset :: "CoCoroutine \<Rightarrow> CoCoroutine" where
  "coroutine_reset c = c\<lparr>cr_status := COROUTINE_READY, cr_func := None\<rparr>"

text \<open>The second assignment of \<open>init\<close> starts from the argument again.\<close>

definition shared_stack_size :: "nat \<Rightarrow> nat" where
  "shared_stack_size sharedStackSize =
     (let sz = (if sharedStackSize < MIN_SHARED_STACK_SIZE then BEST_SHARED_STACK_SIZE else sharedStackSize);
          sz = (if sharedStackSize > MAX_SHARED_STACK_SIZE then BEST_SHARED_STACK_SIZE else sharedStackSize)
      in sz)"

definition coroutine_main_init :: "(nat \<Rightarrow> char) \<Rightarrow> nat \<Rightarrow> int \<times> string" where
  "coroutine_main_init junk sharedStackSize = (CO_OK, map junk [0..<shared_stack_size sharedStackSize])"

definition init_coroutine :: "nat \<Rightarrow> CoCoroutine \<Rightarrow> int \<times> CoCoroutine" where
  "init_coroutine func c = (CO_OK, c\<lparr>cr_func := Some func\<rparr>)"

definition swap_in :: "CoCoroutine \<Rightarrow> string \<Rightarrow> string res" where
  "swap_in c stack =
     (if cr_interStackSize c \<noteq> 0
      then (if cr_interStackSize c \<le> length stack \<and> cr_interStackSize c \<le> length (cr_interStack c)
            then Inr (take (length stack - cr_interStackSize c) stack @ take (cr_interStackSize c) (cr_interStack c))
            else Inl OutOfBounds)
      else Inr stack)"

definition swap_out :: "(nat \<Rightarrow> char) \<Rightarrow> nat \<Rightarrow> CoCoroutine \<Rightarrow> string \<Rightarrow> CoCoroutine res" where
  "swap_out junk depth c stack =
     (if \<not> depth \<le> length stack then Inl OutOfBounds
      else let c = (if cr_interStackCap c < depth
                    then c\<lparr>cr_interStack := take depth (cr_interStack c) @ map junk [length (cr_interStack c)..<depth],
                           cr_interStackCap := depth\<rparr>
                    else c)
           in Inr (c\<lparr>cr_interStackSize := depth,
                     cr_interStack := drop (length stack - depth) stack @ drop depth (cr_interStack c)\<rparr>))"

section \<open>A coroutine finds its stack again\<close>

definition coroutine_inv :: "CoCoroutine \<Rightarrow> bool" where
  "coroutine_inv c \<longleftrightarrow> length (cr_interStack c) = cr_interStackCap c \<and> cr_interStackSize c \<le> cr_interStackCap c"

lemma coroutine_inv_new [simp]: "coroutine_inv new_coroutine"
  by (simp add: coroutine_inv_def new_coroutine_def)

lemma coroutine_inv_reset [simp]: "coroutine_inv (coroutine_reset c) = coroutine_inv c"
  by (simp add: coroutine_inv_def coroutine_reset_def)

lemma swap_out_inv:
  "coroutine_inv c \<Longrightarrow> swap_out junk depth c stack = Inr c' \<Longrightarrow>
   coroutine_inv c' \<and> cr_interStackSize c' = depth
     \<and> take depth (cr_interStack c') = drop (length stack - depth) stack"
  by (auto simp: swap_out_def coroutine_inv_def Let_def split: if_splits)

text \<open>C32: The bytes a coroutine has on the shared stack when it is switched out are back, at the same place, when it
  is switched in again, whatever the other coroutines did to the stack in between; its copy is
  then in order for the next switch.\<close>

theorem stack_survives_switch:
  assumes "coroutine_inv c" and "swap_out junk depth c stack = Inr c'" and "0 < depth" and "length stack' = length stack"
  shows "\<exists>stack''. swap_in c' stack' = Inr stack'' \<and> length stack'' = length stack \<and> coroutine_inv c'
    \<and> drop (length stack - depth) stack'' = drop (length stack - depth) stack
    \<and> take (length stack - depth) stack'' = take (length stack - depth) stack'"
proof -
  have o: "coroutine_inv c'" "cr_interStackSize c' = depth" "take depth (cr_interStack c') = drop (length stack - depth) stack"
    using swap_out_inv [OF assms(1,2)] by auto
  have "depth \<le> length stack" using assms(2) by (simp add: swap_out_def split: if_splits)
  moreover have "depth \<le> length (cr_interStack c')" using o(1,2) by (simp add: coroutine_inv_def)
  ultimately show ?thesis using o assms(3,4) by (simp add: swap_in_def)
qed

definition stack_sample :: CoCoroutine where
  "stack_sample = \<lparr>cr_status = COROUTINE_SUSPEND, cr_func = Some 1, cr_interStack = ''efgh'', cr_interStackCap = 4, cr_interStackSize = 4\<rparr>"

theorem stack_survives_switch_witness:
  "\<exists>stack''. swap_in stack_sample ''xxxxxxyz'' = Inr stack'' \<and> length stack'' = length ''abcdefgh'' \<and> coroutine_inv stack_sample
    \<and> drop (length ''abcdefgh'' - 4) stack'' = drop (length ''abcdefgh'' - 4) ''abcdefgh''
    \<and> take (length ''abcdefgh'' - 4) stack'' = take (length ''abcdefgh'' - 4) ''xxxxxxyz''"
  by (rule stack_survives_switch [of "new_coroutine\<lparr>cr_status := COROUTINE_SUSPEND, cr_func := Some 1\<rparr>" "\<lambda>n. NUL"])
    (simp_all add: coroutine_inv_def new_coroutine_def swap_out_def stack_sample_def)

end
