(* ===== verification/Connection.thy ===== *)
theory Connection
  imports Buffer Tcp_Socket Timer Coroutine
begin

text \<open>
  \<^verbatim>\<open>core/co_connection.h\<close>, \<^verbatim>\<open>core/co_connection.cpp\<close>: connections and the pool that owns them. A
  \<open>CoConnection*\<close> is the id of the connection, its position in \<open>m_connections\<close> plus one; every
  second connection is the block connection of the one in front of it. A block connection owns no
  buffer, no sleep event and no coroutine; the model gives it unused ones. Handlers are the names
  of the functions the code stores. A request, a server and an upstream are referred to by
  number or name.
\<close>

datatype conn_handler = H_NONE | H_REQUEST_INIT | H_UPSTREAM_INIT | H_LISTEN nat | H_RESUME_READ
datatype exc_handler = H_EVENT_EXCEPTION | H_LISTEN_EXCEPTION | H_RESUME_EXCEPTION
datatype cleanup = H_SERVER_CLEANUP

record CoConnection =
  cn_connId :: nat
  cn_version :: "32 word"
  cn_epollCurEvents :: "32 word"
  cn_epollCurVersion :: "32 word"
  cn_readEvent :: CoEvent
  cn_writeEvent :: CoEvent
  cn_sleepEvent :: CoEvent
  cn_coBuffer :: co_buffer
  cn_coTcp :: CoTCP
  cn_scoketConnTimeout :: int
  cn_socketRcvTimeout :: int
  cn_socketSndTimeout :: int
  cn_keepaliveTimeout :: int
  cn_serverControl :: "nat option"
  cn_request :: "nat option"
  cn_requestCount :: "32 word"
  cn_upstream :: "string option"
  cn_backend :: "nat option"
  cn_startTimestamp :: nat
  cn_coroutine :: CoCoroutine
  cn_handler :: conn_handler
  cn_handlerException :: exc_handler
  cn_handlerCleanups :: "cleanup list"
  cn_blockConn :: "nat option"
  cn_blockOriginConn :: "nat option"
  cn_flagBlockConn :: bool
  cn_flagUseBlockConn :: bool
  cn_flagPendingEof :: bool
  cn_flagTimedOut :: bool
  cn_flagDying :: bool
  cn_flagParentDying :: bool
  cn_flagThirdFuncBlocking :: bool

text \<open>A new connection with the objects \<open>expand_connections\<close> gives it.\<close>

definition new_connection :: "nat \<Rightarrow> CoConnection" where
  "new_connection i = \<lparr>cn_connId = i, cn_version = 0, cn_epollCurEvents = 0, cn_epollCurVersion = 0,
     cn_readEvent = new_event EVENT_TYPE_READ i, cn_writeEvent = new_event EVENT_TYPE_WRITE i,
     cn_sleepEvent = new_event EVENT_TYPE_SLEEP i, cn_coBuffer = set_userdata i new_buffer,
     cn_coTcp = new_tcp [] 0 0 0 0, cn_scoketConnTimeout = - 1, cn_socketRcvTimeout = - 1,
     cn_socketSndTimeout = - 1, cn_keepaliveTimeout = - 1, cn_serverControl = None, cn_request = None,
     cn_requestCount = 0, cn_upstream = None, cn_backend = None, cn_startTimestamp = 0,
     cn_coroutine = new_coroutine, cn_handler = H_NONE, cn_handlerException = H_EVENT_EXCEPTION,
     cn_handlerCleanups = [], cn_blockConn = None, cn_blockOriginConn = None, cn_flagBlockConn = False,
     cn_flagUseBlockConn = False, cn_flagPendingEof = False, cn_flagTimedOut = False,
     cn_flagDying = False, cn_flagParentDying = False, cn_flagThirdFuncBlocking = False\<rparr>"

section \<open>Reset\<close>

text \<open>The part of \<open>reset\<close> on the connection itself, and \<open>reset_block\<close>, on its block connection.\<close>

definition reset_self :: "bool \<Rightarrow> CoConnection \<Rightarrow> CoConnection" where
  "reset_self keepalive c =
     (let c = c\<lparr>cn_version := cn_version c + 1, cn_handler := H_NONE, cn_request := None,
                cn_flagUseBlockConn := False, cn_flagPendingEof := False, cn_flagTimedOut := False,
                cn_flagDying := False, cn_flagParentDying := False, cn_flagThirdFuncBlocking := False,
                cn_readEvent := event_reset (cn_readEvent c), cn_writeEvent := event_reset (cn_writeEvent c),
                cn_sleepEvent := event_reset (cn_sleepEvent c), cn_coBuffer := buffer_reset (cn_coBuffer c),
                cn_coroutine := coroutine_reset (cn_coroutine c)\<rparr>
      in if keepalive then c
         else c\<lparr>cn_coTcp := (if tc_socketfd (cn_coTcp c) > 0 then snd (tcp_close (cn_coTcp c)) else cn_coTcp c),
                cn_startTimestamp := 0, cn_serverControl := None, cn_upstream := None, cn_backend := None,
                cn_requestCount := 0, cn_handlerCleanups := []\<rparr>)"

definition block_reset :: "CoConnection \<Rightarrow> CoConnection" where
  "block_reset c = c\<lparr>cn_readEvent := event_reset (cn_readEvent c), cn_writeEvent := event_reset (cn_writeEvent c),
     cn_coTcp := tcp_reset (cn_coTcp c), cn_flagPendingEof := False, cn_flagTimedOut := False, cn_flagDying := False,
     cn_flagParentDying := False, cn_flagUseBlockConn := False, cn_flagThirdFuncBlocking := False\<rparr>"

section \<open>The pool\<close>

definition MAX_LISTEN_BACKLOG :: int where "MAX_LISTEN_BACKLOG = 512"
definition MIN_CONNECTION_SIZE :: int where "MIN_CONNECTION_SIZE = 4"
definition MAX_CONNECTION_SIZE :: int where "MAX_CONNECTION_SIZE = 65535"

record CoConnectionPool =
  pl_minConnectionSize :: int
  pl_maxConnectionSize :: int
  pl_curConnectionSize :: int
  pl_connections :: "CoConnection list"
  pl_freeConnections :: "nat list"
  pl_innerSockets :: "int set"

definition new_pool :: CoConnectionPool where
  "new_pool = \<lparr>pl_minConnectionSize = 1, pl_maxConnectionSize = 4, pl_curConnectionSize = 0,
     pl_connections = [], pl_freeConnections = [], pl_innerSockets = {}\<rparr>"

definition get_connection_accord_id :: "nat \<Rightarrow> CoConnectionPool \<Rightarrow> CoConnection" where
  "get_connection_accord_id i pool = pl_connections pool ! (i - 1)"

text \<open>Writing through a pointer to a connection.\<close>

definition map_conn :: "nat \<Rightarrow> (CoConnection \<Rightarrow> CoConnection) \<Rightarrow> CoConnectionPool \<Rightarrow> CoConnectionPool" where
  "map_conn i f pool = pool\<lparr>pl_connections := (pl_connections pool)[i - 1 := f (pl_connections pool ! (i - 1))]\<rparr>"

definition reset_block :: "nat \<Rightarrow> CoConnectionPool \<Rightarrow> CoConnectionPool" where
  "reset_block i pool =
     (case cn_blockConn (get_connection_accord_id i pool) of
        None \<Rightarrow> pool
      | Some b \<Rightarrow> map_conn b block_reset pool)"

definition connection_reset :: "bool \<Rightarrow> nat \<Rightarrow> CoConnectionPool \<Rightarrow> CoConnectionPool" where
  "connection_reset keepalive i pool = reset_block i (map_conn i (reset_self keepalive) pool)"

text \<open>The two connections one round of the loop of \<open>expand_connections\<close> makes, from position \<open>i\<close>.\<close>

definition new_pair :: "nat \<Rightarrow> CoConnection list" where
  "new_pair i = [(new_connection (i + 1))\<lparr>cn_blockConn := Some (i + 2)\<rparr>,
     (new_connection (i + 2))\<lparr>cn_flagBlockConn := True, cn_blockOriginConn := Some (i + 1)\<rparr>]"

fun expand_loop :: "nat \<Rightarrow> nat \<Rightarrow> CoConnectionPool \<Rightarrow> CoConnectionPool" where
  "expand_loop i 0 pool = pool"
| "expand_loop i (Suc left) pool =
     expand_loop (i + 2) left (pool\<lparr>pl_connections := pl_connections pool @ new_pair i,
                                    pl_freeConnections := pl_freeConnections pool @ [i + 1]\<rparr>)"

definition expand_connections :: "int \<Rightarrow> CoConnectionPool \<Rightarrow> (int \<times> CoConnectionPool) res" where
  "expand_connections expandSize pool =
     (let cur = pl_curConnectionSize pool
      in if cur \<ge> pl_maxConnectionSize pool then Inr (CO_ERROR, pool)
         else bindr (i32 (cur + expandSize))
                (\<lambda>n. let n = (if n > pl_maxConnectionSize pool then pl_maxConnectionSize pool else n)
                     in if n < cur then Inl OutOfBounds
                        else Inr (CO_OK, expand_loop (2 * nat cur) (nat (n - cur)) (pool\<lparr>pl_curConnectionSize := n\<rparr>))))"

definition pool_init :: "int \<Rightarrow> int \<Rightarrow> CoConnectionPool \<Rightarrow> (int \<times> CoConnectionPool) res" where
  "pool_init minSize maxSize pool =
     (let mn = (if minSize < MIN_CONNECTION_SIZE then MIN_CONNECTION_SIZE else minSize);
          mx = (if maxSize > MAX_CONNECTION_SIZE then MAX_CONNECTION_SIZE else maxSize) + 3
      in bindr (i32 (mn + 3))
           (\<lambda>expandSize. expand_connections expandSize
              (pool\<lparr>pl_minConnectionSize := mn, pl_maxConnectionSize := mx\<rparr>)))"

section \<open>Taking a connection\<close>

text \<open>\<open>expand_connections()\<close> is called with its default when no connection is free.\<close>

definition ensure_free :: "CoConnectionPool \<Rightarrow> CoConnectionPool res" where
  "ensure_free pool =
     (if pl_freeConnections pool = [] then bindr (expand_connections 16 pool) (\<lambda>(_, pool). Inr pool) else Inr pool)"

text \<open>The end of both \<open>get_connection\<close>: the connection leaves the list of free ones.\<close>

definition take_front :: "nat \<Rightarrow> int \<Rightarrow> CoConnectionPool \<Rightarrow> CoConnectionPool" where
  "take_front now fd pool =
     (let i = hd (pl_freeConnections pool)
      in map_conn i (\<lambda>c. c\<lparr>cn_startTimestamp := now\<rparr>)
           (pool\<lparr>pl_freeConnections := tl (pl_freeConnections pool),
                 pl_innerSockets := insert fd (pl_innerSockets pool)\<rparr>))"

definition listen_socket :: "CoTCP \<Rightarrow> sys \<Rightarrow> bool \<times> sys" where
  "listen_socket t s =
     (let (r, s) = set_reused t s
      in if r \<noteq> CO_OK then (False, s)
         else let (r, s) = server_bind t s
              in if r \<noteq> CO_OK then (False, s)
                 else let (r, s) = server_listen MAX_LISTEN_BACKLOG t s in (r = CO_OK, s))"

definition get_connection_ip ::
  "string \<Rightarrow> 16 word \<Rightarrow> bool \<Rightarrow> nat \<Rightarrow> CoConnectionPool \<Rightarrow> sys \<Rightarrow> (nat option \<times> CoConnectionPool \<times> sys) res" where
  "get_connection_ip ip port listen now pool s =
     bindr (ensure_free pool)
       (\<lambda>pool. case pl_freeConnections pool of
          [] \<Rightarrow> Inr (None, pool, s)
        | i # _ \<Rightarrow>
            let (r, t, s) = init_ipport ip port (cn_coTcp (get_connection_accord_id i pool)) s;
                pool = map_conn i (\<lambda>c. c\<lparr>cn_coTcp := t\<rparr>) pool
            in if r \<noteq> CO_OK then Inr (None, pool, s)
               else let (r, s) = set_nonblock t s
                    in if r \<noteq> CO_OK then Inr (None, pool, s)
                       else let (ok, s) = (if listen then listen_socket t s else (True, s))
                            in if \<not> ok then Inr (None, pool, s)
                               else Inr (Some i, take_front now (tc_socketfd t) pool, s))"

definition get_connection_fd ::
  "int \<Rightarrow> (string \<times> 16 word) option \<Rightarrow> nat \<Rightarrow> CoConnectionPool \<Rightarrow> sys \<Rightarrow> (nat option \<times> CoConnectionPool \<times> sys) res" where
  "get_connection_fd socketFd peer now pool s =
     bindr (ensure_free pool)
       (\<lambda>pool. case pl_freeConnections pool of
          [] \<Rightarrow> Inr (None, pool, s)
        | i # _ \<Rightarrow>
            let (r, t) = init_client_socketfd socketFd peer True (cn_coTcp (get_connection_accord_id i pool));
                pool = map_conn i (\<lambda>c. c\<lparr>cn_coTcp := t\<rparr>) pool
            in if r \<noteq> CO_OK then Inr (None, pool, s)
               else let (r, s) = set_nonblock t s
                    in if r \<noteq> CO_OK then Inr (None, pool, s)
                       else Inr (Some i, take_front now socketFd pool, s))"

section \<open>Giving it back\<close>

text \<open>
  \<open>free_connection\<close> around the cleanup functions, which change other objects: the socket before
  them, the connection and the list of free ones behind them.
\<close>

definition free_socket :: "nat \<Rightarrow> CoConnectionPool \<Rightarrow> CoConnectionPool" where
  "free_socket i pool =
     (let fd = tc_socketfd (cn_coTcp (get_connection_accord_id i pool));
          pool = pool\<lparr>pl_innerSockets := pl_innerSockets pool - {fd}\<rparr>
      in if fd > 0 then map_conn i (\<lambda>c. c\<lparr>cn_coTcp := snd (tcp_close (cn_coTcp c))\<rparr>) pool else pool)"

definition free_finish :: "nat \<Rightarrow> CoConnectionPool \<Rightarrow> CoConnectionPool" where
  "free_finish i pool =
     (let pool = connection_reset False i (map_conn i (\<lambda>c. c\<lparr>cn_handlerCleanups := []\<rparr>) pool)
      in pool\<lparr>pl_freeConnections := i # pl_freeConnections pool\<rparr>)"

definition is_inner_socketfd :: "int \<Rightarrow> CoConnectionPool \<Rightarrow> bool" where
  "is_inner_socketfd fd pool \<longleftrightarrow> fd \<in> pl_innerSockets pool"

text \<open>
  \<open>close_all_connection\<close>: the connections in use are marked, and what goes into the dispatcher's
  queue is the second result.
\<close>

definition close_all_connection :: "CoConnectionPool \<Rightarrow> CoConnectionPool \<times> (nat \<times> 32 word) list" where
  "close_all_connection pool =
     (let open_conn = (\<lambda>c. \<not> cn_flagBlockConn c \<and> tc_socketfd (cn_coTcp c) > 0)
      in (pool\<lparr>pl_connections := map (\<lambda>c. if open_conn c then c\<lparr>cn_flagPendingEof := True\<rparr> else c) (pl_connections pool)\<rparr>,
          map (\<lambda>c. (cn_connId c, cn_version c)) (filter open_conn (pl_connections pool))))"

end
