(* ===== verification/Connection_Pool.thy ===== *)
theory Connection_Pool
  imports Connection
begin

text \<open>
  What the pool of \<^verbatim>\<open>core/co_connection.cpp\<close> guarantees: its layout (ids, pairs of connections
  and block connections, which connections are free), that every operation keeps it, and that a
  connection is in one place at a time, free or in use. The last is the interface
  \<open>object_pool\<close>, which the pool interprets.
\<close>

section \<open>Layout\<close>

definition links :: "CoConnection \<Rightarrow> nat \<times> nat option \<times> nat option \<times> bool" where
  "links c = (cn_connId c, cn_blockConn c, cn_blockOriginConn c, cn_flagBlockConn c)"

definition link_at :: "nat \<Rightarrow> nat \<times> nat option \<times> nat option \<times> bool" where
  "link_at k = (if even k then (k + 1, Some (k + 2), None, False) else (k + 1, None, Some k, True))"

definition pool_inv :: "CoConnectionPool \<Rightarrow> bool" where
  "pool_inv p \<longleftrightarrow> map links (pl_connections p) = map link_at [0..<length (pl_connections p)]
     \<and> int (length (pl_connections p)) = 2 * pl_curConnectionSize p
     \<and> distinct (pl_freeConnections p)
     \<and> (\<forall>i\<in>set (pl_freeConnections p). odd i \<and> i \<le> length (pl_connections p))"

text \<open>The connections in use: those that can be handed out and are not free.\<close>

definition busy :: "CoConnectionPool \<Rightarrow> nat set" where
  "busy p = {i. odd i \<and> i \<le> length (pl_connections p)} - set (pl_freeConnections p)"

lemma pool_inv_new [simp]: "pool_inv new_pool"
  by (simp add: pool_inv_def new_pool_def)

lemma pool_link: "pool_inv p \<Longrightarrow> k < length (pl_connections p) \<Longrightarrow> links (pl_connections p ! k) = link_at k"
  by (metis add_cancel_right_left length_map map_nth nth_map nth_upt pool_inv_def)

lemma pool_id: "pool_inv p \<Longrightarrow> 0 < i \<Longrightarrow> i \<le> length (pl_connections p) \<Longrightarrow> cn_connId (get_connection_accord_id i p) = i"
  using pool_link [of p "i - 1"] by (cases i) (auto simp: links_def link_at_def get_connection_accord_id_def split: if_splits)

lemma pool_block:
  "pool_inv p \<Longrightarrow> odd i \<Longrightarrow> i \<le> length (pl_connections p) \<Longrightarrow> cn_blockConn (get_connection_accord_id i p) = Some (i + 1)"
  using pool_link [of p "i - 1"] by (cases i) (auto simp: links_def link_at_def get_connection_accord_id_def)

lemma pool_even: "pool_inv p \<Longrightarrow> even (length (pl_connections p))"
proof -
  assume "pool_inv p"
  then have "even (int (length (pl_connections p)))" by (simp add: pool_inv_def)
  then show ?thesis by simp
qed

section \<open>Every operation keeps the layout\<close>

lemma map_conn_fields [simp]:
  "length (pl_connections (map_conn i f p)) = length (pl_connections p)"
  "pl_freeConnections (map_conn i f p) = pl_freeConnections p"
  "pl_innerSockets (map_conn i f p) = pl_innerSockets p"
  "pl_curConnectionSize (map_conn i f p) = pl_curConnectionSize p"
  "pl_maxConnectionSize (map_conn i f p) = pl_maxConnectionSize p"
  "pl_minConnectionSize (map_conn i f p) = pl_minConnectionSize p"
  by (simp_all add: map_conn_def)

lemma get_map_conn_same:
  "0 < i \<Longrightarrow> i \<le> length (pl_connections p) \<Longrightarrow>
   get_connection_accord_id i (map_conn i f p) = f (get_connection_accord_id i p)"
  by (simp add: map_conn_def get_connection_accord_id_def)

lemma get_map_conn_other:
  "0 < i \<Longrightarrow> 0 < j \<Longrightarrow> i \<noteq> j \<Longrightarrow> get_connection_accord_id j (map_conn i f p) = get_connection_accord_id j p"
  by (auto simp: map_conn_def get_connection_accord_id_def nth_list_update)

lemma busy_map_conn [simp]: "busy (map_conn i f p) = busy p"
  by (simp add: busy_def)

lemma pool_inv_map_conn:
  assumes "pool_inv p" and "\<And>c. links (f c) = links c"
  shows "pool_inv (map_conn i f p)"
proof -
  let ?xs = "pl_connections p"
  have "map links (?xs[i - 1 := f (?xs ! (i - 1))]) = (map links ?xs)[i - 1 := links (?xs ! (i - 1))]"
    by (simp add: map_update assms(2))
  also have "\<dots> = map links ?xs"
    by (metis length_map linorder_not_less list_update_beyond list_update_id nth_map)
  finally have "map links (?xs[i - 1 := f (?xs ! (i - 1))]) = map links ?xs" .
  with assms(1) show ?thesis by (simp add: pool_inv_def map_conn_def)
qed

lemma links_reset [simp]: "links (reset_self k c) = links c" "links (block_reset c) = links c"
  by (simp_all add: links_def reset_self_def block_reset_def Let_def)

lemma reset_block_fields [simp]:
  "length (pl_connections (reset_block i p)) = length (pl_connections p)"
  "pl_freeConnections (reset_block i p) = pl_freeConnections p"
  "pl_innerSockets (reset_block i p) = pl_innerSockets p"
  "busy (reset_block i p) = busy p"
  by (simp_all add: reset_block_def split: option.split)

lemma pool_inv_reset_block: "pool_inv p \<Longrightarrow> pool_inv (reset_block i p)"
  by (auto simp: reset_block_def pool_inv_map_conn split: option.split)

lemma connection_reset_fields [simp]:
  "length (pl_connections (connection_reset k i p)) = length (pl_connections p)"
  "pl_freeConnections (connection_reset k i p) = pl_freeConnections p"
  "pl_innerSockets (connection_reset k i p) = pl_innerSockets p"
  "busy (connection_reset k i p) = busy p"
  by (simp_all add: connection_reset_def)

lemma pool_inv_reset: "pool_inv p \<Longrightarrow> pool_inv (connection_reset k i p)"
  by (simp add: connection_reset_def pool_inv_reset_block pool_inv_map_conn)

lemma links_new_pair: "even i \<Longrightarrow> map links (new_pair i) = [link_at i, link_at (i + 1)]"
  by (simp add: new_pair_def links_def link_at_def new_connection_def)

lemma expand_loop_spec:
  assumes "map links (pl_connections p) = map link_at [0..<i]" and "even i"
  shows "map links (pl_connections (expand_loop i left p)) = map link_at [0..<i + 2 * left]
    \<and> pl_freeConnections (expand_loop i left p) = pl_freeConnections p @ map (\<lambda>j. i + 2 * j + 1) [0..<left]
    \<and> pl_curConnectionSize (expand_loop i left p) = pl_curConnectionSize p
    \<and> pl_maxConnectionSize (expand_loop i left p) = pl_maxConnectionSize p
    \<and> pl_innerSockets (expand_loop i left p) = pl_innerSockets p"
  using assms
proof (induction left arbitrary: i p)
  case 0
  then show ?case by simp
next
  case (Suc left)
  let ?p = "p\<lparr>pl_connections := pl_connections p @ new_pair i, pl_freeConnections := pl_freeConnections p @ [i + 1]\<rparr>"
  have "map links (pl_connections ?p) = map link_at [0..<i + 2]"
    using Suc.prems by (simp add: links_new_pair)
  from Suc.IH [OF this] Suc.prems(2) show ?case
    by (simp add: map_upt_Suc add.assoc del: upt_Suc)
qed

lemma expand_connections_ok:
  assumes inv: "pool_inv p" and e: "expand_connections n p = Inr (ret, p')"
  shows "pool_inv p' \<and> busy p' = busy p \<and> pl_innerSockets p' = pl_innerSockets p
    \<and> length (pl_connections p) \<le> length (pl_connections p')
    \<and> (\<exists>xs. pl_freeConnections p' = pl_freeConnections p @ xs)"
proof (cases "pl_maxConnectionSize p \<le> pl_curConnectionSize p")
  case True
  then show ?thesis using e inv by (simp add: expand_connections_def)
next
  case False
  define cur where "cur = pl_curConnectionSize p"
  define m where "m = (if cur + n > pl_maxConnectionSize p then pl_maxConnectionSize p else cur + n)"
  have cur: "int (length (pl_connections p)) = 2 * cur" "0 \<le> cur" using inv by (auto simp: pool_inv_def cur_def)
  then have len: "length (pl_connections p) = 2 * nat cur" by linarith
  let ?q = "p\<lparr>pl_curConnectionSize := m\<rparr>"
  have p': "p' = expand_loop (2 * nat cur) (nat (m - cur)) ?q" "cur \<le> m"
    using e False unfolding expand_connections_def Let_def cur_def [symmetric]
    by (auto simp: bindr_eq_Inr_conv m_def cur_def i32_def split: if_splits)
  have "map links (pl_connections ?q) = map link_at [0..<2 * nat cur]" using inv len by (simp add: pool_inv_def)
  from expand_loop_spec [OF this, of "nat (m - cur)"]
  have s: "map links (pl_connections p') = map link_at [0..<2 * nat cur + 2 * nat (m - cur)]"
    "pl_freeConnections p' = pl_freeConnections p @ map (\<lambda>j. 2 * nat cur + 2 * j + 1) [0..<nat (m - cur)]"
    "pl_curConnectionSize p' = m" "pl_innerSockets p' = pl_innerSockets p"
    unfolding p'(1) by simp_all
  from arg_cong [OF s(1), of length] have l: "length (pl_connections p') = 2 * nat cur + 2 * nat (m - cur)" by simp
  have free: "\<And>i. i \<in> set (pl_freeConnections p) \<Longrightarrow> odd i \<and> i \<le> 2 * nat cur" "distinct (pl_freeConnections p)"
    using inv len by (auto simp: pool_inv_def)
  have inv': "pool_inv p'"
    unfolding pool_inv_def s(2,3) l using s(1) l free p'(2) cur(2)
    by (force simp: distinct_map inj_on_def)
  have "busy p' = busy p"
  proof (rule set_eqI)
    fix i
    have "i \<in> (\<lambda>j. 2 * nat cur + 2 * j + 1) ` {0..<nat (m - cur)} \<longleftrightarrow> odd i \<and> 2 * nat cur < i \<and> i \<le> 2 * nat cur + 2 * nat (m - cur)"
    proof
      assume "odd i \<and> 2 * nat cur < i \<and> i \<le> 2 * nat cur + 2 * nat (m - cur)"
      then have "i = 2 * nat cur + 2 * ((i - 1) div 2 - nat cur) + 1" "(i - 1) div 2 - nat cur < nat (m - cur)"
        by (auto elim!: oddE)
      then show "i \<in> (\<lambda>j. 2 * nat cur + 2 * j + 1) ` {0..<nat (m - cur)}" by (intro image_eqI) auto
    qed auto
    then show "i \<in> busy p' \<longleftrightarrow> i \<in> busy p" unfolding busy_def s(2) l len using free(1) by auto
  qed
  with inv' s(2,4) l len show ?thesis by auto
qed

lemma ensure_free_ok:
  assumes "pool_inv p" and "ensure_free p = Inr p'"
  shows "pool_inv p' \<and> busy p' = busy p \<and> pl_innerSockets p' = pl_innerSockets p
    \<and> length (pl_connections p) \<le> length (pl_connections p')"
  using assms expand_connections_ok [OF assms(1), of 16]
  by (auto simp: ensure_free_def bindr_eq_Inr_conv split: if_splits)

lemma take_front_ok:
  assumes "pool_inv p" and "pl_freeConnections p = i # js"
  shows "pool_inv (take_front now fd p) \<and> i \<notin> busy p \<and> busy (take_front now fd p) = insert i (busy p)
    \<and> pl_innerSockets (take_front now fd p) = insert fd (pl_innerSockets p)"
proof -
  have i: "odd i" "i \<le> length (pl_connections p)" "i \<notin> set js" using assms by (auto simp: pool_inv_def)
  have "pool_inv (p\<lparr>pl_freeConnections := js, pl_innerSockets := insert fd (pl_innerSockets p)\<rparr>)"
    using assms by (auto simp: pool_inv_def)
  then have "pool_inv (take_front now fd p)"
    unfolding take_front_def Let_def assms(2) by (simp add: pool_inv_map_conn links_def)
  with i assms(2) show ?thesis by (auto simp: take_front_def Let_def busy_def)
qed

lemma get_connection_ip_ok:
  assumes "pool_inv p" and "get_connection_ip ip port listen now p s = Inr (r, p', s')"
  shows "pool_inv p' \<and> (case r of None \<Rightarrow> busy p' = busy p | Some i \<Rightarrow> i \<notin> busy p \<and> busy p' = insert i (busy p))"
proof -
  obtain q where q: "ensure_free p = Inr q" "pool_inv q" "busy q = busy p"
    using assms ensure_free_ok [OF assms(1)] by (auto simp: get_connection_ip_def bindr_eq_Inr_conv)
  show ?thesis
  proof (cases "pl_freeConnections q")
    case Nil
    then show ?thesis using assms(2) q by (simp add: get_connection_ip_def)
  next
    case (Cons i js)
    obtain r1 t s1 where 1: "init_ipport ip port (cn_coTcp (get_connection_accord_id i q)) s = (r1, t, s1)" by (metis prod_cases3)
    obtain r2 s2 where 2: "set_nonblock t s1 = (r2, s2)" by fastforce
    obtain ok s3 where 3: "(if listen then listen_socket t s2 else (True, s2)) = (ok, s3)" by fastforce
    let ?q = "map_conn i (\<lambda>c. c\<lparr>cn_coTcp := t\<rparr>) q"
    have m: "pool_inv ?q" "busy ?q = busy p" "pl_freeConnections ?q = i # js"
      using q Cons by (simp_all add: pool_inv_map_conn links_def)
    have "r = None \<and> p' = ?q \<or> r = Some i \<and> p' = take_front now (tc_socketfd t) ?q"
      using assms(2) q(1) Cons 1 2 3 by (auto simp: get_connection_ip_def Let_def split: if_splits)
    then show ?thesis using m take_front_ok [OF m(1,3)] by auto
  qed
qed

lemma get_connection_fd_ok:
  assumes "pool_inv p" and "get_connection_fd fd peer now p s = Inr (r, p', s')"
  shows "pool_inv p' \<and> (case r of None \<Rightarrow> busy p' = busy p | Some i \<Rightarrow> i \<notin> busy p \<and> busy p' = insert i (busy p))"
proof -
  obtain q where q: "ensure_free p = Inr q" "pool_inv q" "busy q = busy p"
    using assms ensure_free_ok [OF assms(1)] by (auto simp: get_connection_fd_def bindr_eq_Inr_conv)
  show ?thesis
  proof (cases "pl_freeConnections q")
    case Nil
    then show ?thesis using assms(2) q by (simp add: get_connection_fd_def)
  next
    case (Cons i js)
    obtain r1 t where 1: "init_client_socketfd fd peer True (cn_coTcp (get_connection_accord_id i q)) = (r1, t)" by fastforce
    obtain r2 s2 where 2: "set_nonblock t s = (r2, s2)" by fastforce
    let ?q = "map_conn i (\<lambda>c. c\<lparr>cn_coTcp := t\<rparr>) q"
    have m: "pool_inv ?q" "busy ?q = busy p" "pl_freeConnections ?q = i # js"
      using q Cons by (simp_all add: pool_inv_map_conn links_def)
    have "r = None \<and> p' = ?q \<or> r = Some i \<and> p' = take_front now fd ?q"
      using assms(2) q(1) Cons 1 2 by (auto simp: get_connection_fd_def Let_def split: if_splits)
    then show ?thesis using m take_front_ok [OF m(1,3)] by auto
  qed
qed

lemma free_socket_fields [simp]:
  "length (pl_connections (free_socket i p)) = length (pl_connections p)"
  "pl_freeConnections (free_socket i p) = pl_freeConnections p" "busy (free_socket i p) = busy p"
  by (simp_all add: free_socket_def Let_def busy_def)

lemma pool_inv_free_socket: "pool_inv p \<Longrightarrow> pool_inv (free_socket i p)"
proof -
  assume "pool_inv p"
  then have "pool_inv (p\<lparr>pl_innerSockets := S\<rparr>)" for S by (simp add: pool_inv_def)
  then show ?thesis by (simp add: free_socket_def Let_def pool_inv_map_conn links_def)
qed

lemma free_finish_ok:
  assumes "pool_inv p" and "i \<in> busy p"
  shows "pool_inv (free_finish i p) \<and> busy (free_finish i p) = busy p - {i}"
proof -
  let ?q = "connection_reset False i (map_conn i (\<lambda>c. c\<lparr>cn_handlerCleanups := []\<rparr>) p)"
  have "pool_inv ?q" using assms(1) by (simp add: pool_inv_reset pool_inv_map_conn links_def)
  then have "pool_inv (?q\<lparr>pl_freeConnections := i # pl_freeConnections ?q\<rparr>)"
    using assms(2) by (auto simp: pool_inv_def busy_def)
  then show ?thesis by (auto simp: free_finish_def Let_def busy_def)
qed

section \<open>One owner at a time\<close>

text \<open>
  What the users of a pool rely on: an object that is handed out was not in use, giving one back
  ends its use, and nothing else changes who uses what.
\<close>

locale object_pool =
  fixes inv :: "'p \<Rightarrow> bool" and in_use :: "'p \<Rightarrow> nat set"
    and alloc :: "'a \<Rightarrow> 'p \<Rightarrow> (nat option \<times> 'p) res" and release :: "nat \<Rightarrow> 'p \<Rightarrow> 'p"
  assumes alloc_ok: "inv p \<Longrightarrow> alloc a p = Inr (r, p') \<Longrightarrow>
      inv p' \<and> (case r of None \<Rightarrow> in_use p' = in_use p | Some i \<Rightarrow> i \<notin> in_use p \<and> in_use p' = insert i (in_use p))"
    and release_ok: "inv p \<Longrightarrow> i \<in> in_use p \<Longrightarrow> inv (release i p) \<and> in_use (release i p) = in_use p - {i}"
begin

lemma alloc_release:
  assumes "inv p" and "alloc a p = Inr (Some i, p')"
  shows "in_use (release i p') = in_use p \<and> inv (release i p')"
  using alloc_ok [OF assms] release_ok [of p' i] by auto

text \<open>A user that takes objects and gives back the \<open>k\<close>-th it holds; \<open>held\<close> are the objects it holds.\<close>

fun run :: "('a + nat) list \<Rightarrow> nat list \<Rightarrow> 'p \<Rightarrow> (nat list \<times> 'p) res" where
  "run [] held p = Inr (held, p)"
| "run (Inl a # xs) held p =
     bindr (alloc a p) (\<lambda>(r, p). run xs (case r of None \<Rightarrow> held | Some i \<Rightarrow> i # held) p)"
| "run (Inr k # xs) held p =
     (if k < length held then run xs (take k held @ drop (Suc k) held) (release (held ! k) p) else run xs held p)"

lemma set_drop_nth:
  "distinct xs \<Longrightarrow> k < length xs \<Longrightarrow> set (take k xs @ drop (Suc k) xs) = set xs - {xs ! k} \<and> distinct (take k xs @ drop (Suc k) xs)"
proof -
  assume d: "distinct xs" and k: "k < length xs"
  define a where "a = take k xs"
  define b where "b = drop (Suc k) xs"
  have "xs = a @ xs ! k # b" unfolding a_def b_def using k by (rule id_take_nth_drop)
  then obtain x where x: "xs = a @ x # b" "xs ! k = x" by blast
  have "distinct (a @ x # b)" using d x(1) by simp
  then show ?thesis unfolding x(2) a_def [symmetric] b_def [symmetric] unfolding x(1) by auto
qed

lemma run_exclusive:
  "run xs held p = Inr (held', p') \<Longrightarrow> inv p \<Longrightarrow> distinct held \<Longrightarrow> set held = in_use p \<Longrightarrow>
   inv p' \<and> distinct held' \<and> set held' = in_use p'"
proof (induction xs held p rule: run.induct)
  case (1 held p)
  then show ?case by simp
next
  case (2 a xs held p)
  then obtain r q where q: "alloc a p = Inr (r, q)" "run xs (case r of None \<Rightarrow> held | Some i \<Rightarrow> i # held) q = Inr (held', p')"
    by (auto simp: bindr_eq_Inr_conv)
  from alloc_ok [OF "2.prems"(2) q(1)] "2.IH" [OF q(2)] "2.prems" show ?case
    by (cases r) auto
next
  case (3 k xs held p)
  show ?case
  proof (cases "k < length held")
    case True
    have "inv (release (held ! k) p) \<and> in_use (release (held ! k) p) = in_use p - {held ! k}"
      using release_ok [OF "3.prems"(2)] "3.prems"(4) True nth_mem by blast
    with "3.IH"(1) [OF True] "3.prems" True set_drop_nth [OF "3.prems"(3) True] show ?thesis by simp
  next
    case False
    with "3.IH"(2) [OF False] "3.prems" show ?thesis by simp
  qed
qed

end

datatype take_request = ByAddress string "16 word" bool nat | ByFd int "(string \<times> 16 word) option" nat

fun take_connection :: "take_request \<Rightarrow> CoConnectionPool \<times> sys \<Rightarrow> (nat option \<times> CoConnectionPool \<times> sys) res" where
  "take_connection (ByAddress ip port listen now) (p, s) = get_connection_ip ip port listen now p s"
| "take_connection (ByFd fd peer now) (p, s) = get_connection_fd fd peer now p s"

text \<open>\<open>free_connection\<close> of a connection without cleanup functions.\<close>

definition give_connection :: "nat \<Rightarrow> CoConnectionPool \<times> sys \<Rightarrow> CoConnectionPool \<times> sys" where
  "give_connection i ps = (free_finish i (free_socket i (fst ps)), snd ps)"

interpretation cp: object_pool "\<lambda>ps. pool_inv (fst ps)" "\<lambda>ps. busy (fst ps)" take_connection give_connection
proof
  fix ps ps' :: "CoConnectionPool \<times> sys" and a r
  assume inv: "pool_inv (fst ps)" and t: "take_connection a ps = Inr (r, ps')"
  obtain p s p' s' where ps: "ps = (p, s)" "ps' = (p', s')" by fastforce
  have inv': "pool_inv p" using inv ps by simp
  show "pool_inv (fst ps') \<and> (case r of None \<Rightarrow> busy (fst ps') = busy (fst ps)
      | Some i \<Rightarrow> i \<notin> busy (fst ps) \<and> busy (fst ps') = insert i (busy (fst ps)))"
  proof (cases a)
    case (ByAddress ip port listen now)
    with t ps have "get_connection_ip ip port listen now p s = Inr (r, p', s')" by simp
    from get_connection_ip_ok [OF inv' this] show ?thesis unfolding ps fst_conv .
  next
    case (ByFd fd peer now)
    with t ps have "get_connection_fd fd peer now p s = Inr (r, p', s')" by simp
    from get_connection_fd_ok [OF inv' this] show ?thesis unfolding ps fst_conv .
  qed
next
  fix ps :: "CoConnectionPool \<times> sys" and i
  assume "pool_inv (fst ps)" and "i \<in> busy (fst ps)"
  then show "pool_inv (fst (give_connection i ps)) \<and> busy (fst (give_connection i ps)) = busy (fst ps) - {i}"
    using free_finish_ok [of "free_socket i (fst ps)" i] by (simp add: give_connection_def pool_inv_free_socket)
qed

lemma pool_init_ok:
  assumes "pool_init mn mx new_pool = Inr (ret, p)"
  shows "pool_inv p \<and> busy p = {}"
proof -
  have "pool_inv (new_pool\<lparr>pl_minConnectionSize := a, pl_maxConnectionSize := b\<rparr>)" for a b
    by (simp add: pool_inv_def new_pool_def)
  moreover have "busy (new_pool\<lparr>pl_minConnectionSize := a, pl_maxConnectionSize := b\<rparr>) = {}" for a b
    by (auto simp: busy_def new_pool_def dest: odd_pos)
  ultimately show ?thesis
    using assms expand_connections_ok unfolding pool_init_def Let_def by (fastforce simp: bindr_eq_Inr_conv)
qed

text \<open>C6: A connection has one owner: in any sequence of \<open>get_connection\<close> (both kinds, whatever the kernel answers)
  and \<open>free_connection\<close> on a new pool, the connections handed out and not yet given back are
  pairwise different, they are exactly the ones that are not free, and the pool keeps its layout
  of ids and block connections.\<close>

theorem connections_have_one_owner:
  assumes "pool_init mn mx new_pool = Inr (ret, p)" and "cp.run xs [] (p, s) = Inr (held, p', s')"
  shows "pool_inv p' \<and> distinct held \<and> set held = busy p'"
  using cp.run_exclusive [OF assms(2)] pool_init_ok [OF assms(1)] by auto

definition small_pool :: CoConnectionPool where
  "small_pool = expand_loop 0 4 (new_pool\<lparr>pl_minConnectionSize := 4, pl_maxConnectionSize := 4, pl_curConnectionSize := 4\<rparr>)"

lemma small_pool_init: "pool_init 1 1 new_pool = Inr (CO_OK, small_pool)"
  by (simp add: pool_init_def expand_connections_def new_pool_def small_pool_def MIN_CONNECTION_SIZE_def
      MAX_CONNECTION_SIZE_def i32_def in_i32_def)

lemma small_pool_free: "pl_freeConnections small_pool = [1, 3, 5, 7]" "length (pl_connections small_pool) = 8"
  by (simp_all add: small_pool_def new_pool_def new_pair_def numeral_eq_Suc)

lemma small_pool_connections: "pl_connections small_pool = new_pair 0 @ new_pair 2 @ new_pair 4 @ new_pair 6"
  by (simp add: small_pool_def new_pool_def numeral_eq_Suc)

lemma take_connection_fd_simp:
  assumes "pl_freeConnections p = i # js"
  shows "\<exists>q. take_connection (ByFd fd peer now) (p, (0, e) # s) = Inr (Some i, q, s)
    \<and> pl_freeConnections q = js \<and> length (pl_connections q) = length (pl_connections p)"
  using assms by (simp add: get_connection_fd_def ensure_free_def init_client_socketfd_def set_nonblock_def take_front_def Let_def)

theorem connections_have_one_owner_witness:
  "\<exists>p' s'. cp.run [Inl (ByFd 9 None 50), Inl (ByFd 11 None 60), Inr 1] [] (small_pool, [(0, 0), (0, 0)]) = Inr ([3], p', s')
    \<and> pool_inv p' \<and> busy p' = {3}"
proof -
  obtain p1 where 1: "take_connection (ByFd 9 None 50) (small_pool, [(0, 0), (0, 0)]) = Inr (Some 1, p1, [(0, 0)])"
    "pl_freeConnections p1 = [3, 5, 7]"
    using take_connection_fd_simp [OF small_pool_free(1)] by blast
  obtain p2 where 2: "take_connection (ByFd 11 None 60) (p1, [(0, 0)]) = Inr (Some 3, p2, [])"
    using take_connection_fd_simp [OF 1(2)] by blast
  obtain p' s' where g: "give_connection 1 (p2, []) = (p', s')" by fastforce
  have r: "cp.run [Inl (ByFd 9 None 50), Inl (ByFd 11 None 60), Inr 1] [] (small_pool, [(0, 0), (0, 0)]) = Inr ([3], p', s')"
    using 1 2 g by simp
  from connections_have_one_owner [OF small_pool_init r] r show ?thesis by auto
qed

section \<open>A failed get\<close>

text \<open>When the accepted descriptor \<open>fd\<close> cannot be made non-blocking, \<open>get_connection(fd)\<close> returns NULL but
  leaves the descriptor in the free connection: the next \<open>get_connection(ip, port)\<close> finds a socket
  there and hands out a connection for the new address on the descriptor of the old client,
  without asking the kernel for a socket.\<close>

theorem failed_get_leaks_socket:
  assumes "pool_inv p" and "pl_freeConnections p = i # js" and "0 < fd" and "r \<noteq> 0"
  shows "\<exists>p1. get_connection_fd fd peer now p ((r, e) # s) = Inr (None, p1, s)
    \<and> (\<exists>p2. get_connection_ip ip port False now' p1 ((0, e') # s') = Inr (Some i, p2, s')
        \<and> tc_socketfd (cn_coTcp (get_connection_accord_id i p2)) = fd
        \<and> tc_ip (cn_coTcp (get_connection_accord_id i p2)) = ip)"
proof -
  have i: "0 < i" "i \<le> length (pl_connections p)" using assms(1,2) by (auto simp: pool_inv_def dest: odd_pos)
  obtain t where t: "init_client_socketfd fd peer True (cn_coTcp (get_connection_accord_id i p)) = (CO_OK, t)" "tc_socketfd t = fd"
    by (auto simp: init_client_socketfd_def Let_def split: option.split)
  let ?p1 = "map_conn i (\<lambda>c. c\<lparr>cn_coTcp := t\<rparr>) p"
  have 1: "get_connection_fd fd peer now p ((r, e) # s) = Inr (None, ?p1, s)"
    using assms(2,4) t by (simp add: get_connection_fd_def ensure_free_def set_nonblock_def)
  have c: "cn_coTcp (get_connection_accord_id i ?p1) = t" using i by (simp add: get_map_conn_same)
  let ?t = "t\<lparr>tc_ip := ip, tc_port := port, tc_ipport := make_ipport ip port\<rparr>"
  have n: "init_ipport ip port t sy = (CO_OK, ?t, sy)" for sy using t(2) assms(3) by (simp add: init_ipport_def)
  let ?p2 = "take_front now' (tc_socketfd ?t) (map_conn i (\<lambda>c. c\<lparr>cn_coTcp := ?t\<rparr>) ?p1)"
  have 2: "get_connection_ip ip port False now' ?p1 ((0, e') # s') = Inr (Some i, ?p2, s')"
    using assms(2) c n by (simp add: get_connection_ip_def ensure_free_def set_nonblock_def)
  have "cn_coTcp (get_connection_accord_id i ?p2) = ?t"
    using i assms(2) by (simp add: take_front_def map_conn_def get_connection_accord_id_def)
  with 1 2 t(2) show ?thesis by auto
qed

theorem failed_get_leaks_socket_witness:
  "\<exists>p1. get_connection_fd 9 None 50 small_pool [(- 1, EINTR)] = Inr (None, p1, [])
    \<and> (\<exists>p2. get_connection_ip ''10.0.0.1'' 80 False 60 p1 [(0, 0)] = Inr (Some 1, p2, [])
        \<and> tc_socketfd (cn_coTcp (get_connection_accord_id 1 p2)) = 9
        \<and> tc_ip (cn_coTcp (get_connection_accord_id 1 p2)) = ''10.0.0.1'')"
proof -
  have "pool_inv small_pool" using pool_init_ok [OF small_pool_init] by blast
  from failed_get_leaks_socket [OF this small_pool_free(1), of 9 "- 1"] show ?thesis by simp
qed

end
