(* ===== verification/Http_Message.thy ===== *)
theory Http_Message
  imports Common "HOL-Library.AList"
begin

text \<open>
  \<^verbatim>\<open>protocol/co_protocol_http.h\<close>, \<^verbatim>\<open>protocol/co_protocol_http.cpp\<close>: the HTTP message classes
  and the line parsers. \<open>CoProtocolHttp\<close> is a record, \<open>CoHTTPRequest\<close> and
  \<open>CoHTTPResponse\<close> extend it, as the classes inherit. An \<open>unordered_map\<close> is an association
  list without duplicate keys, whose order stands for the container's iteration order. A
  parser gets the bytes \<open>(buffer, len)\<close> as a list of length \<open>len\<close>. The parsers copy one
  line, NUL-terminated, and work on it as a C string; a null pointer given to
  \<open>std::string\<close> and a negative \<open>reserve\<close> are faults.
\<close>

section \<open>Messages\<close>

datatype parse_status = eStartLine | eHeader | eContent | eCompleted | eError

fun status_code :: "parse_status \<Rightarrow> int" where
  "status_code eStartLine = 0"
| "status_code eHeader = 1"
| "status_code eContent = 2"
| "status_code eCompleted = 3"
| "status_code eError = 4"

lemma status_code_inject [simp]: "status_code a = status_code b \<longleftrightarrow> a = b"
  by (cases a; cases b) simp_all

instantiation parse_status :: linorder
begin

definition less_eq_parse_status :: "parse_status \<Rightarrow> parse_status \<Rightarrow> bool" where
  "less_eq_parse_status a b \<longleftrightarrow> status_code a \<le> status_code b"

definition less_parse_status :: "parse_status \<Rightarrow> parse_status \<Rightarrow> bool" where
  "less_parse_status a b \<longleftrightarrow> status_code a < status_code b"

instance
  by standard (auto simp: less_eq_parse_status_def less_parse_status_def)

end

type_synonym headers = "(string \<times> string) list"

record CoProtocolHttp =
  m_status :: int
  m_parseStatus :: parse_status
  m_contentRemain :: int
  m_contentChunked :: int
  m_version :: string
  m_contentLength :: int
  m_content :: string
  m_headers :: headers

record CoHTTPRequest = CoProtocolHttp +
  m_uri :: string
  m_url :: string
  m_method :: string
  m_params :: headers

record CoHTTPResponse = CoProtocolHttp +
  m_statuscode :: int
  m_reasonPhrase :: string

definition HEADER_CONTENT_LENGTH :: string where "HEADER_CONTENT_LENGTH = ''Content-Length''"
definition HEADER_SERVER :: string where "HEADER_SERVER = ''Server''"
definition HEADER_HOST :: string where "HEADER_HOST = ''Host''"
definition HEADER_TRANSFER_ENCODING :: string where
  "HEADER_TRANSFER_ENCODING = ''Transfer-Encoding''"

definition new_request :: CoHTTPRequest where
  "new_request = \<lparr>m_status = 0, m_parseStatus = eStartLine, m_contentRemain = 0,
     m_contentChunked = 0, m_version = ''HTTP/1.1'', m_contentLength = 0, m_content = [],
     m_headers = [], m_uri = [], m_url = [], m_method = [], m_params = []\<rparr>"

definition new_response :: CoHTTPResponse where
  "new_response = \<lparr>m_status = 0, m_parseStatus = eStartLine, m_contentRemain = 0,
     m_contentChunked = 0, m_version = ''HTTP/1.1'', m_contentLength = 0, m_content = [],
     m_headers = [], m_statuscode = 200, m_reasonPhrase = []\<rparr>"

section \<open>Accessors\<close>

definition set_msgstatus :: "int \<Rightarrow> 'a CoProtocolHttp_scheme \<Rightarrow> 'a CoProtocolHttp_scheme" where
  "set_msgstatus status m = m\<lparr>m_status := status\<rparr>"

definition add_header :: "string \<Rightarrow> string \<Rightarrow> 'a CoProtocolHttp_scheme \<Rightarrow> 'a CoProtocolHttp_scheme" where
  "add_header name val m = m\<lparr>m_headers := AList.update name val (m_headers m)\<rparr>"

definition remove_header :: "string \<Rightarrow> 'a CoProtocolHttp_scheme \<Rightarrow> int \<times> 'a CoProtocolHttp_scheme" where
  "remove_header name m =
     (case map_of (m_headers m) name of
        None \<Rightarrow> (0, m)
      | Some _ \<Rightarrow> (1, m\<lparr>m_headers := AList.delete name (m_headers m)\<rparr>))"

definition get_headervalue :: "string \<Rightarrow> 'a CoProtocolHttp_scheme \<Rightarrow> string" where
  "get_headervalue name m = (case map_of (m_headers m) name of None \<Rightarrow> [] | Some v \<Rightarrow> v)"

text \<open>
  \<open>append_content(const void*, int32_t)\<close>: a negative length converted to \<open>size_t\<close> makes
  \<open>std::string::append\<close> throw. \<open>append_content(const std::string &)\<close> adds an
  \<open>int32_t\<close> and a \<open>size_t\<close> and converts back.
\<close>

definition append_content :: "string \<Rightarrow> int \<Rightarrow> 'a CoProtocolHttp_scheme \<Rightarrow> 'a CoProtocolHttp_scheme res" where
  "append_content content len m =
     (if len < 0 then Inl LengthError
      else if int (length content) < len then Inl OutOfBounds
      else bindr (i32 (m_contentLength m + len))
             (\<lambda>n. Inr (m\<lparr>m_content := m_content m @ take (nat len) content,
                         m_contentLength := n\<rparr>)))"

definition append_content_str :: "string \<Rightarrow> 'a CoProtocolHttp_scheme \<Rightarrow> 'a CoProtocolHttp_scheme" where
  "append_content_str content m =
     m\<lparr>m_content := m_content m @ content,
       m_contentLength := wrap32 (m_contentLength m + int (length content))\<rparr>"

definition set_msgbody :: "string \<Rightarrow> 'a CoProtocolHttp_scheme \<Rightarrow> 'a CoProtocolHttp_scheme" where
  "set_msgbody body m = m\<lparr>m_content := body, m_contentLength := wrap32 (int (length body))\<rparr>"

definition set_version :: "string option \<Rightarrow> 'a CoProtocolHttp_scheme \<Rightarrow> 'a CoProtocolHttp_scheme res" where
  "set_version version m =
     (case version of None \<Rightarrow> Inl NullPointer | Some v \<Rightarrow> Inr (m\<lparr>m_version := v\<rparr>))"

text \<open>\<open>reserve\<close> of a negative \<open>int32_t\<close> is a huge \<open>size_t\<close>: \<open>std::length_error\<close>.\<close>

definition reserve_contentlength :: "int \<Rightarrow> 'a CoProtocolHttp_scheme \<Rightarrow> 'a CoProtocolHttp_scheme res" where
  "reserve_contentlength contentLength m = (if contentLength < 0 then Inl LengthError else Inr m)"

definition add_param :: "string \<Rightarrow> string \<Rightarrow> CoHTTPRequest \<Rightarrow> CoHTTPRequest" where
  "add_param name val m = m\<lparr>m_params := AList.update name val (m_params m)\<rparr>"

definition remove_param :: "string \<Rightarrow> CoHTTPRequest \<Rightarrow> int \<times> CoHTTPRequest" where
  "remove_param name m =
     (case map_of (m_params m) name of
        None \<Rightarrow> (0, m)
      | Some _ \<Rightarrow> (1, m\<lparr>m_params := AList.delete name (m_params m)\<rparr>))"

definition get_paramvalue :: "string \<Rightarrow> CoHTTPRequest \<Rightarrow> string" where
  "get_paramvalue name m = (case map_of (m_params m) name of None \<Rightarrow> [] | Some v \<Rightarrow> v)"

definition set_reasonphrase :: "string option \<Rightarrow> CoHTTPResponse \<Rightarrow> CoHTTPResponse res" where
  "set_reasonphrase phrase m =
     (case phrase of None \<Rightarrow> Inl NullPointer | Some p \<Rightarrow> Inr (m\<lparr>m_reasonPhrase := p\<rparr>))"

text \<open>What a user's function fills in; the getters are the fields.\<close>

definition set_method :: "string \<Rightarrow> CoHTTPRequest \<Rightarrow> CoHTTPRequest" where
  "set_method method m = m\<lparr>m_method := method\<rparr>"

definition set_uri :: "string \<Rightarrow> CoHTTPRequest \<Rightarrow> CoHTTPRequest" where
  "set_uri uri m = m\<lparr>m_uri := uri\<rparr>"

definition set_url :: "string \<Rightarrow> CoHTTPRequest \<Rightarrow> CoHTTPRequest" where
  "set_url url m = m\<lparr>m_url := url\<rparr>"

definition set_statuscode :: "int \<Rightarrow> CoHTTPResponse \<Rightarrow> CoHTTPResponse" where
  "set_statuscode statusCode m = m\<lparr>m_statuscode := statusCode\<rparr>"

section \<open>The parsers\<close>

text \<open>
  \<open>hasStrsep(&s, del)\<close>: the token in front of the delimiter and the new value of \<open>s\<close>
  (behind the delimiter, or NULL when there is none).
\<close>

definition hasStrsep :: "string option \<Rightarrow> string \<Rightarrow> string option \<times> string option" where
  "hasStrsep s del =
     (case s of
        None \<Rightarrow> (None, None)
      | Some t \<Rightarrow> (case strstr del t of
                    None \<Rightarrow> (Some t, None)
                  | Some (tok, rest) \<Rightarrow> (Some tok, Some rest)))"

text \<open>\<open>strncasecmp(s, t, n) == 0\<close>.\<close>

definition c_tolower :: "char \<Rightarrow> char" where
  "c_tolower c = (if (65::nat) \<le> of_char c \<and> of_char c \<le> (90::nat) then char_of (of_char c + 32 :: nat) else c)"

definition strncaseeq :: "string \<Rightarrow> string \<Rightarrow> nat \<Rightarrow> bool" where
  "strncaseeq s t n \<longleftrightarrow> map c_tolower (take n s) = map c_tolower (take n t)"

text \<open>
  The line of \<open>parse_startline\<close> and \<open>parse_header\<close>: the bytes up to the first LF, inclusive,
  with their number; the copy that is parsed ends at its first NUL.
\<close>

definition get_line :: "string \<Rightarrow> (nat \<times> string) option" where
  "get_line buf = map_option (\<lambda>p. (p + 1, cstr (take (p + 1) buf))) (memchr LF buf)"

definition parse_startline_resp :: "CoHTTPResponse \<Rightarrow> string \<Rightarrow> (int \<times> CoHTTPResponse) res" where
  "parse_startline_resp m buf =
     (case get_line buf of
        None \<Rightarrow> Inr (0, m)
      | Some (lineLen, line) \<Rightarrow>
          let (first, pos) = hasStrsep (Some line) '' '';
              (second, pos) = hasStrsep pos '' ''
          in if \<not> strncaseeq (case first of None \<Rightarrow> [] | Some f \<Rightarrow> f) ''HTTP'' 4 then Inr (- 1, m)
             else bindr (case first of None \<Rightarrow> Inr m | Some f \<Rightarrow> set_version (Some f) m)
               (\<lambda>m. let m = (case second of None \<Rightarrow> m | Some s \<Rightarrow> m\<lparr>m_statuscode := c_atoi s\<rparr>)
                    in bindr (case pos of None \<Rightarrow> Inr m
                              | Some p \<Rightarrow> set_reasonphrase (strtok p crlf) m)
                         (\<lambda>m. Inr (int lineLen, m))))"

text \<open>The parameter loop: \<open>for (; NULL != params && '\0' != *params;)\<close>.\<close>

function parse_params :: "string option \<Rightarrow> CoHTTPRequest \<Rightarrow> CoHTTPRequest" where
  "parse_params params m =
     (case params of
        None \<Rightarrow> m
      | Some p \<Rightarrow>
          if p = [] then m
          else let (val, params') = hasStrsep (Some p) ''&'';
                   (name, val) = hasStrsep val ''=''
               in parse_params params'
                    (case name of None \<Rightarrow> m
                     | Some n \<Rightarrow> add_param n (case val of None \<Rightarrow> [] | Some v \<Rightarrow> v) m))"
  by pat_completeness auto
termination
proof (relation "measure (\<lambda>(params, m). case params of None \<Rightarrow> 0 | Some p \<Rightarrow> Suc (length p))", goal_cases)
  case 1
  show ?case by simp
next
  case (2 params m p x val params' y name val')
  then show ?case
    by (auto simp: hasStrsep_def split: option.splits dest: strstr_length)
qed

declare parse_params.simps [simp del]

definition parse_startline_req :: "CoHTTPRequest \<Rightarrow> string \<Rightarrow> (int \<times> CoHTTPRequest) res" where
  "parse_startline_req m buf =
     (case get_line buf of
        None \<Rightarrow> Inr (0, m)
      | Some (lineLen, line) \<Rightarrow>
          let (first, pos) = hasStrsep (Some line) '' '';
              (second, pos) = hasStrsep pos '' '';
              m = (case first of None \<Rightarrow> m | Some f \<Rightarrow> m\<lparr>m_method := f\<rparr>);
              m = (case second of None \<Rightarrow> m | Some s \<Rightarrow> m\<lparr>m_url := s\<rparr>);
              (uri, params) = hasStrsep second ''?'';
              m = (case uri of None \<Rightarrow> m | Some u \<Rightarrow> m\<lparr>m_uri := u\<rparr>)
          in bindr (case pos of None \<Rightarrow> Inr m | Some p \<Rightarrow> set_version (strtok p crlf) m)
               (\<lambda>m. Inr (int lineLen, parse_params params m)))"

definition parse_header :: "'a CoProtocolHttp_scheme \<Rightarrow> string \<Rightarrow> nat \<times> 'a CoProtocolHttp_scheme" where
  "parse_header m buf =
     (case get_line buf of
        None \<Rightarrow> (0, m)
      | Some (lineLen, line) \<Rightarrow>
          let (name, pos) = hasStrsep (Some line) '':''
          in (lineLen,
              case (name, pos) of
                (Some n, Some p) \<Rightarrow>
                  (case strtok p crlf of None \<Rightarrow> m | Some v \<Rightarrow> add_header n (skip_spaces v) m)
              | _ \<Rightarrow> m))"

definition parse_content :: "'a CoProtocolHttp_scheme \<Rightarrow> string \<Rightarrow> (int \<times> 'a CoProtocolHttp_scheme) res" where
  "parse_content m buf =
     (let len = int (length buf)
      in bindr
           (if m_contentRemain m > 0
            then let parsedLen = (if len > m_contentRemain m then m_contentRemain m else len)
                 in bindr (append_content buf parsedLen m)
                      (\<lambda>m. Inr (parsedLen, m\<lparr>m_contentRemain := m_contentRemain m - parsedLen\<rparr>))
            else Inr (0, m))
           (\<lambda>(parsedLen, m).
              Inr (parsedLen, if m_contentRemain m \<le> 0 then m\<lparr>m_parseStatus := eCompleted\<rparr> else m)))"

section \<open>Chunked content\<close>

text \<open>One digit: \<open>'0'..'9'\<close>, or \<open>ch | 0x20\<close> in \<open>'a'..'f'\<close>.\<close>

definition hex_val :: "char \<Rightarrow> int option" where
  "hex_val ch =
     (let n = of_char ch :: nat; c = n OR 32
      in if 48 \<le> n \<and> n \<le> 57 then Some (int n - 48)
         else if 97 \<le> c \<and> c \<le> 102 then Some (int c - 97 + 10) else None)"

text \<open>
  The size loop: \<open>Inr None\<close> is the \<open>return -1\<close> for a character that is no hex digit; an
  \<open>int32_t\<close> overflow is a fault.
\<close>

fun chunk_size_loop :: "int \<Rightarrow> string \<Rightarrow> int option res" where
  "chunk_size_loop chunkedSize [] = Inr (Some chunkedSize)"
| "chunk_size_loop chunkedSize (ch # s) =
     (case hex_val ch of
        None \<Rightarrow> Inr None
      | Some d \<Rightarrow> bindr (i32 (chunkedSize * 16 + d)) (\<lambda>n. chunk_size_loop n s))"

text \<open>
  One round of the loop: what stands in front of the data. \<open>ChunkShort\<close>: no LF yet;
  \<open>ChunkBad\<close>: \<open>return -1\<close>; \<open>ChunkAt headerLen size\<close>: the two lengths, the second with
  its CR LF.
\<close>

datatype chunk_header = ChunkShort | ChunkBad | ChunkAt int int

definition chunk_head :: "string \<Rightarrow> chunk_header res" where
  "chunk_head buf =
     (case memchr LF buf of
        None \<Rightarrow> Inr ChunkShort
      | Some p \<Rightarrow>
          if p = 0 \<or> buf ! (p - 1) \<noteq> CR then Inr ChunkBad
          else bindr (chunk_size_loop 0 (take (p - 1) buf))
                 (\<lambda>r. case r of
                        None \<Rightarrow> Inr ChunkBad
                      | Some chunkedSize \<Rightarrow>
                          bindr (i32 (chunkedSize + 2)) (\<lambda>n. Inr (ChunkAt (int p + 1) n))))"

function parse_chunks ::
  "'a CoProtocolHttp_scheme \<Rightarrow> string \<Rightarrow> nat \<Rightarrow> (int \<times> 'a CoProtocolHttp_scheme) res" where
  "parse_chunks m oribuffer parsedLen =
     (let buffer = drop parsedLen oribuffer; len = int (length buffer)
      in bindr (chunk_head buffer)
           (\<lambda>hd. case hd of
               ChunkShort \<Rightarrow> Inr (int parsedLen, m)
             | ChunkBad \<Rightarrow> Inr (- 1, m)
             | ChunkAt headerLen chunkedSize \<Rightarrow>
                 bindr (i32 (headerLen + chunkedSize))
                   (\<lambda>total.
                      if len < total then Inr (int parsedLen, m)
                      else if total \<le> 0 then Inl OutOfBounds
                      else if chunkedSize = 2
                      then Inr (int parsedLen + total, m\<lparr>m_parseStatus := eCompleted\<rparr>)
                      else bindr (append_content (drop (nat headerLen) buffer) (chunkedSize - 2) m)
                             (\<lambda>m. parse_chunks m oribuffer (parsedLen + nat total)))))"
  by pat_completeness auto
termination
  by (relation "measure (\<lambda>(m, b, p). length b - p)") auto

declare parse_chunks.simps [simp del]

definition parse_content_chunked ::
  "'a CoProtocolHttp_scheme \<Rightarrow> string \<Rightarrow> (int \<times> 'a CoProtocolHttp_scheme) res" where
  "parse_content_chunked m buf = parse_chunks m buf 0"

end
