(* ===== verification/Http_Codec.thy ===== *)
theory Http_Codec
  imports Buffer Http_Message
begin

text \<open>
  What \<^verbatim>\<open>co_protocol_http_server.cpp\<close> and \<^verbatim>\<open>co_protocol_http_client.cpp\<close> share: the
  protocol object (\<open>m_reqMsg\<close>, \<open>m_respMsg\<close>, the client address of \<open>CoProtocol\<close>), the
  header loop of \<open>decode\<close>, the end of \<open>decode\<close> on the buffer, and the lines \<open>encode\<close>
  writes. The lemmas describe the parsers on well-formed lines and show that the header loop
  depends on nothing in front of its position.
\<close>

definition HTTP_MAX_HEADER_LEN :: nat where "HTTP_MAX_HEADER_LEN = 8192"

record http_protocol =
  m_reqMsg :: CoHTTPRequest
  m_respMsg :: CoHTTPResponse
  m_clientIP :: string

definition new_http_protocol :: http_protocol where
  "new_http_protocol = \<lparr>m_reqMsg = new_request, m_respMsg = new_response, m_clientIP = []\<rparr>"

definition reset_reqmsg :: "http_protocol \<Rightarrow> http_protocol" where
  "reset_reqmsg p = p\<lparr>m_reqMsg := new_request\<rparr>"

definition reset_respmsg :: "http_protocol \<Rightarrow> http_protocol" where
  "reset_respmsg p = p\<lparr>m_respMsg := new_response\<rparr>"

definition set_clientip :: "string \<Rightarrow> http_protocol \<Rightarrow> http_protocol" where
  "set_clientip ip p = p\<lparr>m_clientIP := ip\<rparr>"

section \<open>The header loop\<close>

text \<open>
  \<open>for (headerLen = 1; status == eHeader && headerLen > 0 && parsedLen < len; parsedLen += headerLen)\<close>;
  \<open>blank\<close> is what the loop does after it has met a line that starts with CR or LF.
\<close>

function header_loop ::
  "('a CoProtocolHttp_scheme \<Rightarrow> 'a CoProtocolHttp_scheme res) \<Rightarrow> 'a CoProtocolHttp_scheme \<Rightarrow>
   string \<Rightarrow> nat \<Rightarrow> ('a CoProtocolHttp_scheme \<times> nat) res" where
  "header_loop blank m raw parsedLen =
     (if m_parseStatus m = eHeader \<and> parsedLen < length raw
      then let (headerLen, m1) = parse_header m (drop parsedLen raw); ch = raw ! parsedLen
           in bindr (if ch = CR \<or> ch = LF then blank (m1\<lparr>m_parseStatus := eContent\<rparr>) else Inr m1)
                (\<lambda>m2. if headerLen > 0 then header_loop blank m2 raw (parsedLen + headerLen)
                      else Inr (m2, parsedLen))
      else Inr (m, parsedLen))"
  by pat_completeness auto
termination
  by (relation "measure (\<lambda>(_, m, raw, p). length raw - p)") auto

declare header_loop.simps [simp del]

section \<open>Lines written by encode\<close>

text \<open>\<open>snprintf(buffer, 512, "%s: %s\r\n", name, value)\<close>; each \<open>%s\<close> stops at a NUL.\<close>

definition header_line :: "string \<times> string \<Rightarrow> string" where
  "header_line h = snprintf_text 512 (cstr (fst h) @ '': '' @ cstr (snd h) @ crlf)"

definition start_line :: "string \<Rightarrow> string \<Rightarrow> string \<Rightarrow> string" where
  "start_line a b c = snprintf_text 512 (cstr a @ '' '' @ cstr b @ '' '' @ cstr c @ crlf)"

section \<open>Well-formed text\<close>

definition is_text :: "string \<Rightarrow> bool" where
  "is_text s \<longleftrightarrow> NUL \<notin> set s \<and> CR \<notin> set s \<and> LF \<notin> set s"

definition is_token :: "string \<Rightarrow> bool" where
  "is_token s \<longleftrightarrow> is_text s \<and> CHR '' '' \<notin> set s"

definition ok_header :: "string \<times> string \<Rightarrow> bool" where
  "ok_header h \<longleftrightarrow> is_text (fst h) \<and> CHR '':'' \<notin> set (fst h) \<and> is_text (snd h)
     \<and> (case snd h of [] \<Rightarrow> True | c # _ \<Rightarrow> c \<noteq> CHR '' '')
     \<and> length (fst h) + length (snd h) + 4 < 512"

lemma is_text_no_nul: "is_text s \<Longrightarrow> no_nul s"
  by (simp add: is_text_def no_nul_def)

lemma is_text_append [simp]: "is_text (s @ t) \<longleftrightarrow> is_text s \<and> is_text t"
  by (auto simp: is_text_def)

lemma is_text_Nil [simp]: "is_text []"
  by (simp add: is_text_def)

lemma is_token_text: "is_token s \<Longrightarrow> is_text s"
  by (simp add: is_token_def)

lemma is_text_digits: "list_all is_digit s \<Longrightarrow> is_token s"
  by (auto simp: is_token_def is_text_def list_all_iff dest: is_digit_neq)

lemma header_line_ok:
  assumes "ok_header h"
  shows "header_line h = fst h @ '': '' @ snd h @ crlf"
proof -
  have "cstr (fst h) = fst h" "cstr (snd h) = snd h"
    using assms by (simp_all add: ok_header_def is_text_no_nul)
  then show ?thesis using assms by (simp add: header_line_def ok_header_def)
qed

lemma start_line_ok:
  assumes "is_text a" "is_text b" "is_text c" "length a + length b + length c + 4 < 512"
  shows "start_line a b c = a @ '' '' @ b @ '' '' @ c @ crlf"
  using assms by (simp add: start_line_def is_text_no_nul)

section \<open>Parsing one line\<close>

lemma get_line_text:
  assumes "is_text s"
  shows "get_line (s @ crlf @ rest) = Some (length s + 2, s @ crlf)"
proof -
  have eq: "s @ crlf @ rest = (s @ [CR]) @ LF # rest" by simp
  have "memchr LF (s @ crlf @ rest) = Some (length s + 1)"
    using memchr_append [of LF "s @ [CR]" rest] assms unfolding eq by (simp add: is_text_def)
  moreover have "cstr (s @ crlf) = s @ crlf" using assms by (simp add: is_text_no_nul)
  ultimately show ?thesis by (simp add: get_line_def)
qed

lemma get_line_None: "get_line buf = None \<longleftrightarrow> LF \<notin> set buf"
  by (simp add: get_line_def memchr_None)

lemma get_line_bounds: "get_line buf = Some (n, l) \<Longrightarrow> 0 < n \<and> n \<le> length buf"
  by (auto simp: get_line_def dest: memchr_Some_less)

lemma memchr_append_first: "memchr c s = Some n \<Longrightarrow> memchr c (s @ t) = Some n"
  by (induction s arbitrary: n) (auto split: if_splits)

lemma get_line_append:
  assumes "get_line buf = Some (n, l)"
  shows "get_line (buf @ x) = Some (n, l)"
proof -
  obtain z where z: "memchr LF buf = Some z" "n = z + 1" "l = cstr (take (z + 1) buf)"
    using assms by (auto simp: get_line_def)
  have "z + 1 \<le> length buf" using memchr_Some_less [OF z(1)] by simp
  then have tk: "take (z + 1) (buf @ x) = take (z + 1) buf" by simp
  show ?thesis unfolding get_line_def memchr_append_first [OF z(1)] option.map tk z(2,3) by simp
qed

lemma hasStrsep_found:
  "c \<notin> set s \<Longrightarrow> hasStrsep (Some (s @ c # t)) [c] = (Some s, Some t)"
  by (simp add: hasStrsep_def strstr_char_append)

lemma hasStrsep_not_found:
  "c \<notin> set s \<Longrightarrow> hasStrsep (Some s) [c] = (Some s, None)"
  using strstr_char_None [of c s] by (auto simp: hasStrsep_def)

lemma hasStrsep_None [simp]: "hasStrsep None del = (None, None)"
  by (simp add: hasStrsep_def)

lemma parse_header_ok:
  assumes "ok_header h"
  shows "parse_header m (header_line h @ rest)
     = (length (header_line h), add_header (fst h) (snd h) m)"
proof -
  note hl = header_line_ok [OF assms]
  have tx: "is_text (fst h @ '': '' @ snd h)" and nc: "CHR '':'' \<notin> set (fst h)"
    using assms by (auto simp: ok_header_def is_text_def)
  have line: "get_line (header_line h @ rest)
      = Some (length (header_line h), fst h @ CHR '':'' # ('' '' @ snd h) @ crlf)"
    using get_line_text [OF tx, of rest] by (simp add: hl)
  have sep: "hasStrsep (Some (fst h @ CHR '':'' # ('' '' @ snd h) @ crlf)) '':''
      = (Some (fst h), Some (('' '' @ snd h) @ crlf))"
    by (rule hasStrsep_found [OF nc])
  have "strtok (('' '' @ snd h) @ crlf) crlf = Some ('' '' @ snd h)"
    by (rule strtok_line) (use assms in \<open>auto simp: ok_header_def is_text_def\<close>)
  moreover have "skip_spaces ('' '' @ snd h) = snd h"
    using assms by (auto simp: skip_spaces_def ok_header_def split: list.splits)
  ultimately show ?thesis unfolding parse_header_def line option.case prod.case Let_def sep by simp
qed

lemma parse_header_crlf: "parse_header m (crlf @ rest) = (2, m)"
proof -
  have "get_line (crlf @ rest) = Some (2, crlf)" using get_line_text [of "[]" rest] by simp
  moreover have "hasStrsep (Some crlf) '':'' = (Some crlf, None)" by (rule hasStrsep_not_found) simp
  ultimately show ?thesis by (simp add: parse_header_def)
qed

lemma parse_header_status [simp]: "m_parseStatus (snd (parse_header m buf)) = m_parseStatus m"
  by (auto simp: parse_header_def add_header_def Let_def split: option.splits prod.splits)

lemma parse_header_content [simp]:
  "m_content (snd (parse_header m buf)) = m_content m"
  "m_contentLength (snd (parse_header m buf)) = m_contentLength m"
  by (auto simp: parse_header_def add_header_def Let_def split: option.splits prod.splits)

lemma parse_header_zero: "fst (parse_header m buf) = 0 \<longleftrightarrow> LF \<notin> set buf"
  using get_line_None [of buf] get_line_bounds [of buf]
  by (auto simp: parse_header_def Let_def split: option.splits prod.splits)

lemma parse_header_le: "fst (parse_header m buf) \<le> length buf"
  using get_line_bounds [of buf]
  by (auto simp: parse_header_def Let_def split: option.splits prod.splits)

lemma parse_header_append:
  "LF \<in> set buf \<Longrightarrow> parse_header m (buf @ x) = parse_header m buf"
  using get_line_None [of buf] get_line_append [of buf _ _ x]
  by (auto simp: parse_header_def split: option.splits)

lemma parse_header_none: "LF \<notin> set buf \<Longrightarrow> parse_header m buf = (0, m)"
  using get_line_None [of buf] by (simp add: parse_header_def)

section \<open>Lemmas on the header loop\<close>

lemma header_loop_stop: "m_parseStatus m \<noteq> eHeader \<Longrightarrow> header_loop blank m raw p = Inr (m, p)"
  by (subst header_loop.simps) simp

lemma header_loop_end: "length raw \<le> p \<Longrightarrow> header_loop blank m raw p = Inr (m, p)"
  by (subst header_loop.simps) simp

text \<open>The loop does not look at the bytes in front of its position.\<close>

lemma header_loop_shift:
  "header_loop blank m (pre @ raw) (length pre + p)
     = bindr (header_loop blank m raw p) (\<lambda>(m', n). Inr (m', length pre + n))"
proof (induction blank m raw p rule: header_loop.induct)
  case (1 blank m raw p)
  show ?case
  proof (cases "m_parseStatus m = eHeader \<and> p < length raw")
    case False
    then show ?thesis
      by (auto simp: header_loop.simps [of blank m "pre @ raw"] header_loop.simps [of blank m raw])
  next
    case True
    obtain n m1 where ph: "parse_header m (drop p raw) = (n, m1)" by fastforce
    have ch: "(pre @ raw) ! (length pre + p) = raw ! p" by simp
    let ?blk = "if raw ! p = CR \<or> raw ! p = LF then blank (m1\<lparr>m_parseStatus := eContent\<rparr>) else Inr m1"
    show ?thesis
    proof (cases ?blk)
      case (Inl e)
      then show ?thesis using True ph ch
        by (simp add: header_loop.simps [of blank m "pre @ raw"] header_loop.simps [of blank m raw])
    next
      case (Inr m2)
      have IH: "header_loop blank m2 (pre @ raw) (length pre + (p + n))
          = bindr (header_loop blank m2 raw (p + n)) (\<lambda>(m', k). Inr (m', length pre + k))" if "0 < n"
        using "1.IH" [OF True ph [symmetric] refl refl that] .
      show ?thesis using True ph ch Inr IH
        by (simp add: header_loop.simps [of blank m "pre @ raw"] header_loop.simps [of blank m raw] add.assoc)
    qed
  qed
qed

lemma header_loop_step:
  assumes "m_parseStatus m = eHeader" and "ok_header h" and "header_line h \<noteq> []"
  shows "header_loop blank m (header_line h @ rest) 0
     = bindr (header_loop blank (add_header (fst h) (snd h) m) rest 0)
         (\<lambda>(m', n). Inr (m', length (header_line h) + n))"
proof -
  have nz: "0 < length (header_line h)" using assms(3) by simp
  have first: "(header_line h @ rest) ! 0 \<noteq> CR \<and> (header_line h @ rest) ! 0 \<noteq> LF"
  proof (cases "fst h")
    case Nil
    then show ?thesis using header_line_ok [OF assms(2)] by simp
  next
    case (Cons c s)
    then show ?thesis using header_line_ok [OF assms(2)] assms(2) by (auto simp: ok_header_def is_text_def)
  qed
  have "header_loop blank m (header_line h @ rest) 0
      = header_loop blank (add_header (fst h) (snd h) m) (header_line h @ rest) (length (header_line h) + 0)"
    using assms(1) nz first parse_header_ok [OF assms(2), of m rest]
    by (subst header_loop.simps) simp
  then show ?thesis by (simp only: header_loop_shift)
qed

definition add_headers :: "headers \<Rightarrow> 'a CoProtocolHttp_scheme \<Rightarrow> 'a CoProtocolHttp_scheme" where
  "add_headers hs m = fold (\<lambda>h. add_header (fst h) (snd h)) hs m"

lemma add_headers_simps [simp]:
  "add_headers [] m = m"
  "add_headers (h # hs) m = add_headers hs (add_header (fst h) (snd h) m)"
  by (simp_all add: add_headers_def)

lemma add_header_fields [simp]:
  "m_parseStatus (add_header n v m) = m_parseStatus m"
  "m_content (add_header n v m) = m_content m"
  "m_contentLength (add_header n v m) = m_contentLength m"
  "m_contentRemain (add_header n v m) = m_contentRemain m"
  "m_contentChunked (add_header n v m) = m_contentChunked m"
  "m_version (add_header n v m) = m_version m"
  "m_headers (add_header n v m) = AList.update n v (m_headers m)"
  by (simp_all add: add_header_def)

lemma add_header_req [simp]:
  "m_method (add_header n v r) = m_method r" "m_url (add_header n v r) = m_url r"
  "m_uri (add_header n v r) = m_uri r" "m_params (add_header n v r) = m_params r"
  for r :: CoHTTPRequest
  by (simp_all add: add_header_def)

lemma add_headers_fields [simp]:
  "m_parseStatus (add_headers hs m) = m_parseStatus m"
  "m_content (add_headers hs m) = m_content m"
  "m_contentLength (add_headers hs m) = m_contentLength m"
  "m_contentRemain (add_headers hs m) = m_contentRemain m"
  "m_contentChunked (add_headers hs m) = m_contentChunked m"
  "m_version (add_headers hs m) = m_version m"
  by (induction hs arbitrary: m) simp_all

lemma add_headers_set_status:
  "add_headers hs (m\<lparr>m_parseStatus := s\<rparr>) = (add_headers hs m)\<lparr>m_parseStatus := s\<rparr>"
proof (induction hs arbitrary: m)
  case (Cons h hs)
  have "add_header n v (m\<lparr>m_parseStatus := s\<rparr>) = (add_header n v m)\<lparr>m_parseStatus := s\<rparr>" for n v
    by (simp add: add_header_def)
  then show ?case by (simp add: Cons.IH)
qed simp

lemma add_headers_req [simp]:
  "m_method (add_headers hs r) = m_method r" "m_url (add_headers hs r) = m_url r"
  "m_uri (add_headers hs r) = m_uri r" "m_params (add_headers hs r) = m_params r"
  for r :: CoHTTPRequest
  by (induction hs arbitrary: r) simp_all

lemma add_headers_resp [simp]:
  "m_statuscode (add_headers hs r) = m_statuscode r"
  "m_reasonPhrase (add_headers hs r) = m_reasonPhrase r"
  for r :: CoHTTPResponse
  by (induction hs arbitrary: r) (simp_all add: add_header_def)

lemma map_of_add_headers:
  "distinct (map fst hs) \<Longrightarrow> map_of (m_headers (add_headers hs m)) = map_of (m_headers m) ++ map_of hs"
proof (induction hs arbitrary: m)
  case Nil
  then show ?case by simp
next
  case (Cons h hs)
  then have IH: "map_of (m_headers (add_headers hs (add_header (fst h) (snd h) m)))
      = (map_of (m_headers m))(fst h \<mapsto> snd h) ++ map_of hs"
    by (simp add: update_conv')
  show ?case
  proof (rule ext)
    fix k
    have "k = fst h \<Longrightarrow> map_of hs k = None" using Cons.prems by (auto simp: map_of_eq_None_iff)
    then show "map_of (m_headers (add_headers (h # hs) m)) k = (map_of (m_headers m) ++ map_of (h # hs)) k"
      unfolding add_headers_simps IH by (cases h) (auto simp: map_add_def split: option.splits)
  qed
qed

section \<open>What a blank line may do\<close>

text \<open>
  The bytes behind the last LF: the line that is still open. A cut is clean when this line
  does not begin with CR, that is, when the bytes do not end inside the empty line.
\<close>

definition open_line :: "string \<Rightarrow> string" where
  "open_line s = rev (takeWhile (\<lambda>c. c \<noteq> LF) (rev s))"

definition clean_cut :: "string \<Rightarrow> bool" where
  "clean_cut s \<longleftrightarrow> take 1 (open_line s) \<noteq> [CR]"

definition line_start :: "string \<Rightarrow> nat \<Rightarrow> bool" where
  "line_start raw p \<longleftrightarrow> p \<le> length raw \<and> (p = 0 \<or> raw ! (p - 1) = LF)"

lemma line_start_0 [simp]: "line_start raw 0"
  by (simp add: line_start_def)

lemma line_start_append: "line_start raw p \<Longrightarrow> line_start (raw @ x) p"
  by (auto simp: line_start_def nth_append)

lemma line_start_drop: "line_start raw p \<Longrightarrow> line_start (drop p raw) k \<Longrightarrow> line_start raw (p + k)"
  by (cases "k = 0") (auto simp: line_start_def)

lemma open_line_drop:
  assumes "line_start raw p"
  shows "open_line (drop p raw) = open_line raw"
proof (cases "p = 0")
  case False
  have "take p raw = take (p - 1) raw @ [LF]"
    using assms False take_Suc_conv_app_nth [of "p - 1" raw] by (auto simp: line_start_def)
  then have "rev (take p raw) = LF # rev (take (p - 1) raw)" by simp
  moreover have "rev raw = rev (drop p raw) @ rev (take p raw)" by (simp flip: rev_append)
  ultimately have "rev raw = rev (drop p raw) @ LF # rev (take (p - 1) raw)" by simp
  then show ?thesis by (simp add: open_line_def takeWhile_append)
qed simp

lemma open_line_all: "LF \<notin> set s \<Longrightarrow> open_line s = s"
proof -
  assume "LF \<notin> set s"
  then have "takeWhile (\<lambda>c. c \<noteq> LF) (rev s) = rev s" by (subst takeWhile_eq_all_conv) auto
  then show ?thesis unfolding open_line_def by (simp only: rev_rev_ident)
qed

lemma clean_cut_drop: "line_start raw p \<Longrightarrow> clean_cut (drop p raw) = clean_cut raw"
  by (simp add: clean_cut_def open_line_drop)

lemma clean_cutD:
  assumes "clean_cut raw" and "line_start raw p" and "p < length raw" and "raw ! p = CR"
  shows "LF \<in> set (drop p raw)"
proof (rule ccontr)
  assume "LF \<notin> set (drop p raw)"
  then have "open_line raw = drop p raw" using open_line_drop [OF assms(2)] open_line_all by simp
  moreover have "take 1 (drop p raw) = [raw ! p]" using assms(3) by (simp add: take_Suc_conv_app_nth)
  ultimately show False using assms(1,4) by (simp add: clean_cut_def)
qed

lemma parse_header_line_start:
  assumes "parse_header m buf = (k, m')"
  shows "line_start buf k"
proof (cases "memchr LF buf")
  case None
  then show ?thesis using assms by (simp add: parse_header_def get_line_def)
next
  case (Some z)
  then have "k = z + 1" using assms by (auto simp: parse_header_def get_line_def Let_def split: prod.splits)
  then show ?thesis using memchr_Some_less [OF Some] memchr_Some_nth [OF Some] by (simp add: line_start_def)
qed

locale header_end =
  fixes blank :: "'a CoProtocolHttp_scheme \<Rightarrow> 'a CoProtocolHttp_scheme res"
  assumes blank_status: "blank m = Inr m' \<Longrightarrow> m_parseStatus m' = m_parseStatus m"
    and blank_content: "blank m = Inr m' \<Longrightarrow>
      m_content m' = m_content m \<and> m_contentLength m' = m_contentLength m"
begin

text \<open>A block of encoded headers and the empty line behind it.\<close>

lemma header_loop_blank:
  assumes "m_parseStatus m = eHeader"
  shows "header_loop blank m (crlf @ rest) 0
     = bindr (blank (m\<lparr>m_parseStatus := eContent\<rparr>)) (\<lambda>m'. Inr (m', 2))"
proof (cases "blank (m\<lparr>m_parseStatus := eContent\<rparr>)")
  case (Inl e)
  then show ?thesis using assms parse_header_crlf [of m rest]
    by (subst header_loop.simps) simp
next
  case (Inr m')
  then have "m_parseStatus m' = eContent" using blank_status by fastforce
  then have "header_loop blank m' (crlf @ rest) 2 = Inr (m', 2)" by (simp add: header_loop_stop)
  then show ?thesis using Inr assms parse_header_crlf [of m rest]
    by (subst header_loop.simps) (simp add: numeral_2_eq_2)
qed

lemma header_loop_block:
  "m_parseStatus m = eHeader \<Longrightarrow> list_all ok_header hs \<Longrightarrow>
   header_loop blank m (concat (map header_line hs) @ crlf @ rest) 0
     = bindr (blank ((add_headers hs m)\<lparr>m_parseStatus := eContent\<rparr>))
         (\<lambda>m'. Inr (m', length (concat (map header_line hs)) + 2))"
proof (induction hs arbitrary: m)
  case Nil
  then show ?case using header_loop_blank [of m rest] by (simp add: numeral_2_eq_2)
next
  case (Cons h hs)
  have ne: "header_line h \<noteq> []" using header_line_ok [of h] Cons.prems by simp
  have "header_loop blank m (concat (map header_line (h # hs)) @ crlf @ rest) 0
      = bindr (header_loop blank (add_header (fst h) (snd h) m) (concat (map header_line hs) @ crlf @ rest) 0)
         (\<lambda>(m', n). Inr (m', length (header_line h) + n))"
    using header_loop_step [OF Cons.prems(1) _ ne, of blank "concat (map header_line hs) @ crlf @ rest"]
      Cons.prems by simp
  then show ?case using Cons.IH [of "add_header (fst h) (snd h) m"] Cons.prems
    by (simp add: bindr_assoc add.assoc)
qed

text \<open>One round of the loop, when it runs.\<close>

lemma header_loop_round:
  assumes "header_loop blank m raw p = Inr (m', n)" and "m_parseStatus m = eHeader" and "p < length raw"
  obtains k m2 where "fst (parse_header m (drop p raw)) = k"
    "m_parseStatus m2 = (if raw ! p = CR \<or> raw ! p = LF then eContent else eHeader)"
    "m_content m2 = m_content m" "m_contentLength m2 = m_contentLength m"
    "(if raw ! p = CR \<or> raw ! p = LF
      then blank ((snd (parse_header m (drop p raw)))\<lparr>m_parseStatus := eContent\<rparr>)
      else Inr (snd (parse_header m (drop p raw)))) = Inr m2"
    "if 0 < k then header_loop blank m2 raw (p + k) = Inr (m', n) else m' = m2 \<and> n = p"
proof -
  obtain k m1 where ph: "parse_header m (drop p raw) = (k, m1)" by fastforce
  have m1: "m_parseStatus m1 = eHeader" "m_content m1 = m_content m" "m_contentLength m1 = m_contentLength m"
    using parse_header_status [of m "drop p raw"] parse_header_content [of m "drop p raw"] assms(2) ph by simp_all
  let ?r = "if raw ! p = CR \<or> raw ! p = LF then blank (m1\<lparr>m_parseStatus := eContent\<rparr>) else Inr m1"
  from assms ph have "bindr ?r (\<lambda>m2. if 0 < k then header_loop blank m2 raw (p + k) else Inr (m2, p)) = Inr (m', n)"
    by (simp add: header_loop.simps [of blank m raw p] Let_def split del: if_split)
  then obtain m2 where m2: "?r = Inr m2"
    "(if 0 < k then header_loop blank m2 raw (p + k) else Inr (m2, p)) = Inr (m', n)"
    by (auto simp only: bindr_eq_Inr_conv)
  have "m_parseStatus m2 = (if raw ! p = CR \<or> raw ! p = LF then eContent else eHeader)
      \<and> m_content m2 = m_content m \<and> m_contentLength m2 = m_contentLength m"
    using m2(1) m1 blank_status [of "m1\<lparr>m_parseStatus := eContent\<rparr>" m2]
      blank_content [of "m1\<lparr>m_parseStatus := eContent\<rparr>" m2] by (auto split: if_splits)
  then show ?thesis using that [of k m2] m2 ph by (auto split: if_splits)
qed

lemma header_loop_status:
  "header_loop blank m raw p = Inr (m', n) \<Longrightarrow>
   (m_parseStatus m' = m_parseStatus m \<or> m_parseStatus m = eHeader \<and> m_parseStatus m' = eContent)
   \<and> p \<le> n \<and> (p \<le> length raw \<longrightarrow> n \<le> length raw)
   \<and> m_content m' = m_content m \<and> m_contentLength m' = m_contentLength m"
proof (induction "length raw - p" arbitrary: m p rule: less_induct)
  case less
  show ?case
  proof (cases "m_parseStatus m = eHeader \<and> p < length raw")
    case False
    then show ?thesis using less.prems by (subst (asm) header_loop.simps) auto
  next
    case True
    with less.prems obtain k m2 where k: "fst (parse_header m (drop p raw)) = k"
      and m2: "m_parseStatus m2 = (if raw ! p = CR \<or> raw ! p = LF then eContent else eHeader)"
        "m_content m2 = m_content m" "m_contentLength m2 = m_contentLength m"
      and rec: "if 0 < k then header_loop blank m2 raw (p + k) = Inr (m', n) else m' = m2 \<and> n = p"
      by (auto elim: header_loop_round)
    have le: "p + k \<le> length raw" using parse_header_le [of m "drop p raw"] k True by auto
    show ?thesis
    proof (cases "0 < k")
      case False
      then show ?thesis using rec m2 True by (auto split: if_splits)
    next
      case pos: True
      have "length raw - (p + k) < length raw - p" using pos True by linarith
      moreover have "header_loop blank m2 raw (p + k) = Inr (m', n)" using rec pos by simp
      ultimately show ?thesis using less.hyps [of "p + k" m2] m2 True le by (auto split: if_splits)
    qed
  qed
qed

text \<open>
  Stopping at the end of the bytes and going on with more of them is the same as having all of
  them at once, unless the bytes end between CR and LF.
\<close>

lemma header_loop_append:
  "header_loop blank m raw p = Inr (m', n) \<Longrightarrow> clean_cut raw \<Longrightarrow> line_start raw p \<Longrightarrow>
   header_loop blank m (raw @ x) p = header_loop blank m' (raw @ x) n \<and> line_start raw n"
proof (induction "length raw - p" arbitrary: m p rule: less_induct)
  case less
  show ?case
  proof (cases "m_parseStatus m = eHeader \<and> p < length raw")
    case False
    then have "m' = m \<and> n = p" using less.prems(1) by (subst (asm) header_loop.simps) auto
    then show ?thesis using less.prems(3) by simp
  next
    case True
    with less.prems(1) obtain k m2 where k: "fst (parse_header m (drop p raw)) = k"
      and m2: "(if raw ! p = CR \<or> raw ! p = LF
          then blank ((snd (parse_header m (drop p raw)))\<lparr>m_parseStatus := eContent\<rparr>)
          else Inr (snd (parse_header m (drop p raw)))) = Inr m2"
      and rec: "if 0 < k then header_loop blank m2 raw (p + k) = Inr (m', n) else m' = m2 \<and> n = p"
      by (auto elim: header_loop_round)
    show ?thesis
    proof (cases "LF \<in> set (drop p raw)")
      case LF: True
      then have "0 < k" using k parse_header_zero [of m "drop p raw"] by simp
      have same: "parse_header m (drop p (raw @ x)) = parse_header m (drop p raw)"
        using parse_header_append [OF LF, of m x] True by simp
      have nth: "(raw @ x) ! p = raw ! p" using True by (simp add: nth_append)
      have "header_loop blank m (raw @ x) p = header_loop blank m2 (raw @ x) (p + k)"
        using True m2 k \<open>0 < k\<close> nth same
        by (subst header_loop.simps) (auto simp: case_prod_beta' Let_def split: if_splits)
      moreover have "header_loop blank m2 (raw @ x) (p + k) = header_loop blank m' (raw @ x) n
          \<and> line_start raw n"
      proof -
        have "length raw - (p + k) < length raw - p" using \<open>0 < k\<close> True by linarith
        moreover have "header_loop blank m2 raw (p + k) = Inr (m', n)" using rec \<open>0 < k\<close> by simp
        moreover have "line_start raw (p + k)"
          using line_start_drop [OF less.prems(3)] parse_header_line_start k by (metis prod.collapse)
        ultimately show ?thesis using less.hyps [of "p + k" m2] less.prems(2) by simp
      qed
      ultimately show ?thesis by simp
    next
      case False
      have "raw ! p \<noteq> CR" using clean_cutD [OF less.prems(2,3)] True False by auto
      moreover have "raw ! p \<noteq> LF" using False True nth_mem [of 0 "drop p raw"] by auto
      ultimately have "m2 = m \<and> k = 0" using m2 k parse_header_none [OF False, of m] by auto
      then show ?thesis using rec less.prems(3) by simp
    qed
  qed
qed

text \<open>A fault in the header block stays one when more bytes have arrived.\<close>

lemma header_loop_fault:
  "header_loop blank m raw p = Inl e \<Longrightarrow> clean_cut raw \<Longrightarrow> line_start raw p \<Longrightarrow>
   header_loop blank m (raw @ x) p = Inl e"
proof (induction "length raw - p" arbitrary: m p rule: less_induct)
  case less
  have run: "m_parseStatus m = eHeader \<and> p < length raw"
    using less.prems(1) by (subst (asm) header_loop.simps) (auto split: if_splits)
  obtain k m1 where ph: "parse_header m (drop p raw) = (k, m1)" by fastforce
  have LF: "LF \<in> set (drop p raw)"
  proof (rule ccontr)
    assume no: "LF \<notin> set (drop p raw)"
    have "raw ! p \<noteq> CR" using clean_cutD [OF less.prems(2,3)] run no by auto
    moreover have "raw ! p \<noteq> LF" using no run nth_mem [of 0 "drop p raw"] by auto
    ultimately show False using less.prems(1) run parse_header_none [OF no, of m]
      by (subst (asm) header_loop.simps) auto
  qed
  then have k: "0 < k" using parse_header_zero [of m "drop p raw"] ph by simp
  have same: "parse_header m (drop p (raw @ x)) = (k, m1)"
    using parse_header_append [OF LF, of m x] run ph by simp
  have nth: "(raw @ x) ! p = raw ! p" using run by (simp add: nth_append)
  let ?r = "if raw ! p = CR \<or> raw ! p = LF then blank (m1\<lparr>m_parseStatus := eContent\<rparr>) else Inr m1"
  have small: "header_loop blank m raw p = bindr ?r (\<lambda>m2. header_loop blank m2 raw (p + k))"
    using run ph k by (simp add: header_loop.simps [of blank m raw p] Let_def split del: if_split)
  have big: "header_loop blank m (raw @ x) p = bindr ?r (\<lambda>m2. header_loop blank m2 (raw @ x) (p + k))"
    using run same k nth by (simp add: header_loop.simps [of blank m "raw @ x" p] Let_def split del: if_split)
  show ?case
  proof (cases ?r)
    case (Inl e')
    then show ?thesis using small big less.prems(1) by simp
  next
    case (Inr m2)
    have "length raw - (p + k) < length raw - p" using k run by linarith
    moreover have "header_loop blank m2 raw (p + k) = Inl e" using small Inr less.prems(1) by simp
    moreover have "line_start raw (p + k)"
      using line_start_drop [OF less.prems(3) parse_header_line_start [OF ph]] .
    ultimately have "header_loop blank m2 (raw @ x) (p + k) = Inl e"
      using less.hyps [of "p + k" m2] less.prems(2) by simp
    then show ?thesis using big Inr by simp
  qed
qed

end

end
