(* ===== verification/Http_Decode.thy ===== *)
theory Http_Decode
  imports Http_Codec
begin

text \<open>
  \<open>CoProtocolHttpServer::decode\<close> and \<open>CoProtocolHttpClient::decode\<close> are the same function up to
  three places: the start-line parser, what the empty line does, and the body parser. The
  common text is \<open>decode_msg\<close>, with these three as arguments; it works on the valid bytes and
  says what happens to the buffer (\<open>buf_action\<close>). The locale \<open>http_decoder\<close> states what the
  three places promise; its main results are that decoding goes on where it stopped when more
  bytes arrive (\<open>decode_append\<close>), that cutting a message into segments changes nothing
  (\<open>feed_whole\<close>), and what is consumed (\<open>decode_consumes\<close>).
\<close>

section \<open>What decode does to the buffer\<close>

datatype buf_action = Keep | Discard | Consume nat

fun apply_action :: "buf_action \<Rightarrow> co_buffer \<Rightarrow> co_buffer" where
  "apply_action Keep b = b"
| "apply_action Discard b = buffer_reset b"
| "apply_action (Consume n) b = snd (buffer_erase n b)"

fun rest_of :: "buf_action \<Rightarrow> string \<Rightarrow> string" where
  "rest_of Keep s = s"
| "rest_of Discard s = []"
| "rest_of (Consume n) s = drop n s"

lemma apply_action_inv: "buf_inv b \<Longrightarrow> buf_inv (apply_action act b)"
  by (cases act) (simp_all add: buf_inv_erase)

lemma contents_apply_action: "buf_inv b \<Longrightarrow> contents (apply_action act b) = rest_of act (contents b)"
  by (cases act) (simp_all add: contents_erase)

text \<open>Two decodes in a row, seen as one on all the bytes.\<close>

fun act_after :: "buf_action \<Rightarrow> buf_action \<Rightarrow> buf_action" where
  "act_after (Consume n) (Consume k) = Consume (n + k)"
| "act_after _ a = a"

section \<open>decode\<close>

text \<open>
  \<open>content\<close> gives \<open>None\<close> for the early \<open>return -1\<close>; the size of the buffer is converted to
  \<open>int32_t\<close>, a larger buffer is out of the model's range.
\<close>

type_synonym 'm decoder = "'m \<Rightarrow> string \<Rightarrow> (int \<times> 'm \<times> buf_action) res"

definition decode_body ::
  "('a CoProtocolHttp_scheme \<Rightarrow> 'a CoProtocolHttp_scheme res) \<Rightarrow>
   ('a CoProtocolHttp_scheme \<Rightarrow> string \<Rightarrow> (nat option \<times> 'a CoProtocolHttp_scheme) res) \<Rightarrow>
   'a CoProtocolHttp_scheme \<Rightarrow> string \<Rightarrow> nat \<Rightarrow> (int \<times> 'a CoProtocolHttp_scheme \<times> buf_action) res" where
  "decode_body blank content m raw parsedLen =
     bindr (header_loop blank m raw parsedLen)
       (\<lambda>(m, parsedLen).
          bindr (if m_parseStatus m = eContent then content m (drop parsedLen raw) else Inr (Some 0, m))
            (\<lambda>(parseRet, m).
               case parseRet of
                 None \<Rightarrow> Inr (- 1, m, Keep)
               | Some n \<Rightarrow> Inr (if m_parseStatus m = eCompleted then CO_OK else CO_AGAIN,
                               m, Consume (parsedLen + n))))"

definition decode_msg ::
  "('a CoProtocolHttp_scheme \<Rightarrow> string \<Rightarrow> (int \<times> 'a CoProtocolHttp_scheme) res) \<Rightarrow>
   ('a CoProtocolHttp_scheme \<Rightarrow> 'a CoProtocolHttp_scheme res) \<Rightarrow>
   ('a CoProtocolHttp_scheme \<Rightarrow> string \<Rightarrow> (nat option \<times> 'a CoProtocolHttp_scheme) res) \<Rightarrow>
   'a CoProtocolHttp_scheme decoder" where
  "decode_msg start blank content m raw =
     (if m_parseStatus m = eCompleted then Inr (CO_OK, m, Keep)
      else if two31 \<le> int (length raw) then Inl IntRange
      else if m_parseStatus m \<in> {eStartLine, eHeader} \<and> HTTP_MAX_HEADER_LEN < length raw
      then Inr (status_code eError, m, Discard)
      else if m_parseStatus m = eStartLine
      then bindr (start m raw)
             (\<lambda>(parsedLen, m).
                if parsedLen = - 1 then Inr (status_code eError, m, Discard)
                else if parsedLen \<le> 0 then Inr (CO_AGAIN, m, Keep)
                else decode_body blank content (m\<lparr>m_parseStatus := eHeader\<rparr>) raw (nat parsedLen))
      else decode_body blank content m raw 0)"

text \<open>
  The read loop: bytes are received behind the ones that are left, then \<open>decode\<close> runs; it
  is called again after the next segment as long as it returns \<open>CO_AGAIN\<close>.
\<close>

fun feed :: "'m decoder \<Rightarrow> 'm \<Rightarrow> string \<Rightarrow> string list \<Rightarrow> (int \<times> 'm \<times> string) res" where
  "feed dec m s [] = Inr (CO_AGAIN, m, s)"
| "feed dec m s (x # xs) =
     bindr (dec m (s @ x))
       (\<lambda>(ret, m', act).
          if ret = CO_AGAIN then feed dec m' (rest_of act (s @ x)) xs
          else Inr (ret, m', rest_of act (s @ x) @ concat xs))"

fun clean_cuts :: "string \<Rightarrow> string list \<Rightarrow> bool" where
  "clean_cuts s [] \<longleftrightarrow> True"
| "clean_cuts s (x # xs) \<longleftrightarrow> clean_cut (s @ x) \<and> clean_cuts (s @ x) xs"

lemma clean_cuts_drop:
  "line_start s n \<Longrightarrow> clean_cuts (drop n s) xs = clean_cuts s xs"
proof (induction xs arbitrary: s)
  case Nil
  then show ?case by simp
next
  case (Cons x xs)
  have ls: "line_start (s @ x) n" using Cons.prems by (rule line_start_append)
  have "drop n s @ x = drop n (s @ x)" using Cons.prems by (simp add: line_start_def)
  then show ?case using clean_cut_drop [OF ls] Cons.IH [OF ls] by simp
qed

section \<open>What the three places promise\<close>

definition shift_result :: "nat \<Rightarrow> (nat option \<times> 'm) res \<Rightarrow> (nat option \<times> 'm) res" where
  "shift_result j r = bindr r (\<lambda>(k, m). Inr (map_option (\<lambda>n. j + n) k, m))"

definition after :: "buf_action \<Rightarrow> (int \<times> 'm \<times> buf_action) res \<Rightarrow> (int \<times> 'm \<times> buf_action) res" where
  "after act r = bindr r (\<lambda>(ret, m, act'). Inr (ret, m, act_after act act'))"

lemma shift_result_simps [simp]:
  "shift_result j (Inl e) = Inl e"
  "shift_result j (Inr (k, m)) = Inr (map_option (\<lambda>n. j + n) k, m)"
  by (simp_all add: shift_result_def)

lemma after_simps [simp]:
  "after act (Inl e) = Inl e"
  "after act (Inr (ret, m, act')) = Inr (ret, m, act_after act act')"
  by (simp_all add: after_def)

locale http_decoder = header_end blank
  for blank :: "'a CoProtocolHttp_scheme \<Rightarrow> 'a CoProtocolHttp_scheme res" +
  fixes start :: "'a CoProtocolHttp_scheme \<Rightarrow> string \<Rightarrow> (int \<times> 'a CoProtocolHttp_scheme) res"
    and content :: "'a CoProtocolHttp_scheme \<Rightarrow> string \<Rightarrow> (nat option \<times> 'a CoProtocolHttp_scheme) res"
  assumes start_none: "LF \<notin> set raw \<Longrightarrow> start m raw = Inr (0, m)"
    and start_line_pos: "start m raw = Inr (n, m') \<Longrightarrow> LF \<in> set raw \<Longrightarrow>
      n = - 1 \<or> 0 < n \<and> line_start raw (nat n)"
    and start_length: "start m raw = Inr (n, m') \<Longrightarrow> m_contentLength m' = m_contentLength m"
    and start_append: "LF \<in> set raw \<Longrightarrow> start m (raw @ x) = start m raw"
    and content_status: "content m u = Inr (Some j, m') \<Longrightarrow> m_parseStatus m = eContent \<Longrightarrow>
      j \<le> length u \<and> m_parseStatus m' \<in> {eContent, eCompleted}"
    and content_length: "content m u = Inr (Some j, m') \<Longrightarrow> in_i32 (m_contentLength m) \<Longrightarrow>
      in_i32 (m_contentLength m')"
    and content_append: "m_parseStatus m = eContent \<Longrightarrow> in_i32 (m_contentLength m) \<Longrightarrow> content m (u @ x) =
      (case content m u of
         Inl e \<Rightarrow> Inl e
       | Inr (None, m') \<Rightarrow> Inr (None, m')
       | Inr (Some j, m') \<Rightarrow>
           if m_parseStatus m' = eCompleted then Inr (Some j, m')
           else shift_result j (content m' (drop j u @ x)))"
begin

abbreviation body where "body \<equiv> decode_body blank content"

abbreviation dec where "dec \<equiv> decode_msg start blank content"

lemma after_tail:
  "bindr c (\<lambda>(r, m'). case r of None \<Rightarrow> Inr (- 1, m', Keep)
       | Some k \<Rightarrow> Inr (f m', m', Consume (l + n + k)))
   = after (Consume l) (bindr c (\<lambda>(r, m'). case r of None \<Rightarrow> Inr (- 1, m', Keep)
       | Some k \<Rightarrow> Inr (f m', m', Consume (n + k))))"
  by (cases c) (auto simp: add.assoc split: option.splits)

lemma body_shift:
  "body m (pre @ raw) (length pre + p) = after (Consume (length pre)) (body m raw p)"
proof (cases "header_loop blank m raw p")
  case (Inl e)
  then show ?thesis by (simp add: decode_body_def header_loop_shift)
next
  case (Inr q)
  obtain m1 n where q: "q = (m1, n)" by fastforce
  have "header_loop blank m (pre @ raw) (length pre + p) = Inr (m1, length pre + n)"
    using Inr q by (simp add: header_loop_shift)
  moreover have "drop (length pre + n) (pre @ raw) = drop n raw" by simp
  ultimately show ?thesis using Inr q unfolding decode_body_def
    by (simp only: bindr_simps prod.case after_tail)
qed

lemma body_of_content:
  assumes "m_parseStatus m = eContent"
  shows "body m raw p = bindr (content m (drop p raw))
    (\<lambda>(r, m'). case r of None \<Rightarrow> Inr (- 1, m', Keep)
       | Some n \<Rightarrow> Inr (if m_parseStatus m' = eCompleted then CO_OK else CO_AGAIN, m', Consume (p + n)))"
  using assms by (simp add: decode_body_def header_loop_stop)

definition body_ready :: "'a CoProtocolHttp_scheme \<Rightarrow> string \<Rightarrow> nat \<Rightarrow> bool" where
  "body_ready m raw p \<longleftrightarrow> in_i32 (m_contentLength m)
     \<and> (m_parseStatus m = eContent \<and> p \<le> length raw
        \<or> m_parseStatus m = eHeader \<and> clean_cut raw \<and> line_start raw p)"

lemma body_ready_loop:
  assumes ready: "body_ready m raw p" and run: "header_loop blank m raw p = Inr (m1, n)"
  shows "header_loop blank m (raw @ x) p = header_loop blank m1 (raw @ x) n" and "p \<le> n" and "n \<le> length raw"
    and "m_parseStatus m1 = eContent \<or> m_parseStatus m1 = eHeader \<and> line_start raw n"
proof -
  have *: "header_loop blank m (raw @ x) p = header_loop blank m1 (raw @ x) n \<and> p \<le> n \<and> n \<le> length raw
     \<and> (m_parseStatus m1 = eContent \<or> m_parseStatus m1 = eHeader \<and> line_start raw n)"
  proof (cases "m_parseStatus m = eContent")
    case True
    then have "m1 = m \<and> n = p" using run by (simp add: header_loop_stop)
    then show ?thesis using True ready by (auto simp: body_ready_def)
  next
    case False
    then have h: "m_parseStatus m = eHeader" "clean_cut raw" "line_start raw p"
      using ready by (auto simp: body_ready_def)
    have "p \<le> length raw" using h(3) by (simp add: line_start_def)
    then show ?thesis using header_loop_append [OF run h(2,3), of x] header_loop_status [OF run] h(1)
      by auto
  qed
  show "header_loop blank m (raw @ x) p = header_loop blank m1 (raw @ x) n" "p \<le> n" "n \<le> length raw"
    "m_parseStatus m1 = eContent \<or> m_parseStatus m1 = eHeader \<and> line_start raw n"
    using * by blast+
qed

lemma body_ready_fault:
  assumes "body_ready m raw p" and "header_loop blank m raw p = Inl e"
  shows "header_loop blank m (raw @ x) p = Inl e"
  using assms header_loop_fault [OF assms(2)] by (auto simp: body_ready_def header_loop_stop)

text \<open>Decoding the body of a message goes on where it stopped.\<close>

lemma body_append:
  assumes "body_ready m raw p"
  shows "body m (raw @ x) p =
    (case body m raw p of
       Inl e \<Rightarrow> Inl e
     | Inr (ret, m', act) \<Rightarrow>
         if ret = CO_AGAIN then after act (body m' (rest_of act raw @ x) 0) else Inr (ret, m', act))"
proof (cases "header_loop blank m raw p")
  case (Inl e)
  then show ?thesis using body_ready_fault [OF assms Inl, of x] by (simp add: decode_body_def)
next
  case (Inr q)
  obtain m1 n where q: "q = (m1, n)" by fastforce
  have run: "header_loop blank m raw p = Inr (m1, n)" using Inr q by simp
  note loop = body_ready_loop [OF assms run]
  have whole: "body m (raw @ x) p = body m1 (raw @ x) n"
    using loop(1) [of x] by (simp only: decode_body_def)
  have part: "body m raw p = body m1 raw n"
    using loop(1) [of "[]"] by (simp only: decode_body_def append_Nil2)
  show ?thesis
  proof (cases "m_parseStatus m1 = eContent")
    case True
    have len: "in_i32 (m_contentLength m1)"
      using header_loop_status [OF run] assms by (simp add: body_ready_def)
    note ca = content_append [OF True len, of "drop n raw" x]
    note bm = body_of_content [OF True]
    have dr: "drop n (raw @ x) = drop n raw @ x" using loop(3) by simp
    show ?thesis
    proof (cases "content m1 (drop n raw)")
      case (Inl e)
      then show ?thesis unfolding whole part bm dr ca by simp
    next
      case c: (Inr r)
      obtain k m2 where r: "r = (k, m2)" by fastforce
      show ?thesis
      proof (cases k)
        case None
        then show ?thesis unfolding whole part bm dr ca using c r by simp
      next
        case (Some j)
        then have j: "j \<le> length (drop n raw)" "m_parseStatus m2 \<in> {eContent, eCompleted}"
          using content_status [of m1 "drop n raw" j m2] c r True by auto
        show ?thesis
        proof (cases "m_parseStatus m2 = eCompleted")
          case True
          then show ?thesis unfolding whole part bm dr ca using c r Some by simp
        next
          case False
          then have m2: "m_parseStatus m2 = eContent" using j by simp
          obtain d where d: "content m2 (drop (j + n) raw @ x) = d" by blast
          have "body m1 raw n = Inr (CO_AGAIN, m2, Consume (n + j))"
            unfolding bm using c r Some m2 by simp
          moreover have "body m1 (raw @ x) n = after (Consume (n + j)) (body m2 (drop (j + n) raw @ x) 0)"
            unfolding bm dr ca body_of_content [OF m2] using c r Some m2 d
            by (cases d) (auto simp: add.assoc split: option.splits)
          ultimately show ?thesis unfolding whole part by (simp add: add.commute [of n j])
        qed
      qed
    qed
  next
    case False
    then have st: "m_parseStatus m1 = eHeader" using loop(4) by simp
    have "body m raw p = Inr (CO_AGAIN, m1, Consume n)"
      using run st by (simp add: decode_body_def)
    moreover have "body m1 (raw @ x) n = after (Consume n) (body m1 (drop n raw @ x) 0)"
    proof -
      have "take n raw @ drop n raw @ x = raw @ x" by (metis append.assoc append_take_drop_id)
      moreover have "length (take n raw) + 0 = n" "length (take n raw) = n" using loop(3) by simp_all
      ultimately show ?thesis using body_shift [of m1 "take n raw" "drop n raw @ x" 0] by (simp only:)
    qed
    ultimately show ?thesis unfolding whole by simp
  qed
qed

lemma body_result:
  assumes "body_ready m raw p" and "body m raw p = Inr (ret, m', act)"
  shows "act = Keep \<and> ret = - 1
     \<or> (\<exists>n. act = Consume n \<and> p \<le> n \<and> n \<le> length raw \<and> in_i32 (m_contentLength m')
        \<and> (ret = CO_OK \<and> m_parseStatus m' = eCompleted
           \<or> ret = CO_AGAIN \<and> (m_parseStatus m' = eContent \<or> m_parseStatus m' = eHeader \<and> line_start raw n)))"
proof (cases "header_loop blank m raw p")
  case (Inl e)
  then show ?thesis using assms(2) by (simp add: decode_body_def)
next
  case (Inr q)
  obtain m1 n where q: "q = (m1, n)" by fastforce
  have run: "header_loop blank m raw p = Inr (m1, n)" using Inr q by simp
  note loop = body_ready_loop [OF assms(1) run]
  have len: "in_i32 (m_contentLength m1)"
    using header_loop_status [OF run] assms(1) by (simp add: body_ready_def)
  show ?thesis
  proof (cases "m_parseStatus m1 = eContent")
    case False
    then show ?thesis using assms(2) run loop len by (auto simp: decode_body_def)
  next
    case True
    then show ?thesis using assms(2) run loop(2,3) content_status [of m1 "drop n raw", OF _ True]
        content_length [of m1 "drop n raw", OF _ len]
      by (auto simp: decode_body_def bindr_eq_Inr_conv split: option.splits if_splits)
  qed
qed

definition fits :: "'a CoProtocolHttp_scheme \<Rightarrow> string \<Rightarrow> bool" where
  "fits m raw \<longleftrightarrow> int (length raw) < two31
     \<and> (m_parseStatus m \<in> {eStartLine, eHeader} \<longrightarrow> length raw \<le> HTTP_MAX_HEADER_LEN)"

definition ready :: "'a CoProtocolHttp_scheme \<Rightarrow> string \<Rightarrow> bool" where
  "ready m raw \<longleftrightarrow> m_parseStatus m \<noteq> eError \<and> in_i32 (m_contentLength m)
     \<and> (m_parseStatus m \<in> {eStartLine, eHeader} \<longrightarrow> clean_cut raw)"

lemma dec_body:
  assumes "m_parseStatus m \<in> {eHeader, eContent}" and "fits m raw"
  shows "dec m raw = body m raw 0"
  using assms by (auto simp: decode_msg_def fits_def)

lemma dec_start:
  assumes "m_parseStatus m = eStartLine" and "fits m raw"
  shows "dec m raw = bindr (start m raw)
             (\<lambda>(parsedLen, m).
                if parsedLen = - 1 then Inr (status_code eError, m, Discard)
                else if parsedLen \<le> 0 then Inr (CO_AGAIN, m, Keep)
                else body (m\<lparr>m_parseStatus := eHeader\<rparr>) raw (nat parsedLen))"
  using assms by (simp add: decode_msg_def fits_def)

lemma fits_prefix: "fits m (raw @ x) \<Longrightarrow> fits m raw"
  by (auto simp: fits_def)

text \<open>After a round that asks for more bytes the decoder is ready for the next one.\<close>

lemma dec_again:
  assumes "fits m (raw @ x)" and "ready m raw" and "dec m raw = Inr (CO_AGAIN, m', act)"
  shows "m_parseStatus m' \<noteq> eError \<and> in_i32 (m_contentLength m') \<and> m_parseStatus m' \<noteq> eCompleted \<and> fits m' (rest_of act raw @ x)
    \<and> (m_parseStatus m' = eStartLine \<longrightarrow> m' = m \<and> act = Keep)
    \<and> (m_parseStatus m' = eHeader \<longrightarrow> (\<exists>n. act = Consume n \<and> line_start raw n))
    \<and> (m_parseStatus m' \<in> {eStartLine, eHeader} \<longrightarrow> m_parseStatus m \<in> {eStartLine, eHeader})"
proof -
  have f: "fits m raw" using assms(1) by (rule fits_prefix)
  have from_body: ?thesis
    if "body_ready m1 raw p" "body m1 raw p = Inr (CO_AGAIN, m', act)" "m_parseStatus m \<in> {eStartLine, eHeader, eContent}" "m_parseStatus m = eContent \<or> length (raw @ x) \<le> HTTP_MAX_HEADER_LEN"
      "m_parseStatus m = eContent \<longrightarrow> m_parseStatus m' = eContent" for m1 p
    using body_result [OF that(1,2)] that(3,4,5) assms(1) by (auto simp: fits_def HTTP_MAX_HEADER_LEN_def)
  consider (s) "m_parseStatus m = eStartLine" | (h) "m_parseStatus m = eHeader" | (c) "m_parseStatus m = eContent"
    | (d) "m_parseStatus m = eCompleted"
    using assms(2) by (cases "m_parseStatus m") (auto simp: ready_def)
  then show ?thesis
  proof cases
    case s
    show ?thesis
    proof (cases "LF \<in> set raw")
      case False
      then show ?thesis using s assms dec_start [OF s f] start_none [OF False, of m] by (auto simp: ready_def)
    next
      case True
      then obtain n m1 where st: "start m raw = Inr (n, m1)" "n \<noteq> - 1"
        "body (m1\<lparr>m_parseStatus := eHeader\<rparr>) raw (nat n) = Inr (CO_AGAIN, m', act)"
        using assms(3) dec_start [OF s f] start_line_pos [of m raw, OF _ True]
        by (auto simp: bindr_eq_Inr_conv split: if_splits)
      then have "line_start raw (nat n)" using start_line_pos [OF st(1) True] by simp
      then have "body_ready (m1\<lparr>m_parseStatus := eHeader\<rparr>) raw (nat n)"
        using assms(2) s start_length [OF st(1)] by (simp add: body_ready_def ready_def)
      from from_body [OF this st(3)] s assms(1) show ?thesis by (simp add: fits_def)
    qed
  next
    case h
    then show ?thesis using from_body [of m 0] assms dec_body [OF _ f]
      by (auto simp: body_ready_def ready_def fits_def)
  next
    case c
    then have b: "body m raw 0 = Inr (CO_AGAIN, m', act)" using assms(3) dec_body [OF _ f] by simp
    then have "m_parseStatus m' = eContent"
      using c content_status [of m raw]
      by (auto simp: body_of_content bindr_eq_Inr_conv split: option.splits if_splits)
    then show ?thesis using from_body [of m 0] b c assms(2) by (auto simp: body_ready_def ready_def)
  next
    case d
    then show ?thesis using assms(3) by (simp add: decode_msg_def)
  qed
qed

text \<open>The decoder goes on where it stopped.\<close>

lemma dec_append:
  assumes "fits m (raw @ x)" and "ready m raw"
  shows "dec m (raw @ x) =
    (case dec m raw of
       Inl e \<Rightarrow> Inl e
     | Inr (ret, m', act) \<Rightarrow>
         if ret = CO_AGAIN then after act (dec m' (rest_of act raw @ x)) else Inr (ret, m', act))"
proof -
  have f: "fits m raw" using assms(1) by (rule fits_prefix)
  have from_body: ?thesis
    if "body_ready m1 raw p" "dec m raw = body m1 raw p" "dec m (raw @ x) = body m1 (raw @ x) p" for m1 p
  proof (cases "body m1 raw p")
    case (Inl e)
    then show ?thesis unfolding that(2,3) body_append [OF that(1)] by simp
  next
    case (Inr r)
    obtain ret m' act where r: "r = (ret, m', act)" by (cases r) auto
    have "dec m' (rest_of act raw @ x) = body m' (rest_of act raw @ x) 0" if again: "ret = CO_AGAIN"
    proof (rule dec_body)
      have "body m1 raw p = Inr (CO_AGAIN, m', act)" using Inr r again by simp
      from body_result [OF \<open>body_ready m1 raw p\<close> this] show "m_parseStatus m' \<in> {eHeader, eContent}" by auto
      show "fits m' (rest_of act raw @ x)"
        using dec_again [OF assms, of m' act] \<open>dec m raw = body m1 raw p\<close> Inr r again by simp
    qed
    then show ?thesis unfolding that(2,3) body_append [OF that(1)] using Inr r by simp
  qed
  consider (s) "m_parseStatus m = eStartLine" | (h) "m_parseStatus m \<in> {eHeader, eContent}"
    | (d) "m_parseStatus m = eCompleted"
    using assms(2) by (cases "m_parseStatus m") (auto simp: ready_def)
  then show ?thesis
  proof cases
    case s
    note ds = dec_start [OF s f] dec_start [OF s assms(1)]
    show ?thesis
    proof (cases "LF \<in> set raw")
      case False
      obtain d where d: "dec m (raw @ x) = d" by blast
      have "dec m raw = Inr (CO_AGAIN, m, Keep)" using ds(1) start_none [OF False, of m] by simp
      then show ?thesis using d by (cases d) auto
    next
      case True
      have same: "start m (raw @ x) = start m raw" using start_append [OF True] .
      show ?thesis
      proof (cases "start m raw")
        case (Inl e)
        then show ?thesis using ds same by simp
      next
        case (Inr q)
        obtain n m1 where q: "q = (n, m1)" by fastforce
        have st: "start m raw = Inr (n, m1)" using Inr q by simp
        show ?thesis
        proof (cases "n = - 1")
          case neg: True
          then show ?thesis using ds same st by simp
        next
          case False
          then have n: "0 < n" "line_start raw (nat n)" using start_line_pos [OF st True] by auto
          then have "body_ready (m1\<lparr>m_parseStatus := eHeader\<rparr>) raw (nat n)"
            using assms(2) s start_length [OF st] by (simp add: body_ready_def ready_def)
          from from_body [OF this] show ?thesis using ds same st n by simp
        qed
      qed
    qed
  next
    case h
    then have "body_ready m raw 0" using assms(2) by (auto simp: body_ready_def ready_def)
    from from_body [OF this] show ?thesis using dec_body [OF h f] dec_body [OF h assms(1)] by simp
  next
    case d
    then show ?thesis by (simp add: decode_msg_def)
  qed
qed

lemma body_bounds:
  assumes "p \<le> length raw" and "body m raw p = Inr (ret, m', act)"
  shows "act = Keep \<and> ret = - 1
     \<or> (\<exists>n. act = Consume n \<and> p \<le> n \<and> n \<le> length raw
        \<and> (ret = CO_OK \<and> m_parseStatus m' = eCompleted \<or> ret = CO_AGAIN \<and> m_parseStatus m' \<noteq> eCompleted))"
proof (cases "header_loop blank m raw p")
  case (Inl e)
  then show ?thesis using assms(2) by (simp add: decode_body_def)
next
  case (Inr q)
  obtain m1 n where q: "q = (m1, n)" by fastforce
  have run: "header_loop blank m raw p = Inr (m1, n)" using Inr q by simp
  note loop = header_loop_status [OF run]
  show ?thesis
  proof (cases "m_parseStatus m1 = eContent")
    case False
    then have "body m raw p = Inr (if m_parseStatus m1 = eCompleted then CO_OK else CO_AGAIN, m1, Consume n)"
      using run by (simp add: decode_body_def)
    then show ?thesis using assms loop by auto
  next
    case True
    have body: "body m raw p = body m1 raw n"
      unfolding body_of_content [OF True] using run True by (simp add: decode_body_def)
    obtain k where "content m1 (drop n raw) = Inr (k, m')"
      "case k of None \<Rightarrow> ret = - 1 \<and> act = Keep
       | Some j \<Rightarrow> ret = (if m_parseStatus m' = eCompleted then CO_OK else CO_AGAIN) \<and> act = Consume (n + j)"
      using assms(2) unfolding body body_of_content [OF True]
      by (auto simp: bindr_eq_Inr_conv split: option.splits)
    then show ?thesis using loop assms(1) content_status [of m1 "drop n raw", OF _ True]
      by (cases k) fastforce+
  qed
qed

text \<open>The outcomes of one call.\<close>

lemma dec_outcome:
  assumes "dec m raw = Inr (ret, m', act)"
  shows "ret = CO_OK \<and> m_parseStatus m = eCompleted \<and> m' = m \<and> act = Keep
    \<or> ret = CO_OK \<and> m_parseStatus m \<noteq> eCompleted \<and> m_parseStatus m' = eCompleted \<and> (\<exists>n\<le>length raw. act = Consume n)
    \<or> ret = CO_AGAIN \<and> m_parseStatus m' \<noteq> eCompleted \<and> (act = Keep \<and> m' = m \<or> (\<exists>n\<le>length raw. act = Consume n))
    \<or> ret = status_code eError \<and> act = Discard
    \<or> ret = - 1 \<and> act = Keep"
proof -
  have from_body: ?thesis if "body m1 raw p = Inr (ret, m', act)" "p \<le> length raw" "m_parseStatus m \<noteq> eCompleted" for m1 p
    using body_bounds [OF that(2,1)] that(3) by auto
  consider (d) "m_parseStatus m = eCompleted" | (big) "m_parseStatus m \<noteq> eCompleted" "\<not> fits m raw"
    | (s) "m_parseStatus m = eStartLine" "fits m raw"
    | (h) "m_parseStatus m \<notin> {eStartLine, eCompleted}" "fits m raw"
    by blast
  then show ?thesis
  proof cases
    case d
    then show ?thesis using assms by (simp add: decode_msg_def)
  next
    case big
    then show ?thesis using assms by (auto simp: decode_msg_def fits_def split: if_splits)
  next
    case h
    then have "body m raw 0 = Inr (ret, m', act)"
      using assms by (auto simp: decode_msg_def fits_def split: if_splits)
    from from_body [OF this] h show ?thesis by simp
  next
    case s
    show ?thesis
    proof (cases "LF \<in> set raw")
      case False
      then show ?thesis using s assms dec_start [OF s] start_none [OF False, of m] by auto
    next
      case True
      obtain n m1 where st: "start m raw = Inr (n, m1)"
        using assms dec_start [OF s] by (auto simp: bindr_eq_Inr_conv)
      note pos = start_line_pos [OF st True]
      show ?thesis
      proof (cases "n = - 1")
        case neg: True
        then show ?thesis using assms dec_start [OF s] st by simp
      next
        case False
        then have "body (m1\<lparr>m_parseStatus := eHeader\<rparr>) raw (nat n) = Inr (ret, m', act)"
          using assms dec_start [OF s] st pos by simp
        from from_body [OF this] False pos s(1) show ?thesis by (simp add: line_start_def)
      qed
    qed
  qed
qed

text \<open>A message that decodes as a whole decodes to the same when it arrives in pieces.\<close>

lemma feed_whole:
  assumes "dec m (s @ concat xs) = Inr (CO_OK, m', act)" and "xs \<noteq> []"
    and "fits m (s @ concat xs)" and "m_parseStatus m \<noteq> eError \<and> in_i32 (m_contentLength m)"
    and "m_parseStatus m \<in> {eStartLine, eHeader} \<longrightarrow> clean_cuts s xs"
  shows "feed dec m s xs = Inr (CO_OK, m', rest_of act (s @ concat xs))"
  using assms
proof (induction xs arbitrary: m s act)
  case Nil
  then show ?case by simp
next
  case (Cons x xs)
  have f: "fits m ((s @ x) @ concat xs)" using Cons.prems(3) by simp
  have rd: "ready m (s @ x)" using Cons.prems(4,5) by (simp add: ready_def)
  have whole: "dec m ((s @ x) @ concat xs) = Inr (CO_OK, m', act)" using Cons.prems(1) by simp
  note da = dec_append [OF f rd, unfolded whole]
  obtain ret m1 a1 where one: "dec m (s @ x) = Inr (ret, m1, a1)"
    using da by (cases "dec m (s @ x)") auto
  show ?case
  proof (cases "ret = CO_AGAIN")
    case False
    then have eq: "ret = CO_OK" "m1 = m'" "a1 = act" using da one by auto
    have "rest_of act (s @ x) @ concat xs = rest_of act ((s @ x) @ concat xs)"
      using dec_outcome [OF one] eq by auto
    then show ?thesis using one eq by simp
  next
    case True
    then have one': "dec m (s @ x) = Inr (CO_AGAIN, m1, a1)" using one by simp
    note again = dec_again [OF f rd one']
    have ne: "xs \<noteq> []" using one' whole by (cases xs) auto
    obtain a2 where two: "dec m1 (rest_of a1 (s @ x) @ concat xs) = Inr (CO_OK, m', a2)" "act = act_after a1 a2"
      using da one' by (cases "dec m1 (rest_of a1 (s @ x) @ concat xs)") (auto simp: after_def)
    have cuts: "m_parseStatus m1 \<in> {eStartLine, eHeader} \<longrightarrow> clean_cuts (rest_of a1 (s @ x)) xs"
    proof
      assume st: "m_parseStatus m1 \<in> {eStartLine, eHeader}"
      have "clean_cuts (s @ x) xs" if "m_parseStatus m \<in> {eStartLine, eHeader}"
        using Cons.prems(5) that by auto
      moreover have "m_parseStatus m \<in> {eStartLine, eHeader}"
        using st again by blast
      ultimately show "clean_cuts (rest_of a1 (s @ x)) xs" using st again clean_cuts_drop [of "s @ x"] by (auto simp del: drop_append)
    qed
    have "feed dec m1 (rest_of a1 (s @ x)) xs = Inr (CO_OK, m', rest_of a2 (rest_of a1 (s @ x) @ concat xs))"
      using Cons.IH [OF two(1) ne _ _ cuts] again by simp
    moreover have "rest_of a2 (rest_of a1 (s @ x) @ concat xs) = rest_of act ((s @ x) @ concat xs)"
    proof -
      obtain k where a2: "a2 = Consume k" using dec_outcome [OF two(1)] again by auto
      from dec_outcome [OF one'] consider "a1 = Keep" | n where "a1 = Consume n" "n \<le> length (s @ x)" by auto
      then show ?thesis
      proof cases
        case 1
        then show ?thesis using two(2) a2 by simp
      next
        case (2 n)
        then have "rest_of a1 (s @ x) @ concat xs = drop n ((s @ x) @ concat xs)" by simp
        then show ?thesis using two(2) a2 2 by (simp only: rest_of.simps act_after.simps drop_drop add.commute)
      qed
    qed
    ultimately show ?thesis using one' by simp
  qed
qed

text \<open>A whole message: start line, header lines, empty line, body, and what follows it.\<close>

lemma dec_message:
  assumes "m_parseStatus m = eStartLine" and "fits m (sl @ concat (map header_line hs) @ crlf @ bd @ rest)"
    and "start m (sl @ concat (map header_line hs) @ crlf @ bd @ rest) = Inr (int (length sl), m1)"
    and "sl \<noteq> []" and "list_all ok_header hs"
    and "blank ((add_headers hs m1)\<lparr>m_parseStatus := eContent\<rparr>) = Inr m2"
    and "content m2 (bd @ rest) = Inr (Some (length bd), m3)" and "m_parseStatus m3 = eCompleted"
  shows "dec m (sl @ concat (map header_line hs) @ crlf @ bd @ rest)
    = Inr (CO_OK, m3, Consume (length (sl @ concat (map header_line hs) @ crlf @ bd)))"
proof -
  let ?h = "concat (map header_line hs)"
  let ?m1 = "m1\<lparr>m_parseStatus := eHeader\<rparr>"
  have ah: "(add_headers hs ?m1)\<lparr>m_parseStatus := eContent\<rparr> = (add_headers hs m1)\<lparr>m_parseStatus := eContent\<rparr>"
    by (simp add: add_headers_set_status)
  have "header_loop blank ?m1 (?h @ crlf @ bd @ rest) 0 = Inr (m2, length ?h + 2)"
    using header_loop_block [of ?m1 hs "bd @ rest"] assms(5,6) ah by simp
  moreover have "m_parseStatus m2 = eContent" using blank_status [OF assms(6)] by simp
  ultimately have "body ?m1 (?h @ crlf @ bd @ rest) 0 = Inr (CO_OK, m3, Consume (length ?h + 2 + length bd))"
    using assms(7,8) by (simp add: decode_body_def)
  then have "body ?m1 (sl @ ?h @ crlf @ bd @ rest) (length sl + 0)
      = Inr (CO_OK, m3, Consume (length (sl @ ?h @ crlf @ bd)))"
    unfolding body_shift by simp
  then show ?thesis using assms(3,4) dec_start [OF assms(1,2)] by simp
qed

end

end
