(* ===== verification/Http_Body.thy ===== *)
theory Http_Body
  imports Http_Decode
begin

text \<open>
  The two ways a body is delimited. \<open>content_body\<close> is the use both decoders make of
  \<open>parse_content\<close>, \<open>chunked_body\<close> the use the client makes of \<open>parse_content_chunked\<close>. Both
  are shown to satisfy the contract of \<open>http_decoder\<close>, and to extract exactly the body of a
  well-formed message.
\<close>

definition content_body ::
  "'a CoProtocolHttp_scheme \<Rightarrow> string \<Rightarrow> (nat option \<times> 'a CoProtocolHttp_scheme) res" where
  "content_body m raw = bindr (parse_content m raw) (\<lambda>(parsed, m). Inr (Some (nat parsed), m))"

definition chunked_body ::
  "'a CoProtocolHttp_scheme \<Rightarrow> string \<Rightarrow> (nat option \<times> 'a CoProtocolHttp_scheme) res" where
  "chunked_body m raw = bindr (parse_content_chunked m raw)
     (\<lambda>(parseRet, m). Inr (if parseRet = - 1 then None else Some (nat parseRet), m))"

section \<open>Content-Length\<close>

lemma append_content_fits:
  assumes "n \<le> length buf"
  shows "append_content buf (int n) m =
    bindr (i32 (m_contentLength m + int n))
      (\<lambda>k. Inr (m\<lparr>m_content := m_content m @ take n buf, m_contentLength := k\<rparr>))"
  using assms by (simp add: append_content_def)

lemma parse_content_none:
  "m_contentRemain m \<le> 0 \<Longrightarrow> parse_content m buf = Inr (0, m\<lparr>m_parseStatus := eCompleted\<rparr>)"
  by (simp add: parse_content_def Let_def)

lemma parse_content_some:
  assumes "0 < m_contentRemain m"
  shows "parse_content m buf =
    (let n = min (length buf) (nat (m_contentRemain m)) in
     bindr (i32 (m_contentLength m + int n))
       (\<lambda>k. let m1 = m\<lparr>m_content := m_content m @ take n buf, m_contentLength := k,
                       m_contentRemain := m_contentRemain m - int n\<rparr>
            in Inr (int n, if nat (m_contentRemain m) \<le> length buf then m1\<lparr>m_parseStatus := eCompleted\<rparr> else m1)))"
proof -
  let ?n = "min (length buf) (nat (m_contentRemain m))"
  have "(if int (length buf) > m_contentRemain m then m_contentRemain m else int (length buf)) = int ?n"
    using assms by (auto simp: min_def)
  moreover have "?n \<le> length buf" by simp
  ultimately show ?thesis
    using assms append_content_fits [of ?n buf m]
    by (cases "in_i32 (m_contentLength m + int ?n)")
      (auto simp: parse_content_def Let_def i32_def)
qed

lemma content_body_status:
  assumes "content_body m u = Inr (Some j, m')" and "m_parseStatus m = eContent"
  shows "j \<le> length u \<and> m_parseStatus m' \<in> {eContent, eCompleted}"
proof (cases "0 < m_contentRemain m")
  case True
  then show ?thesis using assms
    by (auto simp: content_body_def parse_content_some Let_def bindr_eq_Inr_conv split: if_splits)
next
  case False
  then show ?thesis using assms by (auto simp: content_body_def parse_content_none)
qed

lemma content_body_append:
  assumes "m_parseStatus m = eContent" and len: "in_i32 (m_contentLength m)"
  shows "content_body m (u @ x) =
    (case content_body m u of
       Inl e \<Rightarrow> Inl e
     | Inr (None, m') \<Rightarrow> Inr (None, m')
     | Inr (Some j, m') \<Rightarrow>
         if m_parseStatus m' = eCompleted then Inr (Some j, m')
         else shift_result j (content_body m' (drop j u @ x)))"
proof (cases "0 < m_contentRemain m")
  case False
  then show ?thesis by (simp add: content_body_def parse_content_none)
next
  case True
  let ?R = "nat (m_contentRemain m)" and ?L = "m_contentLength m"
  show ?thesis
  proof (cases "?R \<le> length u")
    case full: True
    then have "min (length u + length x) ?R = ?R" "min (length u) ?R = ?R" "take ?R (u @ x) = take ?R u"
      by simp_all
    then show ?thesis using full True
      by (cases "in_i32 (?L + int ?R)") (simp_all add: content_body_def parse_content_some Let_def i32_def)
  next
    case more: False
    then have mn: "min (length u) ?R = length u" by simp
    show ?thesis
    proof (cases "in_i32 (?L + int (length u))")
      case False
      moreover have "\<not> in_i32 (?L + int (min (length u + length x) ?R))"
        using False len more by (auto simp: in_i32_def min_def)
      ultimately show ?thesis using True more mn
        by (simp add: content_body_def parse_content_some Let_def i32_def)
    next
      case ok: True
      let ?m1 = "m\<lparr>m_content := m_content m @ u, m_contentLength := ?L + int (length u),
                   m_contentRemain := m_contentRemain m - int (length u)\<rparr>"
      have part: "content_body m u = Inr (Some (length u), ?m1)"
        using True more mn ok by (simp add: content_body_def parse_content_some Let_def i32_def)
      have R1: "0 < m_contentRemain ?m1" using more True by simp
      let ?k = "min (length x) (nat (m_contentRemain m - int (length u)))"
      have mn2: "min (length u + length x) ?R = length u + ?k" using more by (auto simp: min_def)
      have le: "(?R \<le> length u + length x) = (nat (m_contentRemain m - int (length u)) \<le> length x)"
        using more by auto
      have "content_body m (u @ x) = shift_result (length u) (content_body ?m1 x)"
        unfolding content_body_def parse_content_some [OF True] parse_content_some [OF R1] length_append mn2 le
        by (cases "in_i32 (?L + int (length u) + int ?k)") (simp_all add: Let_def i32_def add.assoc nat_int_add)
      then show ?thesis using part assms by simp
    qed
  qed
qed

lemma content_body_length:
  assumes "content_body m u = Inr (Some j, m')" and "in_i32 (m_contentLength m)"
  shows "in_i32 (m_contentLength m')"
  using assms by (cases "0 < m_contentRemain m")
    (auto simp: content_body_def parse_content_some parse_content_none Let_def bindr_eq_Inr_conv split: if_splits)

text \<open>Exactly the announced number of bytes, and no more, becomes the content.\<close>

lemma content_body_exact:
  assumes "m_contentRemain m = int (length bs)" and "in_i32 (m_contentLength m + int (length bs))"
  shows "content_body m (bs @ rest) = Inr (Some (length bs),
    m\<lparr>m_content := m_content m @ bs, m_contentLength := m_contentLength m + int (length bs),
      m_contentRemain := 0, m_parseStatus := eCompleted\<rparr>)"
proof (cases "bs = []")
  case True
  then show ?thesis using assms by (simp add: content_body_def parse_content_none)
next
  case False
  then show ?thesis using assms
    by (simp add: content_body_def parse_content_some Let_def i32_def)
qed

section \<open>Chunked\<close>

text \<open>A shortened view of a size line: hex digits, and the number they spell.\<close>

definition is_hex :: "char \<Rightarrow> bool" where
  "is_hex c \<longleftrightarrow> hex_val c \<noteq> None"

fun hex_num :: "int \<Rightarrow> string \<Rightarrow> int" where
  "hex_num acc [] = acc"
| "hex_num acc (c # cs) = hex_num (acc * 16 + (case hex_val c of None \<Rightarrow> 0 | Some d \<Rightarrow> d)) cs"

lemma hex_val_range: "hex_val c = Some d \<Longrightarrow> 0 \<le> d \<and> d < 16"
  by (auto simp: hex_val_def Let_def split: if_splits)

lemma hex_num_ge: "0 \<le> acc \<Longrightarrow> acc \<le> hex_num acc s"
proof (induction s arbitrary: acc)
  case Nil
  then show ?case by simp
next
  case (Cons c s)
  let ?d = "case hex_val c of None \<Rightarrow> 0 | Some d \<Rightarrow> d"
  have "0 \<le> ?d" using hex_val_range [of c] by (auto split: option.splits)
  then show ?case using Cons.IH [of "acc * 16 + ?d"] Cons.prems by simp
qed

lemma chunk_size_loop_ok:
  "list_all is_hex s \<Longrightarrow> 0 \<le> acc \<Longrightarrow> hex_num acc s < two31 \<Longrightarrow>
   chunk_size_loop acc s = Inr (Some (hex_num acc s))"
proof (induction s arbitrary: acc)
  case Nil
  then show ?case by simp
next
  case (Cons c s)
  then obtain d where d: "hex_val c = Some d" by (auto simp: is_hex_def)
  have "0 \<le> acc * 16 + d" using hex_val_range [OF d] Cons.prems by simp
  moreover have "acc * 16 + d < two31" using hex_num_ge [of "acc * 16 + d" s] calculation Cons.prems d by simp
  ultimately show ?case using Cons d by (simp add: i32_def in_i32_def)
qed

lemma chunk_size_loop_nonneg: "chunk_size_loop acc s = Inr (Some n) \<Longrightarrow> 0 \<le> acc \<Longrightarrow> 0 \<le> n"
proof (induction s arbitrary: acc)
  case (Cons c s)
  then show ?case
    by (auto simp: bindr_eq_Inr_conv split: option.splits dest!: hex_val_range)
qed simp

lemma hex_not_LF: "list_all is_hex s \<Longrightarrow> LF \<notin> set s"
  by (auto simp: list_all_iff is_hex_def hex_val_def)

lemma chunk_head_ok:
  assumes "list_all is_hex s" and "hex_num 0 s + 2 < two31"
  shows "chunk_head (s @ crlf @ rest) = Inr (ChunkAt (int (length s) + 2) (hex_num 0 s + 2))"
proof -
  have eq: "s @ crlf @ rest = (s @ [CR]) @ LF # rest" by simp
  have m: "memchr LF (s @ crlf @ rest) = Some (length s + 1)"
    using memchr_append [of LF "s @ [CR]" rest] hex_not_LF [OF assms(1)] unfolding eq by simp
  have "0 \<le> hex_num 0 s" using hex_num_ge [of 0 s] by simp
  then show ?thesis using assms chunk_size_loop_ok [of s 0]
    unfolding chunk_head_def m by (simp add: nth_append i32_def in_i32_def)
qed

lemma chunk_head_bounds:
  assumes "chunk_head buf = Inr (ChunkAt h n)"
  shows "2 \<le> h" and "2 \<le> n" and "h \<le> int (length buf)"
proof -
  obtain p where p: "memchr LF buf = Some p" using assms by (auto simp: chunk_head_def split: option.splits)
  have "0 < p" "h = int p + 1" using assms p
    by (auto simp: chunk_head_def bindr_eq_Inr_conv split: if_splits option.splits)
  moreover have "2 \<le> n" using assms p chunk_size_loop_nonneg [of 0 "take (p - 1) buf"]
    by (auto simp: chunk_head_def bindr_eq_Inr_conv split: if_splits option.splits)
  moreover have "p < length buf" using memchr_Some_less [OF p] .
  ultimately show "2 \<le> h" "2 \<le> n" "h \<le> int (length buf)" by auto
qed

lemma chunk_head_append:
  assumes "chunk_head buf \<noteq> Inr ChunkShort"
  shows "chunk_head (buf @ x) = chunk_head buf"
proof -
  obtain p where p: "memchr LF buf = Some p" using assms by (auto simp: chunk_head_def split: option.splits)
  have pl: "p < length buf" using memchr_Some_less [OF p] .
  then have z: "p - Suc (length buf) = 0" by simp
  from pl have "(buf @ x) ! (p - 1) = buf ! (p - 1)" "take (p - 1) (buf @ x) = take (p - 1) buf"
    by (auto simp: nth_append)
  then show ?thesis using p z memchr_append_first [OF p, of x] by (simp add: chunk_head_def)
qed

text \<open>
  One round of \<open>parse_content_chunked\<close>, seen from its outcome; the guard that makes the
  recursion of the model end never fires.
\<close>

datatype 'm chunk_round = Wait | Bad | Last nat | More nat 'm

definition chunk_step :: "'a CoProtocolHttp_scheme \<Rightarrow> string \<Rightarrow> 'a CoProtocolHttp_scheme chunk_round res" where
  "chunk_step m b =
     bindr (chunk_head b)
       (\<lambda>hd. case hd of
           ChunkShort \<Rightarrow> Inr Wait
         | ChunkBad \<Rightarrow> Inr Bad
         | ChunkAt h n \<Rightarrow>
             bindr (i32 (h + n))
               (\<lambda>total.
                  if int (length b) < total then Inr Wait
                  else if n = 2 then Inr (Last (nat total))
                  else bindr (append_content (drop (nat h) b) (n - 2) m)
                         (\<lambda>m'. Inr (More (nat total) m'))))"

definition chunk_next :: "(string \<Rightarrow> nat \<Rightarrow> 'm \<Rightarrow> (int \<times> 'm) res) \<Rightarrow> ('m \<Rightarrow> 'm) \<Rightarrow> 'm \<Rightarrow> string \<Rightarrow> nat \<Rightarrow> 'm chunk_round \<Rightarrow> (int \<times> 'm) res" where
  "chunk_next rec fin m ori p c =
     (case c of Wait \<Rightarrow> Inr (int p, m) | Bad \<Rightarrow> Inr (- 1, m) | Last n \<Rightarrow> Inr (int (p + n), fin m)
      | More n m' \<Rightarrow> rec ori (p + n) m')"

lemma chunk_next_simps [simp]:
  "chunk_next rec fin m ori p Wait = Inr (int p, m)"
  "chunk_next rec fin m ori p Bad = Inr (- 1, m)"
  "chunk_next rec fin m ori p (Last n) = Inr (int (p + n), fin m)"
  "chunk_next rec fin m ori p (More n m') = rec ori (p + n) m'"
  by (simp_all add: chunk_next_def)

abbreviation chunk_done :: "'a CoProtocolHttp_scheme \<Rightarrow> 'a CoProtocolHttp_scheme" where
  "chunk_done m \<equiv> m\<lparr>m_parseStatus := eCompleted\<rparr>"

lemma parse_chunks_unfold:
  "parse_chunks m ori p = bindr (chunk_step m (drop p ori))
     (chunk_next (\<lambda>ori p m. parse_chunks m ori p) chunk_done m ori p)"
proof (cases "chunk_head (drop p ori)")
  case (Inl e)
  then show ?thesis by (simp add: parse_chunks.simps [of m ori p] chunk_step_def)
next
  case (Inr hd)
  show ?thesis
  proof (cases hd)
    case (ChunkAt h n)
    then have pos: "0 < h + n" using chunk_head_bounds [of "drop p ori" h n] Inr by simp
    show ?thesis
    proof (cases "in_i32 (h + n)")
      case False
      then show ?thesis using Inr ChunkAt
        by (simp add: parse_chunks.simps [of m ori p] chunk_step_def i32_def Let_def)
    next
      case True
      obtain c where c: "append_content (drop (nat h) (drop p ori)) (n - 2) m = c" by blast
      obtain l where l: "int (length (drop p ori)) = l" by blast
      show ?thesis using Inr ChunkAt True pos
        unfolding parse_chunks.simps [of m ori p] chunk_step_def Let_def l
        by (cases c) (auto simp: i32_def c simp del: drop_drop)
    qed
  qed (use Inr in \<open>simp_all add: parse_chunks.simps [of m ori p] chunk_step_def\<close>)
qed

lemma chunk_step_append:
  assumes "chunk_step m b \<noteq> Inr Wait"
  shows "chunk_step m (b @ x) = chunk_step m b"
proof -
  have "chunk_head b \<noteq> Inr ChunkShort" using assms by (auto simp: chunk_step_def)
  then have hd: "chunk_head (b @ x) = chunk_head b" by (rule chunk_head_append)
  show ?thesis
  proof (cases "\<exists>h n. chunk_head b = Inr (ChunkAt h n)")
    case False
    then show ?thesis unfolding chunk_step_def hd
      by (auto simp: bindr_def split: sum.splits chunk_header.splits)
  next
    case True
    then obtain h n where at: "chunk_head b = Inr (ChunkAt h n)" by blast
    note bounds = chunk_head_bounds [OF at]
    show ?thesis
    proof (cases "in_i32 (h + n)")
      case False
      then show ?thesis unfolding chunk_step_def hd at by (simp add: i32_def)
    next
      case ok: True
      then have len: "h + n \<le> int (length b)"
        using assms at by (auto simp: chunk_step_def i32_def split: if_splits)
      then have "append_content (drop (nat h) (b @ x)) (n - 2) m = append_content (drop (nat h) b) (n - 2) m"
        using bounds by (auto simp: append_content_def)
      then show ?thesis unfolding chunk_step_def hd at using ok len by (simp add: i32_def)
    qed
  qed
qed

lemma chunk_step_at:
  assumes "chunk_step m b = Inr c" and "c \<noteq> Wait" and "c \<noteq> Bad"
  obtains h n where "chunk_head b = Inr (ChunkAt h n)" "0 < h + n" "h + n \<le> int (length b)"
    "if n = 2 then c = Last (nat (h + n))
     else \<exists>m'. append_content (drop (nat h) b) (n - 2) m = Inr m' \<and> c = More (nat (h + n)) m'"
proof -
  obtain hd where hd: "chunk_head b = Inr hd" using assms by (auto simp: chunk_step_def bindr_eq_Inr_conv)
  obtain h n where at: "chunk_head b = Inr (ChunkAt h n)"
    using assms hd by (cases hd) (simp_all add: chunk_step_def)
  have "in_i32 (h + n)" using assms at by (auto simp: chunk_step_def bindr_eq_Inr_conv)
  then have step: "chunk_step m b = (if int (length b) < h + n then Inr Wait
      else if n = 2 then Inr (Last (nat (h + n)))
      else bindr (append_content (drop (nat h) b) (n - 2) m) (\<lambda>m'. Inr (More (nat (h + n)) m')))"
    using at by (simp add: chunk_step_def i32_ok)
  have "h + n \<le> int (length b)" using assms step by (auto split: if_splits)
  moreover have "0 < h + n" using chunk_head_bounds [OF at] by simp
  moreover have "if n = 2 then c = Last (nat (h + n))
     else \<exists>m'. append_content (drop (nat h) b) (n - 2) m = Inr m' \<and> c = More (nat (h + n)) m'"
    using assms step by (auto simp: bindr_eq_Inr_conv split: if_splits)
  ultimately show ?thesis using that [OF at] by simp
qed

lemma append_content_keeps:
  assumes "append_content d n m = Inr m'"
  shows "m_parseStatus m' = m_parseStatus m" and "in_i32 (m_contentLength m')"
    and "m_contentChunked m' = m_contentChunked m"
  using assms by (auto simp: append_content_def bindr_eq_Inr_conv split: if_splits)

lemma chunk_step_last: "chunk_step m b = Inr (Last n) \<Longrightarrow> 0 < n \<and> n \<le> length b"
  by (erule chunk_step_at) (auto split: if_splits)

lemma chunk_step_more:
  assumes "chunk_step m b = Inr (More n m')"
  shows "0 < n \<and> n \<le> length b \<and> m_parseStatus m' = m_parseStatus m \<and> in_i32 (m_contentLength m')
    \<and> m_contentChunked m' = m_contentChunked m"
  using assms by (rule chunk_step_at) (auto split: if_splits dest: append_content_keeps)

text \<open>The loop on all the bytes is the loop on the first ones, then the loop on the rest.\<close>

lemma parse_chunks_result:
  "parse_chunks m ori p = Inr (r, m') \<Longrightarrow> p \<le> length ori \<Longrightarrow>
   (r = - 1 \<or> int p \<le> r \<and> r \<le> int (length ori)) \<and> m_parseStatus m' \<in> {m_parseStatus m, eCompleted}
   \<and> (in_i32 (m_contentLength m) \<longrightarrow> in_i32 (m_contentLength m'))"
proof (induction "length ori - p" arbitrary: m p rule: less_induct)
  case less
  obtain c where c: "chunk_step m (drop p ori) = Inr c"
    using less.prems(1) by (subst (asm) parse_chunks_unfold) (auto simp: bindr_eq_Inr_conv)
  have run: "chunk_next (\<lambda>ori p m. parse_chunks m ori p) chunk_done m ori p c = Inr (r, m')"
    using less.prems(1) c by (subst (asm) parse_chunks_unfold) simp
  show ?case
  proof (cases c)
    case Wait
    then show ?thesis using run less.prems(2) by auto
  next
    case Bad
    then show ?thesis using run by auto
  next
    case (Last n)
    then show ?thesis using run chunk_step_last [of m "drop p ori" n] c less.prems(2) by auto
  next
    case (More n m1)
    note n = chunk_step_more [OF c [unfolded More]]
    have "length ori - (p + n) < length ori - p" "p + n \<le> length ori" using n less.prems(2) by auto
    moreover have "parse_chunks m1 ori (p + n) = Inr (r, m')" using run More by simp
    ultimately show ?thesis using less.hyps [of "p + n" m1] n by fastforce
  qed
qed

lemma parse_chunks_append:
  "p \<le> length u \<Longrightarrow> m_parseStatus m \<noteq> eCompleted \<Longrightarrow> parse_chunks m (u @ x) p =
    (case parse_chunks m u p of
       Inl e \<Rightarrow> Inl e
     | Inr (r, m') \<Rightarrow> if r = - 1 \<or> m_parseStatus m' = eCompleted then Inr (r, m')
                    else parse_chunks m' (u @ x) (nat r))"
proof (induction "length u - p" arbitrary: m p rule: less_induct)
  case less
  have dr: "drop p (u @ x) = drop p u @ x" using less.prems by simp
  show ?case
  proof (cases "chunk_step m (drop p u)")
    case (Inl e)
    then have "chunk_step m (drop p (u @ x)) = Inl e" unfolding dr by (subst chunk_step_append) auto
    then show ?thesis using Inl by (simp add: parse_chunks_unfold [of m _ p])
  next
    case (Inr c)
    have next_u: "parse_chunks m u p = chunk_next (\<lambda>ori p m. parse_chunks m ori p) chunk_done m u p c"
      using Inr by (subst parse_chunks_unfold) simp
    show ?thesis
    proof (cases "c = Wait")
      case True
      then show ?thesis using next_u less.prems by simp
    next
      case False
      then have "chunk_step m (drop p (u @ x)) = Inr c" unfolding dr using Inr by (subst chunk_step_append) auto
      then have next_ux: "parse_chunks m (u @ x) p
          = chunk_next (\<lambda>ori p m. parse_chunks m ori p) chunk_done m (u @ x) p c"
        by (subst parse_chunks_unfold) simp
      show ?thesis
      proof (cases c)
        case (More n m1)
        note n = chunk_step_more [OF Inr [unfolded More]]
        have "length u - (p + n) < length u - p" "p + n \<le> length u" using n less.prems(1) by auto
        then show ?thesis using less.hyps [of "p + n" m1] n less.prems(2) next_u next_ux More by simp
      qed (use False next_u next_ux in simp_all)
    qed
  qed
qed

lemma parse_chunks_shift:
  "parse_chunks m (pre @ u) (length pre + p) =
    bindr (parse_chunks m u p) (\<lambda>(r, m'). Inr (if r = - 1 then - 1 else int (length pre) + r, m'))"
proof (induction "length u - p" arbitrary: m p rule: less_induct)
  case less
  have dr: "drop (length pre + p) (pre @ u) = drop p u" by simp
  show ?case
  proof (cases "chunk_step m (drop p u)")
    case (Inl e)
    then show ?thesis by (simp add: parse_chunks_unfold [of m _ p] parse_chunks_unfold [of m _ "length pre + p"])
  next
    case (Inr c)
    have next_u: "parse_chunks m u p = chunk_next (\<lambda>ori p m. parse_chunks m ori p) chunk_done m u p c"
      using Inr by (subst parse_chunks_unfold) simp
    have next_p: "parse_chunks m (pre @ u) (length pre + p)
        = chunk_next (\<lambda>ori p m. parse_chunks m ori p) chunk_done m (pre @ u) (length pre + p) c"
      using Inr by (subst parse_chunks_unfold) simp
    show ?thesis
    proof (cases c)
      case (More n m1)
      note n = chunk_step_more [OF Inr [unfolded More]]
      have "length u - (p + n) < length u - p" using n by auto
      then show ?thesis using less.hyps [of "p + n" m1] next_u next_p More by (simp add: add.assoc)
    qed (use next_u next_p in simp_all)
  qed
qed

lemma chunked_body_status:
  assumes "chunked_body m u = Inr (Some j, m')" and "m_parseStatus m = eContent"
  shows "j \<le> length u \<and> m_parseStatus m' \<in> {eContent, eCompleted}"
  using assms parse_chunks_result [of m u 0]
  by (auto simp: chunked_body_def parse_content_chunked_def bindr_eq_Inr_conv split: if_splits)

lemma chunked_body_length:
  assumes "chunked_body m u = Inr (Some j, m')" and "in_i32 (m_contentLength m)"
  shows "in_i32 (m_contentLength m')"
  using assms parse_chunks_result [of m u 0]
  by (auto simp: chunked_body_def parse_content_chunked_def bindr_eq_Inr_conv split: if_splits)

lemma chunked_body_append:
  assumes "m_parseStatus m = eContent"
  shows "chunked_body m (u @ x) =
    (case chunked_body m u of
       Inl e \<Rightarrow> Inl e
     | Inr (None, m') \<Rightarrow> Inr (None, m')
     | Inr (Some j, m') \<Rightarrow>
         if m_parseStatus m' = eCompleted then Inr (Some j, m')
         else shift_result j (chunked_body m' (drop j u @ x)))"
proof (cases "parse_chunks m u 0")
  case (Inl e)
  then show ?thesis using parse_chunks_append [of 0 u m x] assms
    by (simp add: chunked_body_def parse_content_chunked_def)
next
  case (Inr q)
  obtain r m' where q: "q = (r, m')" by fastforce
  have run: "parse_chunks m u 0 = Inr (r, m')" using Inr q by simp
  note app = parse_chunks_append [of 0 u m x, unfolded run]
  show ?thesis
  proof (cases "r = - 1 \<or> m_parseStatus m' = eCompleted")
    case True
    then show ?thesis using app run assms by (auto simp: chunked_body_def parse_content_chunked_def)
  next
    case False
    then have r: "0 \<le> r" "nat r \<le> length u" using parse_chunks_result [OF run] by auto
    have "take (nat r) u @ drop (nat r) u @ x = u @ x" by (metis append.assoc append_take_drop_id)
    moreover have "length (take (nat r) u) = nat r" "length (take (nat r) u) + 0 = nat r" using r by simp_all
    ultimately have sh: "parse_chunks m' (u @ x) (nat r) =
        bindr (parse_chunks m' (drop (nat r) u @ x) 0) (\<lambda>(k, m''). Inr (if k = - 1 then - 1 else int (nat r) + k, m''))"
      using parse_chunks_shift [of m' "take (nat r) u" "drop (nat r) u @ x" 0] by (simp only:)
    have whole: "chunked_body m (u @ x) = bindr (parse_chunks m' (drop (nat r) u @ x) 0)
        (\<lambda>(k, m''). Inr (if k = - 1 then None else Some (nat r + nat k), m''))"
      unfolding chunked_body_def parse_content_chunked_def using app False assms sh r
        parse_chunks_result [of m' "drop (nat r) u @ x" 0]
      by (cases "parse_chunks m' (drop (nat r) u @ x) 0") (auto simp: nat_add_distrib)
    have "chunked_body m u = Inr (Some (nat r), m')"
      using run False by (simp add: chunked_body_def parse_content_chunked_def)
    then show ?thesis unfolding whole using False
      by (cases "parse_chunks m' (drop (nat r) u @ x) 0")
        (auto simp: chunked_body_def parse_content_chunked_def)
  qed
qed

section \<open>Well-formed chunked bodies\<close>

text \<open>A chunk is a size line and its data; the size line spells the length of the data.\<close>

definition chunk_text :: "string \<times> string \<Rightarrow> string" where
  "chunk_text c = fst c @ crlf @ snd c @ crlf"

definition ok_chunk :: "string \<times> string \<Rightarrow> bool" where
  "ok_chunk c \<longleftrightarrow> list_all is_hex (fst c) \<and> hex_num 0 (fst c) = int (length (snd c)) \<and> snd c \<noteq> []"

definition last_chunk :: "string \<Rightarrow> bool" where
  "last_chunk z \<longleftrightarrow> list_all is_hex z \<and> hex_num 0 z = 0"

definition chunked_text :: "(string \<times> string) list \<Rightarrow> string \<Rightarrow> string" where
  "chunked_text cs z = concat (map chunk_text cs) @ z @ crlf @ crlf"

lemma chunk_step_chunk:
  assumes "ok_chunk c" and "int (length (chunk_text c)) < two31"
    and "in_i32 (m_contentLength m + int (length (snd c)))"
  shows "chunk_step m (chunk_text c @ rest) = Inr (More (length (chunk_text c))
    (m\<lparr>m_content := m_content m @ snd c, m_contentLength := m_contentLength m + int (length (snd c))\<rparr>))"
proof -
  let ?h = "int (length (fst c)) + 2" and ?n = "int (length (snd c)) + 2"
  have tot: "?h + ?n = int (length (chunk_text c))" by (simp add: chunk_text_def)
  have "chunk_head (chunk_text c @ rest) = Inr (ChunkAt ?h ?n)"
    using chunk_head_ok [of "fst c" "snd c @ crlf @ rest"] assms
    by (simp add: chunk_text_def ok_chunk_def)
  moreover have "drop (nat ?h) (chunk_text c @ rest) = snd c @ crlf @ rest"
    by (simp add: chunk_text_def nat_add_distrib)
  moreover have "in_i32 (?h + ?n)" unfolding tot using assms(2) by (simp add: in_i32_def)
  moreover have "snd c \<noteq> []" using assms by (simp add: ok_chunk_def)
  ultimately show ?thesis using assms(3) unfolding chunk_step_def
    by (simp only: bindr_simps chunk_header.case i32_ok tot) (simp add: append_content_def i32_ok)
qed

lemma chunk_step_end:
  assumes "last_chunk z" and "int (length z) + 4 < two31"
  shows "chunk_step m (z @ crlf @ crlf @ rest) = Inr (Last (length z + 4))"
  using chunk_head_ok [of z "crlf @ rest"] assms
  by (simp add: chunk_step_def last_chunk_def i32_def in_i32_def nat_add_distrib)

lemma parse_chunks_text:
  "list_all ok_chunk cs \<Longrightarrow> last_chunk z \<Longrightarrow> int (length (chunked_text cs z)) < two31 \<Longrightarrow>
   0 \<le> m_contentLength m \<Longrightarrow> m_contentLength m + int (length (concat (map snd cs))) < two31 \<Longrightarrow>
   parse_chunks m (chunked_text cs z @ rest) 0 = Inr (int (length (chunked_text cs z)),
     m\<lparr>m_content := m_content m @ concat (map snd cs),
       m_contentLength := m_contentLength m + int (length (concat (map snd cs))),
       m_parseStatus := eCompleted\<rparr>)"
proof (induction cs arbitrary: m)
  case Nil
  then show ?case using chunk_step_end [of z m rest]
    by (subst parse_chunks_unfold) (simp add: chunked_text_def)
next
  case (Cons c cs)
  let ?m = "m\<lparr>m_content := m_content m @ snd c, m_contentLength := m_contentLength m + int (length (snd c))\<rparr>"
  have txteq: "chunked_text (c # cs) z @ rest = chunk_text c @ (chunked_text cs z @ rest)"
    by (simp add: chunked_text_def)
  have len: "length (chunked_text (c # cs) z) = length (chunk_text c) + length (chunked_text cs z)"
    by (simp add: chunked_text_def)
  have "chunk_step m (chunk_text c @ (chunked_text cs z @ rest)) = Inr (More (length (chunk_text c)) ?m)"
    by (rule chunk_step_chunk) (use Cons.prems len in \<open>auto simp: in_i32_def\<close>)
  then have "parse_chunks m (chunked_text (c # cs) z @ rest) 0
      = parse_chunks ?m (chunk_text c @ (chunked_text cs z @ rest)) (length (chunk_text c) + 0)"
    unfolding txteq by (subst parse_chunks_unfold) simp
  also have "\<dots> = bindr (parse_chunks ?m (chunked_text cs z @ rest) 0)
      (\<lambda>(r, m'). Inr (if r = - 1 then - 1 else int (length (chunk_text c)) + r, m'))"
    by (rule parse_chunks_shift)
  finally show ?case using Cons.IH [of ?m] Cons.prems len by (simp add: add.assoc)
qed

lemma chunked_body_exact:
  assumes "list_all ok_chunk cs" and "last_chunk z" and "int (length (chunked_text cs z)) < two31"
    and "m_contentLength m = 0"
  shows "chunked_body m (chunked_text cs z @ rest) = Inr (Some (length (chunked_text cs z)),
     m\<lparr>m_content := m_content m @ concat (map snd cs),
       m_contentLength := int (length (concat (map snd cs))), m_parseStatus := eCompleted\<rparr>)"
proof -
  have "length (concat (map snd cs)) \<le> length (concat (map chunk_text cs))"
    by (induction cs) (auto simp: chunk_text_def)
  then have "int (length (concat (map snd cs))) < two31" using assms(3) by (simp add: chunked_text_def)
  then show ?thesis using parse_chunks_text [OF assms(1-3), of m rest] assms(4)
    by (simp add: chunked_body_def parse_content_chunked_def)
qed

end
