(* ===== verification/Http_Server.thy ===== *)
theory Http_Server
  imports Http_Body
begin

text \<open>
  \<^verbatim>\<open>protocol/co_protocol_http_server.h\<close>, \<^verbatim>\<open>protocol/co_protocol_http_server.cpp\<close>: the server
  end of HTTP, which decodes requests and encodes responses. \<open>server_decode\<close> is
  \<open>decode_msg\<close> with the request parser; the interpretation \<open>srv\<close> of \<open>http_decoder\<close> gives the
  results on segmentation and consumption.
\<close>

section \<open>decode\<close>

text \<open>The empty line: \<open>Content-Length\<close>, when there is one, is what remains to be read.\<close>

definition server_blank :: "CoHTTPRequest \<Rightarrow> CoHTTPRequest res" where
  "server_blank m =
     (let strContentLen = get_headervalue HEADER_CONTENT_LENGTH m
      in if strContentLen \<noteq> []
         then let n = c_atoi strContentLen
              in reserve_contentlength n (m\<lparr>m_contentRemain := n\<rparr>)
         else Inr m)"

definition server_parse :: "CoHTTPRequest decoder" where
  "server_parse = decode_msg parse_startline_req server_blank content_body"

definition server_decode :: "http_protocol \<Rightarrow> co_buffer \<Rightarrow> (int \<times> http_protocol \<times> co_buffer) res" where
  "server_decode p b =
     bindr (server_parse (m_reqMsg p) (contents b))
       (\<lambda>(ret, m, act). Inr (ret, p\<lparr>m_reqMsg := m\<rparr>, apply_action act b))"

section \<open>encode\<close>

definition HTTP_STATUS_LINES :: "(int \<times> string) list" where
  "HTTP_STATUS_LINES =
    [(100, ''Continue''), (101, ''Switching Protocols''), (200, ''OK''), (201, ''Created''),
     (202, ''Accepted''), (203, ''Non-Authoritative Information''), (204, ''No Content''),
     (205, ''Reset Content''), (206, ''Partial Content''), (300, ''Multiple Choices''),
     (301, ''Moved Permanently''), (302, ''Found''), (303, ''See Other''), (304, ''Not Modified''),
     (305, ''Use Proxy''), (306, ''Unused''), (307, ''Temporary Redirect''), (400, ''Bad Request''),
     (401, ''Unauthorized''), (402, ''Payment Required''), (403, ''Forbidden''), (404, ''Not Found''),
     (405, ''Method Not Allowed''), (406, ''Not Acceptable''), (407, ''Proxy Authentication Required''),
     (408, ''Request Time-out''), (409, ''Conflict''), (410, ''Gone''), (411, ''Length Required''),
     (412, ''Precondition Failed''), (413, ''Request Entity Too Large''), (414, ''Request-URI Too Large''),
     (415, ''Unsupported Media Type''), (416, ''Requested range not satisfiable''),
     (417, ''Expectation Failed''), (500, ''Internal Server Error''), (501, ''Not Implemented''),
     (502, ''Bad Gateway''), (503, ''Service Unavailable''), (504, ''Gateway Time-out''),
     (505, ''HTTP Version not supported'')]"

definition status_phrase :: "int \<Rightarrow> string" where
  "status_phrase code =
     (case map_of HTTP_STATUS_LINES code of
        Some s \<Rightarrow> s
      | None \<Rightarrow> (case map_of HTTP_STATUS_LINES 500 of Some s \<Rightarrow> s | None \<Rightarrow> []))"

text \<open>The headers \<open>encode\<close> sets before it writes them.\<close>

definition server_headers :: "CoHTTPResponse \<Rightarrow> CoHTTPResponse" where
  "server_headers m =
     (let m = snd (remove_header HEADER_CONTENT_LENGTH m);
          m = (if m_contentLength m > 0
               then add_header HEADER_CONTENT_LENGTH (to_string (m_contentLength m)) m
               else add_header HEADER_CONTENT_LENGTH ''0'' m);
          m = snd (remove_header HEADER_SERVER m)
      in add_header HEADER_SERVER ''coserver/http'' m)"

text \<open>
  \<open>itr\<close> is the iteration order of the \<open>unordered_map\<close>. The return values of
  \<open>buffer_append\<close> are not looked at.
\<close>

definition server_pieces :: "(headers \<Rightarrow> headers) \<Rightarrow> CoHTTPResponse \<Rightarrow> string list" where
  "server_pieces itr m =
     start_line (m_version m) (to_string (m_statuscode m)) (status_phrase (m_statuscode m))
     # map header_line (itr (m_headers m)) @ [crlf]
     @ (if m_contentLength m > 0 then [m_content m] else [])"

definition server_encode ::
  "(headers \<Rightarrow> headers) \<Rightarrow> heap \<Rightarrow> http_protocol \<Rightarrow> co_buffer \<Rightarrow> (int \<times> http_protocol \<times> co_buffer) res" where
  "server_encode itr h p b =
     (let m = server_headers (m_respMsg p)
      in bindr (append_all (buffer_append h) (server_pieces itr m) b)
           (\<lambda>b'. Inr (CO_OK, p\<lparr>m_respMsg := m\<rparr>, b')))"

section \<open>The request parser keeps the contract\<close>

lemma get_line_start: "get_line raw = Some (k, l) \<Longrightarrow> 0 < k \<and> line_start raw k"
  by (auto simp: get_line_def line_start_def dest: memchr_Some_less memchr_Some_nth)

lemma parse_params_only: "\<exists>xs. parse_params ps m = m\<lparr>m_params := xs\<rparr>"
proof (induction ps m rule: parse_params.induct)
  case (1 ps m)
  show ?case
  proof (cases "ps = None \<or> ps = Some []")
    case True
    then have "parse_params ps m = m\<lparr>m_params := m_params m\<rparr>" by (auto simp: parse_params.simps [of ps])
    then show ?thesis by blast
  next
    case False
    then obtain p where p: "ps = Some p" "p \<noteq> []" by auto
    obtain v ps' where s1: "hasStrsep (Some p) ''&'' = (v, ps')" by fastforce
    obtain n v' where s2: "hasStrsep v ''='' = (n, v')" by fastforce
    let ?m = "case n of None \<Rightarrow> m | Some n \<Rightarrow> add_param n (case v' of None \<Rightarrow> [] | Some v \<Rightarrow> v) m"
    obtain xs where "parse_params ps' ?m = ?m\<lparr>m_params := xs\<rparr>"
      using "1.IH" [OF p s1 [symmetric] refl s2 [symmetric] refl] by auto
    moreover have "?m\<lparr>m_params := xs\<rparr> = m\<lparr>m_params := xs\<rparr>"
      by (auto simp: add_param_def split: option.splits)
    moreover have "parse_params ps m = parse_params ps' ?m"
      unfolding p(1) using p(2) s1 s2 by (simp add: parse_params.simps [of "Some p"])
    ultimately show ?thesis by auto
  qed
qed

definition query_params :: "string option \<Rightarrow> CoHTTPRequest \<Rightarrow> headers" where
  "query_params ps m = m_params (parse_params ps m)"

lemma parse_params_eq: "parse_params ps m = m\<lparr>m_params := query_params ps m\<rparr>"
  using parse_params_only [of ps m] by (auto simp: query_params_def)

lemma parse_params_keeps [simp]:
  "m_method (parse_params ps m) = m_method m" "m_uri (parse_params ps m) = m_uri m"
  "m_url (parse_params ps m) = m_url m" "m_version (parse_params ps m) = m_version m"
  by (subst parse_params_eq; simp)+

lemma parse_startline_req_none: "LF \<notin> set raw \<Longrightarrow> parse_startline_req m raw = Inr (0, m)"
  using get_line_None [of raw] by (simp add: parse_startline_req_def)

lemma parse_startline_req_append:
  "LF \<in> set raw \<Longrightarrow> parse_startline_req m (raw @ x) = parse_startline_req m raw"
  using get_line_None [of raw] get_line_append [of raw _ _ x]
  by (auto simp: parse_startline_req_def split: option.splits)

lemma parse_startline_req_result:
  assumes "parse_startline_req m raw = Inr (n, m')"
  shows "m_contentLength m' = m_contentLength m \<and> m_content m' = m_content m \<and> m_headers m' = m_headers m"
    and "LF \<in> set raw \<Longrightarrow> 0 < n \<and> line_start raw (nat n)"
proof -
  show "m_contentLength m' = m_contentLength m \<and> m_content m' = m_content m \<and> m_headers m' = m_headers m"
    using assms
    by (auto simp: parse_startline_req_def parse_params_eq set_version_def bindr_eq_Inr_conv Let_def
        split: option.splits prod.splits)
  show "0 < n \<and> line_start raw (nat n)" if "LF \<in> set raw"
    using assms that get_line_None [of raw] get_line_start [of raw]
    by (auto simp: parse_startline_req_def bindr_eq_Inr_conv Let_def split: option.splits prod.splits)
qed

lemma server_blank_keeps:
  assumes "server_blank m = Inr m'"
  shows "\<exists>n. m' = m\<lparr>m_contentRemain := n\<rparr>"
proof (cases "get_headervalue HEADER_CONTENT_LENGTH m = []")
  case True
  then have "m' = m\<lparr>m_contentRemain := m_contentRemain m\<rparr>" using assms by (simp add: server_blank_def)
  then show ?thesis by blast
next
  case False
  then show ?thesis using assms
    by (auto simp: server_blank_def Let_def reserve_contentlength_def split: if_splits)
qed

interpretation srv: http_decoder server_blank parse_startline_req content_body
proof
  fix m m' :: CoHTTPRequest and raw x u :: string and n j
  show "m_parseStatus m' = m_parseStatus m" if "server_blank m = Inr m'"
    using server_blank_keeps [OF that] by auto
  show "m_content m' = m_content m \<and> m_contentLength m' = m_contentLength m" if "server_blank m = Inr m'"
    using server_blank_keeps [OF that] by auto
  show "parse_startline_req m raw = Inr (0, m)" if "LF \<notin> set raw"
    using that by (rule parse_startline_req_none)
  show "n = - 1 \<or> 0 < n \<and> line_start raw (nat n)"
    if "parse_startline_req m raw = Inr (n, m')" "LF \<in> set raw"
    using parse_startline_req_result(2) [OF that] by simp
  show "m_contentLength m' = m_contentLength m" if "parse_startline_req m raw = Inr (n, m')"
    using parse_startline_req_result(1) [OF that] by simp
  show "parse_startline_req m (raw @ x) = parse_startline_req m raw" if "LF \<in> set raw"
    using that by (rule parse_startline_req_append)
qed (auto simp: content_body_append dest: content_body_status content_body_length)

section \<open>A well-formed request\<close>

text \<open>The part of a URL in front of the question mark, and the query behind it.\<close>

definition url_path :: "string \<Rightarrow> string" where
  "url_path url = takeWhile (\<lambda>c. c \<noteq> CHR ''?'') url"

definition url_query :: "string \<Rightarrow> string option" where
  "url_query url = snd (hasStrsep (Some url) ''?'')"

lemma hasStrsep_url: "hasStrsep (Some url) ''?'' = (Some (url_path url), url_query url)"
proof (cases "CHR ''?'' \<in> set url")
  case False
  then have "url_path url = url" unfolding url_path_def by (subst takeWhile_eq_all_conv) auto
  then show ?thesis using hasStrsep_not_found [OF False] by (simp add: url_query_def)
next
  case True
  then obtain a b where ab: "url = a @ CHR ''?'' # b" "CHR ''?'' \<notin> set a"
    by (auto dest: split_list_first)
  then have "url_path url = a" unfolding url_path_def by (subst ab(1), subst takeWhile_all_append) auto
  then show ?thesis using hasStrsep_found [OF ab(2), of b] ab(1) by (simp add: url_query_def)
qed

lemma parse_startline_req_ok:
  assumes "is_token a" and "is_token b" and "is_text c" and "c \<noteq> []"
  shows "parse_startline_req m ((a @ '' '' @ b @ '' '' @ c @ crlf) @ rest)
    = Inr (int (length (a @ '' '' @ b @ '' '' @ c @ crlf)),
        parse_params (url_query b) (m\<lparr>m_method := a, m_url := b, m_uri := url_path b, m_version := c\<rparr>))"
proof -
  let ?l = "a @ CHR '' '' # b @ CHR '' '' # c"
  have tx: "is_text ?l" using assms by (auto simp: is_text_def is_token_def)
  have line: "get_line ((a @ '' '' @ b @ '' '' @ c @ crlf) @ rest)
      = Some (length ?l + 2, a @ CHR '' '' # (b @ CHR '' '' # (c @ crlf)))"
    using get_line_text [OF tx, of rest] by simp
  have s1: "hasStrsep (Some (a @ CHR '' '' # (b @ CHR '' '' # (c @ crlf)))) '' ''
      = (Some a, Some (b @ CHR '' '' # (c @ crlf)))"
    by (rule hasStrsep_found) (use assms in \<open>simp add: is_token_def\<close>)
  have s2: "hasStrsep (Some (b @ CHR '' '' # (c @ crlf))) '' '' = (Some b, Some (c @ crlf))"
    by (rule hasStrsep_found) (use assms in \<open>simp add: is_token_def\<close>)
  have tk: "strtok (c @ crlf) crlf = Some c"
    by (rule strtok_line) (use assms in \<open>auto simp: is_text_def\<close>)
  show ?thesis
    unfolding parse_startline_req_def line option.case prod.case Let_def s1 s2 hasStrsep_url
    by (simp add: tk set_version_def)
qed

section \<open>A query\<close>

text \<open>\<open>name=value&name=value...\<close> fills the parameters in order.\<close>

definition query_text :: "headers \<Rightarrow> string" where
  "query_text ps = concat (map (\<lambda>(n, v). n @ ''='' @ v @ ''&'') ps)"

definition ok_param :: "string \<times> string \<Rightarrow> bool" where
  "ok_param p \<longleftrightarrow> CHR ''='' \<notin> set (fst p) \<and> CHR ''&'' \<notin> set (fst p) \<and> CHR ''&'' \<notin> set (snd p)"

lemma parse_params_end [simp]: "parse_params None m = m" "parse_params (Some []) m = m"
  by (simp_all add: parse_params.simps)

lemma parse_params_pair:
  assumes "ok_param (n, v)" and "hasStrsep (Some s) ''&'' = (Some (n @ CHR ''='' # v), rest)" and "s \<noteq> []"
  shows "parse_params (Some s) m = parse_params rest (add_param n v m)"
proof -
  have "hasStrsep (Some (n @ CHR ''='' # v)) ''='' = (Some n, Some v)"
    by (rule hasStrsep_found) (use assms(1) in \<open>simp add: ok_param_def\<close>)
  then show ?thesis using assms(2,3) by (simp add: parse_params.simps [of "Some s"])
qed

lemma parse_params_query:
  "list_all ok_param (ps @ [(n, v)]) \<Longrightarrow>
   parse_params (Some (query_text ps @ n @ ''='' @ v)) m = fold (\<lambda>p. add_param (fst p) (snd p)) (ps @ [(n, v)]) m"
proof (induction ps arbitrary: m)
  case Nil
  have "hasStrsep (Some (n @ CHR ''='' # v)) ''&'' = (Some (n @ CHR ''='' # v), None)"
    by (rule hasStrsep_not_found) (use Nil in \<open>auto simp: ok_param_def\<close>)
  from parse_params_pair [OF _ this] Nil show ?case by (simp add: query_text_def)
next
  case (Cons p ps)
  obtain n1 v1 where p: "p = (n1, v1)" by fastforce
  let ?r = "query_text ps @ n @ ''='' @ v"
  have eq: "query_text (p # ps) @ n @ ''='' @ v = (n1 @ CHR ''='' # v1) @ CHR ''&'' # ?r"
    by (simp add: query_text_def p)
  have "hasStrsep (Some ((n1 @ CHR ''='' # v1) @ CHR ''&'' # ?r)) ''&'' = (Some (n1 @ CHR ''='' # v1), Some ?r)"
    by (rule hasStrsep_found) (use Cons.prems p in \<open>auto simp: ok_param_def\<close>)
  from parse_params_pair [OF _ this, of m] Cons p show ?case unfolding eq by simp
qed

section \<open>Encoded headers\<close>

text \<open>The map \<open>encode\<close> writes, and that it writes each header once.\<close>

lemma map_of_remove_header:
  "map_of (m_headers (snd (remove_header k m))) = (map_of (m_headers m))(k := None)"
  by (auto simp: remove_header_def delete_conv' map_of_eq_None_iff fun_upd_idem_iff split: option.splits)

lemma map_of_add_header: "map_of (m_headers (add_header k v m)) = (map_of (m_headers m))(k \<mapsto> v)"
  by (simp add: update_conv')

lemma remove_header_fields [simp]:
  "m_contentLength (snd (remove_header k m)) = m_contentLength m"
  "m_content (snd (remove_header k m)) = m_content m"
  "m_version (snd (remove_header k m)) = m_version m"
  by (simp_all add: remove_header_def split: option.splits)

lemma distinct_remove_header:
  "distinct (map fst (m_headers m)) \<Longrightarrow> distinct (map fst (m_headers (snd (remove_header k m))))"
  by (simp add: remove_header_def distinct_delete split: option.splits)

lemma distinct_add_header:
  "distinct (map fst (m_headers m)) \<Longrightarrow> distinct (map fst (m_headers (add_header k v m)))"
  by (simp add: distinct_update)

definition server_header_map :: "CoHTTPResponse \<Rightarrow> string \<rightharpoonup> string" where
  "server_header_map m = (map_of (m_headers m))
     (HEADER_CONTENT_LENGTH \<mapsto> (if m_contentLength m > 0 then to_string (m_contentLength m) else ''0''),
      HEADER_SERVER \<mapsto> ''coserver/http'')"

lemma header_names_differ [simp]:
  "HEADER_CONTENT_LENGTH \<noteq> HEADER_SERVER" "HEADER_SERVER \<noteq> HEADER_CONTENT_LENGTH"
  "HEADER_HOST \<noteq> HEADER_CONTENT_LENGTH" "HEADER_HOST \<noteq> HEADER_SERVER"
  "HEADER_CONTENT_LENGTH \<noteq> HEADER_HOST" "HEADER_SERVER \<noteq> HEADER_HOST"
  by (simp_all add: HEADER_CONTENT_LENGTH_def HEADER_SERVER_def HEADER_HOST_def)

lemma map_of_server_headers: "map_of (m_headers (server_headers m)) = server_header_map m"
  by (auto simp: server_headers_def server_header_map_def Let_def update_conv' map_of_remove_header fun_eq_iff)

lemma distinct_server_headers:
  "distinct (map fst (m_headers m)) \<Longrightarrow> distinct (map fst (m_headers (server_headers m)))"
  unfolding server_headers_def Let_def
  by (auto intro!: distinct_add_header distinct_remove_header simp del: add_header_fields)

lemma server_headers_fields [simp]:
  "m_contentLength (server_headers m) = m_contentLength m"
  "m_content (server_headers m) = m_content m"
  "m_version (server_headers m) = m_version m"
  "m_statuscode (server_headers m) = m_statuscode m"
  by (simp_all add: server_headers_def Let_def remove_header_def add_header_def split: option.splits)

end
