(* ===== verification/Http_Client.thy ===== *)
theory Http_Client
  imports Http_Server
begin

text \<open>
  \<^verbatim>\<open>protocol/co_protocol_http_client.h\<close>, \<^verbatim>\<open>protocol/co_protocol_http_client.cpp\<close>: the client
  end of HTTP, which encodes requests and decodes responses, by \<open>Content-Length\<close> or chunked.
  The interpretation \<open>cli\<close> of \<open>http_decoder\<close> gives the results on segmentation and
  consumption.
\<close>

section \<open>decode\<close>

definition client_blank :: "CoHTTPResponse \<Rightarrow> CoHTTPResponse res" where
  "client_blank m =
     (let contentLen = get_headervalue HEADER_CONTENT_LENGTH m
      in if contentLen \<noteq> []
         then let n = c_atoi contentLen
              in reserve_contentlength n (m\<lparr>m_contentRemain := n\<rparr>)
         else let chunked = get_headervalue HEADER_TRANSFER_ENCODING m
              in if chunked \<noteq> [] \<and> chunked = ''chunked''
                 then Inr (m\<lparr>m_contentChunked := 1\<rparr>) else Inr m)"

definition client_content :: "CoHTTPResponse \<Rightarrow> string \<Rightarrow> (nat option \<times> CoHTTPResponse) res" where
  "client_content m raw = (if m_contentChunked m = 0 then content_body m raw else chunked_body m raw)"

definition client_parse :: "CoHTTPResponse decoder" where
  "client_parse = decode_msg parse_startline_resp client_blank client_content"

definition client_decode :: "http_protocol \<Rightarrow> co_buffer \<Rightarrow> (int \<times> http_protocol \<times> co_buffer) res" where
  "client_decode p b =
     bindr (client_parse (m_respMsg p) (contents b))
       (\<lambda>(ret, m, act). Inr (ret, p\<lparr>m_respMsg := m\<rparr>, apply_action act b))"

section \<open>encode\<close>

text \<open>\<open>ipport\<close> is what \<open>get_ipport\<close> of the connection's socket gives.\<close>

definition client_headers :: "string \<Rightarrow> CoHTTPRequest \<Rightarrow> CoHTTPRequest" where
  "client_headers ipport m =
     (let m = snd (remove_header HEADER_CONTENT_LENGTH m);
          m = (if m_contentLength m > 0
               then add_header HEADER_CONTENT_LENGTH (to_string (m_contentLength m)) m else m);
          m = snd (remove_header HEADER_SERVER m);
          m = add_header HEADER_SERVER ''coserver/http'' m
      in if get_headervalue HEADER_HOST m = [] then add_header HEADER_HOST ipport m else m)"

definition client_pieces :: "(headers \<Rightarrow> headers) \<Rightarrow> CoHTTPRequest \<Rightarrow> string list" where
  "client_pieces itr m =
     start_line (m_method m) (m_url m) (m_version m)
     # map header_line (itr (m_headers m)) @ [crlf]
     @ (if m_contentLength m > 0 then [m_content m] else [])"

definition client_encode ::
  "(headers \<Rightarrow> headers) \<Rightarrow> heap \<Rightarrow> string \<Rightarrow> http_protocol \<Rightarrow> co_buffer \<Rightarrow>
   (int \<times> http_protocol \<times> co_buffer) res" where
  "client_encode itr h ipport p b =
     (let m = client_headers ipport (m_reqMsg p)
      in bindr (append_all (buffer_append h) (client_pieces itr m) b)
           (\<lambda>b'. Inr (CO_OK, p\<lparr>m_reqMsg := m\<rparr>, b')))"

section \<open>The response parser keeps the contract\<close>

lemma parse_startline_resp_none: "LF \<notin> set raw \<Longrightarrow> parse_startline_resp m raw = Inr (0, m)"
  using get_line_None [of raw] by (simp add: parse_startline_resp_def)

lemma parse_startline_resp_append:
  "LF \<in> set raw \<Longrightarrow> parse_startline_resp m (raw @ x) = parse_startline_resp m raw"
  using get_line_None [of raw] get_line_append [of raw _ _ x]
  by (auto simp: parse_startline_resp_def split: option.splits)

lemma parse_startline_resp_result:
  assumes "parse_startline_resp m raw = Inr (n, m')"
  shows "m_contentLength m' = m_contentLength m \<and> m_content m' = m_content m \<and> m_headers m' = m_headers m"
    and "LF \<in> set raw \<Longrightarrow> n = - 1 \<or> 0 < n \<and> line_start raw (nat n)"
proof -
  show "m_contentLength m' = m_contentLength m \<and> m_content m' = m_content m \<and> m_headers m' = m_headers m"
    using assms
    by (auto simp: parse_startline_resp_def set_version_def set_reasonphrase_def bindr_eq_Inr_conv Let_def
        split: option.splits prod.splits if_splits)
  show "n = - 1 \<or> 0 < n \<and> line_start raw (nat n)" if "LF \<in> set raw"
    using assms that get_line_None [of raw] get_line_start [of raw]
    by (auto simp: parse_startline_resp_def bindr_eq_Inr_conv Let_def split: option.splits prod.splits if_splits)
qed

lemma client_blank_keeps:
  assumes "client_blank m = Inr m'"
  shows "m_parseStatus m' = m_parseStatus m \<and> m_content m' = m_content m
    \<and> m_contentLength m' = m_contentLength m"
  using assms by (auto simp: client_blank_def Let_def reserve_contentlength_def split: if_splits)

lemma content_body_chunked: "content_body m u = Inr (k, m') \<Longrightarrow> m_contentChunked m' = m_contentChunked m"
  by (cases "0 < m_contentRemain m")
    (auto simp: content_body_def parse_content_some parse_content_none Let_def bindr_eq_Inr_conv split: if_splits)

lemma parse_chunks_chunked:
  "parse_chunks m ori p = Inr (r, m') \<Longrightarrow> m_contentChunked m' = m_contentChunked m"
proof (induction "length ori - p" arbitrary: m p rule: less_induct)
  case less
  obtain c where c: "chunk_step m (drop p ori) = Inr c"
    using less.prems(1) by (subst (asm) parse_chunks_unfold) (auto simp: bindr_eq_Inr_conv)
  have run: "chunk_next (\<lambda>ori p m. parse_chunks m ori p) chunk_done m ori p c = Inr (r, m')"
    using less.prems(1) c by (subst (asm) parse_chunks_unfold) simp
  show ?case
  proof (cases c)
    case (More n m1)
    note n = chunk_step_more [OF c [unfolded More]]
    have "length ori - (p + n) < length ori - p" using n by auto
    moreover have "m_contentChunked m1 = m_contentChunked m" using n by simp
    ultimately show ?thesis using less.hyps [of "p + n" m1] run More by simp
  qed (use run in auto)
qed

lemma client_content_append:
  assumes "m_parseStatus m = eContent" and "in_i32 (m_contentLength m)"
  shows "client_content m (u @ x) =
    (case client_content m u of
       Inl e \<Rightarrow> Inl e
     | Inr (None, m') \<Rightarrow> Inr (None, m')
     | Inr (Some j, m') \<Rightarrow>
         if m_parseStatus m' = eCompleted then Inr (Some j, m')
         else shift_result j (client_content m' (drop j u @ x)))"
proof (cases "m_contentChunked m = 0")
  case True
  then show ?thesis using content_body_append [OF assms, of u x] content_body_chunked [of m u]
    by (auto simp: client_content_def split: sum.splits option.splits prod.splits)
next
  case False
  have "m_contentChunked m' = m_contentChunked m" if "chunked_body m u = Inr (k, m')" for k m'
    using that parse_chunks_chunked [of m u 0]
    by (auto simp: chunked_body_def parse_content_chunked_def bindr_eq_Inr_conv)
  then show ?thesis using False chunked_body_append [OF assms(1), of u x]
    by (auto simp: client_content_def split: sum.splits option.splits prod.splits)
qed

interpretation cli: http_decoder client_blank parse_startline_resp client_content
proof
  fix m m' :: CoHTTPResponse and raw x u :: string and n j
  show "m_parseStatus m' = m_parseStatus m" if "client_blank m = Inr m'"
    using client_blank_keeps [OF that] by auto
  show "m_content m' = m_content m \<and> m_contentLength m' = m_contentLength m" if "client_blank m = Inr m'"
    using client_blank_keeps [OF that] by auto
  show "parse_startline_resp m raw = Inr (0, m)" if "LF \<notin> set raw"
    using that by (rule parse_startline_resp_none)
  show "n = - 1 \<or> 0 < n \<and> line_start raw (nat n)"
    if "parse_startline_resp m raw = Inr (n, m')" "LF \<in> set raw"
    using parse_startline_resp_result(2) [OF that] by simp
  show "m_contentLength m' = m_contentLength m" if "parse_startline_resp m raw = Inr (n, m')"
    using parse_startline_resp_result(1) [OF that] by simp
  show "parse_startline_resp m (raw @ x) = parse_startline_resp m raw" if "LF \<in> set raw"
    using that by (rule parse_startline_resp_append)
  show "j \<le> length u \<and> m_parseStatus m' \<in> {eContent, eCompleted}"
    if "client_content m u = Inr (Some j, m')" "m_parseStatus m = eContent"
    using that content_body_status [of m u j m'] chunked_body_status [of m u j m']
    by (auto simp: client_content_def split: if_splits)
  show "in_i32 (m_contentLength m')"
    if "client_content m u = Inr (Some j, m')" "in_i32 (m_contentLength m)"
    using that content_body_length [of m u j m'] chunked_body_length [of m u j m']
    by (auto simp: client_content_def split: if_splits)
qed (rule client_content_append)

section \<open>A well-formed response line\<close>

lemma to_string_token: "0 \<le> i \<Longrightarrow> is_token (to_string i)"
  by (rule is_text_digits) (rule to_string_digits)

lemma length_to_string:
  assumes "0 \<le> i" and "i < two31"
  shows "length (to_string i) \<le> 10"
proof -
  have "nat i < 10 ^ 10" using assms by simp
  then show ?thesis using assms(1) length_nat_digits_le [of "nat i" 10] by (simp add: to_string_def)
qed

lemma parse_startline_resp_ok:
  assumes "is_token v" and "strncaseeq v ''HTTP'' 4" and "0 \<le> code" and "code < two31"
    and "is_text ph" and "ph \<noteq> []"
  shows "parse_startline_resp m ((v @ '' '' @ to_string code @ '' '' @ ph @ crlf) @ rest)
    = Inr (int (length (v @ '' '' @ to_string code @ '' '' @ ph @ crlf)),
        m\<lparr>m_version := v, m_statuscode := code, m_reasonPhrase := ph\<rparr>)"
proof -
  let ?c = "to_string code"
  let ?l = "v @ CHR '' '' # ?c @ CHR '' '' # ph"
  have c: "is_token ?c" by (rule to_string_token [OF assms(3)])
  have tx: "is_text ?l" using assms c by (auto simp: is_text_def is_token_def)
  have line: "get_line ((v @ '' '' @ ?c @ '' '' @ ph @ crlf) @ rest)
      = Some (length ?l + 2, v @ CHR '' '' # (?c @ CHR '' '' # (ph @ crlf)))"
    using get_line_text [OF tx, of rest] by simp
  have s1: "hasStrsep (Some (v @ CHR '' '' # (?c @ CHR '' '' # (ph @ crlf)))) '' ''
      = (Some v, Some (?c @ CHR '' '' # (ph @ crlf)))"
    by (rule hasStrsep_found) (use assms in \<open>simp add: is_token_def\<close>)
  have s2: "hasStrsep (Some (?c @ CHR '' '' # (ph @ crlf))) '' '' = (Some ?c, Some (ph @ crlf))"
    by (rule hasStrsep_found) (use c in \<open>simp add: is_token_def\<close>)
  have tk: "strtok (ph @ crlf) crlf = Some ph"
    by (rule strtok_line) (use assms in \<open>auto simp: is_text_def\<close>)
  show ?thesis
    unfolding parse_startline_resp_def line option.case prod.case Let_def s1 s2
    using assms(2,3,4) by (simp add: tk set_version_def set_reasonphrase_def atoi_to_string)
qed

lemma status_lines_ok: "list_all (\<lambda>(c, s). is_text s \<and> s \<noteq> [] \<and> length s \<le> 40) HTTP_STATUS_LINES"
  by (simp add: HTTP_STATUS_LINES_def is_text_def)

lemma status_phrase_ok:
  "is_text (status_phrase code) \<and> status_phrase code \<noteq> [] \<and> length (status_phrase code) \<le> 40"
proof -
  have "map_of HTTP_STATUS_LINES 500 = Some ''Internal Server Error''" by (simp add: HTTP_STATUS_LINES_def)
  then have "\<exists>c. (c, status_phrase code) \<in> set HTTP_STATUS_LINES"
    by (auto simp: status_phrase_def dest: map_of_SomeD split: option.splits)
  then show ?thesis using status_lines_ok by (auto simp: list_all_iff)
qed

section \<open>Encoded headers\<close>

definition client_header_map :: "string \<Rightarrow> CoHTTPRequest \<Rightarrow> string \<rightharpoonup> string" where
  "client_header_map ipport m =
     (let hs = (map_of (m_headers m))
        (HEADER_CONTENT_LENGTH := (if m_contentLength m > 0 then Some (to_string (m_contentLength m)) else None),
         HEADER_SERVER \<mapsto> ''coserver/http'')
      in if hs HEADER_HOST = None \<or> hs HEADER_HOST = Some [] then hs(HEADER_HOST \<mapsto> ipport) else hs)"

lemma map_of_client_headers: "map_of (m_headers (client_headers ipport m)) = client_header_map ipport m"
  by (auto simp: client_headers_def client_header_map_def Let_def update_conv' map_of_remove_header
      get_headervalue_def fun_eq_iff split: option.splits)

lemma distinct_client_headers:
  "distinct (map fst (m_headers m)) \<Longrightarrow> distinct (map fst (m_headers (client_headers ipport m)))"
  unfolding client_headers_def Let_def
  by (auto intro!: distinct_add_header distinct_remove_header simp del: add_header_fields)

lemma remove_header_req [simp]:
  "m_method (snd (remove_header k r)) = m_method r" "m_url (snd (remove_header k r)) = m_url r"
  for r :: CoHTTPRequest
  by (simp_all add: remove_header_def split: option.splits)

lemma client_headers_fields [simp]:
  "m_contentLength (client_headers ipport m) = m_contentLength m"
  "m_content (client_headers ipport m) = m_content m"
  "m_version (client_headers ipport m) = m_version m"
  "m_method (client_headers ipport m) = m_method m"
  "m_url (client_headers ipport m) = m_url m"
  by (simp_all add: client_headers_def Let_def)

end
