(* ===== verification/Http_Roundtrip.thy ===== *)
theory Http_Roundtrip
  imports Http_Client
begin

text \<open>
  The two ends of HTTP against each other: what one side's \<open>encode\<close> writes, the other side's
  \<open>decode\<close> reads back, whatever the iteration order of the header map and however the bytes
  are cut on the way; and what each decoder does on the inputs where it does not behave.
\<close>

section \<open>Iteration orders\<close>

definition iteration :: "(headers \<Rightarrow> headers) \<Rightarrow> bool" where
  "iteration itr \<longleftrightarrow> (\<forall>xs. mset (itr xs) = mset xs)"

lemma iteration_set: "iteration itr \<Longrightarrow> set (itr xs) = set xs"
  by (metis iteration_def set_mset_mset)

lemma iteration_distinct: "iteration itr \<Longrightarrow> distinct (map fst (itr xs)) = distinct (map fst xs)"
  by (metis iteration_def mset_map mset_eq_imp_distinct_iff)

lemma iteration_map_of:
  assumes "iteration itr" and "distinct (map fst xs)"
  shows "map_of (itr xs) = map_of xs"
  using assms map_of_inject_set [of "itr xs" xs]
  by (simp add: iteration_set iteration_distinct)

lemma iteration_id: "iteration id" and iteration_rev: "iteration rev"
  by (simp_all add: iteration_def)

lemma list_all_map_of:
  assumes "distinct (map fst xs)"
  shows "list_all P xs \<longleftrightarrow> (\<forall>k v. map_of xs k = Some v \<longrightarrow> P (k, v))"
  using assms by (auto simp: list_all_iff)

section \<open>Well-formed messages\<close>

definition ok_request :: "CoHTTPRequest \<Rightarrow> bool" where
  "ok_request m \<longleftrightarrow> is_token (m_method m) \<and> is_token (m_url m) \<and> is_text (m_version m) \<and> m_version m \<noteq> []
     \<and> length (m_method m) + length (m_url m) + length (m_version m) + 4 < 512
     \<and> distinct (map fst (m_headers m)) \<and> list_all ok_header (m_headers m)
     \<and> m_contentLength m = int (length (m_content m))"

definition ok_response :: "CoHTTPResponse \<Rightarrow> bool" where
  "ok_response m \<longleftrightarrow> is_token (m_version m) \<and> strncaseeq (m_version m) ''HTTP'' 4
     \<and> length (m_version m) < 400 \<and> 0 \<le> m_statuscode m \<and> m_statuscode m < two31
     \<and> distinct (map fst (m_headers m)) \<and> list_all ok_header (m_headers m)
     \<and> m_contentLength m = int (length (m_content m))"

definition request_text :: "(headers \<Rightarrow> headers) \<Rightarrow> string \<Rightarrow> CoHTTPRequest \<Rightarrow> string" where
  "request_text itr ipport m = concat (client_pieces itr (client_headers ipport m))"

definition response_text :: "(headers \<Rightarrow> headers) \<Rightarrow> CoHTTPResponse \<Rightarrow> string" where
  "response_text itr m = concat (server_pieces itr (server_headers m))"

lemma ok_header_length:
  "0 \<le> n \<Longrightarrow> n < two31 \<Longrightarrow> ok_header (HEADER_CONTENT_LENGTH, to_string n)"
  using to_string_token [of n] length_to_string [of n] to_string_digits [of n]
  by (auto simp: ok_header_def HEADER_CONTENT_LENGTH_def is_token_def is_text_def is_digit_neq split: list.splits)

lemma ok_header_server: "ok_header (HEADER_SERVER, ''coserver/http'')"
  by (simp add: ok_header_def HEADER_SERVER_def is_text_def)

lemma ok_client_headers:
  assumes "ok_request m" and "ok_header (HEADER_HOST, ipport)" and "int (length (m_content m)) < two31"
  shows "list_all ok_header (m_headers (client_headers ipport m))"
proof -
  have d: "distinct (map fst (m_headers m))" using assms by (simp add: ok_request_def)
  have old: "ok_header (k, v)" if "map_of (m_headers m) k = Some v" for k v
    using assms(1) that d by (auto simp: ok_request_def list_all_iff)
  have "ok_header (HEADER_CONTENT_LENGTH, to_string (m_contentLength m))"
    using assms by (intro ok_header_length) (auto simp: ok_request_def)
  then show ?thesis
    using d assms(2) ok_header_server old
    by (auto simp: list_all_map_of [OF distinct_client_headers [OF d]] map_of_client_headers
        client_header_map_def Let_def split: if_splits)
qed

lemma ok_server_headers:
  assumes "ok_response m" and "int (length (m_content m)) < two31"
  shows "list_all ok_header (m_headers (server_headers m))"
proof -
  have d: "distinct (map fst (m_headers m))" using assms by (simp add: ok_response_def)
  have old: "ok_header (k, v)" if "map_of (m_headers m) k = Some v" for k v
    using assms(1) that d by (auto simp: ok_response_def list_all_iff)
  have "ok_header (HEADER_CONTENT_LENGTH, to_string (m_contentLength m))"
    using assms by (intro ok_header_length) (auto simp: ok_response_def)
  moreover have "ok_header (HEADER_CONTENT_LENGTH, ''0'')"
    by (simp add: ok_header_def HEADER_CONTENT_LENGTH_def is_text_def)
  ultimately show ?thesis
    using d ok_header_server old
    by (auto simp: list_all_map_of [OF distinct_server_headers [OF d]] map_of_server_headers
        server_header_map_def split: if_splits)
qed

section \<open>Requests\<close>

text \<open>The message the server has after decoding: read off the fields of the request.\<close>

definition same_request :: "string \<Rightarrow> CoHTTPRequest \<Rightarrow> CoHTTPRequest \<Rightarrow> bool" where
  "same_request ipport m r \<longleftrightarrow> m_method r = m_method m \<and> m_url r = m_url m \<and> m_version r = m_version m
     \<and> m_uri r = url_path (m_url m) \<and> m_params r = query_params (url_query (m_url m)) new_request
     \<and> m_content r = m_content m \<and> m_contentLength r = int (length (m_content m))
     \<and> map_of (m_headers r) = client_header_map ipport m \<and> m_parseStatus r = eCompleted"

lemma query_params_cong: "m_params m = m_params m' \<Longrightarrow> query_params ps m = query_params ps m'"
proof (induction ps m arbitrary: m' rule: parse_params.induct)
  case (1 ps m)
  show ?case
  proof (cases "ps = None \<or> ps = Some []")
    case True
    then show ?thesis using "1.prems" by (auto simp: query_params_def)
  next
    case False
    then obtain p where p: "ps = Some p" "p \<noteq> []" by auto
    obtain v ps' where s1: "hasStrsep (Some p) ''&'' = (v, ps')" by fastforce
    obtain n v' where s2: "hasStrsep v ''='' = (n, v')" by fastforce
    let ?f = "\<lambda>m. case n of None \<Rightarrow> m | Some n \<Rightarrow> add_param n (case v' of None \<Rightarrow> [] | Some v \<Rightarrow> v) m"
    have "m_params (?f m) = m_params (?f m')" using "1.prems" by (auto simp: add_param_def split: option.splits)
    from "1.IH" [OF p s1 [symmetric] refl s2 [symmetric] refl this]
    have "query_params ps' (?f m) = query_params ps' (?f m')" .
    moreover have "parse_params (Some p) m = parse_params ps' (?f m)" for m
      using p(2) s1 s2 by (simp add: parse_params.simps [of "Some p"])
    ultimately show ?thesis unfolding query_params_def p(1) by simp
  qed
qed

lemma parse_request_text:
  assumes ok: "ok_request m" and host: "ok_header (HEADER_HOST, ipport)" and itr: "iteration itr"
    and size: "length (request_text itr ipport m @ rest) \<le> HTTP_MAX_HEADER_LEN"
  shows "\<exists>r. server_parse new_request (request_text itr ipport m @ rest)
      = Inr (CO_OK, r, Consume (length (request_text itr ipport m))) \<and> same_request ipport m r"
proof -
  let ?c = "client_headers ipport m"
  let ?hs = "itr (m_headers ?c)"
  let ?sl = "m_method m @ '' '' @ m_url m @ '' '' @ m_version m @ crlf"
  let ?bd = "m_content m"
  have sl: "start_line (m_method m) (m_url m) (m_version m) = ?sl"
    by (rule start_line_ok) (use ok in \<open>auto simp: ok_request_def is_token_text\<close>)
  have txteq: "request_text itr ipport m = ?sl @ concat (map header_line ?hs) @ crlf @ ?bd"
    using ok by (simp add: request_text_def client_pieces_def sl ok_request_def)
  then have le: "length ?bd \<le> 8192" using size by (simp add: HTTP_MAX_HEADER_LEN_def)
  then have bd: "int (length ?bd) < two31" by simp
  have hs: "list_all ok_header ?hs"
    using ok_client_headers [OF ok host bd] by (simp add: list_all_iff iteration_set [OF itr])
  have dist: "distinct (map fst (m_headers ?c))"
    using ok by (intro distinct_client_headers) (simp add: ok_request_def)
  have mp: "map_of ?hs = client_header_map ipport m"
    using iteration_map_of [OF itr dist] map_of_client_headers by simp
  have dhs: "distinct (map fst ?hs)" using dist iteration_distinct [OF itr] by blast
  let ?m0 = "new_request\<lparr>m_method := m_method m, m_url := m_url m, m_uri := url_path (m_url m), m_version := m_version m\<rparr>"
  obtain m1 where m1: "m1 = parse_params (url_query (m_url m)) ?m0" by blast
  have "m_params ?m0 = m_params new_request" by simp
  note ps = query_params_cong [OF this]
  have f1: "m_headers m1 = []" "m_content m1 = []" "m_contentLength m1 = 0" "m_contentRemain m1 = 0"
    "m_method m1 = m_method m" "m_url m1 = m_url m" "m_uri m1 = url_path (m_url m)" "m_version m1 = m_version m"
    "m_params m1 = query_params (url_query (m_url m)) new_request"
    unfolding m1 parse_params_eq ps by (simp_all add: new_request_def)
  have start: "parse_startline_req new_request (?sl @ x) = Inr (int (length ?sl), m1)" for x
    unfolding m1 by (rule parse_startline_req_ok) (use ok in \<open>auto simp: ok_request_def\<close>)
  let ?m2 = "(add_headers ?hs m1)\<lparr>m_parseStatus := eContent, m_contentRemain := int (length ?bd)\<rparr>"
  have hm: "map_of (m_headers (add_headers ?hs m1)) = client_header_map ipport m"
    using map_of_add_headers [OF dhs, of m1] mp f1 by simp
  have cl: "client_header_map ipport m HEADER_CONTENT_LENGTH
      = (if m_contentLength m > 0 then Some (to_string (m_contentLength m)) else None)"
    by (simp add: client_header_map_def Let_def)
  have blank: "server_blank ((add_headers ?hs m1)\<lparr>m_parseStatus := eContent\<rparr>) = Inr ?m2"
  proof (cases "m_contentLength m > 0")
    case True
    then show ?thesis using hm cl ok bd
      by (simp add: server_blank_def get_headervalue_def ok_request_def atoi_to_string reserve_contentlength_def Let_def)
  next
    case False
    then have "?bd = []" using ok by (simp add: ok_request_def)
    then show ?thesis using False hm cl
      by (simp add: server_blank_def get_headervalue_def f1 Let_def)
  qed
  let ?m3 = "?m2\<lparr>m_content := ?bd, m_contentLength := int (length ?bd), m_contentRemain := 0, m_parseStatus := eCompleted\<rparr>"
  have content: "content_body ?m2 (?bd @ rest) = Inr (Some (length ?bd), ?m3)"
    using content_body_exact [of ?m2 ?bd rest] le f1 by (simp add: in_i32_def)
  have fits: "srv.fits new_request (?sl @ concat (map header_line ?hs) @ crlf @ ?bd @ rest)"
    using size unfolding txteq by (simp add: srv.fits_def HTTP_MAX_HEADER_LEN_def)
  have "server_parse new_request (?sl @ concat (map header_line ?hs) @ crlf @ ?bd @ rest)
      = Inr (CO_OK, ?m3, Consume (length (?sl @ concat (map header_line ?hs) @ crlf @ ?bd)))"
    unfolding server_parse_def
    by (rule srv.dec_message [OF _ fits start _ hs blank content]) (simp_all add: new_request_def)
  moreover have "same_request ipport m ?m3"
    using hm f1 by (simp add: same_request_def)
  ultimately show ?thesis unfolding txteq by auto
qed

section \<open>Responses\<close>

definition same_response :: "CoHTTPResponse \<Rightarrow> CoHTTPResponse \<Rightarrow> bool" where
  "same_response m r \<longleftrightarrow> m_version r = m_version m \<and> m_statuscode r = m_statuscode m
     \<and> m_reasonPhrase r = status_phrase (m_statuscode m)
     \<and> m_content r = m_content m \<and> m_contentLength r = int (length (m_content m))
     \<and> map_of (m_headers r) = server_header_map m \<and> m_parseStatus r = eCompleted"

lemma parse_response_text:
  assumes ok: "ok_response m" and itr: "iteration itr"
    and size: "length (response_text itr m @ rest) \<le> HTTP_MAX_HEADER_LEN"
  shows "\<exists>r. client_parse new_response (response_text itr m @ rest)
      = Inr (CO_OK, r, Consume (length (response_text itr m))) \<and> same_response m r"
proof -
  let ?hs = "itr (m_headers (server_headers m))" and ?bd = "m_content m" and ?code = "m_statuscode m"
  let ?sl = "m_version m @ '' '' @ to_string ?code @ '' '' @ status_phrase ?code @ crlf"
  note ph = status_phrase_ok [of ?code]
  have code: "0 \<le> ?code" "?code < two31" using ok by (auto simp: ok_response_def)
  have sl: "start_line (m_version m) (to_string ?code) (status_phrase ?code) = ?sl"
    by (rule start_line_ok)
      (use ok ph to_string_token [OF code(1)] length_to_string [OF code] in \<open>auto simp: ok_response_def is_token_text\<close>)
  have txteq: "response_text itr m = ?sl @ concat (map header_line ?hs) @ crlf @ ?bd"
    using ok by (simp add: response_text_def server_pieces_def sl ok_response_def)
  then have le: "length ?bd \<le> 8192" using size by (simp add: HTTP_MAX_HEADER_LEN_def)
  then have bd: "int (length ?bd) < two31" by simp
  have hs: "list_all ok_header ?hs"
    using ok_server_headers [OF ok bd] by (simp add: list_all_iff iteration_set [OF itr])
  have dist: "distinct (map fst (m_headers (server_headers m)))"
    using ok by (intro distinct_server_headers) (simp add: ok_response_def)
  have mp: "map_of ?hs = server_header_map m"
    using iteration_map_of [OF itr dist] map_of_server_headers by simp
  have dhs: "distinct (map fst ?hs)" using dist iteration_distinct [OF itr] by blast
  obtain m1 where m1: "m1 = new_response\<lparr>m_version := m_version m, m_statuscode := ?code,
      m_reasonPhrase := status_phrase ?code\<rparr>" by blast
  have f1: "m_headers m1 = []" "m_content m1 = []" "m_contentLength m1 = 0" "m_contentChunked m1 = 0"
    "m_version m1 = m_version m" "m_statuscode m1 = ?code" "m_reasonPhrase m1 = status_phrase ?code"
    unfolding m1 by (simp_all add: new_response_def)
  have start: "parse_startline_resp new_response (?sl @ x) = Inr (int (length ?sl), m1)" for x
    unfolding m1 by (rule parse_startline_resp_ok) (use ok ph code in \<open>auto simp: ok_response_def\<close>)
  let ?m2 = "(add_headers ?hs m1)\<lparr>m_parseStatus := eContent, m_contentRemain := int (length ?bd)\<rparr>"
  have hm: "map_of (m_headers (add_headers ?hs m1)) = server_header_map m"
    using map_of_add_headers [OF dhs, of m1] mp f1 by simp
  have cl: "server_header_map m HEADER_CONTENT_LENGTH
      = Some (if m_contentLength m > 0 then to_string (m_contentLength m) else ''0'')"
    by (simp add: server_header_map_def)
  have zero: "c_atoi ''0'' = 0" by code_simp
  have blank: "client_blank ((add_headers ?hs m1)\<lparr>m_parseStatus := eContent\<rparr>) = Inr ?m2"
    using hm cl ok bd zero
    by (auto simp: client_blank_def get_headervalue_def ok_response_def atoi_to_string reserve_contentlength_def Let_def)
  let ?m3 = "?m2\<lparr>m_content := ?bd, m_contentLength := int (length ?bd), m_contentRemain := 0, m_parseStatus := eCompleted\<rparr>"
  have content: "client_content ?m2 (?bd @ rest) = Inr (Some (length ?bd), ?m3)"
    using content_body_exact [of ?m2 ?bd rest] le f1 by (simp add: client_content_def in_i32_def)
  have fits: "cli.fits new_response (?sl @ concat (map header_line ?hs) @ crlf @ ?bd @ rest)"
    using size unfolding txteq by (simp add: cli.fits_def HTTP_MAX_HEADER_LEN_def)
  have "client_parse new_response (?sl @ concat (map header_line ?hs) @ crlf @ ?bd @ rest)
      = Inr (CO_OK, ?m3, Consume (length (?sl @ concat (map header_line ?hs) @ crlf @ ?bd)))"
    unfolding client_parse_def
    by (rule cli.dec_message [OF _ fits start _ hs blank content]) (simp_all add: new_response_def)
  moreover have "same_response m ?m3" using hm f1 by (simp add: same_response_def)
  ultimately show ?thesis unfolding txteq by auto
qed

section \<open>Chunked responses\<close>

text \<open>A response with the header \<open>Transfer-Encoding: chunked\<close> and a chunked body.\<close>

definition chunked_response_text :: "string \<Rightarrow> int \<Rightarrow> string \<Rightarrow> headers \<Rightarrow> (string \<times> string) list \<Rightarrow> string \<Rightarrow> string" where
  "chunked_response_text v code ph hs cs z =
     (v @ '' '' @ to_string code @ '' '' @ ph @ crlf) @ concat (map header_line hs) @ crlf @ chunked_text cs z"

lemma parse_chunked_response:
  assumes start: "is_token v" "strncaseeq v ''HTTP'' 4" "0 \<le> code" "code < two31" "is_text ph" "ph \<noteq> []"
    and hs: "list_all ok_header hs" "distinct (map fst hs)"
      "map_of hs HEADER_CONTENT_LENGTH = None" "map_of hs HEADER_TRANSFER_ENCODING = Some ''chunked''"
    and cs: "list_all ok_chunk cs" "last_chunk z"
    and size: "length (chunked_response_text v code ph hs cs z @ rest) \<le> HTTP_MAX_HEADER_LEN"
  shows "\<exists>r. client_parse new_response (chunked_response_text v code ph hs cs z @ rest)
      = Inr (CO_OK, r, Consume (length (chunked_response_text v code ph hs cs z)))
    \<and> m_content r = concat (map snd cs) \<and> m_contentLength r = int (length (concat (map snd cs)))
    \<and> m_statuscode r = code \<and> m_reasonPhrase r = ph \<and> map_of (m_headers r) = map_of hs
    \<and> m_parseStatus r = eCompleted"
proof -
  let ?sl = "v @ '' '' @ to_string code @ '' '' @ ph @ crlf"
  let ?bd = "chunked_text cs z"
  obtain m1 where m1: "m1 = new_response\<lparr>m_version := v, m_statuscode := code, m_reasonPhrase := ph\<rparr>" by blast
  have f1: "m_headers m1 = []" "m_content m1 = []" "m_contentLength m1 = 0" "m_statuscode m1 = code"
    "m_reasonPhrase m1 = ph"
    unfolding m1 by (simp_all add: new_response_def)
  have st: "parse_startline_resp new_response (?sl @ x) = Inr (int (length ?sl), m1)" for x
    unfolding m1 by (rule parse_startline_resp_ok [OF start])
  let ?m2 = "(add_headers hs m1)\<lparr>m_parseStatus := eContent, m_contentChunked := 1\<rparr>"
  have hm: "map_of (m_headers (add_headers hs m1)) = map_of hs"
    using map_of_add_headers [OF hs(2), of m1] f1 by simp
  have blank: "client_blank ((add_headers hs m1)\<lparr>m_parseStatus := eContent\<rparr>) = Inr ?m2"
    using hm hs(3,4) by (simp add: client_blank_def get_headervalue_def Let_def)
  have le: "int (length ?bd) < two31" using size by (simp add: chunked_response_text_def HTTP_MAX_HEADER_LEN_def)
  let ?m3 = "?m2\<lparr>m_content := concat (map snd cs), m_contentLength := int (length (concat (map snd cs))),
      m_parseStatus := eCompleted\<rparr>"
  have content: "client_content ?m2 (?bd @ rest) = Inr (Some (length ?bd), ?m3)"
    using chunked_body_exact [OF cs le, of ?m2 rest] f1 by (simp add: client_content_def)
  have fits: "cli.fits new_response (?sl @ concat (map header_line hs) @ crlf @ ?bd @ rest)"
    using size by (simp add: cli.fits_def HTTP_MAX_HEADER_LEN_def chunked_response_text_def)
  have "client_parse new_response (?sl @ concat (map header_line hs) @ crlf @ ?bd @ rest)
      = Inr (CO_OK, ?m3, Consume (length (?sl @ concat (map header_line hs) @ crlf @ ?bd)))"
    unfolding client_parse_def
    by (rule cli.dec_message [OF _ fits st _ hs(1) blank content]) (simp_all add: new_response_def)
  then show ?thesis using hm f1 by (simp add: chunked_response_text_def)
qed

end
