(* ===== verification/Http_Properties.thy ===== *)
theory Http_Properties
  imports Http_Roundtrip
begin

text \<open>
  The properties of the HTTP protocol objects, stated on \<open>encode\<close>, \<open>decode\<close> and the byte
  buffer, each with a concrete instance.
\<close>

section \<open>encode on the buffer\<close>

lemma client_encode_ok:
  assumes "buf_inv b" and "length (contents b) + length (request_text itr ipport (m_reqMsg p)) \<le> buf_limit"
  shows "\<exists>b'. client_encode itr (full_heap j) ipport p b
      = Inr (CO_OK, p\<lparr>m_reqMsg := client_headers ipport (m_reqMsg p)\<rparr>, b')
    \<and> buf_inv b' \<and> contents b' = contents b @ request_text itr ipport (m_reqMsg p)"
  using bq.append_all_ok [of b "client_pieces itr (client_headers ipport (m_reqMsg p))" j] assms
  by (auto simp: client_encode_def request_text_def Let_def)

lemma server_encode_ok:
  assumes "buf_inv b" and "length (contents b) + length (response_text itr (m_respMsg p)) \<le> buf_limit"
  shows "\<exists>b'. server_encode itr (full_heap j) p b
      = Inr (CO_OK, p\<lparr>m_respMsg := server_headers (m_respMsg p)\<rparr>, b')
    \<and> buf_inv b' \<and> contents b' = contents b @ response_text itr (m_respMsg p)"
  using bq.append_all_ok [of b "server_pieces itr (server_headers (m_respMsg p))" j] assms
  by (auto simp: server_encode_def response_text_def Let_def)

definition sample_request :: CoHTTPRequest where
  "sample_request = new_request\<lparr>m_method := ''POST'', m_url := ''/a?k=v&k2=w'',
     m_headers := [(''Accept'', ''*'')], m_content := ''hello'', m_contentLength := 5\<rparr>"

definition sample_response :: CoHTTPResponse where
  "sample_response = new_response\<lparr>m_headers := [(''Accept'', ''*'')], m_content := ''hello'',
     m_contentLength := 5\<rparr>"

lemma sample_request_ok: "ok_request sample_request" "ok_header (HEADER_HOST, ''1.2.3.4:80'')"
  by code_simp+

lemma sample_response_ok: "ok_response sample_response"
  by code_simp

lemma sample_request_length: "length (request_text rev ''1.2.3.4:80'' sample_request) \<le> HTTP_MAX_HEADER_LEN"
  by code_simp

lemma sample_response_length: "length (response_text rev sample_response) \<le> HTTP_MAX_HEADER_LEN"
  by code_simp

section \<open>Round trips\<close>





section \<open>Segments\<close>






definition chunk_sample :: "string \<Rightarrow> string" where
  "chunk_sample rest = chunked_response_text ''HTTP/1.1'' 200 ''OK'' [(''Transfer-Encoding'', ''chunked'')]
     [(''5'', ''hello''), (''0A'', ''0123456789'')] ''0'' @ rest"

lemma chunk_sample_length: "length (chunk_sample ''HTTP'') \<le> HTTP_MAX_HEADER_LEN"
  by code_simp

lemma chunk_sample_parts:
  "list_all ok_header [(''Transfer-Encoding'', ''chunked'')]"
  "list_all ok_chunk [(''5'', ''hello''), (''0A'', ''0123456789'')]" "last_chunk ''0''"
  "is_token ''HTTP/1.1''" "strncaseeq ''HTTP/1.1'' ''HTTP'' 4" "is_text ''OK''"
  by code_simp+


section \<open>Outcomes\<close>

lemma server_decode_parts:
  assumes "server_decode p b = Inr (ret, p', b')" and "buf_inv b"
  obtains m act where "server_parse (m_reqMsg p) (contents b) = Inr (ret, m, act)" "m_reqMsg p' = m"
    "contents b' = rest_of act (contents b)" "buf_inv b'" "m_respMsg p' = m_respMsg p"
proof -
  obtain m act where m: "server_parse (m_reqMsg p) (contents b) = Inr (ret, m, act)"
    "p' = p\<lparr>m_reqMsg := m\<rparr>" "b' = apply_action act b"
    using assms(1) by (auto simp: server_decode_def bindr_eq_Inr_conv)
  then show ?thesis
    using that [of m act] contents_apply_action [OF assms(2), of act] apply_action_inv [OF assms(2), of act] by simp
qed

lemma client_decode_parts:
  assumes "client_decode p b = Inr (ret, p', b')" and "buf_inv b"
  obtains m act where "client_parse (m_respMsg p) (contents b) = Inr (ret, m, act)" "m_respMsg p' = m"
    "contents b' = rest_of act (contents b)" "buf_inv b'" "m_reqMsg p' = m_reqMsg p"
proof -
  obtain m act where m: "client_parse (m_respMsg p) (contents b) = Inr (ret, m, act)"
    "p' = p\<lparr>m_respMsg := m\<rparr>" "b' = apply_action act b"
    using assms(1) by (auto simp: client_decode_def bindr_eq_Inr_conv)
  then show ?thesis
    using that [of m act] contents_apply_action [OF assms(2), of act] apply_action_inv [OF assms(2), of act] by simp
qed

text \<open>The server never takes the client's early return.\<close>

lemma content_body_some: "content_body m raw = Inr (k, m') \<Longrightarrow> k \<noteq> None"
  by (auto simp: content_body_def bindr_eq_Inr_conv)

lemma server_never_minus_one:
  assumes "server_parse m raw = Inr (ret, m', act)"
  shows "ret \<noteq> - 1"
proof -
  have "ret' \<noteq> - 1" if "decode_body server_blank content_body m1 raw p = Inr (ret', m2, a)" for m1 p ret' m2 a
    using that content_body_some
    by (fastforce simp: decode_body_def bindr_eq_Inr_conv split: option.splits if_splits)
  then show ?thesis using assms
    by (fastforce simp: server_parse_def decode_msg_def bindr_eq_Inr_conv split: if_splits)
qed


lemma server_decode_short:
  "server_decode new_http_protocol (buffer_of ''GET'') = Inr (CO_AGAIN, new_http_protocol, buffer_of ''GET'')"
  unfolding server_decode_def buffer_of_ok server_parse_def
  by (simp add: decode_msg_def new_http_protocol_def new_request_def HTTP_MAX_HEADER_LEN_def
      parse_startline_req_none)


text \<open>The client's \<open>decode\<close> has the same outcomes, and one more: on a malformed chunk size it returns
  \<open>-1\<close> and leaves the buffer as it was, with the chunks in front of it already added to the
  message.\<close>

theorem client_decode_outcome:
  assumes "client_decode p b = Inr (ret, p', b')" and "buf_inv b"
  shows "buf_inv b' \<and> (\<exists>n\<le>length (contents b). contents b' = drop n (contents b))
    \<and> (ret = CO_OK \<and> m_parseStatus (m_respMsg p') = eCompleted
       \<or> ret = CO_AGAIN \<and> m_parseStatus (m_respMsg p') \<noteq> eCompleted
       \<or> ret = status_code eError \<and> contents b' = []
       \<or> ret = CO_ERROR \<and> contents b' = contents b)"
proof -
  obtain m act where d: "client_parse (m_respMsg p) (contents b) = Inr (ret, m, act)" "m_respMsg p' = m"
    "contents b' = rest_of act (contents b)" "buf_inv b'"
    using client_decode_parts [OF assms] by blast
  note out = cli.dec_outcome [OF d(1) [unfolded client_parse_def]]
  have suffix: "\<exists>n\<le>length (contents b). contents b' = drop n (contents b)"
  proof (cases act)
    case Keep
    then show ?thesis using d(3) by (intro exI [of _ 0]) simp
  next
    case Discard
    then show ?thesis using d(3) by (intro exI [of _ "length (contents b)"]) simp
  next
    case (Consume n)
    then show ?thesis using d(3) out by auto
  qed
  show ?thesis using out suffix d by auto
qed

lemma client_decode_bad_chunk:
  "client_decode (new_http_protocol\<lparr>m_respMsg := new_response\<lparr>m_parseStatus := eContent, m_contentChunked := 1\<rparr>\<rparr>)
     (buffer_of (''xy'' @ crlf))
   = Inr (CO_ERROR, new_http_protocol\<lparr>m_respMsg := new_response\<lparr>m_parseStatus := eContent, m_contentChunked := 1\<rparr>\<rparr>,
       buffer_of (''xy'' @ crlf))"
proof -
  have "chunk_step (new_response\<lparr>m_parseStatus := eContent, m_contentChunked := 1\<rparr>) (''xy'' @ crlf) = Inr Bad"
    by code_simp
  then have "parse_chunks (new_response\<lparr>m_parseStatus := eContent, m_contentChunked := 1\<rparr>) (''xy'' @ crlf) 0
      = Inr (- 1, new_response\<lparr>m_parseStatus := eContent, m_contentChunked := 1\<rparr>)"
    by (subst parse_chunks_unfold) simp
  then show ?thesis
    unfolding client_decode_def buffer_of_ok client_parse_def
    by (simp add: decode_msg_def decode_body_def header_loop_stop client_content_def chunked_body_def
        parse_content_chunked_def new_http_protocol_def)
qed

theorem client_decode_outcome_witness:
  "buf_inv (buffer_of (''xy'' @ crlf)) \<and> (\<exists>n\<le>length (contents (buffer_of (''xy'' @ crlf))).
      contents (buffer_of (''xy'' @ crlf)) = drop n (contents (buffer_of (''xy'' @ crlf))))
    \<and> (CO_ERROR = CO_OK \<and> m_parseStatus (new_response\<lparr>m_parseStatus := eContent, m_contentChunked := 1\<rparr>) = eCompleted
       \<or> CO_ERROR = CO_AGAIN \<and> m_parseStatus (new_response\<lparr>m_parseStatus := eContent, m_contentChunked := 1\<rparr>) \<noteq> eCompleted
       \<or> CO_ERROR = status_code eError \<and> contents (buffer_of (''xy'' @ crlf)) = []
       \<or> CO_ERROR = CO_ERROR \<and> contents (buffer_of (''xy'' @ crlf)) = contents (buffer_of (''xy'' @ crlf)))"
  using client_decode_outcome [OF client_decode_bad_chunk] by (simp add: buffer_of_ok)

section \<open>Where the decoders misbehave\<close>

text \<open>A request line whose version is empty (\<open>GET / CRLF\<close> with the trailing space) makes the server hand
  a null pointer to \<open>std::string\<close>: the result of \<open>strtok\<close> is not checked.\<close>

theorem empty_version_faults:
  assumes "is_token a" and "is_token b"
    and "length (a @ '' '' @ b @ '' '' @ crlf @ rest) \<le> HTTP_MAX_HEADER_LEN"
  shows "server_parse new_request (a @ '' '' @ b @ '' '' @ crlf @ rest) = Inl NullPointer"
proof -
  let ?l = "a @ CHR '' '' # b @ '' ''"
  have tx: "is_text ?l" using assms by (auto simp: is_text_def is_token_def)
  have line: "get_line (a @ '' '' @ b @ '' '' @ crlf @ rest)
      = Some (length ?l + 2, a @ CHR '' '' # (b @ CHR '' '' # crlf))"
    using get_line_text [OF tx, of rest] by simp
  have s1: "hasStrsep (Some (a @ CHR '' '' # (b @ CHR '' '' # crlf))) '' '' = (Some a, Some (b @ CHR '' '' # crlf))"
    by (rule hasStrsep_found) (use assms in \<open>simp add: is_token_def\<close>)
  have s2: "hasStrsep (Some (b @ CHR '' '' # crlf)) '' '' = (Some b, Some crlf)"
    by (rule hasStrsep_found) (use assms in \<open>simp add: is_token_def\<close>)
  have "parse_startline_req new_request (a @ '' '' @ b @ '' '' @ crlf @ rest) = Inl NullPointer"
    unfolding parse_startline_req_def line option.case prod.case Let_def s1 s2 hasStrsep_url
    by (simp add: strtok_crlf set_version_def)
  then show ?thesis using assms(3)
    by (simp add: server_parse_def decode_msg_def new_request_def HTTP_MAX_HEADER_LEN_def)
qed

theorem empty_version_faults_witness:
  "server_parse new_request (''GET'' @ '' '' @ ''/'' @ '' '' @ crlf @ []) = Inl NullPointer"
  by (rule empty_version_faults) (code_simp+)

text \<open>A negative \<open>Content-Length\<close> is passed to \<open>std::string::reserve\<close> as a huge \<open>size_t\<close>: at the empty line
  of such a request the server throws \<open>std::length_error\<close>, which nothing catches.\<close>

theorem negative_content_length_faults:
  assumes "m_parseStatus m = eHeader" and "map_of (m_headers m) HEADER_CONTENT_LENGTH = Some s"
    and "c_atoi s < 0" and "length (crlf @ rest) \<le> HTTP_MAX_HEADER_LEN"
  shows "server_parse m (crlf @ rest) = Inl LengthError"
proof -
  have "s \<noteq> []" using assms(3) by (auto simp: c_atoi_def cstr_def clamp64_def wrap32_def)
  then have "server_blank (m\<lparr>m_parseStatus := eContent\<rparr>) = Inl LengthError"
    using assms(2,3) by (simp add: server_blank_def get_headervalue_def reserve_contentlength_def)
  then have "header_loop server_blank m (crlf @ rest) 0 = Inl LengthError"
    using srv.header_loop_blank [OF assms(1), of rest] by simp
  moreover have "server_parse m (crlf @ rest) = decode_body server_blank content_body m (crlf @ rest) 0"
    using srv.dec_body [of m "crlf @ rest"] assms(1,4)
    by (simp add: server_parse_def srv.fits_def HTTP_MAX_HEADER_LEN_def)
  ultimately show ?thesis by (simp add: decode_body_def)
qed

theorem negative_content_length_faults_witness:
  "server_parse (new_request\<lparr>m_parseStatus := eHeader, m_headers := [(''Content-Length'', ''-1'')]\<rparr>) (crlf @ [])
     = Inl LengthError"
proof (rule negative_content_length_faults)
  show "c_atoi ''-1'' < 0" by code_simp
qed (simp_all add: HEADER_CONTENT_LENGTH_def HTTP_MAX_HEADER_LEN_def)

text \<open>When the bytes at hand end with the CR of the empty line, the decoder takes the header block as
  ended without having read that line: the CR becomes the first byte of the body and the LF that
  follows is taken as body too, where the same bytes in one piece give a body without them.\<close>

theorem split_blank_line_corrupts_body:
  assumes "m_parseStatus m = eHeader" and "map_of (m_headers m) HEADER_CONTENT_LENGTH = Some (to_string n)"
    and "2 \<le> n" and "n < two31" and "m_contentLength m = 0"
  shows "\<exists>m1 m2 m3. server_parse m [CR] = Inr (CO_AGAIN, m1, Consume 1)
      \<and> server_parse m1 [LF] = Inr (if n = 2 then CO_OK else CO_AGAIN, m2, Consume 1)
      \<and> m_content m2 = m_content m @ crlf
      \<and> server_parse m crlf = Inr (CO_AGAIN, m3, Consume 2) \<and> m_content m3 = m_content m"
proof -
  let ?m = "m\<lparr>m_parseStatus := eContent, m_contentRemain := n\<rparr>"
  have blank: "server_blank (m\<lparr>m_parseStatus := eContent\<rparr>) = Inr ?m"
    using assms(2-4) by (simp add: server_blank_def get_headervalue_def atoi_to_string reserve_contentlength_def)
  have ph: "parse_header m [CR] = (0, m)" by (rule parse_header_none) simp
  have loop1: "header_loop server_blank m [CR] 0 = Inr (?m, 0)"
    using assms(1) ph blank by (subst header_loop.simps) simp
  let ?m1 = "?m\<lparr>m_content := m_content m @ [CR], m_contentLength := 1, m_contentRemain := n - 1\<rparr>"
  have c1: "content_body ?m [CR] = Inr (Some 1, ?m1)"
    using assms(3-5) by (simp add: content_body_def parse_content_some Let_def i32_def in_i32_def)
  have d1: "server_parse m [CR] = Inr (CO_AGAIN, ?m1, Consume 1)"
    using assms(1) loop1 c1 by (simp add: server_parse_def decode_msg_def decode_body_def HTTP_MAX_HEADER_LEN_def)
  let ?m2 = "?m1\<lparr>m_content := m_content m @ crlf, m_contentLength := 2, m_contentRemain := n - 2\<rparr>"
  have c2: "content_body ?m1 [LF] = Inr (Some 1, if n = 2 then ?m2\<lparr>m_parseStatus := eCompleted\<rparr> else ?m2)"
    using assms(3-5) by (auto simp: content_body_def parse_content_some Let_def i32_def in_i32_def)
  have d2: "server_parse ?m1 [LF] = Inr (if n = 2 then CO_OK else CO_AGAIN,
      if n = 2 then ?m2\<lparr>m_parseStatus := eCompleted\<rparr> else ?m2, Consume 1)"
    using c2 by (simp add: server_parse_def decode_msg_def decode_body_def header_loop_stop HTTP_MAX_HEADER_LEN_def)
  have "header_loop server_blank m crlf 0 = Inr (?m, 2)"
    using srv.header_loop_blank [OF assms(1), of "[]"] blank by simp
  moreover have "content_body ?m [] = Inr (Some 0, ?m)"
    using assms(3-5) by (simp add: content_body_def parse_content_some Let_def i32_def in_i32_def)
  ultimately have d3: "server_parse m crlf = Inr (CO_AGAIN, ?m, Consume 2)"
    using assms(1) by (simp add: server_parse_def decode_msg_def decode_body_def HTTP_MAX_HEADER_LEN_def)
  show ?thesis
    by (intro exI conjI, rule d1, rule d2, simp, rule d3, simp)
qed

theorem split_blank_line_corrupts_body_witness:
  "\<exists>m1 m2 m3. server_parse (new_request\<lparr>m_parseStatus := eHeader, m_headers := [(''Content-Length'', to_string 5)]\<rparr>) [CR]
        = Inr (CO_AGAIN, m1, Consume 1)
      \<and> server_parse m1 [LF] = Inr (if (5::int) = 2 then CO_OK else CO_AGAIN, m2, Consume 1)
      \<and> m_content m2 = m_content (new_request\<lparr>m_parseStatus := eHeader, m_headers := [(''Content-Length'', to_string 5)]\<rparr>) @ crlf
      \<and> server_parse (new_request\<lparr>m_parseStatus := eHeader, m_headers := [(''Content-Length'', to_string 5)]\<rparr>) crlf
        = Inr (CO_AGAIN, m3, Consume 2)
      \<and> m_content m3 = m_content (new_request\<lparr>m_parseStatus := eHeader, m_headers := [(''Content-Length'', to_string 5)]\<rparr>)"
  by (rule split_blank_line_corrupts_body) (simp_all add: HEADER_CONTENT_LENGTH_def new_request_def)

text \<open>As long as the header block is not complete, more than 8192 bytes at hand (header and body
  together) are an error: \<open>decode\<close> returns \<open>eError\<close> and drops everything, on both sides.\<close>

theorem too_long_is_dropped:
  assumes "buf_inv b" and "HTTP_MAX_HEADER_LEN < length (contents b)" and "int (length (contents b)) < two31"
    and "m_parseStatus (m_reqMsg p) \<in> {eStartLine, eHeader}" and "m_parseStatus (m_respMsg p) \<in> {eStartLine, eHeader}"
  shows "\<exists>b'. server_decode p b = Inr (status_code eError, p, b') \<and> client_decode p b = Inr (status_code eError, p, b')
    \<and> buf_inv b' \<and> contents b' = []"
proof -
  have "server_parse (m_reqMsg p) (contents b) = Inr (status_code eError, m_reqMsg p, Discard)"
    "client_parse (m_respMsg p) (contents b) = Inr (status_code eError, m_respMsg p, Discard)"
    using assms by (auto simp: server_parse_def client_parse_def decode_msg_def)
  then show ?thesis using buf_inv_reset [OF assms(1)]
    by (simp add: server_decode_def client_decode_def)
qed

theorem too_long_is_dropped_witness:
  "\<exists>b'. server_decode new_http_protocol (buffer_of (replicate 8193 CR)) = Inr (status_code eError, new_http_protocol, b')
    \<and> client_decode new_http_protocol (buffer_of (replicate 8193 CR)) = Inr (status_code eError, new_http_protocol, b')
    \<and> buf_inv b' \<and> contents b' = []"
  by (rule too_long_is_dropped)
    (simp_all add: buffer_of_ok HTTP_MAX_HEADER_LEN_def new_http_protocol_def new_request_def new_response_def)

text \<open>A header whose line does not fit the 512-byte array of \<open>encode\<close> is cut off without its CR LF, so
  that the receiver's \<open>parse_header\<close> reads it and the next header as one line: the value of the
  first becomes its beginning followed by the whole next header, and the next one is lost.\<close>

theorem long_header_swallows_next:
  assumes "is_text (fst h)" and "CHR '':'' \<notin> set (fst h)" and "is_text (snd h)" and "take 1 (snd h) \<noteq> '' ''"
    and "snd h \<noteq> []" and "length (fst h) < 500" and "513 \<le> length (fst h) + length (snd h) + 4" and "ok_header h2"
  shows "parse_header m (header_line h @ header_line h2 @ rest)
    = (length (header_line h @ header_line h2),
       add_header (fst h) (take (509 - length (fst h)) (snd h) @ fst h2 @ '': '' @ snd h2) m)"
proof -
  let ?v = "take (509 - length (fst h)) (snd h)"
  have hl: "header_line h = fst h @ CHR '':'' # '' '' @ ?v"
  proof -
    have n: "511 - length (fst h) = Suc (Suc (509 - length (fst h)))" "509 - length (fst h) \<le> length (snd h)"
      using assms(6,7) by simp_all
    then have "take (511 - length (fst h)) ('': '' @ snd h @ crlf) = '': '' @ ?v" by simp
    then show ?thesis using assms(1,3,6) by (simp add: header_line_def snprintf_text_def is_text_no_nul)
  qed
  have v: "is_text ?v" using assms(3) by (auto simp: is_text_def dest: in_set_takeD)
  let ?w = "?v @ fst h2 @ '': '' @ snd h2"
  have w: "is_text ?w" using v assms(8) by (auto simp: ok_header_def is_text_def)
  have tx: "is_text (fst h @ CHR '':'' # '' '' @ ?w)" using assms(1) w by (auto simp: is_text_def)
  have bytes: "header_line h @ header_line h2 @ rest = (fst h @ CHR '':'' # '' '' @ ?w) @ crlf @ rest"
    unfolding hl header_line_ok [OF assms(8)] by simp
  have len: "length (fst h @ CHR '':'' # '' '' @ ?w) + 2 = length (header_line h @ header_line h2)"
    unfolding hl header_line_ok [OF assms(8)] by simp
  have line: "get_line (header_line h @ header_line h2 @ rest)
      = Some (length (header_line h @ header_line h2), fst h @ CHR '':'' # ('' '' @ ?w) @ crlf)"
    unfolding bytes get_line_text [OF tx] len by simp
  have sep: "hasStrsep (Some (fst h @ CHR '':'' # ('' '' @ ?w) @ crlf)) '':'' = (Some (fst h), Some (('' '' @ ?w) @ crlf))"
    by (rule hasStrsep_found [OF assms(2)])
  have "strtok (('' '' @ ?w) @ crlf) crlf = Some ('' '' @ ?w)"
    by (rule strtok_line) (use w in \<open>auto simp: is_text_def\<close>)
  moreover have "skip_spaces ('' '' @ ?w) = ?w"
  proof -
    obtain c s where cs: "snd h = c # s" using assms(5) by (cases "snd h") auto
    have "0 < 509 - length (fst h)" using assms(6) by simp
    then have "?v = c # take (509 - length (fst h) - 1) s" using cs by (simp add: take_Cons')
    then show ?thesis using assms(4) cs by (simp add: skip_spaces_def)
  qed
  ultimately show ?thesis unfolding parse_header_def line option.case prod.case Let_def sep by simp
qed

theorem long_header_swallows_next_witness:
  "parse_header new_request (header_line (''A'', replicate 600 CHR ''x'') @ header_line (''Host'', ''h'') @ [])
    = (length (header_line (''A'', replicate 600 CHR ''x'') @ header_line (''Host'', ''h'')),
       add_header (fst (''A'', replicate 600 CHR ''x''))
         (take (509 - length (fst (''A'', replicate 600 CHR ''x''))) (snd (''A'', replicate 600 CHR ''x''))
            @ fst (''Host'', ''h'') @ '': '' @ snd (''Host'', ''h'')) new_request)"
proof (rule long_header_swallows_next)
  show "take 1 (snd (''A'', replicate 600 CHR ''x'')) \<noteq> '' ''" by simp
qed (simp_all add: is_text_def ok_header_def)

section \<open>Queries\<close>

definition query_string :: "headers \<Rightarrow> string" where
  "query_string ps = query_text (butlast ps) @ fst (last ps) @ ''='' @ snd (last ps)"

lemma add_params_value:
  "distinct (map fst ps) \<Longrightarrow> (n, v) \<in> set ps \<Longrightarrow>
   map_of (m_params (fold (\<lambda>p. add_param (fst p) (snd p)) ps m)) n = Some v"
proof (induction ps arbitrary: m rule: rev_induct)
  case (snoc p ps)
  show ?case
  proof (cases "p = (n, v)")
    case True
    then show ?thesis by (simp add: add_param_def update_conv')
  next
    case False
    then have mem: "(n, v) \<in> set ps" using snoc.prems by auto
    then have "n \<in> fst ` set ps" by force
    then have "fst p \<noteq> n" using snoc.prems(1) by auto
    then show ?thesis using snoc mem by (simp add: add_param_def update_conv')
  qed
qed simp

text \<open>The parameters of a request: for a URL \<open>path?n1=v1&n2=v2...\<close> the start-line parser stores the
  path as \<open>uri\<close> and gives every parameter its value.\<close>

theorem query_parameters:
  assumes "is_token a" and "is_token (path @ ''?'' @ query_string ps)" and "is_text c" and "c \<noteq> []"
    and "CHR ''?'' \<notin> set path" and "ps \<noteq> []" and "list_all ok_param ps" and "distinct (map fst ps)"
  shows "\<exists>n m. parse_startline_req new_request
      ((a @ '' '' @ (path @ ''?'' @ query_string ps) @ '' '' @ c @ crlf) @ rest) = Inr (n, m)
    \<and> m_method m = a \<and> m_uri m = path \<and> (\<forall>k v. (k, v) \<in> set ps \<longrightarrow> get_paramvalue k m = v)"
proof -
  let ?url = "path @ ''?'' @ query_string ps"
  have "hasStrsep (Some ?url) ''?'' = (Some path, Some (query_string ps))"
    using hasStrsep_found [OF assms(5), of "query_string ps"] by simp
  then have url: "url_path ?url = path" "url_query ?url = Some (query_string ps)"
    using hasStrsep_url [of ?url] by simp_all
  let ?m = "new_request\<lparr>m_method := a, m_url := ?url, m_uri := path, m_version := c\<rparr>"
  have split: "butlast ps @ [(fst (last ps), snd (last ps))] = ps" using assms(6) by simp
  have fold: "parse_params (Some (query_string ps)) ?m = fold (\<lambda>p. add_param (fst p) (snd p)) ps ?m"
    using parse_params_query [of "butlast ps" "fst (last ps)" "snd (last ps)" ?m] assms(7) split
    by (simp only: query_string_def)
  have "\<forall>k v. (k, v) \<in> set ps \<longrightarrow> get_paramvalue k (parse_params (Some (query_string ps)) ?m) = v"
    unfolding fold using add_params_value [OF assms(8)] by (simp add: get_paramvalue_def)
  then show ?thesis
    using parse_startline_req_ok [OF assms(1-4), of new_request rest] url by simp
qed

theorem query_parameters_witness:
  "\<exists>n m. parse_startline_req new_request
      ((''GET'' @ '' '' @ (''/s'' @ ''?'' @ query_string [(''k'', ''v''), (''q'', ''a=b'')]) @ '' '' @ ''HTTP/1.1'' @ crlf) @ [])
      = Inr (n, m)
    \<and> m_method m = ''GET'' \<and> m_uri m = ''/s''
    \<and> (\<forall>k v. (k, v) \<in> set [(''k'', ''v''), (''q'', ''a=b'')] \<longrightarrow> get_paramvalue k m = v)"
proof (rule query_parameters)
  show "is_token (''/s'' @ ''?'' @ query_string [(''k'', ''v''), (''q'', ''a=b'')])" by code_simp
qed (simp_all add: is_token_def is_text_def ok_param_def)

end
