(* ===== verification/Tcp_Protocol.thy ===== *)
theory Tcp_Protocol
  imports Buffer Config
begin

text \<open>
  \<^verbatim>\<open>protocol/co_protocol_tcp.h\<close>, \<^verbatim>\<open>protocol/co_protocol_tcp.cpp\<close>: the framed protocol, an eight byte head
  (a flag in host order, the body length in network order) and the body. The head is read through
  a cast of the buffer, on the little-endian machines the server runs on.
\<close>

section \<open>Words in memory\<close>

definition byte_at :: "32 word \<Rightarrow> nat \<Rightarrow> char" where
  "byte_at w k = char_of (unat w div 256 ^ k mod 256)"

definition le_bytes :: "32 word \<Rightarrow> string" where
  "le_bytes w = map (byte_at w) [0, 1, 2, 3]"

fun nat_of_le :: "string \<Rightarrow> nat" where
  "nat_of_le [] = 0"
| "nat_of_le (c # s) = of_char c + 256 * nat_of_le s"

definition word_of_le :: "string \<Rightarrow> 32 word" where
  "word_of_le s = word_of_nat (nat_of_le (take 4 s))"

text \<open>\<open>htonl\<close> and \<open>ntohl\<close> reverse the bytes.\<close>

definition htonl :: "32 word \<Rightarrow> 32 word" where
  "htonl w = word_of_le (rev (le_bytes w))"

definition ntohl :: "32 word \<Rightarrow> 32 word" where
  "ntohl w = word_of_le (rev (le_bytes w))"

lemma length_le_bytes [simp]: "length (le_bytes w) = 4"
  by (simp add: le_bytes_def)

lemma nat_bytes:
  fixes n :: nat
  assumes "n < 4294967296"
  shows "n mod 256 + 256 * (n div 256 mod 256 + 256 * (n div 65536 mod 256 + 256 * (n div 16777216 mod 256))) = n"
proof -
  have "n div 65536 = n div 256 div 256" "n div 16777216 = n div 256 div 256 div 256"
    by (simp_all add: div_mult2_eq [symmetric])
  moreover have "n div 256 div 256 div 256 < 256" using assms by (simp add: div_mult2_eq [symmetric] less_mult_imp_div_less)
  ultimately show ?thesis by (metis mod_less mod_mult_div_eq mult.commute)
qed

lemma word_of_le_bytes [simp]: "word_of_le (le_bytes w @ s) = w" "word_of_le (le_bytes w) = w"
proof -
  have "unat w < 4294967296" using unsigned_less [of w] by simp
  moreover from this have "unat w div 16777216 mod 256 = unat w div 16777216"
    by (simp add: less_mult_imp_div_less)
  ultimately have "nat_of_le (le_bytes w) = unat w"
    using nat_bytes [of "unat w"] by (simp add: le_bytes_def byte_at_def)
  then show "word_of_le (le_bytes w @ s) = w" "word_of_le (le_bytes w) = w"
    by (simp_all add: word_of_le_def)
qed

lemma byte_sum:
  fixes a b c d :: nat
  assumes "a < 256" "b < 256" "c < 256" "d < 256"
  shows "a + 256 * (b + 256 * (c + 256 * d)) < 4294967296"
    "(a + 256 * (b + 256 * (c + 256 * d))) mod 256 = a"
    "(a + 256 * (b + 256 * (c + 256 * d))) div 256 mod 256 = b"
    "(a + 256 * (b + 256 * (c + 256 * d))) div 65536 mod 256 = c"
    "(a + 256 * (b + 256 * (c + 256 * d))) div 16777216 mod 256 = d"
proof -
  have le: "a \<le> 255" "b \<le> 255" "c \<le> 255" "d \<le> 255" using assms by simp_all
  have "c + 256 * d \<le> 65535" using le(3,4) by simp
  then have "b + 256 * (c + 256 * d) \<le> 16777215" using le(2) by simp
  then show "a + 256 * (b + 256 * (c + 256 * d)) < 4294967296" using le(1) by simp
  have step: "(x + 256 * y) mod 256 = x \<and> (x + 256 * y) div 256 = y" if "x < 256" for x y :: nat
    using that by simp
  have big: "n div 65536 = n div 256 div 256" "n div 16777216 = n div 256 div 256 div 256" for n :: nat
    by (simp_all add: div_mult2_eq [symmetric])
  note a = step [OF assms(1)] and b = step [OF assms(2)] and c = step [OF assms(3)]
  show "(a + 256 * (b + 256 * (c + 256 * d))) mod 256 = a"
    "(a + 256 * (b + 256 * (c + 256 * d))) div 256 mod 256 = b"
    "(a + 256 * (b + 256 * (c + 256 * d))) div 65536 mod 256 = c"
    "(a + 256 * (b + 256 * (c + 256 * d))) div 16777216 mod 256 = d"
    by (simp_all only: big a b c mod_less assms(4))
qed

lemma unat_word32: "n < 4294967296 \<Longrightarrow> unat (word_of_nat n :: 32 word) = n"
  by (simp add: unat_of_nat take_bit_nat_eq_self)

lemma le_bytes_word_of_le:
  assumes "length s = 4"
  shows "le_bytes (word_of_le s) = s"
proof -
  obtain a b c d where s: "s = [a, b, c, d]"
    using assms by (auto simp: numeral_eq_Suc length_Suc_conv)
  have lt: "of_char x < (256::nat)" for x by (simp add: of_char_def)
  let ?n = "of_char a + 256 * (of_char b + 256 * (of_char c + 256 * of_char d)) :: nat"
  note sum = byte_sum [OF lt [of a] lt [of b] lt [of c] lt [of d]]
  have "word_of_le s = word_of_nat ?n" unfolding s by (simp add: word_of_le_def)
  then have "unat (word_of_le s) = ?n" using unat_word32 [OF sum(1)] by (simp only:)
  then have "le_bytes (word_of_le s) = map char_of [of_char a, of_char b, of_char c, of_char d :: nat]"
  proof -
    have p: "(256::nat) ^ 2 = 65536" "(256::nat) ^ 3 = 16777216" by simp_all
    assume "unat (word_of_le s) = ?n"
    then show ?thesis unfolding le_bytes_def byte_at_def
      by (simp only: list.map power_0 div_by_1 power_one_right p sum(2-5))
  qed
  then show ?thesis unfolding s by simp
qed

lemma ntohl_htonl [simp]: "ntohl (htonl w) = w"
  by (simp add: ntohl_def htonl_def le_bytes_word_of_le)

section \<open>Messages\<close>

record CoMsgTcp =
  t_status :: int
  t_body :: string

definition new_msg_tcp :: CoMsgTcp where
  "new_msg_tcp = \<lparr>t_status = 0, t_body = []\<rparr>"

definition tcp_set_msgbody :: "string \<Rightarrow> CoMsgTcp \<Rightarrow> CoMsgTcp" where
  "tcp_set_msgbody s m = m\<lparr>t_body := s\<rparr>"

definition tcp_set_msgstatus :: "int \<Rightarrow> CoMsgTcp \<Rightarrow> CoMsgTcp" where
  "tcp_set_msgstatus status m = m\<lparr>t_status := status\<rparr>"

definition CO_PROTOCOL_TCP_FLAG :: "32 word" where "CO_PROTOCOL_TCP_FLAG = 0xe8"

record tcp_protocol =
  t_type :: int
  t_reqMsg :: CoMsgTcp
  t_respMsg :: CoMsgTcp
  t_clientIP :: string

definition new_tcp_protocol :: "int \<Rightarrow> tcp_protocol" where
  "new_tcp_protocol type = \<lparr>t_type = type, t_reqMsg = new_msg_tcp, t_respMsg = new_msg_tcp, t_clientIP = []\<rparr>"

definition tcp_reset_reqmsg :: "tcp_protocol \<Rightarrow> tcp_protocol" where
  "tcp_reset_reqmsg p = p\<lparr>t_reqMsg := new_msg_tcp\<rparr>"

definition tcp_reset_respmsg :: "tcp_protocol \<Rightarrow> tcp_protocol" where
  "tcp_reset_respmsg p = p\<lparr>t_respMsg := new_msg_tcp\<rparr>"

section \<open>decode and encode\<close>

text \<open>\<open>sizeof(CoMsgTcpHead)\<close>: two \<open>int32_t\<close>, the body is a flexible array.\<close>

definition HEAD_LEN :: nat where "HEAD_LEN = 8"

text \<open>A negative length given to \<open>std::string(ptr, n)\<close> is a huge \<open>size_t\<close>: \<open>std::length_error\<close>.\<close>

definition tcp_decode :: "tcp_protocol \<Rightarrow> co_buffer \<Rightarrow> (int \<times> tcp_protocol \<times> co_buffer) res" where
  "tcp_decode p b =
     (let raw = contents b; len = int (length raw)
      in if two31 \<le> len then Inl IntRange
         else if len \<le> int HEAD_LEN then Inr (CO_AGAIN, p, b)
         else if word_of_le raw \<noteq> CO_PROTOCOL_TCP_FLAG then Inr (CO_ERROR, p, buffer_reset b)
         else let bodyLen = sint (ntohl (word_of_le (drop 4 raw)))
              in if bodyLen > len - int HEAD_LEN then Inr (CO_AGAIN, p, b)
                 else if bodyLen < 0 then Inl LengthError
                 else let msg = tcp_set_msgbody (take (nat bodyLen) (drop HEAD_LEN raw))
                      in Inr (CO_OK,
                              if t_type p = PROTOCOL_TCP_SERVER then p\<lparr>t_reqMsg := msg (t_reqMsg p)\<rparr>
                              else p\<lparr>t_respMsg := msg (t_respMsg p)\<rparr>,
                              snd (buffer_erase (nat bodyLen + HEAD_LEN) b)))"

definition tcp_encode :: "heap \<Rightarrow> tcp_protocol \<Rightarrow> co_buffer \<Rightarrow> (int \<times> tcp_protocol \<times> co_buffer) res" where
  "tcp_encode h p b =
     (let msg = (if t_type p = PROTOCOL_TCP_SERVER then t_respMsg p else t_reqMsg p);
          head = le_bytes CO_PROTOCOL_TCP_FLAG @ le_bytes (htonl (word_of_nat (length (t_body msg))))
      in bindr (append_all (buffer_append h) [head, t_body msg] b) (\<lambda>b'. Inr (CO_OK, p, b')))"

section \<open>Frames\<close>

definition tcp_frame :: "string \<Rightarrow> string" where
  "tcp_frame body = le_bytes CO_PROTOCOL_TCP_FLAG @ le_bytes (htonl (word_of_nat (length body))) @ body"

definition sent_body :: "tcp_protocol \<Rightarrow> string" where
  "sent_body p = t_body (if t_type p = PROTOCOL_TCP_SERVER then t_respMsg p else t_reqMsg p)"

definition received_body :: "tcp_protocol \<Rightarrow> string" where
  "received_body p = t_body (if t_type p = PROTOCOL_TCP_SERVER then t_reqMsg p else t_respMsg p)"

lemma length_tcp_frame [simp]: "length (tcp_frame body) = 8 + length body"
  by (simp add: tcp_frame_def)

lemma tcp_encode_ok:
  assumes "buf_inv b" and "length (contents b) + length (tcp_frame (sent_body p)) \<le> buf_limit"
  shows "\<exists>b'. tcp_encode (full_heap j) p b = Inr (CO_OK, p, b') \<and> buf_inv b'
    \<and> contents b' = contents b @ tcp_frame (sent_body p)"
proof -
  let ?d = "[le_bytes CO_PROTOCOL_TCP_FLAG @ le_bytes (htonl (word_of_nat (length (sent_body p)))), sent_body p]"
  have "length (contents b) + length (concat ?d) \<le> buf_limit" using assms(2) by simp
  from bq.append_all_ok [OF assms(1) this, of j] show ?thesis
    by (auto simp: tcp_encode_def sent_body_def tcp_frame_def Let_def)
qed

section \<open>Decoding frames\<close>

lemma decode_head:
  assumes "contents b = tcp_frame body @ rest" and "int (length body) < two31"
  shows "word_of_le (contents b) = CO_PROTOCOL_TCP_FLAG"
    and "sint (ntohl (word_of_le (drop 4 (contents b)))) = int (length body)"
proof -
  show "word_of_le (contents b) = CO_PROTOCOL_TCP_FLAG" unfolding assms(1) tcp_frame_def by simp
  have "drop 4 (contents b) = le_bytes (htonl (word_of_nat (length body))) @ body @ rest"
    unfolding assms(1) tcp_frame_def by simp
  moreover have "sint (word_of_nat (length body) :: 32 word) = int (length body)"
    using assms(2) by (simp add: signed_of_nat signed_take_bit_int_eq_self)
  ultimately show "sint (ntohl (word_of_le (drop 4 (contents b)))) = int (length body)" by simp
qed

text \<open>A complete frame, unless it is an empty one with nothing behind it.\<close>

lemma tcp_decode_frame:
  assumes "buf_inv b" and "contents b = tcp_frame body @ rest" and "body @ rest \<noteq> []"
    and "int (length (contents b)) < two31"
  shows "\<exists>p' b'. tcp_decode p b = Inr (CO_OK, p', b') \<and> received_body p' = body \<and> t_type p' = t_type p
    \<and> sent_body p' = sent_body p \<and> buf_inv b' \<and> contents b' = rest"
proof -
  have bd: "int (length body) < two31" using assms(2,4) by simp
  note head = decode_head [OF assms(2) bd]
  have len: "int (length (contents b)) = 8 + int (length body) + int (length rest)"
    "\<not> int (length (contents b)) \<le> int HEAD_LEN" "\<not> two31 \<le> int (length (contents b))"
    "\<not> int (length (contents b)) - int HEAD_LEN < int (length body)"
  proof -
    have "0 < int (length body) + int (length rest)" using assms(3) by (cases body; cases rest) simp_all
    then show "int (length (contents b)) = 8 + int (length body) + int (length rest)"
      "\<not> int (length (contents b)) \<le> int HEAD_LEN" "\<not> two31 \<le> int (length (contents b))"
      "\<not> int (length (contents b)) - int HEAD_LEN < int (length body)"
      using assms(2,4) by (simp_all add: HEAD_LEN_def)
  qed
  have body: "take (nat (int (length body))) (drop HEAD_LEN (contents b)) = body"
    unfolding assms(2) tcp_frame_def by (simp add: HEAD_LEN_def)
  have "contents (snd (buffer_erase (nat (int (length body)) + HEAD_LEN) b)) = rest"
    unfolding contents_erase [OF assms(1)] assms(2) tcp_frame_def by (simp add: HEAD_LEN_def)
  then show ?thesis
    unfolding tcp_decode_def Let_def head body using len buf_inv_erase [OF assms(1)]
    by (simp add: received_body_def sent_body_def tcp_set_msgbody_def)
qed

text \<open>An incomplete frame.\<close>

lemma tcp_decode_prefix:
  assumes "contents b = take n (tcp_frame body)" and "n < length (tcp_frame body) \<or> body = []"
    and "int (length (tcp_frame body)) < two31"
  shows "tcp_decode p b = Inr (CO_AGAIN, p, b)"
proof (cases "n \<le> 8")
  case True
  then have "length (contents b) \<le> 8" using assms(1) by simp
  then show ?thesis by (simp add: tcp_decode_def Let_def HEAD_LEN_def)
next
  case False
  show ?thesis
  proof (cases "body = []")
    case True
    then have "length (contents b) \<le> 8" using assms(1) by simp
    then show ?thesis by (simp add: tcp_decode_def Let_def HEAD_LEN_def)
  next
    case ne: False
    then have n: "n < 8 + length body" using assms(2) by simp
    have eq: "contents b = le_bytes CO_PROTOCOL_TCP_FLAG @ le_bytes (htonl (word_of_nat (length body))) @ take (n - 8) body"
      using assms(1) False by (simp add: tcp_frame_def)
    then have "drop 4 (contents b) = le_bytes (htonl (word_of_nat (length body))) @ take (n - 8) body" by simp
    moreover have "sint (word_of_nat (length body) :: 32 word) = int (length body)"
      using assms(3) by (simp add: signed_of_nat signed_take_bit_int_eq_self)
    ultimately have "sint (ntohl (word_of_le (drop 4 (contents b)))) = int (length body)" by simp
    moreover have "word_of_le (contents b) = CO_PROTOCOL_TCP_FLAG" unfolding eq by simp
    moreover have "length (contents b) = n" using eq n False by simp
    ultimately show ?thesis using n False assms(3) by (simp add: tcp_decode_def Let_def HEAD_LEN_def)
  qed
qed

section \<open>The framing is a protocol\<close>

text \<open>A nonempty message body survives the TCP protocol: what one end's \<open>encode\<close> appends to the buffer,
  the other end's \<open>decode\<close> returns as the body, leaving what stands behind the frame.\<close>

theorem tcp_roundtrip:
  assumes "buf_inv b" and "contents b = []" and "sent_body p \<noteq> []"
    and "int (length (tcp_frame (sent_body p))) < two31"
  shows "\<exists>b1 q' b2. tcp_encode (full_heap j) p b = Inr (CO_OK, p, b1) \<and> tcp_decode q b1 = Inr (CO_OK, q', b2)
    \<and> received_body q' = sent_body p \<and> contents b2 = [] \<and> buf_inv b2"
proof -
  have "length (contents b) + length (tcp_frame (sent_body p)) \<le> buf_limit" using assms(2,4) by simp
  from tcp_encode_ok [OF assms(1) this, of j] assms(2) obtain b1
    where b1: "tcp_encode (full_heap j) p b = Inr (CO_OK, p, b1)" "buf_inv b1"
      "contents b1 = tcp_frame (sent_body p) @ []" by auto
  from tcp_decode_frame [OF b1(2,3), of q] assms(3,4) b1 show ?thesis by fastforce
qed

theorem tcp_roundtrip_witness:
  "\<exists>b1 q' b2. tcp_encode (full_heap (\<lambda>n. NUL)) ((new_tcp_protocol PROTOCOL_TCP_CLIENT)\<lparr>t_reqMsg := new_msg_tcp\<lparr>t_body := ''ping''\<rparr>\<rparr>) new_buffer
      = Inr (CO_OK, (new_tcp_protocol PROTOCOL_TCP_CLIENT)\<lparr>t_reqMsg := new_msg_tcp\<lparr>t_body := ''ping''\<rparr>\<rparr>, b1)
    \<and> tcp_decode (new_tcp_protocol PROTOCOL_TCP_SERVER) b1 = Inr (CO_OK, q', b2)
    \<and> received_body q' = sent_body ((new_tcp_protocol PROTOCOL_TCP_CLIENT)\<lparr>t_reqMsg := new_msg_tcp\<lparr>t_body := ''ping''\<rparr>\<rparr>)
    \<and> contents b2 = [] \<and> buf_inv b2"
  by (rule tcp_roundtrip) (simp_all add: sent_body_def new_tcp_protocol_def config_constants)

text \<open>A frame that has not arrived completely is left alone: \<open>decode\<close> on any proper prefix of a frame
  returns \<open>CO_AGAIN\<close> and changes nothing. The same happens to a complete frame with an empty
  body: it is never decoded until another byte stands behind it.\<close>

theorem tcp_incomplete:
  assumes "contents b = take n (tcp_frame body)" and "n < length (tcp_frame body) \<or> body = []"
    and "int (length (tcp_frame body)) < two31"
  shows "tcp_decode p b = Inr (CO_AGAIN, p, b)"
  using assms by (rule tcp_decode_prefix)

theorem tcp_incomplete_witness:
  "tcp_decode (new_tcp_protocol PROTOCOL_TCP_SERVER) (buffer_of (tcp_frame []))
     = Inr (CO_AGAIN, new_tcp_protocol PROTOCOL_TCP_SERVER, buffer_of (tcp_frame []))"
  by (rule tcp_incomplete [where n = 8 and body = "[]"]) (simp_all add: buffer_of_ok)

text \<open>The frames of a stream, taken out one after the other.\<close>

fun tcp_decode_all :: "nat \<Rightarrow> tcp_protocol \<Rightarrow> co_buffer \<Rightarrow> string list \<times> co_buffer" where
  "tcp_decode_all 0 p b = ([], b)"
| "tcp_decode_all (Suc n) p b =
     (case tcp_decode p b of
        Inr (ret, p', b') \<Rightarrow>
          if ret = CO_OK then (let (bodies, b'') = tcp_decode_all n p' b' in (received_body p' # bodies, b''))
          else ([], b')
      | Inl _ \<Rightarrow> ([], b))"

lemma tcp_decode_all_frames:
  "buf_inv b \<Longrightarrow> contents b = concat (map tcp_frame bodies) @ rest \<Longrightarrow> list_all (\<lambda>s. s \<noteq> []) bodies \<Longrightarrow>
   int (length (contents b)) < two31 \<Longrightarrow>
   \<exists>b'. tcp_decode_all (length bodies) p b = (bodies, b') \<and> contents b' = rest \<and> buf_inv b'"
proof (induction bodies arbitrary: p b)
  case Nil
  then show ?case by simp
next
  case (Cons s ss)
  have eq: "contents b = tcp_frame s @ (concat (map tcp_frame ss) @ rest)" using Cons.prems(2) by simp
  have "s @ (concat (map tcp_frame ss) @ rest) \<noteq> []" using Cons.prems(3) by simp
  from tcp_decode_frame [OF Cons.prems(1) eq this Cons.prems(4), of p] obtain p' b'
    where d: "tcp_decode p b = Inr (CO_OK, p', b')" "received_body p' = s" "buf_inv b'"
      "contents b' = concat (map tcp_frame ss) @ rest" by blast
  have "int (length (contents b')) < two31" using Cons.prems(4) unfolding eq d(4) by simp
  from Cons.IH [OF d(3,4) _ this, of p'] Cons.prems(3) d show ?case by auto
qed

text \<open>C36: A stream of frames with nonempty bodies, of fewer than \<open>2 ^ 31\<close> bytes in the buffer, is taken apart in order, each frame exactly once, and
  the bytes behind the last one stay in the buffer.\<close>

theorem tcp_stream:
  assumes "buf_inv b" and "contents b = concat (map tcp_frame bodies) @ rest"
    and "list_all (\<lambda>s. s \<noteq> []) bodies" and "int (length (contents b)) < two31"
  shows "\<exists>b'. tcp_decode_all (length bodies) p b = (bodies, b') \<and> contents b' = rest \<and> buf_inv b'"
  using assms by (rule tcp_decode_all_frames)

theorem tcp_stream_witness:
  "\<exists>b'. tcp_decode_all (length [''ping'', ''pong'']) (new_tcp_protocol PROTOCOL_TCP_SERVER)
      (buffer_of (concat (map tcp_frame [''ping'', ''pong'']) @ ''x'')) = ([''ping'', ''pong''], b')
    \<and> contents b' = ''x'' \<and> buf_inv b'"
  by (rule tcp_stream) (simp_all add: buffer_of_ok)

text \<open>Bytes that do not start with the flag are refused with \<open>CO_ERROR\<close> and dropped, and a negative
  length in the head makes \<open>decode\<close> throw \<open>std::length_error\<close>.\<close>

theorem tcp_bad_head:
  assumes "buf_inv b" and "HEAD_LEN < length (contents b)" and "int (length (contents b)) < two31"
  shows "(word_of_le (contents b) \<noteq> CO_PROTOCOL_TCP_FLAG \<longrightarrow>
      (\<exists>b'. tcp_decode p b = Inr (CO_ERROR, p, b') \<and> contents b' = [] \<and> buf_inv b'))
    \<and> (word_of_le (contents b) = CO_PROTOCOL_TCP_FLAG \<and> sint (ntohl (word_of_le (drop 4 (contents b)))) < 0 \<longrightarrow>
      tcp_decode p b = Inl LengthError)"
  using assms buf_inv_reset [OF assms(1)] by (auto simp: tcp_decode_def Let_def)

lemma bad_head_samples:
  "word_of_le ''GET / HTTP/1.1'' \<noteq> CO_PROTOCOL_TCP_FLAG"
  "sint (ntohl (word_of_le [CHR 0xFF, CHR 0xFF, CHR 0xFF, CHR 0xFF, CHR ''x''])) < 0"
proof -
  show "word_of_le ''GET / HTTP/1.1'' \<noteq> CO_PROTOCOL_TCP_FLAG"
    by (simp add: word_of_le_def CO_PROTOCOL_TCP_FLAG_def)
  have "word_of_le [CHR 0xFF, CHR 0xFF, CHR 0xFF, CHR 0xFF, CHR ''x''] = word_of_le [CHR 0xFF, CHR 0xFF, CHR 0xFF, CHR 0xFF]"
    by (simp add: word_of_le_def)
  moreover have "le_bytes (word_of_le [CHR 0xFF, CHR 0xFF, CHR 0xFF, CHR 0xFF]) = [CHR 0xFF, CHR 0xFF, CHR 0xFF, CHR 0xFF]"
    by (rule le_bytes_word_of_le) simp
  ultimately show "sint (ntohl (word_of_le [CHR 0xFF, CHR 0xFF, CHR 0xFF, CHR 0xFF, CHR ''x''])) < 0"
    by (simp add: ntohl_def word_of_le_def)
qed

definition negative_frame :: string where
  "negative_frame = le_bytes CO_PROTOCOL_TCP_FLAG @ [CHR 0xFF, CHR 0xFF, CHR 0xFF, CHR 0xFF, CHR ''x'']"

lemma negative_frame_parts:
  "HEAD_LEN < length negative_frame" "int (length negative_frame) < two31" "length negative_frame \<le> buf_limit"
  "word_of_le negative_frame = CO_PROTOCOL_TCP_FLAG" "sint (ntohl (word_of_le (drop 4 negative_frame))) < 0"
  using bad_head_samples(2) unfolding negative_frame_def by (simp_all add: HEAD_LEN_def)

theorem tcp_bad_head_witness:
  "(\<exists>b'. tcp_decode (new_tcp_protocol PROTOCOL_TCP_SERVER) (buffer_of ''GET / HTTP/1.1'') = Inr (CO_ERROR, new_tcp_protocol PROTOCOL_TCP_SERVER, b')
     \<and> contents b' = [] \<and> buf_inv b')
   \<and> tcp_decode (new_tcp_protocol PROTOCOL_TCP_SERVER) (buffer_of negative_frame) = Inl LengthError"
proof
  have "HEAD_LEN < length ''GET / HTTP/1.1''" "int (length ''GET / HTTP/1.1'') < two31" "length ''GET / HTTP/1.1'' \<le> buf_limit"
    by (simp_all add: HEAD_LEN_def)
  with tcp_bad_head [of "buffer_of ''GET / HTTP/1.1''" "new_tcp_protocol PROTOCOL_TCP_SERVER", unfolded buffer_of_ok(2)]
    bad_head_samples(1) buffer_of_ok(1) [of "''GET / HTTP/1.1''"]
  show "\<exists>b'. tcp_decode (new_tcp_protocol PROTOCOL_TCP_SERVER) (buffer_of ''GET / HTTP/1.1'')
      = Inr (CO_ERROR, new_tcp_protocol PROTOCOL_TCP_SERVER, b') \<and> contents b' = [] \<and> buf_inv b'"
    by blast
  from tcp_bad_head [of "buffer_of negative_frame" "new_tcp_protocol PROTOCOL_TCP_SERVER", unfolded buffer_of_ok(2)]
    negative_frame_parts buffer_of_ok(1) [of negative_frame]
  show "tcp_decode (new_tcp_protocol PROTOCOL_TCP_SERVER) (buffer_of negative_frame) = Inl LengthError"
    by blast
qed

end
