(* ===== verification/Protocol_Factory.thy ===== *)
theory Protocol_Factory
  imports Http_Properties Tcp_Protocol
begin

text \<open>
  \<^verbatim>\<open>protocol/co_protocol.h\<close>, \<^verbatim>\<open>protocol/co_protocol_factory.h\<close>: the protocol objects behind
  the interface \<open>CoProtocol\<close>, as a datatype with one constructor per subclass and the virtual
  calls as case distinctions, and the factory that makes them. What the request and upstream
  handlers rely on is the locale \<open>message_protocol\<close>; the dispatching functions interpret it.
\<close>

datatype protocol = TcpProtocol tcp_protocol | HttpServer http_protocol | HttpClient http_protocol

definition create_protocol :: "int \<Rightarrow> protocol option" where
  "create_protocol protocolType =
     (if protocolType = PROTOCOL_TCP_SERVER then Some (TcpProtocol (new_tcp_protocol PROTOCOL_TCP_SERVER))
      else if protocolType = PROTOCOL_TCP_CLIENT then Some (TcpProtocol (new_tcp_protocol PROTOCOL_TCP_CLIENT))
      else if protocolType = PROTOCOL_HTTP_SERVER then Some (HttpServer new_http_protocol)
      else if protocolType = PROTOCOL_HTTP_CLIENT then Some (HttpClient new_http_protocol)
      else None)"

section \<open>Virtual calls\<close>

definition wrap_protocol :: "('p \<Rightarrow> protocol) \<Rightarrow> (int \<times> 'p \<times> co_buffer) res \<Rightarrow> (int \<times> protocol \<times> co_buffer) res" where
  "wrap_protocol c r = bindr r (\<lambda>(ret, p, b). Inr (ret, c p, b))"

fun protocol_decode :: "protocol \<Rightarrow> co_buffer \<Rightarrow> (int \<times> protocol \<times> co_buffer) res" where
  "protocol_decode (TcpProtocol p) b = wrap_protocol TcpProtocol (tcp_decode p b)"
| "protocol_decode (HttpServer p) b = wrap_protocol HttpServer (server_decode p b)"
| "protocol_decode (HttpClient p) b = wrap_protocol HttpClient (client_decode p b)"

text \<open>\<open>itr\<close>, \<open>h\<close>, \<open>ipport\<close>: header order, heap, and the address of the connection's socket.\<close>

fun protocol_encode ::
  "(headers \<Rightarrow> headers) \<Rightarrow> heap \<Rightarrow> string \<Rightarrow> protocol \<Rightarrow> co_buffer \<Rightarrow> (int \<times> protocol \<times> co_buffer) res" where
  "protocol_encode itr h ipport (TcpProtocol p) b = wrap_protocol TcpProtocol (tcp_encode h p b)"
| "protocol_encode itr h ipport (HttpServer p) b = wrap_protocol HttpServer (server_encode itr h p b)"
| "protocol_encode itr h ipport (HttpClient p) b = wrap_protocol HttpClient (client_encode itr h ipport p b)"

fun protocol_reset_reqmsg :: "protocol \<Rightarrow> protocol" where
  "protocol_reset_reqmsg (TcpProtocol p) = TcpProtocol (tcp_reset_reqmsg p)"
| "protocol_reset_reqmsg (HttpServer p) = HttpServer (reset_reqmsg p)"
| "protocol_reset_reqmsg (HttpClient p) = HttpClient (reset_reqmsg p)"

fun protocol_reset_respmsg :: "protocol \<Rightarrow> protocol" where
  "protocol_reset_respmsg (TcpProtocol p) = TcpProtocol (tcp_reset_respmsg p)"
| "protocol_reset_respmsg (HttpServer p) = HttpServer (reset_respmsg p)"
| "protocol_reset_respmsg (HttpClient p) = HttpClient (reset_respmsg p)"

fun get_clientip :: "protocol \<Rightarrow> string" where
  "get_clientip (TcpProtocol p) = t_clientIP p"
| "get_clientip (HttpServer p) = m_clientIP p"
| "get_clientip (HttpClient p) = m_clientIP p"

fun protocol_set_clientip :: "string \<Rightarrow> protocol \<Rightarrow> protocol" where
  "protocol_set_clientip ip (TcpProtocol p) = TcpProtocol (p\<lparr>t_clientIP := ip\<rparr>)"
| "protocol_set_clientip ip (HttpServer p) = HttpServer (set_clientip ip p)"
| "protocol_set_clientip ip (HttpClient p) = HttpClient (set_clientip ip p)"

text \<open>\<open>get_reqmsg()->get_msgbody()\<close>, \<open>get_respmsg()->get_msgstatus()\<close> and the like.\<close>

fun reqmsg_body :: "protocol \<Rightarrow> string" where
  "reqmsg_body (TcpProtocol p) = t_body (t_reqMsg p)"
| "reqmsg_body (HttpServer p) = m_content (m_reqMsg p)"
| "reqmsg_body (HttpClient p) = m_content (m_reqMsg p)"

fun respmsg_body :: "protocol \<Rightarrow> string" where
  "respmsg_body (TcpProtocol p) = t_body (t_respMsg p)"
| "respmsg_body (HttpServer p) = m_content (m_respMsg p)"
| "respmsg_body (HttpClient p) = m_content (m_respMsg p)"

fun set_resp_status :: "int \<Rightarrow> protocol \<Rightarrow> protocol" where
  "set_resp_status s (TcpProtocol p) = TcpProtocol (p\<lparr>t_respMsg := tcp_set_msgstatus s (t_respMsg p)\<rparr>)"
| "set_resp_status s (HttpServer p) = HttpServer (p\<lparr>m_respMsg := set_msgstatus s (m_respMsg p)\<rparr>)"
| "set_resp_status s (HttpClient p) = HttpClient (p\<lparr>m_respMsg := set_msgstatus s (m_respMsg p)\<rparr>)"

fun get_resp_status :: "protocol \<Rightarrow> int" where
  "get_resp_status (TcpProtocol p) = t_status (t_respMsg p)"
| "get_resp_status (HttpServer p) = m_status (m_respMsg p)"
| "get_resp_status (HttpClient p) = m_status (m_respMsg p)"

section \<open>The contract of decode\<close>

text \<open>
  What a read loop needs: the buffer stays well-formed, what is left is a suffix of what was
  there, and asking for more bytes or completing never drops bytes that were not consumed.
\<close>

locale message_protocol =
  fixes decode :: "'p \<Rightarrow> co_buffer \<Rightarrow> (int \<times> 'p \<times> co_buffer) res"
  assumes decode_inv: "decode p b = Inr (ret, p', b') \<Longrightarrow> buf_inv b \<Longrightarrow> buf_inv b'"
    and decode_suffix: "decode p b = Inr (ret, p', b') \<Longrightarrow> buf_inv b \<Longrightarrow>
      \<exists>n\<le>length (contents b). contents b' = drop n (contents b)"
begin

lemma decode_no_growth:
  "decode p b = Inr (ret, p', b') \<Longrightarrow> buf_inv b \<Longrightarrow> length (contents b') \<le> length (contents b)"
  using decode_suffix [of p b ret p' b'] by auto

end

section \<open>Every protocol keeps the contract\<close>

lemma action_suffix: "act = Keep \<or> act = Discard \<or> (\<exists>n\<le>length s. act = Consume n) \<Longrightarrow>
  \<exists>n\<le>length s. rest_of act s = drop n s"
  by (auto intro: exI [of _ 0] exI [of _ "length s"])

lemma server_decode_suffix:
  assumes "server_decode p b = Inr (ret, p', b')" and "buf_inv b"
  shows "buf_inv b' \<and> (\<exists>n\<le>length (contents b). contents b' = drop n (contents b))"
proof -
  obtain m act where d: "server_parse (m_reqMsg p) (contents b) = Inr (ret, m, act)"
    "contents b' = rest_of act (contents b)" "buf_inv b'"
    using server_decode_parts [OF assms] by blast
  have "act = Keep \<or> act = Discard \<or> (\<exists>n\<le>length (contents b). act = Consume n)"
    using srv.dec_outcome [OF d(1) [unfolded server_parse_def]] by blast
  then show ?thesis using action_suffix d by simp
qed

lemma client_decode_suffix:
  assumes "client_decode p b = Inr (ret, p', b')" and "buf_inv b"
  shows "buf_inv b' \<and> (\<exists>n\<le>length (contents b). contents b' = drop n (contents b))"
proof -
  obtain m act where d: "client_parse (m_respMsg p) (contents b) = Inr (ret, m, act)"
    "contents b' = rest_of act (contents b)" "buf_inv b'"
    using client_decode_parts [OF assms] by blast
  have "act = Keep \<or> act = Discard \<or> (\<exists>n\<le>length (contents b). act = Consume n)"
    using cli.dec_outcome [OF d(1) [unfolded client_parse_def]] by blast
  then show ?thesis using action_suffix d by simp
qed

lemma tcp_decode_suffix:
  assumes "tcp_decode p b = Inr (ret, p', b')" and "buf_inv b"
  shows "buf_inv b' \<and> (\<exists>n\<le>length (contents b). contents b' = drop n (contents b))"
proof -
  consider "b' = b" | "b' = buffer_reset b"
    | n where "b' = snd (buffer_erase n b)" "int n \<le> int (length (contents b))"
    using assms(1) by (force simp: tcp_decode_def Let_def split: if_splits)
  then show ?thesis
  proof cases
    case 1
    then show ?thesis using assms(2) by (intro conjI exI [of _ 0]) auto
  next
    case 2
    then show ?thesis using assms(2) by (intro conjI exI [of _ "length (contents b)"]) auto
  next
    case (3 n)
    then show ?thesis using assms(2) by (auto simp: buf_inv_erase contents_erase)
  qed
qed

interpretation pd: message_protocol protocol_decode
proof
  fix p p' :: protocol and b b' ret
  assume d: "protocol_decode p b = Inr (ret, p', b')" and inv: "buf_inv b"
  have "buf_inv b' \<and> (\<exists>n\<le>length (contents b). contents b' = drop n (contents b))"
    using d inv by (cases p)
      (auto simp: wrap_protocol_def bindr_eq_Inr_conv dest: tcp_decode_suffix server_decode_suffix client_decode_suffix)
  then show "buf_inv b'" "\<exists>n\<le>length (contents b). contents b' = drop n (contents b)" by blast+
qed

end
