(* ===== verification/Backend.thy ===== *)
theory Backend
  imports Config "HOL-Library.Signed_Division"
begin

text \<open>
  \<^verbatim>\<open>upstream/co_upstream_backend.h\<close>, \<^verbatim>\<open>upstream/co_upstream_backend.cpp\<close>: the backends of
  an upstream, their failure detection, and the choice of the next backend, round robin or smooth
  weighted round robin. A \<open>CoBackendWRR*\<close> is an index into the list of backends; a call that
  reads the clock takes its value, a loop that reads it once per round takes a function. \<open>int32_t\<close>
  sums fault on overflow, time differences are cut to \<open>int32_t\<close> as the code does.
\<close>

definition UPSTREAM_ERR_MAX_NUM :: int where "UPSTREAM_ERR_MAX_NUM = 10"
definition UPSTREAM_ERR_MAX_TIME :: int where "UPSTREAM_ERR_MAX_TIME = 5000"

record CoBackend =
  b_confUpstreamServer :: CoConfUpstreamServer
  b_confFailTime :: int
  b_confFailNum :: int
  b_fail :: bool
  b_failCheck :: bool
  b_errNum :: int
  b_errFirstTimestamp :: nat
  b_downTimestamp :: nat

record CoBackendWRR = CoBackend +
  b_weight :: int
  b_currentWeight :: int
  b_effectiveWeight :: int

record CoBackendStrategyWRR =
  s_totalWeight :: int
  s_weighted :: bool
  s_curBackendsIndex :: nat
  s_backends :: "CoBackendWRR list"

definition new_strategy :: CoBackendStrategyWRR where
  "new_strategy = \<lparr>s_totalWeight = 0, s_weighted = False, s_curBackendsIndex = 0, s_backends = []\<rparr>"

section \<open>Failure detection\<close>

text \<open>\<open>(int32_t)(timestamp - past)\<close> on \<open>uint64_t\<close>.\<close>

definition elapsed :: "nat \<Rightarrow> nat \<Rightarrow> int" where
  "elapsed timestamp past = wrap32 (int (u64_sub timestamp past))"

definition avaliable :: "nat \<Rightarrow> 'a CoBackend_scheme \<Rightarrow> bool \<times> 'a CoBackend_scheme" where
  "avaliable timestamp b =
     (if \<not> b_failCheck b \<or> \<not> b_fail b then (True, b)
      else let b = (if elapsed timestamp (b_downTimestamp b) \<ge> b_confFailTime b
                    then b\<lparr>b_fail := False, b_errNum := 0\<rparr> else b)
           in (\<not> b_fail b, b))"

definition comm_failed :: "nat \<Rightarrow> 'a CoBackend_scheme \<Rightarrow> 'a CoBackend_scheme res" where
  "comm_failed timestamp b =
     (if \<not> b_failCheck b then Inr b
      else let b = (if elapsed timestamp (b_errFirstTimestamp b) > b_confFailTime b
                    then b\<lparr>b_errFirstTimestamp := timestamp, b_errNum := 0\<rparr> else b)
           in bindr (i32 (b_errNum b + 1))
                (\<lambda>n. let b = b\<lparr>b_errNum := n\<rparr>
                     in Inr (if b_errNum b \<ge> b_confFailNum b
                             then b\<lparr>b_fail := True, b_downTimestamp := timestamp\<rparr> else b)))"

text \<open>\<open>CoBackendWRR::comm_failed\<close>; \<open>sdiv\<close> is the truncating division of C.\<close>

definition wrr_comm_failed :: "nat \<Rightarrow> CoBackendWRR \<Rightarrow> CoBackendWRR res" where
  "wrr_comm_failed timestamp b =
     (if \<not> b_failCheck b then Inr b
      else bindr (if b_confFailNum b \<noteq> 0
                  then bindr (i32 (b_effectiveWeight b - b_weight b sdiv b_confFailNum b))
                         (\<lambda>e. Inr (b\<lparr>b_effectiveWeight := (if e < 0 then 0 else e)\<rparr>))
                  else Inr b)
             (comm_failed timestamp))"

section \<open>Setting up\<close>

text \<open>
  \<open>m_weight\<close> of the new backend keeps its initial value 0; the weight of the configuration goes
  to \<open>m_effectiveWeight\<close>.
\<close>

definition add_backend ::
  "CoConfUpstream \<Rightarrow> CoConfUpstreamServer \<Rightarrow> CoBackendStrategyWRR \<Rightarrow> int \<times> CoBackendStrategyWRR" where
  "add_backend confUpstream server st =
     (let server = (if us_weight server \<le> 0 then server\<lparr>us_weight := 1\<rparr> else server);
          backend = \<lparr>b_confUpstreamServer = server,
             b_confFailTime = (if up_failTimeout confUpstream < 0 then UPSTREAM_ERR_MAX_TIME
                               else up_failTimeout confUpstream),
             b_confFailNum = (if up_failMaxnum confUpstream < 0 then UPSTREAM_ERR_MAX_NUM
                              else up_failMaxnum confUpstream),
             b_fail = False,
             b_failCheck = (\<not> (up_failTimeout confUpstream = 0 \<or> up_failMaxnum confUpstream = 0)),
             b_errNum = 0, b_errFirstTimestamp = 0, b_downTimestamp = 0,
             b_weight = 0, b_currentWeight = 0, b_effectiveWeight = us_weight server\<rparr>
      in (CO_OK, st\<lparr>s_backends := s_backends st @ [backend]\<rparr>))"

fun sum_weights :: "int \<Rightarrow> CoBackendWRR list \<Rightarrow> int res" where
  "sum_weights acc [] = Inr acc"
| "sum_weights acc (b # bs) = bindr (i32 (acc + b_weight b)) (\<lambda>n. sum_weights n bs)"

definition init_strategy :: "CoBackendStrategyWRR \<Rightarrow> (int \<times> CoBackendStrategyWRR) res" where
  "init_strategy st =
     bindr (sum_weights 0 (s_backends st))
       (\<lambda>total. let size = wrap32 (int (length (s_backends st)))
                in Inr (CO_OK, st\<lparr>s_totalWeight := total,
                                 s_weighted := (if size = 1 then False else total \<noteq> size)\<rparr>))"

section \<open>Choosing\<close>

text \<open>The rounds \<open>i\<close> to \<open>size - 1\<close> of \<open>choose_one\<close>, with \<open>left\<close> rounds to go.\<close>

fun choose_one_loop :: "(nat \<Rightarrow> nat) \<Rightarrow> nat \<Rightarrow> CoBackendStrategyWRR \<Rightarrow> nat option \<times> CoBackendStrategyWRR" where
  "choose_one_loop clk 0 st = (None, st)"
| "choose_one_loop clk (Suc left) st =
     (let cur = u64_add (s_curBackendsIndex st) 1 mod length (s_backends st);
          (ok, b) = avaliable (clk left) (s_backends st ! cur);
          st = st\<lparr>s_curBackendsIndex := cur, s_backends := (s_backends st)[cur := b]\<rparr>
      in if ok then (Some cur, st) else choose_one_loop clk left st)"

definition choose_one :: "(nat \<Rightarrow> nat) \<Rightarrow> CoBackendStrategyWRR \<Rightarrow> nat option \<times> CoBackendStrategyWRR" where
  "choose_one clk st = choose_one_loop clk (length (s_backends st)) st"

function weight_loop ::
  "(nat \<Rightarrow> nat) \<Rightarrow> nat \<Rightarrow> CoBackendWRR list \<Rightarrow> nat option \<Rightarrow> int \<Rightarrow> (CoBackendWRR list \<times> nat option \<times> int) res" where
  "weight_loop clk i bs best tot =
     (if i < length bs
      then let (ok, b) = avaliable (clk i) (bs ! i)
           in if \<not> ok then weight_loop clk (Suc i) (bs[i := b]) best tot
              else bindr (i32 (b_currentWeight b + b_effectiveWeight b))
                (\<lambda>cur. bindr (i32 (tot + b_effectiveWeight b))
                  (\<lambda>tot. bindr (if b_effectiveWeight b < b_weight b then i32 (b_effectiveWeight b + 1)
                               else Inr (b_effectiveWeight b))
                    (\<lambda>eff.
                       let bs = bs[i := b\<lparr>b_currentWeight := cur, b_effectiveWeight := eff\<rparr>];
                           best = (case best of
                                     None \<Rightarrow> Some i
                                   | Some j \<Rightarrow> if cur > b_currentWeight (bs ! j) then Some i else Some j)
                       in weight_loop clk (Suc i) bs best tot)))
      else Inr (bs, best, tot))"
  by pat_completeness auto
termination
  by (relation "measure (\<lambda>(clk, i, bs, best, tot). length bs - i)") auto

declare weight_loop.simps [simp del]

definition choose_one_weight ::
  "(nat \<Rightarrow> nat) \<Rightarrow> CoBackendStrategyWRR \<Rightarrow> (nat option \<times> CoBackendStrategyWRR) res" where
  "choose_one_weight clk st =
     bindr (weight_loop clk 0 (s_backends st) None 0)
       (\<lambda>(bs, best, tot).
          case best of
            None \<Rightarrow> Inr (None, st\<lparr>s_backends := bs\<rparr>)
          | Some k \<Rightarrow>
              bindr (i32 (b_currentWeight (bs ! k) - tot))
                (\<lambda>c. Inr (Some k, st\<lparr>s_backends := bs[k := (bs ! k)\<lparr>b_currentWeight := c\<rparr>]\<rparr>)))"

definition get_backend ::
  "(nat \<Rightarrow> nat) \<Rightarrow> CoBackendStrategyWRR \<Rightarrow> (nat option \<times> CoBackendStrategyWRR) res" where
  "get_backend clk st =
     (if s_backends st = [] then Inr (None, st)
      else if s_weighted st then choose_one_weight clk st
      else Inr (choose_one clk st))"

section \<open>Healthy backends\<close>

text \<open>A backend that is not down (or whose failures are not looked at) and has weight.\<close>

definition healthy :: "CoBackendWRR \<Rightarrow> bool" where
  "healthy b \<longleftrightarrow> (\<not> b_failCheck b \<or> \<not> b_fail b) \<and> 0 < b_effectiveWeight b
     \<and> b_weight b \<le> b_effectiveWeight b"

lemma avaliable_healthy [simp]: "healthy b \<Longrightarrow> avaliable timestamp b = (True, b)"
  by (simp add: avaliable_def healthy_def)

lemma healthy_current [simp]: "healthy (b\<lparr>b_currentWeight := c\<rparr>) = healthy b"
  by (simp add: healthy_def)

definition bump :: "CoBackendWRR \<Rightarrow> CoBackendWRR" where
  "bump b = b\<lparr>b_currentWeight := b_currentWeight b + b_effectiveWeight b\<rparr>"

lemma bump_simps [simp]:
  "b_currentWeight (bump b) = b_currentWeight b + b_effectiveWeight b"
  "b_effectiveWeight (bump b) = b_effectiveWeight b"
  "(bump b)\<lparr>b_currentWeight := c\<rparr> = b\<lparr>b_currentWeight := c\<rparr>"
  by (simp_all add: bump_def)

definition total_weight :: "CoBackendWRR list \<Rightarrow> int" where
  "total_weight bs = sum_list (map b_effectiveWeight bs)"

lemma total_weight_simps [simp]:
  "total_weight [] = 0" "total_weight (b # bs) = b_effectiveWeight b + total_weight bs"
  "total_weight (bs @ cs) = total_weight bs + total_weight cs"
  by (simp_all add: total_weight_def)

lemma total_weight_nonneg: "list_all healthy bs \<Longrightarrow> 0 \<le> total_weight bs"
  by (induction bs) (auto simp: healthy_def)

text \<open>The loop bumps every backend and remembers one with the largest current weight.\<close>

lemma weight_loop_healthy:
  assumes "list_all healthy todo" and "list_all (\<lambda>b. in_i32 (b_currentWeight b + b_effectiveWeight b)) todo"
    and "0 \<le> tot" and "tot + total_weight todo < two31"
    and "case best of None \<Rightarrow> bs = [] | Some j \<Rightarrow> j < length bs
          \<and> (\<forall>b\<in>set bs. b_currentWeight b \<le> b_currentWeight (bs ! j))"
    and "bs @ todo \<noteq> []"
  shows "\<exists>k. weight_loop clk (length bs) (bs @ todo) best tot
      = Inr (bs @ map bump todo, Some k, tot + total_weight todo)
    \<and> k < length (bs @ todo)
    \<and> (\<forall>b\<in>set (bs @ map bump todo). b_currentWeight b \<le> b_currentWeight ((bs @ map bump todo) ! k))"
  using assms
proof (induction todo arbitrary: bs best tot)
  case Nil
  then obtain j where "best = Some j" by (cases best) auto
  then show ?case using Nil by (simp add: weight_loop.simps)
next
  case (Cons b todo)
  let ?cur = "b_currentWeight b + b_effectiveWeight b" and ?tot = "tot + b_effectiveWeight b"
  have b: "healthy b" "in_i32 ?cur" "0 < b_effectiveWeight b" using Cons.prems by (auto simp: healthy_def)
  have nonneg: "0 \<le> total_weight todo" using Cons.prems by (intro total_weight_nonneg) simp
  then have tot: "in_i32 ?tot" "0 \<le> ?tot" using Cons.prems b(3) by (auto simp: in_i32_def)
  have eff: "\<not> b_effectiveWeight b < b_weight b" using b(1) by (simp add: healthy_def)
  obtain best' where best': "best' = (case best of None \<Rightarrow> Some (length bs)
      | Some j \<Rightarrow> if ?cur > b_currentWeight ((bs @ [bump b]) ! j) then Some (length bs) else Some j)" by blast
  have upd: "b\<lparr>b_currentWeight := ?cur, b_effectiveWeight := b_effectiveWeight b\<rparr> = bump b"
    by (simp add: bump_def)
  have nth: "(bs @ bump b # todo) ! j = (bs @ [bump b]) ! j" if "j < length bs" for j
    using that by (simp add: nth_append)
  have best_eq: "(case best of None \<Rightarrow> Some (length bs)
      | Some j \<Rightarrow> if ?cur > b_currentWeight ((bs @ bump b # todo) ! j) then Some (length bs) else Some j) = best'"
    using Cons.prems(5) nth by (auto simp: best' split: option.splits)
  have step: "weight_loop clk (length bs) (bs @ b # todo) best tot
      = weight_loop clk (length (bs @ [bump b])) ((bs @ [bump b]) @ todo) best' ?tot"
    using b tot eff best_eq upd
    by (subst weight_loop.simps, cases best) (simp_all add: i32_ok Let_def split del: if_split)
  have inv: "case best' of None \<Rightarrow> bs @ [bump b] = [] | Some j \<Rightarrow> j < length (bs @ [bump b])
      \<and> (\<forall>c\<in>set (bs @ [bump b]). b_currentWeight c \<le> b_currentWeight ((bs @ [bump b]) ! j))"
  proof (cases best)
    case None
    then show ?thesis using Cons.prems(5) by (simp add: best')
  next
    case (Some j)
    then have j: "j < length bs" "\<forall>c\<in>set bs. b_currentWeight c \<le> b_currentWeight (bs ! j)"
      using Cons.prems(5) by auto
    then have "(bs @ [bump b]) ! j = bs ! j" by (simp add: nth_append)
    then show ?thesis using j Some by (force simp: best')
  qed
  have "?tot + total_weight todo < two31" using Cons.prems(4) by simp
  from Cons.IH [OF _ _ tot(2) this inv] Cons.prems(1,2) show ?case
    unfolding step by (simp add: add.assoc)
qed

section \<open>Smooth weighted round robin\<close>

text \<open>
  The state after the picks \<open>ps\<close> from a start with all current weights 0: backend \<open>i\<close> has been
  given its weight once per call and has paid the total weight once per pick.
\<close>

definition wrr_current :: "CoBackendWRR list \<Rightarrow> nat list \<Rightarrow> nat \<Rightarrow> int" where
  "wrr_current bs ps i = int (length ps) * b_effectiveWeight (bs ! i) - total_weight bs * int (count_list ps i)"

definition wrr_state :: "CoBackendWRR list \<Rightarrow> nat list \<Rightarrow> CoBackendWRR list" where
  "wrr_state bs ps = map (\<lambda>i. (bs ! i)\<lparr>b_currentWeight := wrr_current bs ps i\<rparr>) [0..<length bs]"

definition wrr_inv :: "CoBackendWRR list \<Rightarrow> nat list \<Rightarrow> bool" where
  "wrr_inv bs ps \<longleftrightarrow> set ps \<subseteq> {..<length bs}
     \<and> (\<forall>i<length bs. - total_weight bs < wrr_current bs ps i)"

lemma length_wrr_state [simp]: "length (wrr_state bs ps) = length bs"
  by (simp add: wrr_state_def)

lemma wrr_state_nth:
  "i < length bs \<Longrightarrow> wrr_state bs ps ! i = (bs ! i)\<lparr>b_currentWeight := wrr_current bs ps i\<rparr>"
  by (simp add: wrr_state_def)

lemma total_weight_wrr_state [simp]: "total_weight (wrr_state bs ps) = total_weight bs"
proof -
  have "map b_effectiveWeight (wrr_state bs ps) = map (\<lambda>i. b_effectiveWeight (bs ! i)) [0..<length bs]"
    by (simp add: wrr_state_def)
  also have "\<dots> = map b_effectiveWeight bs" by (rule nth_equalityI) simp_all
  finally show ?thesis by (simp add: total_weight_def)
qed

lemma healthy_wrr_state: "list_all healthy bs \<Longrightarrow> list_all healthy (wrr_state bs ps)"
  by (simp add: wrr_state_def list_all_iff)

lemma total_weight_sum: "total_weight bs = (\<Sum>i<length bs. b_effectiveWeight (bs ! i))"
  by (simp add: total_weight_def sum_list_sum_nth lessThan_atLeast0)

lemma count_list_sum: "set ps \<subseteq> {..<n} \<Longrightarrow> (\<Sum>i<n. int (count_list ps i)) = int (length ps)"
  for n :: nat
proof (induction ps)
  case (Cons p ps)
  have "(\<Sum>i<n. int (count_list (p # ps) i)) = (\<Sum>i<n. int (count_list ps i) + (if i = p then 1 else 0))"
    by (intro sum.cong) auto
  moreover have "(\<Sum>i<n. if i = p then 1 else 0) = (1 :: int)" using Cons.prems by (subst sum.delta) auto
  ultimately have "(\<Sum>i<n. int (count_list (p # ps) i)) = int (length ps) + 1"
    using Cons by (simp only: sum.distrib) simp
  then show ?case by simp
qed simp

lemma wrr_current_sum:
  assumes "set ps \<subseteq> {..<length bs}"
  shows "(\<Sum>i<length bs. wrr_current bs ps i) = 0"
proof -
  have "(\<Sum>i<length bs. wrr_current bs ps i)
      = int (length ps) * (\<Sum>i<length bs. b_effectiveWeight (bs ! i))
        - total_weight bs * (\<Sum>i<length bs. int (count_list ps i))"
    by (simp add: wrr_current_def sum_subtractf sum_distrib_left)
  then show ?thesis using count_list_sum [OF assms] by (simp add: total_weight_sum)
qed

lemma wrr_current_upper:
  assumes "wrr_inv bs ps" and "i < length bs"
  shows "wrr_current bs ps i \<le> (int (length bs) - 1) * total_weight bs"
proof -
  let ?n = "length bs" and ?W = "total_weight bs"
  have "0 = wrr_current bs ps i + (\<Sum>j\<in>{..<?n} - {i}. wrr_current bs ps j)"
    using wrr_current_sum [of ps bs] assms by (simp add: wrr_inv_def sum.remove)
  moreover have "(\<Sum>j\<in>{..<?n} - {i}. - ?W) \<le> (\<Sum>j\<in>{..<?n} - {i}. wrr_current bs ps j)"
    using assms(1) by (intro sum_mono) (auto simp: wrr_inv_def)
  moreover have "card ({..<?n} - {i}) = ?n - 1" using assms(2) by simp
  ultimately show ?thesis using assms(2) by (simp add: of_nat_diff algebra_simps)
qed

lemma wrr_state_update:
  assumes "k < length bs"
  shows "(map bump (wrr_state bs ps))[k := (map bump (wrr_state bs ps) ! k)
      \<lparr>b_currentWeight := b_currentWeight (map bump (wrr_state bs ps) ! k) - total_weight bs\<rparr>]
    = wrr_state bs (k # ps)"
  using assms by (intro nth_equalityI)
    (auto simp: nth_list_update wrr_state_nth wrr_current_def bump_def algebra_simps)

lemma choose_one_weight_step:
  assumes h: "list_all healthy bs" and ne: "bs \<noteq> []" and inv: "wrr_inv bs ps"
    and bound: "int (length bs) * total_weight bs < two31"
    and st: "s_backends st = wrr_state bs ps"
  shows "\<exists>k. choose_one_weight clk st = Inr (Some k, st\<lparr>s_backends := wrr_state bs (k # ps)\<rparr>)
    \<and> k < length bs \<and> wrr_inv bs (k # ps)"
proof -
  let ?W = "total_weight bs" and ?s = "wrr_state bs ps" and ?n = "int (length bs)"
  have n1: "1 \<le> ?n" using ne by (cases bs) simp_all
  have pos: "0 < b_effectiveWeight (bs ! i)" if "i < length bs" for i
    using h that by (auto simp: list_all_length healthy_def)
  have W: "0 < ?W" "?W < two31"
  proof -
    show "0 < ?W" unfolding total_weight_sum using ne pos by (intro sum_pos) auto
    then have "1 * ?W \<le> ?n * ?W" using n1 by (intro mult_right_mono) auto
    then show "?W < two31" using bound by simp
  qed
  have wle: "b_effectiveWeight (bs ! i) \<le> ?W" if "i < length bs" for i
    unfolding total_weight_sum using that pos by (intro member_le_sum) (auto simp: less_imp_le)
  have up: "wrr_current bs ps i + b_effectiveWeight (bs ! i) \<le> ?n * ?W" if "i < length bs" for i
    using wrr_current_upper [OF inv that] wle [OF that] by (simp add: left_diff_distrib)
  have low: "- ?W < wrr_current bs ps i" if "i < length bs" for i using inv that by (simp add: wrr_inv_def)
  have "in_i32 (b_currentWeight b + b_effectiveWeight b)" if b: "b \<in> set ?s" for b
  proof -
    obtain i where i: "i < length bs" "b = ?s ! i" using b by (auto simp: in_set_conv_nth)
    then show ?thesis using up [OF i(1)] low [OF i(1)] pos [OF i(1)] W bound
      by (simp add: wrr_state_nth in_i32_def)
  qed
  then have ok: "list_all (\<lambda>b. in_i32 (b_currentWeight b + b_effectiveWeight b)) ?s" by (simp add: list_all_iff)
  have sne: "[] @ ?s \<noteq> []" using ne by (metis length_wrr_state length_0_conv append_Nil)
  obtain k where k: "weight_loop clk (length ([] :: CoBackendWRR list)) ([] @ ?s) None 0
      = Inr ([] @ map bump ?s, Some k, 0 + total_weight ?s)" "k < length ([] @ ?s)"
    "\<forall>b\<in>set ([] @ map bump ?s). b_currentWeight b \<le> b_currentWeight (([] @ map bump ?s) ! k)"
    using weight_loop_healthy [OF healthy_wrr_state [OF h] ok _ _ _ sne, of 0 None clk] W by auto
  have kn: "k < length bs" using k(2) by simp
  let ?c = "\<lambda>i. wrr_current bs ps i + b_effectiveWeight (bs ! i)"
  have max: "?c i \<le> ?c k" if "i < length bs" for i
  proof -
    have "map bump ?s ! i \<in> set (map bump ?s)" using that by (intro nth_mem) simp
    then have "b_currentWeight (map bump ?s ! i) \<le> b_currentWeight (map bump ?s ! k)"
      using k(3) by (simp only: append_Nil)
    then show ?thesis using that kn by (simp add: wrr_state_nth)
  qed
  have ck: "0 < ?c k"
  proof (rule ccontr)
    assume "\<not> 0 < ?c k"
    then have "(\<Sum>i<length bs. ?c i) \<le> 0" using max by (intro sum_nonpos) force
    moreover have "(\<Sum>i<length bs. ?c i) = ?W"
      using wrr_current_sum [of ps bs] inv by (simp add: sum.distrib wrr_inv_def total_weight_sum)
    ultimately show False using W by simp
  qed
  have cur: "b_currentWeight (map bump ?s ! k) = ?c k" using kn by (simp add: wrr_state_nth)
  have fits: "in_i32 (?c k - ?W)" using up [OF kn] ck W bound by (simp add: in_i32_def)
  have "choose_one_weight clk st = Inr (Some k, st\<lparr>s_backends := (map bump ?s)[k := (map bump ?s ! k)
      \<lparr>b_currentWeight := b_currentWeight (map bump ?s ! k) - ?W\<rparr>]\<rparr>)"
    unfolding choose_one_weight_def st using k(1) fits unfolding cur [symmetric]
    by (simp add: i32_ok)
  then have "choose_one_weight clk st = Inr (Some k, st\<lparr>s_backends := wrr_state bs (k # ps)\<rparr>)"
    unfolding wrr_state_update [OF kn] .
  moreover have "wrr_inv bs (k # ps)"
  proof -
    have "wrr_current bs (k # ps) i = ?c i - (if i = k then ?W else 0)" for i
      by (simp add: wrr_current_def algebra_simps)
    then show ?thesis using inv kn ck low pos by (auto simp: wrr_inv_def) (smt (verit) low pos)
  qed
  ultimately show ?thesis using kn by blast
qed

text \<open>A run of calls, with the picks in order.\<close>

fun backend_run :: "(nat \<Rightarrow> nat \<Rightarrow> nat) \<Rightarrow> nat \<Rightarrow> CoBackendStrategyWRR \<Rightarrow> (nat list \<times> CoBackendStrategyWRR) res" where
  "backend_run clk 0 st = Inr ([], st)"
| "backend_run clk (Suc n) st =
     bindr (get_backend (clk n) st)
       (\<lambda>(r, st1). bindr (backend_run clk n st1)
          (\<lambda>(rs, st2). Inr ((case r of None \<Rightarrow> rs | Some k \<Rightarrow> k # rs), st2)))"

lemma wrr_run:
  assumes h: "list_all healthy bs" and ne: "bs \<noteq> []"
    and bound: "int (length bs) * total_weight bs < two31"
  shows "wrr_inv bs ps \<Longrightarrow> s_backends st = wrr_state bs ps \<Longrightarrow> s_weighted st \<Longrightarrow>
    \<exists>rs. backend_run clk n st = Inr (rs, st\<lparr>s_backends := wrr_state bs (rev rs @ ps)\<rparr>)
      \<and> length rs = n \<and> wrr_inv bs (rev rs @ ps)"
proof (induction n arbitrary: st ps)
  case 0
  have "st = st\<lparr>s_backends := wrr_state bs ps\<rparr>" using 0(2) by (simp flip: 0(2))
  then show ?case using 0 by simp
next
  case (Suc n)
  obtain k where k: "choose_one_weight (clk n) st = Inr (Some k, st\<lparr>s_backends := wrr_state bs (k # ps)\<rparr>)"
    "k < length bs" "wrr_inv bs (k # ps)"
    using choose_one_weight_step [OF h ne Suc.prems(1) bound Suc.prems(2), of "clk n"] by blast
  have "s_backends st \<noteq> []" using Suc.prems(2) ne by (metis length_wrr_state length_0_conv)
  then have g: "get_backend (clk n) st = Inr (Some k, st\<lparr>s_backends := wrr_state bs (k # ps)\<rparr>)"
    using Suc.prems(3) k(1) by (simp add: get_backend_def)
  let ?st = "st\<lparr>s_backends := wrr_state bs (k # ps)\<rparr>"
  obtain rs where rs: "backend_run clk n ?st = Inr (rs, ?st\<lparr>s_backends := wrr_state bs (rev rs @ k # ps)\<rparr>)"
    "length rs = n" "wrr_inv bs (rev rs @ k # ps)"
    using Suc.IH [OF k(3), of ?st] Suc.prems(3) by auto
  then show ?case using g by (intro exI [of _ "k # rs"]) simp
qed

lemma wrr_fair_core:
  assumes "list_all healthy (s_backends st)" and "s_backends st \<noteq> []" and "s_weighted st"
    and "list_all (\<lambda>b. b_currentWeight b = 0) (s_backends st)"
    and "int (length (s_backends st)) * total_weight (s_backends st) < two31"
  shows "\<exists>rs. backend_run clk (nat (total_weight (s_backends st))) st = Inr (rs, st)
    \<and> (\<forall>i<length (s_backends st). int (count_list rs i) = b_effectiveWeight (s_backends st ! i))"
proof -
  let ?bs = "s_backends st" and ?W = "total_weight (s_backends st)"
  have zero: "b_currentWeight (?bs ! i) = 0" if "i < length ?bs" for i
    using assms(4) that by (simp add: list_all_length)
  have pos: "0 < b_effectiveWeight (?bs ! i)" if "i < length ?bs" for i
    using assms(1) that by (auto simp: list_all_length healthy_def)
  have W: "0 < ?W" unfolding total_weight_sum using assms(2) pos by (intro sum_pos) auto
  have st0: "?bs = wrr_state ?bs []"
    by (intro nth_equalityI) (auto simp: wrr_state_nth wrr_current_def zero intro!: CoBackendWRR.equality)
  have inv0: "wrr_inv ?bs []" using W by (simp add: wrr_inv_def wrr_current_def)
  obtain rs where rs: "backend_run clk (nat ?W) st = Inr (rs, st\<lparr>s_backends := wrr_state ?bs (rev rs)\<rparr>)"
    "length rs = nat ?W" "wrr_inv ?bs (rev rs)"
    using wrr_run [OF assms(1,2,5) inv0 st0 assms(3), of clk "nat ?W"] by auto
  have count: "count_list (rev rs) i = count_list rs i" for i by simp
  have cur: "wrr_current ?bs (rev rs) i = ?W * (b_effectiveWeight (?bs ! i) - int (count_list rs i))" for i
    using rs(2) W by (simp add: wrr_current_def right_diff_distrib)
  have le: "int (count_list rs i) \<le> b_effectiveWeight (?bs ! i)" if i: "i < length ?bs" for i
  proof -
    have "?W * (- 1) < ?W * (b_effectiveWeight (?bs ! i) - int (count_list rs i))"
      using rs(3) i cur by (simp add: wrr_inv_def)
    then have "- 1 < b_effectiveWeight (?bs ! i) - int (count_list rs i)"
      using W by (simp only: mult_less_cancel_left_pos)
    then show ?thesis by simp
  qed
  have sub: "set rs \<subseteq> {..<length ?bs}" using rs(3) by (simp add: wrr_inv_def)
  have "(\<Sum>i<length ?bs. b_effectiveWeight (?bs ! i) - int (count_list rs i)) = 0"
    using count_list_sum [OF sub] rs(2) W by (simp add: sum_subtractf total_weight_sum)
  then have eq: "\<forall>i\<in>{..<length ?bs}. b_effectiveWeight (?bs ! i) - int (count_list rs i) = 0"
    using le by (subst (asm) sum_nonneg_eq_0_iff) auto
  have "wrr_state ?bs (rev rs) = ?bs"
    by (intro nth_equalityI)
      (use eq zero in \<open>auto simp: wrr_state_nth cur intro!: CoBackendWRR.equality\<close>)
  then have "st\<lparr>s_backends := wrr_state ?bs (rev rs)\<rparr> = st" by simp
  then show ?thesis using rs(1) eq by auto
qed


definition wrr_sample :: CoBackendStrategyWRR where
  "wrr_sample = snd (add_backend new_conf_upstream (new_upstream_server ''b'' 2 3)
     (snd (add_backend new_conf_upstream (new_upstream_server ''a'' 1 2) new_strategy)))\<lparr>s_weighted := True\<rparr>"


section \<open>A configured strategy\<close>

text \<open>\<open>add_backend\<close> for every server of the configuration, then \<open>init\<close>.\<close>

definition configured_backend :: "CoConfUpstream \<Rightarrow> CoConfUpstreamServer \<Rightarrow> CoBackendWRR" where
  "configured_backend conf server = hd (s_backends (snd (add_backend conf server new_strategy)))"

definition load_backends :: "CoConfUpstream \<Rightarrow> CoConfUpstreamServer list \<Rightarrow> (int \<times> CoBackendStrategyWRR) res" where
  "load_backends conf servers = init_strategy (fold (\<lambda>s st. snd (add_backend conf s st)) servers new_strategy)"

lemma add_backend_appends:
  "add_backend conf s st = (CO_OK, st\<lparr>s_backends := s_backends st @ [configured_backend conf s]\<rparr>)"
  by (simp add: add_backend_def configured_backend_def new_strategy_def Let_def)

lemma fold_add_backend:
  "fold (\<lambda>s st. snd (add_backend conf s st)) servers st
     = st\<lparr>s_backends := s_backends st @ map (configured_backend conf) servers\<rparr>"
  by (induction servers arbitrary: st) (simp_all add: add_backend_appends)

lemma configured_backend_fields:
  "b_weight (configured_backend conf s) = 0" "b_currentWeight (configured_backend conf s) = 0"
  "b_effectiveWeight (configured_backend conf s) = max 1 (us_weight s)"
  "b_fail (configured_backend conf s) = False" "b_errNum (configured_backend conf s) = 0"
  by (auto simp: configured_backend_def add_backend_def new_strategy_def Let_def max_def)

lemma healthy_configured: "healthy (configured_backend conf s)"
  by (simp add: healthy_def configured_backend_fields) (simp add: max_def)

lemma sum_weights_zero: "list_all (\<lambda>b. b_weight b = 0) bs \<Longrightarrow> sum_weights 0 bs = Inr 0"
  by (induction bs) (simp_all add: i32_def in_i32_def)

lemma load_backends_ok:
  assumes "int (length servers) < two31"
  shows "load_backends conf servers = Inr (CO_OK, new_strategy\<lparr>s_backends := map (configured_backend conf) servers,
      s_totalWeight := 0, s_weighted := 2 \<le> length servers\<rparr>)"
proof -
  have z: "sum_weights 0 (map (configured_backend conf) servers) = Inr 0"
    by (rule sum_weights_zero) (simp add: list_all_iff configured_backend_fields)
  have i: "in_i32 (int (length servers))" using assms by (simp add: in_i32_def)
  have w: "(if int (length servers) = 1 then False else 0 \<noteq> int (length servers)) = (2 \<le> length servers)"
    by (cases servers rule: remdups_adj.cases) auto
  show ?thesis
    unfolding load_backends_def fold_add_backend init_strategy_def using z i w
    by (simp add: new_strategy_def Let_def)
qed



section \<open>Failures do not change the weights\<close>

text \<open>\<open>add_backend\<close> never sets \<open>m_weight\<close>, so the demotion of a failing backend subtracts
  \<open>0 / m_confFailNum\<close>: for every backend made from a configuration, \<open>comm_failed\<close> leaves the effective
  weight as it is, contrary to its comment; only the number of errors and the down mark change.\<close>

theorem failure_keeps_weight:
  assumes "b_weight b = 0" and "0 \<le> b_effectiveWeight b" and "in_i32 (b_effectiveWeight b)"
  shows "wrr_comm_failed timestamp b = comm_failed timestamp b
    \<and> (\<forall>b'. wrr_comm_failed timestamp b = Inr b' \<longrightarrow> b_effectiveWeight b' = b_effectiveWeight b \<and> b_weight b' = 0)"
proof -
  have same: "wrr_comm_failed timestamp b = comm_failed timestamp b"
    using assms by (simp add: wrr_comm_failed_def comm_failed_def i32_ok signed_divide_int_def)
  moreover have "b_effectiveWeight b' = b_effectiveWeight b \<and> b_weight b' = b_weight b"
    if "comm_failed timestamp b = Inr b'" for b'
    using that by (auto simp: comm_failed_def Let_def bindr_eq_Inr_conv split: if_splits)
  ultimately show ?thesis using assms(1) by auto
qed

theorem failure_keeps_weight_witness:
  "wrr_comm_failed 77 (configured_backend new_conf_upstream (new_upstream_server ''a'' 1 5))
      = comm_failed 77 (configured_backend new_conf_upstream (new_upstream_server ''a'' 1 5))"
  by (rule conjunct1 [OF failure_keeps_weight])
    (simp_all add: configured_backend_fields new_upstream_server_def in_i32_def)

section \<open>Going down and coming back\<close>

lemma elapsed_recent:
  "past \<le> now \<Longrightarrow> now < u64_mod \<Longrightarrow> int now - int past < two31 \<Longrightarrow> elapsed now past = int now - int past"
  by (simp add: elapsed_def in_i32_def of_nat_diff)

lemma elapsed_late:
  assumes "past \<le> now" and "now < u64_mod" and "two31 \<le> int now - int past" and "int now - int past < two32"
  shows "elapsed now past = int now - int past - two32"
proof -
  have "wrap32 (int now - int past) = int now - int past - two32"
  proof -
    have "(int now - int past + two31) mod two32 = int now - int past + two31 - two32"
      using assms(3,4) by (subst mod_pos_geq) simp_all
    then show ?thesis by (simp add: wrap32_def)
  qed
  then show ?thesis using assms(1,2) by (simp add: elapsed_def of_nat_diff)
qed

fun fail_run :: "nat list \<Rightarrow> 'a CoBackend_scheme \<Rightarrow> 'a CoBackend_scheme res" where
  "fail_run [] b = Inr b"
| "fail_run (t # ts) b = bindr (comm_failed t b) (fail_run ts)"

lemma comm_failed_in_window:
  assumes "b_failCheck b" and "elapsed t (b_errFirstTimestamp b) \<le> b_confFailTime b" and "in_i32 (b_errNum b + 1)"
  shows "comm_failed t b = Inr (if b_errNum b + 1 \<ge> b_confFailNum b
    then b\<lparr>b_errNum := b_errNum b + 1, b_fail := True, b_downTimestamp := t\<rparr>
    else b\<lparr>b_errNum := b_errNum b + 1\<rparr>)"
  using assms by (simp add: comm_failed_def i32_ok Let_def)

lemma fail_run_window:
  "b_failCheck b \<Longrightarrow> list_all (\<lambda>t. elapsed t (b_errFirstTimestamp b) \<le> b_confFailTime b) ts \<Longrightarrow>
   0 \<le> b_errNum b \<Longrightarrow> b_errNum b + int (length ts) < b_confFailNum b \<Longrightarrow> b_confFailNum b < two31 \<Longrightarrow>
   fail_run ts b = Inr (b\<lparr>b_errNum := b_errNum b + int (length ts)\<rparr>)"
proof (induction ts arbitrary: b)
  case (Cons t ts)
  have c: "comm_failed t b = Inr (b\<lparr>b_errNum := b_errNum b + 1\<rparr>)"
    using Cons.prems by (subst comm_failed_in_window) (auto simp: in_i32_def)
  show ?case using Cons.IH [of "b\<lparr>b_errNum := b_errNum b + 1\<rparr>"] Cons.prems c by (simp add: add.assoc)
qed simp


definition failing_sample :: CoBackendWRR where
  "failing_sample = (configured_backend (new_conf_upstream\<lparr>up_failMaxnum := 3\<rparr>) (new_upstream_server ''a'' 1 5))"

lemma failing_sample_fields:
  "b_failCheck failing_sample" "\<not> b_fail failing_sample" "b_errFirstTimestamp failing_sample = 0"
  "b_confFailTime failing_sample = 5000" "b_confFailNum failing_sample = 3" "b_errNum failing_sample = 0"
  by (simp_all add: failing_sample_def configured_backend_def add_backend_def new_strategy_def Let_def
      new_conf_upstream_def UPSTREAM_FAIL_TIMEOUT_def)


text \<open>The time since a backend went down is cut to \<open>int32_t\<close>: if nobody asks for it in between, a backend
  that has been down for more than \<open>2 ^ 31\<close> ms (about 25 days) and less than \<open>2 ^ 32\<close> ms counts as
  freshly down and is refused again.\<close>

theorem down_again_after_wrap:
  assumes "b_failCheck b" and "b_fail b" and "0 \<le> b_confFailTime b"
    and "b_downTimestamp b \<le> now" and "now < u64_mod"
    and "two31 \<le> int now - int (b_downTimestamp b)" and "int now - int (b_downTimestamp b) < two32"
  shows "avaliable now b = (False, b)"
  using assms elapsed_late [OF assms(4-7)] by (simp add: avaliable_def)

theorem down_again_after_wrap_witness:
  "avaliable 3000000000 (failing_sample\<lparr>b_fail := True\<rparr>) = (False, failing_sample\<lparr>b_fail := True\<rparr>)"
proof (rule down_again_after_wrap)
  have "b_downTimestamp failing_sample = 0"
    by (simp add: failing_sample_def configured_backend_def add_backend_def new_strategy_def Let_def)
  then show "b_downTimestamp (failing_sample\<lparr>b_fail := True\<rparr>) \<le> 3000000000"
    "two31 \<le> int 3000000000 - int (b_downTimestamp (failing_sample\<lparr>b_fail := True\<rparr>))"
    "int 3000000000 - int (b_downTimestamp (failing_sample\<lparr>b_fail := True\<rparr>)) < two32" by simp_all
qed (simp_all add: failing_sample_fields)

section \<open>Round robin\<close>

text \<open>The order in which \<open>choose_one\<close> looks at the backends: behind the last choice, round the ring.\<close>

definition ring :: "nat \<Rightarrow> nat \<Rightarrow> nat \<Rightarrow> nat" where
  "ring n cur i = (cur + 1 + i) mod n"

lemma ring_inj:
  assumes "ring n cur i = ring n cur j" and "i < n" and "j < n"
  shows "i = j"
proof -
  have *: "x = y" if "ring n cur x = ring n cur y" "x \<le> y" "y < n" for x y
  proof -
    have "n dvd y - x"
      using that mod_eq_dvd_iff_nat [of "cur + 1 + x" "cur + 1 + y" n] by (simp add: ring_def)
    moreover have "y - x < n" using that by simp
    ultimately have "y - x = 0" using nat_dvd_not_less [of "y - x" n] by blast
    then show ?thesis using that by simp
  qed
  show ?thesis using * [of i j] * [of j i] assms by (cases "i \<le> j") auto
qed

lemma ring_less: "0 < n \<Longrightarrow> ring n cur i < n"
  by (simp add: ring_def)

lemma ring_next:
  assumes "0 < n" and "n < u64_mod"
  shows "u64_add (ring n cur i) 1 mod n = ring n cur (Suc i)"
proof -
  have "ring n cur i + 1 < u64_mod" using ring_less [OF assms(1), of cur i] assms(2) by linarith
  then have "u64_add (ring n cur i) 1 mod n = (ring n cur i + 1) mod n" by simp
  also have "\<dots> = ring n cur (Suc i)" by (simp add: ring_def mod_Suc_eq)
  finally show ?thesis .
qed

text \<open>The backend at round \<open>i\<close> answers at the time \<open>clk (n - 1 - i)\<close>.\<close>

definition up_at :: "(nat \<Rightarrow> nat) \<Rightarrow> CoBackendWRR list \<Rightarrow> nat \<Rightarrow> nat \<Rightarrow> bool" where
  "up_at clk bs cur i =
     fst (avaliable (clk (length bs - 1 - i)) (bs ! ring (length bs) cur i))"

lemma choose_one_loop_spec:
  assumes "0 < n" and "n < u64_mod" and "length bs = n"
  shows "m + left = n \<Longrightarrow> length (s_backends st) = n \<Longrightarrow>
    u64_add (s_curBackendsIndex st) 1 mod n = ring n cur m \<Longrightarrow>
    (\<forall>i. m \<le> i \<and> i < n \<longrightarrow> s_backends st ! ring n cur i = bs ! ring n cur i) \<Longrightarrow>
    (case choose_one_loop clk left st of
       (Some k, st') \<Rightarrow> \<exists>j\<ge>m. j < n \<and> k = ring n cur j \<and> s_curBackendsIndex st' = k \<and> up_at clk bs cur j
          \<and> (\<forall>i. m \<le> i \<and> i < j \<longrightarrow> \<not> up_at clk bs cur i)
     | (None, st') \<Rightarrow> \<forall>i. m \<le> i \<and> i < n \<longrightarrow> \<not> up_at clk bs cur i)"
proof (induction left arbitrary: m st)
  case 0
  then show ?case by auto
next
  case (Suc left)
  let ?k = "ring n cur m"
  have m: "m < n" using Suc.prems(1) by simp
  have kn: "?k < n" using ring_less [OF assms(1)] .
  have same: "s_backends st ! ?k = bs ! ?k" using Suc.prems(4) m by simp
  have left: "left = n - 1 - m" using Suc.prems(1) by simp
  obtain ok b where av: "avaliable (clk left) (bs ! ?k) = (ok, b)" by fastforce
  have up: "up_at clk bs cur m = ok" using av by (simp add: up_at_def assms(3) left)
  let ?st = "st\<lparr>s_curBackendsIndex := ?k, s_backends := (s_backends st)[?k := b]\<rparr>"
  have step: "choose_one_loop clk (Suc left) st = (if ok then (Some ?k, ?st) else choose_one_loop clk left ?st)"
    using Suc.prems(2,3) same av by (simp add: Let_def)
  show ?case
  proof (cases ok)
    case True
    then show ?thesis using step up m by (auto intro!: exI [of _ m])
  next
    case False
    have keep: "s_backends ?st ! ring n cur i = bs ! ring n cur i" if "Suc m \<le> i" "i < n" for i
    proof -
      have "ring n cur i \<noteq> ?k" using ring_inj [of n cur i m] that m by auto
      then show ?thesis using Suc.prems(4) that by simp
    qed
    have IH: "case choose_one_loop clk left ?st of
       (Some k, st') \<Rightarrow> \<exists>j\<ge>Suc m. j < n \<and> k = ring n cur j \<and> s_curBackendsIndex st' = k \<and> up_at clk bs cur j
          \<and> (\<forall>i. Suc m \<le> i \<and> i < j \<longrightarrow> \<not> up_at clk bs cur i)
     | (None, st') \<Rightarrow> \<forall>i. Suc m \<le> i \<and> i < n \<longrightarrow> \<not> up_at clk bs cur i"
      using Suc.IH [of "Suc m" ?st] Suc.prems(1,2) keep ring_next [OF assms(1,2)] by simp
    have down: "\<not> up_at clk bs cur m" using up False by simp
    have split: "(m \<le> i \<and> P) = (i = m \<and> P \<or> Suc m \<le> i \<and> P)" for i P by auto
    show ?thesis using IH step False down
      by (auto split: prod.splits option.splits simp: Suc_le_eq) (metis Suc_leI le_neq_implies_less less_imp_le)+
  qed
qed

text \<open>Without weights the next backend is the first one, in order round the ring behind the previous
  choice, that is up when it is asked; nothing is chosen only if every backend was down when asked.\<close>

theorem round_robin_first_available:
  assumes "s_backends st \<noteq> []" and "length (s_backends st) < u64_mod" and "\<not> s_weighted st"
    and "s_curBackendsIndex st < length (s_backends st)"
  shows "\<exists>r st'. get_backend clk st = Inr (r, st')
    \<and> (case r of
         Some k \<Rightarrow> \<exists>j<length (s_backends st). k = ring (length (s_backends st)) (s_curBackendsIndex st) j
           \<and> s_curBackendsIndex st' = k \<and> up_at clk (s_backends st) (s_curBackendsIndex st) j
           \<and> (\<forall>i<j. \<not> up_at clk (s_backends st) (s_curBackendsIndex st) i)
       | None \<Rightarrow> \<forall>i<length (s_backends st). \<not> up_at clk (s_backends st) (s_curBackendsIndex st) i)"
proof -
  let ?n = "length (s_backends st)" and ?cur = "s_curBackendsIndex st"
  have n: "0 < ?n" using assms(1) by simp
  have start: "u64_add ?cur 1 mod ?n = ring ?n ?cur 0" using assms(2,4) by (simp add: ring_def)
  obtain r st' where r: "choose_one clk st = (r, st')" by fastforce
  have "case choose_one_loop clk ?n st of
       (Some k, st') \<Rightarrow> \<exists>j\<ge>0. j < ?n \<and> k = ring ?n ?cur j \<and> s_curBackendsIndex st' = k \<and> up_at clk (s_backends st) ?cur j
          \<and> (\<forall>i. 0 \<le> i \<and> i < j \<longrightarrow> \<not> up_at clk (s_backends st) ?cur i)
     | (None, st') \<Rightarrow> \<forall>i. 0 \<le> i \<and> i < ?n \<longrightarrow> \<not> up_at clk (s_backends st) ?cur i"
    using choose_one_loop_spec [OF n assms(2) refl, of 0 ?n st ?cur clk] start by simp
  then show ?thesis using r assms(1,3) by (auto simp: choose_one_def get_backend_def split: option.splits)
qed

definition rr_sample :: CoBackendStrategyWRR where
  "rr_sample = new_strategy\<lparr>s_backends := [configured_backend new_conf_upstream (new_upstream_server ''a'' 1 1),
     configured_backend new_conf_upstream (new_upstream_server ''b'' 2 1)]\<rparr>"

theorem round_robin_first_available_witness:
  "\<exists>r st'. get_backend (\<lambda>i. 0) rr_sample = Inr (r, st')
    \<and> (case r of
         Some k \<Rightarrow> \<exists>j<length (s_backends rr_sample). k = ring (length (s_backends rr_sample)) (s_curBackendsIndex rr_sample) j
           \<and> s_curBackendsIndex st' = k \<and> up_at (\<lambda>i. 0) (s_backends rr_sample) (s_curBackendsIndex rr_sample) j
           \<and> (\<forall>i<j. \<not> up_at (\<lambda>i. 0) (s_backends rr_sample) (s_curBackendsIndex rr_sample) i)
       | None \<Rightarrow> \<forall>i<length (s_backends rr_sample). \<not> up_at (\<lambda>i. 0) (s_backends rr_sample) (s_curBackendsIndex rr_sample) i)"
  by (rule round_robin_first_available) (simp_all add: rr_sample_def new_strategy_def)

end
