(* ===== verification/Config_Parser.thy ===== *)
theory Config_Parser
  imports Config Prelude
begin

text \<open>
  \<^verbatim>\<open>base/co_configparser.h\<close>, \<^verbatim>\<open>base/co_configparser.cpp\<close>: the reader of the configuration file.
  \<open>read_allblock\<close> cuts the text into blocks of lines of arguments, the \<open>parse_config_*\<close> functions
  read the blocks they know. \<open>None\<close> and \<open>False\<close> are the error returns. The character pointers
  \<open>begin\<close> and \<open>end\<close> of the scanner are the argument collected so far; \<open>fin\<close> is the character it
  points to. Name resolution (\<^verbatim>\<open>base/co_dns.h\<close>, over \<open>gethostbyname\<close>) is a function \<open>dns\<close>.
\<close>

section \<open>Lines and blocks\<close>

record CoLineArgs =
  la_args :: "string list"
  la_lineno :: nat

record CoBlockArgs =
  ba_blockName :: string
  ba_lineno :: nat
  ba_multiLineArgs :: "CoLineArgs list"

text \<open>
  What the calls of \<open>getline\<close> return until the stream is at its end: the pieces between the line
  feeds, without an empty last one.
\<close>

fun getlines_acc :: "string \<Rightarrow> string \<Rightarrow> string list" where
  "getlines_acc cur [] = (if cur = [] then [] else [cur])"
| "getlines_acc cur (c # cs) =
     (if c = LF then cur # getlines_acc [] cs else getlines_acc (cur @ [c]) cs)"

definition getlines :: "string \<Rightarrow> string list" where
  "getlines content = getlines_acc [] content"

text \<open>
  The scan of one line. \<open>cur\<close> is the argument between \<open>begin\<close> and the present character, \<open>None\<close>
  for \<open>begin == NULL\<close>. A space, tab or one of \<open>; { }\<close> ends it; \<open>#\<close> skips the rest of the line.
\<close>

definition push_arg :: "string option \<Rightarrow> string list \<Rightarrow> string list" where
  "push_arg cur args = (case cur of None \<Rightarrow> args | Some a \<Rightarrow> args @ [a])"

fun scan_line ::
  "string \<Rightarrow> string option \<Rightarrow> char option \<Rightarrow> int \<Rightarrow> string list \<Rightarrow>
   (string option \<times> char option \<times> int \<times> string list) option" where
  "scan_line [] cur fin nest args = Some (cur, fin, nest, args)"
| "scan_line (ch # rest) cur fin nest args =
     (if ch = CHR ''#'' then Some (cur, fin, nest, args)
      else if ch = CHR '' '' \<or> ch = CHR 0x09 then scan_line rest None fin nest (push_arg cur args)
      else if ch = CHR '';'' then scan_line rest None (Some ch) nest (push_arg cur args)
      else if ch = CHR ''{'' then scan_line rest None (Some ch) (nest + 1) (push_arg cur args)
      else if ch = CHR ''}'' then
        (if nest - 1 < 0 then None else scan_line rest None (Some ch) (nest - 1) (push_arg cur args))
      else if fin \<noteq> None then None
      else scan_line rest (Some (case cur of None \<Rightarrow> [ch] | Some a \<Rightarrow> a @ [ch])) fin nest args)"

text \<open>
  The inner loop: lines are read until a block is complete or the text ends; \<open>find\<close> holds when the
  block has a line with arguments.
\<close>

fun read_block ::
  "string list \<Rightarrow> nat \<Rightarrow> int \<Rightarrow> CoLineArgs list \<Rightarrow> (string list \<times> nat \<times> int \<times> CoLineArgs list) option" where
  "read_block [] lineno nest acc = Some ([], lineno, nest, acc)"
| "read_block (line # ls) lineno nest acc =
     (case scan_line line None None nest [] of
        None \<Rightarrow> None
      | Some (cur, fin, nest, args) \<Rightarrow>
          if fin = None \<and> cur \<noteq> None then None
          else if fin \<noteq> None \<and> args = [] \<and> fin \<noteq> Some (CHR ''}'') then None
          else let lineno = lineno + 1;
                   acc = (if args \<noteq> [] then acc @ [\<lparr>la_args = args, la_lineno = lineno\<rparr>] else acc)
               in if nest = 0 \<and> acc \<noteq> [] then Some (ls, lineno, nest, acc)
                  else read_block ls lineno nest acc)"

lemma read_block_shorter:
  "read_block ls lineno nest acc = Some (rest, lineno', nest', acc') \<Longrightarrow>
   length rest \<le> length ls \<and> (ls \<noteq> [] \<longrightarrow> length rest < length ls)"
  by (induction ls arbitrary: lineno nest acc)
    (fastforce simp: Let_def split: option.splits prod.splits if_splits)+

definition make_block :: "CoLineArgs list \<Rightarrow> CoBlockArgs" where
  "make_block acc = \<lparr>ba_blockName = hd (la_args (hd acc)), ba_lineno = la_lineno (hd acc), ba_multiLineArgs = acc\<rparr>"

text \<open>The outer loop.\<close>

function read_blocks :: "string list \<Rightarrow> nat \<Rightarrow> CoBlockArgs list option" where
  "read_blocks ls lineno =
     (if ls = [] then Some []
      else case read_block ls lineno 0 [] of
             None \<Rightarrow> None
           | Some (rest, lineno, nest, acc) \<Rightarrow>
               if nest > 0 then None
               else if acc \<noteq> [] then map_option (\<lambda>bs. make_block acc # bs) (read_blocks rest lineno)
               else read_blocks rest lineno)"
  by pat_completeness auto
termination
  by (relation "measure (\<lambda>(ls, n). length ls)") (auto dest!: read_block_shorter)

declare read_blocks.simps [simp del]

definition read_allblock :: "string \<Rightarrow> CoBlockArgs list option" where
  "read_allblock content = read_blocks (getlines content) 0"

section \<open>The parser's state\<close>

record CoConfigParser =
  pr_config :: CoConfig
  g_logLevel :: int

definition new_parser :: CoConfigParser where
  "new_parser = \<lparr>pr_config = new_config, g_logLevel = - 1\<rparr>"

definition CheckNumber :: "string \<Rightarrow> bool" where
  "CheckNumber str = list_all is_digit str"

text \<open>The value of a parameter with exactly one argument.\<close>

definition one_arg :: "CoLineArgs \<Rightarrow> string option" where
  "one_arg line = (if length (la_args line) \<noteq> 2 then None else Some (la_args line ! 1))"

definition num_arg :: "CoLineArgs \<Rightarrow> string option" where
  "num_arg line = (case one_arg line of None \<Rightarrow> None | Some s \<Rightarrow> if CheckNumber s then Some s else None)"

section \<open>The blocks conf and hook\<close>

fun conf_lines :: "CoLineArgs list \<Rightarrow> CoConf \<Rightarrow> bool \<times> CoConf" where
  "conf_lines [] conf = (True, conf)"
| "conf_lines (line # ls) conf =
     (let configKey = hd (la_args line)
      in if configKey = ''log_level'' then
           (case one_arg line of None \<Rightarrow> (False, conf) | Some s \<Rightarrow> conf_lines ls (conf\<lparr>cf_logLevel := c_atoi s\<rparr>))
         else if configKey = ''worker_threads'' then
           (case one_arg line of None \<Rightarrow> (False, conf) | Some s \<Rightarrow> conf_lines ls (conf\<lparr>cf_workerThreads := c_atoi s\<rparr>))
         else conf_lines ls conf)"

definition parse_config_conf :: "CoBlockArgs \<Rightarrow> CoConfigParser \<Rightarrow> bool \<times> CoConfigParser" where
  "parse_config_conf block p =
     (let (ok, conf) = conf_lines (tl (ba_multiLineArgs block)) (m_conf (pr_config p));
          p = p\<lparr>pr_config := (pr_config p)\<lparr>m_conf := conf\<rparr>\<rparr>
      in (ok, if ok then p\<lparr>g_logLevel := cf_logLevel conf\<rparr> else p))"

fun hook_lines :: "CoLineArgs list \<Rightarrow> CoConfHook \<Rightarrow> bool \<times> CoConfHook" where
  "hook_lines [] hook = (True, hook)"
| "hook_lines (line # ls) hook =
     (if hd (la_args line) = ''mutex_rety_time'' then
        (case one_arg line of None \<Rightarrow> (False, hook) | Some s \<Rightarrow> hook_lines ls (hook\<lparr>hk_mutexRetryTime := c_atoi s\<rparr>))
      else hook_lines ls hook)"

definition parse_config_hook :: "CoBlockArgs \<Rightarrow> CoConfigParser \<Rightarrow> bool \<times> CoConfigParser" where
  "parse_config_hook block p =
     (let (ok, hook) = hook_lines (tl (ba_multiLineArgs block)) (m_confHook (pr_config p))
      in (ok, p\<lparr>pr_config := (pr_config p)\<lparr>m_confHook := hook\<rparr>\<rparr>))"

section \<open>The block server\<close>

definition server_line :: "CoLineArgs \<Rightarrow> CoConfServer \<Rightarrow> CoConfServer option" where
  "server_line line sv =
     (let configKey = hd (la_args line)
      in if configKey = ''listen_ip'' then map_option (\<lambda>s. sv\<lparr>sv_listenIP := s\<rparr>) (one_arg line)
         else if configKey = ''listen_port'' then
           map_option (\<lambda>s. sv\<lparr>sv_listenPort := word_of_int (c_atoi s)\<rparr>) (num_arg line)
         else if configKey = ''max_connections'' then
           map_option (\<lambda>s. sv\<lparr>sv_maxConnections := c_atoi s\<rparr>) (num_arg line)
         else if configKey = ''keepalive_timeout'' then
           map_option (\<lambda>s. sv\<lparr>sv_keepaliveTimeout := c_atoi s\<rparr>) (num_arg line)
         else if configKey = ''read_timeout'' then
           map_option (\<lambda>s. sv\<lparr>sv_readTimeout := c_atoi s\<rparr>) (num_arg line)
         else if configKey = ''write_timeout'' then
           map_option (\<lambda>s. sv\<lparr>sv_writeTimeout := c_atoi s\<rparr>) (num_arg line)
         else if configKey = ''server_type'' then
           (case num_arg line of
              None \<Rightarrow> None
            | Some s \<Rightarrow> if c_atoi s \<ge> PROTOCOL_MAX then None else Some (sv\<lparr>sv_serverType := c_atoi s\<rparr>))
         else if configKey = ''handler_name'' then map_option (\<lambda>s. sv\<lparr>sv_handlerName := s\<rparr>) (one_arg line)
         else Some sv)"

fun server_lines :: "CoLineArgs list \<Rightarrow> CoConfServer \<Rightarrow> CoConfServer option" where
  "server_lines [] sv = Some sv"
| "server_lines (line # ls) sv = (case server_line line sv of None \<Rightarrow> None | Some sv' \<Rightarrow> server_lines ls sv')"

definition parse_config_server :: "CoBlockArgs \<Rightarrow> CoConfigParser \<Rightarrow> bool \<times> CoConfigParser" where
  "parse_config_server block p =
     (case server_lines (tl (ba_multiLineArgs block)) new_conf_server of
        None \<Rightarrow> (False, p)
      | Some sv \<Rightarrow>
          if sv_listenPort sv = 0 then (False, p)
          else (True, p\<lparr>pr_config := (pr_config p)\<lparr>m_confServers := m_confServers (pr_config p) @ [sv]\<rparr>\<rparr>))"

section \<open>The block upstream\<close>

text \<open>The arguments behind the host: each must contain \<open>weight=\<close> followed by a number.\<close>

fun weight_args :: "string list \<Rightarrow> int \<Rightarrow> int option" where
  "weight_args [] weight = Some weight"
| "weight_args (a # as) weight =
     (case strstr ''weight='' a of
        None \<Rightarrow> None
      | Some (_, value) \<Rightarrow> if CheckNumber value then weight_args as (c_atoi value) else None)"

definition is_alpha :: "char \<Rightarrow> bool" where
  "is_alpha c \<longleftrightarrow> (65::nat) \<le> of_char c \<and> of_char c \<le> (90::nat) \<or> (97::nat) \<le> of_char c \<and> of_char c \<le> (122::nat)"

definition server_entry ::
  "(string \<Rightarrow> string list option) \<Rightarrow> CoLineArgs \<Rightarrow> CoConfUpstreamServer list option" where
  "server_entry dns line =
     (if length (la_args line) < 2 then None
      else let arg = la_args line ! 1;
               (host, port) = (case strstr '':'' arg of None \<Rightarrow> (arg, ''0'') | Some (a, b) \<Rightarrow> (a, b))
           in if \<not> CheckNumber port then None
              else case weight_args (drop 2 (la_args line)) 1 of
                     None \<Rightarrow> None
                   | Some weight \<Rightarrow>
                       if host \<noteq> [] \<and> is_alpha (hd host)
                       then Some (case dns host of
                                    None \<Rightarrow> []
                                  | Some ips \<Rightarrow> map (\<lambda>ip. new_upstream_server ip (c_atoi port) weight) ips)
                       else Some [new_upstream_server host (c_atoi port) weight])"

definition upstream_line :: "(string \<Rightarrow> string list option) \<Rightarrow> CoLineArgs \<Rightarrow> CoConfUpstream \<Rightarrow> CoConfUpstream option" where
  "upstream_line dns line up =
     (let configKey = hd (la_args line)
      in if configKey = ''upstream'' then map_option (\<lambda>s. up\<lparr>up_name := s\<rparr>) (one_arg line)
         else if configKey = ''server'' then
           map_option (\<lambda>ss. up\<lparr>up_upstreamServers := up_upstreamServers up @ ss\<rparr>) (server_entry dns line)
         else if configKey = ''max_connections'' then map_option (\<lambda>s. up\<lparr>up_maxConnections := c_atoi s\<rparr>) (num_arg line)
         else if configKey = ''load_balance'' then map_option (\<lambda>s. up\<lparr>up_loadBalance := c_atoi s\<rparr>) (one_arg line)
         else if configKey = ''connect_timeout'' then map_option (\<lambda>s. up\<lparr>up_connTimeout := c_atoi s\<rparr>) (one_arg line)
         else if configKey = ''read_timeout'' then map_option (\<lambda>s. up\<lparr>up_readTimeout := c_atoi s\<rparr>) (one_arg line)
         else if configKey = ''write_timeout'' then map_option (\<lambda>s. up\<lparr>up_writeTimeout := c_atoi s\<rparr>) (one_arg line)
         else if configKey = ''keepalive_timeout'' then map_option (\<lambda>s. up\<lparr>up_keepaliveTimeout := c_atoi s\<rparr>) (one_arg line)
         else if configKey = ''connection_maxrequest'' then map_option (\<lambda>s. up\<lparr>up_connectionMaxRequest := c_atoi s\<rparr>) (one_arg line)
         else if configKey = ''connection_maxtime'' then map_option (\<lambda>s. up\<lparr>up_connectionMaxTime := c_atoi s\<rparr>) (one_arg line)
         else if configKey = ''fail_timeout'' then map_option (\<lambda>s. up\<lparr>up_failTimeout := c_atoi s\<rparr>) (one_arg line)
         else if configKey = ''fail_maxnum'' then map_option (\<lambda>s. up\<lparr>up_failMaxnum := c_atoi s\<rparr>) (one_arg line)
         else if configKey = ''retry_maxnum'' then map_option (\<lambda>s. up\<lparr>up_retryMaxnum := c_atoi s\<rparr>) (one_arg line)
         else Some up)"

fun upstream_lines ::
  "(string \<Rightarrow> string list option) \<Rightarrow> CoLineArgs list \<Rightarrow> CoConfUpstream \<Rightarrow> CoConfUpstream option" where
  "upstream_lines dns [] up = Some up"
| "upstream_lines dns (line # ls) up =
     (case upstream_line dns line up of None \<Rightarrow> None | Some up' \<Rightarrow> upstream_lines dns ls up')"

definition parse_config_upstream ::
  "(string \<Rightarrow> string list option) \<Rightarrow> CoBlockArgs \<Rightarrow> CoConfigParser \<Rightarrow> bool \<times> CoConfigParser" where
  "parse_config_upstream dns block p =
     (case upstream_lines dns (ba_multiLineArgs block) new_conf_upstream of
        None \<Rightarrow> (False, p)
      | Some up \<Rightarrow> (True, p\<lparr>pr_config := (pr_config p)\<lparr>m_confUpstreams := m_confUpstreams (pr_config p) @ [up]\<rparr>\<rparr>))"

section \<open>The whole file\<close>

definition parse_block :: "(string \<Rightarrow> string list option) \<Rightarrow> CoBlockArgs \<Rightarrow> CoConfigParser \<Rightarrow> bool \<times> CoConfigParser" where
  "parse_block dns block p =
     (if ba_blockName block = CONF_CONFIG then parse_config_conf block p
      else if ba_blockName block = HOOK_CONFIG then parse_config_hook block p
      else if ba_blockName block = SERVER_CONFIG then parse_config_server block p
      else if ba_blockName block = UPSTREAM_CONFIG then parse_config_upstream dns block p
      else (True, p))"

fun parse_blocks :: "(string \<Rightarrow> string list option) \<Rightarrow> CoBlockArgs list \<Rightarrow> CoConfigParser \<Rightarrow> int \<times> CoConfigParser" where
  "parse_blocks dns [] p = (CO_OK, p)"
| "parse_blocks dns (b # bs) p =
     (let (ok, p') = parse_block dns b p in if ok then parse_blocks dns bs p' else (CO_ERROR, p'))"

definition parse_config_content :: "(string \<Rightarrow> string list option) \<Rightarrow> string \<Rightarrow> CoConfigParser \<Rightarrow> int \<times> CoConfigParser" where
  "parse_config_content dns content p =
     (case read_allblock content of None \<Rightarrow> (CO_ERROR, p) | Some blocks \<Rightarrow> parse_blocks dns blocks p)"

text \<open>The content of the file, or \<open>None\<close> if it cannot be opened.\<close>

definition parse_configfile ::
  "(string \<Rightarrow> string list option) \<Rightarrow> string option \<Rightarrow> CoConfigParser \<Rightarrow> int \<times> CoConfigParser" where
  "parse_configfile dns file p =
     (case file of None \<Rightarrow> (CO_ERROR, p) | Some content \<Rightarrow> parse_config_content dns content p)"

section \<open>The shape of what is read\<close>

definition special :: "char \<Rightarrow> bool" where
  "special c \<longleftrightarrow> c \<in> {CHR ''#'', CHR '' '', CHR 0x09, CHR '';'', CHR ''{'', CHR ''}'', LF}"

definition ok_arg :: "string \<Rightarrow> bool" where
  "ok_arg a \<longleftrightarrow> a \<noteq> [] \<and> list_all (\<lambda>c. \<not> special c) a"

definition ok_line :: "CoLineArgs \<Rightarrow> bool" where
  "ok_line l \<longleftrightarrow> la_args l \<noteq> [] \<and> list_all ok_arg (la_args l)"

definition ok_block :: "CoBlockArgs \<Rightarrow> bool" where
  "ok_block b \<longleftrightarrow> ba_multiLineArgs b \<noteq> [] \<and> list_all ok_line (ba_multiLineArgs b)
     \<and> ba_blockName b = hd (la_args (hd (ba_multiLineArgs b)))
     \<and> ba_lineno b = la_lineno (hd (ba_multiLineArgs b))"

lemma getlines_acc_no_LF: "LF \<notin> set cur \<Longrightarrow> l \<in> set (getlines_acc cur s) \<Longrightarrow> LF \<notin> set l"
  by (induction cur s rule: getlines_acc.induct) (auto split: if_splits)

lemma push_arg_ok: "list_all ok_arg args \<Longrightarrow> (\<And>a. cur = Some a \<Longrightarrow> ok_arg a) \<Longrightarrow> list_all ok_arg (push_arg cur args)"
  by (auto simp: push_arg_def split: option.splits)

lemma scan_line_ok:
  "scan_line line cur fin nest args = Some (cur', fin', nest', args') \<Longrightarrow> LF \<notin> set line \<Longrightarrow>
   (\<And>a. cur = Some a \<Longrightarrow> ok_arg a) \<Longrightarrow> list_all ok_arg args \<Longrightarrow> 0 \<le> nest \<Longrightarrow>
   list_all ok_arg args' \<and> 0 \<le> nest'"
proof (induction line cur fin nest args rule: scan_line.induct)
  case (1 cur fin nest args)
  then show ?case by simp
next
  case (2 ch rest cur fin nest args)
  have more: "ok_arg (case cur of None \<Rightarrow> [ch] | Some a \<Rightarrow> a @ [ch])"
    if "ch \<notin> {CHR ''#'', CHR '' '', CHR 0x09, CHR '';'', CHR ''{'', CHR ''}''}"
    using that "2.prems"(2,3) by (cases cur) (auto simp: ok_arg_def special_def)
  show ?case using 2 more push_arg_ok [OF "2.prems"(4,3)] by (auto split: if_splits)
qed

lemma read_block_ok:
  "read_block ls lineno nest acc = Some (rest, lineno', nest', acc') \<Longrightarrow> (\<forall>l\<in>set ls. LF \<notin> set l) \<Longrightarrow>
   list_all ok_line acc \<Longrightarrow> 0 \<le> nest \<Longrightarrow> list_all ok_line acc' \<and> 0 \<le> nest' \<and> set rest \<subseteq> set ls"
proof (induction ls arbitrary: lineno nest acc)
  case (Cons line ls)
  obtain cur fin nest1 args where sc: "scan_line line None None nest [] = Some (cur, fin, nest1, args)"
    using Cons.prems(1) by (auto split: option.splits)
  have a: "list_all ok_arg args \<and> 0 \<le> nest1" using scan_line_ok [OF sc] Cons.prems(2,4) by simp
  let ?acc = "if args \<noteq> [] then acc @ [\<lparr>la_args = args, la_lineno = Suc lineno\<rparr>] else acc"
  have acc: "list_all ok_line ?acc" using a Cons.prems(3) ok_line_def [of "\<lparr>la_args = args, la_lineno = Suc lineno\<rparr>"] by simp
  show ?case using Cons.prems a acc sc Cons.IH [of "Suc lineno" nest1 ?acc]
    by (auto simp: Let_def split: if_splits)
qed simp

lemma make_block_ok: "list_all ok_line acc \<Longrightarrow> acc \<noteq> [] \<Longrightarrow> ok_block (make_block acc)"
  by (simp add: ok_block_def make_block_def)

lemma read_blocks_ok:
  "read_blocks ls lineno = Some bs \<Longrightarrow> (\<forall>l\<in>set ls. LF \<notin> set l) \<Longrightarrow> list_all ok_block bs"
proof (induction "length ls" arbitrary: ls lineno bs rule: less_induct)
  case less
  show ?case
  proof (cases "ls = []")
    case True
    then show ?thesis using less.prems(1) by (simp add: read_blocks.simps)
  next
    case False
    obtain rest n nest acc where rb: "read_block ls lineno 0 [] = Some (rest, n, nest, acc)" "\<not> nest > 0"
      using less.prems(1) False by (subst (asm) read_blocks.simps) (auto split: option.splits if_splits)
    have sh: "length rest < length ls" using read_block_shorter [OF rb(1)] False by simp
    have ok: "list_all ok_line acc \<and> set rest \<subseteq> set ls" using read_block_ok [OF rb(1) less.prems(2)] by simp
    have sub: "\<forall>l\<in>set rest. LF \<notin> set l" using ok less.prems(2) by blast
    show ?thesis
    proof (cases "acc = []")
      case True
      then have "read_blocks rest n = Some bs" using less.prems(1) False rb by (subst (asm) read_blocks.simps) simp
      from less.hyps [OF sh this sub] show ?thesis .
    next
      case ne: False
      then obtain bs' where "read_blocks rest n = Some bs'" "bs = make_block acc # bs'"
        using less.prems(1) False rb by (subst (asm) read_blocks.simps) auto
      with less.hyps [OF sh this(1) sub] make_block_ok [OF _ ne] ok show ?thesis by simp
    qed
  qed
qed

lemma read_allblock_ok: "read_allblock content = Some blocks \<Longrightarrow> list_all ok_block blocks"
  unfolding read_allblock_def by (erule read_blocks_ok) (auto simp: getlines_def dest: getlines_acc_no_LF [rotated])

text \<open>C38: The blocks the scanner delivers are safe to index: every block has a line, every line an argument,
  every argument a character and none of the special ones, and the block is named after its
  first argument.\<close>

theorem blocks_are_well_formed:
  assumes "read_allblock content = Some blocks"
  shows "list_all ok_block blocks"
  using assms by (rule read_allblock_ok)

definition conf_sample :: string where
  "conf_sample = ''conf {'' @ [LF] @ ''  log_level 2; # comment'' @ [LF] @ ''}'' @ [LF] @ ''server a:1;''"

definition conf_sample_blocks :: "CoBlockArgs list" where
  "conf_sample_blocks = [make_block [\<lparr>la_args = [''conf''], la_lineno = 1\<rparr>, \<lparr>la_args = [''log_level'', ''2''], la_lineno = 2\<rparr>],
     make_block [\<lparr>la_args = [''server'', ''a:1''], la_lineno = 4\<rparr>]]"

lemma conf_sample_read: "read_allblock conf_sample = Some conf_sample_blocks"
  by (simp add: read_allblock_def getlines_def conf_sample_def conf_sample_blocks_def read_blocks.simps push_arg_def
      numeral_2_eq_2 numeral_eq_Suc)

theorem blocks_are_well_formed_witness: "list_all ok_block conf_sample_blocks"
  by (rule blocks_are_well_formed [OF conf_sample_read])

end
