(* ===== verification/Single.thy ===== *)
theory Single
  imports Common
begin

text \<open>
  \<^verbatim>\<open>core/co_single.h\<close>, \<^verbatim>\<open>core/co_single.cpp\<close>: the coroutines of all threads that wait for a
  \<open>pthread_mutex_t\<close>. One object for the whole process; its operations hold its spin lock, so each is
  one step. A waiting connection of another thread is known by the number of its thread and its
  own; mutexes are numbers. \<open>add_block_mutex\<close> has the two parts in front of the switch and behind it.
\<close>

record waiter =
  wt_thread :: "32 word"
  wt_conn :: nat
  wt_version :: "32 word"

record CoSingle =
  sg_threadConnectionIds :: "64 word set"
  sg_blockMutexs :: "nat \<Rightarrow> waiter list option"

definition new_single :: CoSingle where
  "new_single = \<lparr>sg_threadConnectionIds = {}, sg_blockMutexs = \<lambda>_. None\<rparr>"

definition wait_key :: "32 word \<Rightarrow> nat \<Rightarrow> 64 word" where
  "wait_key threadId connId = GEN_U64 threadId (word_of_nat connId)"

definition waiter_key :: "waiter \<Rightarrow> 64 word" where
  "waiter_key w = wait_key (wt_thread w) (wt_conn w)"

definition find_block_mutex :: "32 word \<Rightarrow> nat \<Rightarrow> CoSingle \<Rightarrow> bool" where
  "find_block_mutex threadId connId s \<longleftrightarrow> wait_key threadId connId \<in> sg_threadConnectionIds s"

definition block_enter :: "nat \<Rightarrow> waiter \<Rightarrow> CoSingle \<Rightarrow> CoSingle" where
  "block_enter mutex w s =
     (if waiter_key w \<notin> sg_threadConnectionIds s
      then s\<lparr>sg_blockMutexs := (sg_blockMutexs s)(mutex \<mapsto> (case sg_blockMutexs s mutex of None \<Rightarrow> [] | Some q \<Rightarrow> q) @ [w]),
             sg_threadConnectionIds := insert (waiter_key w) (sg_threadConnectionIds s)\<rparr>
      else s)"

definition block_leave :: "64 word \<Rightarrow> CoSingle \<Rightarrow> CoSingle" where
  "block_leave key s = s\<lparr>sg_threadConnectionIds := sg_threadConnectionIds s - {key}\<rparr>"

text \<open>
  The loop of \<open>free_block_mutex\<close>: entries of connections that wait no longer are dropped. The result
  is whom to resume and the rest of the queue; taking from an empty queue is a fault.
\<close>

fun pop_waiter :: "64 word set \<Rightarrow> waiter list \<Rightarrow> (waiter option \<times> waiter list) res" where
  "pop_waiter ids [] = Inl OutOfBounds"
| "pop_waiter ids (w # ws) =
     (let found = (if waiter_key w \<in> ids then Some w else None)
      in if ws = [] then Inr (found, ws) else if found \<noteq> None then Inr (found, ws) else pop_waiter ids ws)"

definition free_block_mutex :: "nat \<Rightarrow> CoSingle \<Rightarrow> (waiter option \<times> CoSingle) res" where
  "free_block_mutex mutex s =
     (case sg_blockMutexs s mutex of
        None \<Rightarrow> Inr (None, s)
      | Some q \<Rightarrow>
          bindr (pop_waiter (sg_threadConnectionIds s) q)
            (\<lambda>(w, q). Inr (w, s\<lparr>sg_blockMutexs := (sg_blockMutexs s)(mutex := if q = [] then None else Some q)\<rparr>)))"

section \<open>Who is woken\<close>

inductive single_step :: "CoSingle \<Rightarrow> CoSingle \<Rightarrow> bool" where
  enter: "single_step s (block_enter mutex w s)"
| leave: "single_step s (block_leave key s)"
| free: "free_block_mutex mutex s = Inr (r, s') \<Longrightarrow> single_step s s'"

definition single_inv :: "CoSingle \<Rightarrow> bool" where
  "single_inv s \<longleftrightarrow> (\<forall>m q. sg_blockMutexs s m = Some q \<longrightarrow> q \<noteq> [])"

definition waiters :: "nat \<Rightarrow> CoSingle \<Rightarrow> waiter list" where
  "waiters mutex s = (case sg_blockMutexs s mutex of None \<Rightarrow> [] | Some q \<Rightarrow> q)"

lemma single_inv_step: "single_step s s' \<Longrightarrow> single_inv s \<Longrightarrow> single_inv s'"
proof (induction rule: single_step.induct)
  case (free mutex s r s')
  then show ?case
    by (fastforce simp: free_block_mutex_def single_inv_def bindr_def split: option.splits sum.splits if_splits)
qed (auto simp: single_inv_def block_enter_def block_leave_def)

lemma single_inv_new: "single_inv new_single"
  by (simp add: single_inv_def new_single_def)

lemma single_inv_reach: "single_step\<^sup>*\<^sup>* new_single s \<Longrightarrow> single_inv s"
  by (induction rule: rtranclp_induct) (auto intro: single_inv_step single_inv_new)

lemma pop_waiter_first:
  "q \<noteq> [] \<Longrightarrow> pop_waiter ids q = Inr (find (\<lambda>w. waiter_key w \<in> ids) q, tl (dropWhile (\<lambda>w. waiter_key w \<notin> ids) q))"
proof (induction q)
  case (Cons w ws)
  then show ?case by (cases ws) (auto simp: Let_def)
qed simp


text \<open>
  Connection 1 waited for mutex 7, gave up and waits for mutex 8; connection 3 of thread 2 waits for mutex 7.
\<close>

definition waiter_sample :: "32 word \<Rightarrow> nat \<Rightarrow> waiter" where
  "waiter_sample t i = \<lparr>wt_thread = t, wt_conn = i, wt_version = 0\<rparr>"

definition waiting_single :: CoSingle where
  "waiting_single = block_enter 7 (waiter_sample 2 3) (block_enter 8 (waiter_sample 1 1)
     (block_leave (wait_key 1 1) (block_enter 7 (waiter_sample 1 1) new_single)))"

lemma waiting_single_reached: "single_step\<^sup>*\<^sup>* new_single waiting_single"
  unfolding waiting_single_def
  by (rule rtranclp.rtrancl_into_rtrancl [where r = single_step], rule rtranclp.rtrancl_into_rtrancl [where r = single_step],
      rule rtranclp.rtrancl_into_rtrancl [where r = single_step], rule r_into_rtranclp [where r = single_step])
    (rule single_step.enter single_step.leave)+

lemma waiting_single_fields:
  "sg_blockMutexs waiting_single = [7 \<mapsto> [waiter_sample 1 1, waiter_sample 2 3], 8 \<mapsto> [waiter_sample 1 1]]"
  "sg_threadConnectionIds waiting_single = {wait_key 1 1, wait_key 2 3}"
  by (auto simp: waiting_single_def block_enter_def block_leave_def new_single_def waiter_key_def waiter_sample_def wait_key_def)

text \<open>The queue of mutex 7 still has the entry of connection 1, which takes the wake-up of connection 3.\<close>

lemma stale_entry_takes_wakeup:
  "\<exists>s'. free_block_mutex 7 waiting_single = Inr (Some (waiter_sample 1 1), s') \<and> waiters 7 s' = [waiter_sample 2 3]"
  by (simp add: free_block_mutex_def waiting_single_fields waiters_def waiter_key_def waiter_sample_def)


end
