(* ===== verification/Cycle.thy ===== *)
theory Cycle
  imports Connection_Pool Protocol_Factory Backend Config_Parser Single
begin

text \<open>
  \<^verbatim>\<open>core/co_cycle.h\<close>, \<^verbatim>\<open>core/co_cycle.cpp\<close>, \<^verbatim>\<open>core/co_request.h\<close> and the class definitions of
  \<^verbatim>\<open>core/co_server_control.h\<close>, \<^verbatim>\<open>core/co_dispatcher.h\<close> and \<^verbatim>\<open>upstream/co_upstream.h\<close>: the state of
  one worker thread. Objects behind pointers are values in maps from object numbers, so that two
  objects can share a third (a sub-request and its information share a protocol). The state also
  holds what the code gets from outside: the clock (its readings in order), the answers of the
  kernel (\<open>cy_refuse n\<close>: the \<open>n\<close>-th \<open>epoll_ctl\<close> fails although the table allows it), the bytes
  sockets deliver and accept, the allocator and the iteration order of header maps, and what it
  sends there: the calls of \<open>epoll_ctl\<close> with the kernel's table they lead to, and the bytes on each socket. \<open>cy_single\<close> is the one
  \<open>CoSingle\<close> of the process, as the thread finds it.
\<close>

section \<open>Objects\<close>

record CoServerControl =
  sc_confServer :: CoConfServer
  sc_userFuncs :: "nat option"
  sc_listening :: bool
  sc_listenConnection :: "nat option"
  sc_curConnectionSize :: int

record CoUserHandlerData =
  ud_protocol :: "nat option"
  ud_userData :: "nat option"
  ud_upstreamInfos :: "nat list"
  ud_coroutineData :: "nat \<times> 32 word"

definition new_user_data :: CoUserHandlerData where
  "new_user_data = \<lparr>ud_protocol = None, ud_userData = None, ud_upstreamInfos = [], ud_coroutineData = (0, 0)\<rparr>"

text \<open>User functions are numbers; what they do is an argument of the definitions that call them.\<close>

record CoUserFuncs =
  uf_userProcess :: "nat option"
  uf_userDestroy :: "nat option"
  uf_userData :: "nat option"

record CoRequest =
  rq_connection :: "nat option"
  rq_protocol :: "nat option"
  rq_count :: int
  rq_parent :: "nat option"
  rq_upstreamInfo :: "nat option"
  rq_upstreamRequests :: "(nat \<times> nat) list"
  rq_userProcess :: "nat option"
  rq_userDestroy :: "nat option"
  rq_userData :: CoUserHandlerData
  rq_requestId :: nat
  rq_requestType :: int
  rq_retryTimes :: int
  rq_startUs :: nat
  rq_connectUs :: nat
  rq_readUs :: nat
  rq_processUs :: nat
  rq_writeUs :: nat
  rq_flagNeedFreeProtocol :: bool

definition new_co_request :: "int \<Rightarrow> CoRequest" where
  "new_co_request type = \<lparr>rq_connection = None, rq_protocol = None, rq_count = 0, rq_parent = None,
     rq_upstreamInfo = None, rq_upstreamRequests = [], rq_userProcess = None, rq_userDestroy = None,
     rq_userData = new_user_data, rq_requestId = 0, rq_requestType = type, rq_retryTimes = 0, rq_startUs = 0,
     rq_connectUs = 0, rq_readUs = 0, rq_processUs = 0, rq_writeUs = 0, rq_flagNeedFreeProtocol = False\<rparr>"

record CoUpstreamInfo =
  ui_protocol :: "nat option"
  ui_status :: int
  ui_useTimeUs :: nat

definition new_upstream_info :: "nat \<Rightarrow> CoUpstreamInfo" where
  "new_upstream_info protocol = \<lparr>ui_protocol = Some protocol, ui_status = 0, ui_useTimeUs = 0\<rparr>"

record CoUpstream =
  ups_confUpstream :: CoConfUpstream
  ups_backendStrategy :: CoBackendStrategyWRR
  ups_curConnectionSize :: int
  ups_reuseConnections :: "string \<Rightarrow> nat list"

datatype epoll_op = EPOLL_CTL_ADD | EPOLL_CTL_MOD | EPOLL_CTL_DEL

record epoll_call =
  ec_op :: epoll_op
  ec_fd :: int
  ec_events :: "32 word"
  ec_data :: "64 word"

text \<open>The kernel's table for an epoll descriptor: the events and the user data of each watched descriptor.\<close>

type_synonym interest = "int \<Rightarrow> (32 word \<times> 64 word) option"

text \<open>
  What the kernel knows of a descriptor that is not the server's own: whether it is a socket, its
  \<open>O_NONBLOCK\<close> flag, whether \<open>F_SETFL\<close> works, and the two time limits \<open>getsockopt\<close> gives.
\<close>

record file_info =
  f_socket :: bool
  f_nonblock :: bool
  f_setfl :: bool
  f_rcvtimeo :: "(nat \<times> nat) option"
  f_sndtimeo :: "(nat \<times> nat) option"

section \<open>The worker thread\<close>

record CoCycle = CoTimer +
  cy_innerThreadId :: "32 word"
  cy_conf :: CoConfig
  cy_pool :: CoConnectionPool
  cy_curConnection :: "nat option"
  cy_serverControls :: "CoServerControl list"
  cy_userFuncs :: "(string \<times> CoUserFuncs) list"
  cy_requests :: "nat \<Rightarrow> CoRequest option"
  cy_protocols :: "nat \<Rightarrow> protocol option"
  cy_infos :: "nat \<Rightarrow> CoUpstreamInfo option"
  cy_nextObject :: nat
  cy_requestId :: nat
  cy_upstreams :: "(string \<times> CoUpstream) list"
  cy_run :: bool
  cy_delayConnections :: "(nat \<times> 32 word) list"
  cy_writeResumeConnection :: "nat option"
  cy_waitResumes :: "(nat \<times> 32 word) list"
  cy_waitSingles :: "(nat \<times> 32 word) list"
  cy_clock :: "nat \<Rightarrow> nat"
  cy_tick :: nat
  cy_sys :: sys
  cy_errno :: int
  cy_files :: "int \<Rightarrow> file_info option"
  cy_calls :: "epoll_call list"
  cy_interest :: interest
  cy_refuse :: "nat \<Rightarrow> bool"
  cy_in :: "int \<Rightarrow> recv_answer list"
  cy_out :: "int \<Rightarrow> send_answer list"
  cy_wire :: "int \<Rightarrow> string"
  cy_heap :: heap
  cy_itr :: "headers \<Rightarrow> headers"
  cy_single :: CoSingle

section \<open>Access\<close>

definition conn :: "nat \<Rightarrow> CoCycle \<Rightarrow> CoConnection" where
  "conn i cy = get_connection_accord_id i (cy_pool cy)"

definition upd_conn :: "nat \<Rightarrow> (CoConnection \<Rightarrow> CoConnection) \<Rightarrow> CoCycle \<Rightarrow> CoCycle" where
  "upd_conn i f cy = cy\<lparr>cy_pool := map_conn i f (cy_pool cy)\<rparr>"

definition upd_request :: "nat \<Rightarrow> (CoRequest \<Rightarrow> CoRequest) \<Rightarrow> CoCycle \<Rightarrow> CoCycle" where
  "upd_request r f cy = cy\<lparr>cy_requests := (cy_requests cy)(r := map_option f (cy_requests cy r))\<rparr>"

text \<open>The microsecond clock, and the same clock in milliseconds.\<close>

definition now_us :: "CoCycle \<Rightarrow> nat" where
  "now_us cy = cy_clock cy (cy_tick cy) mod u64_mod"

definition now_ms :: "CoCycle \<Rightarrow> nat" where
  "now_ms cy = cy_clock cy (cy_tick cy) div 1000 mod u64_mod"

definition tick :: "CoCycle \<Rightarrow> CoCycle" where
  "tick cy = cy\<lparr>cy_tick := cy_tick cy + 1\<rparr>"

text \<open>\<open>m_delayConnections.push(make_pair(connection, connection->m_version))\<close>.\<close>

definition push_delay :: "nat \<Rightarrow> CoCycle \<Rightarrow> CoCycle" where
  "push_delay i cy = cy\<lparr>cy_delayConnections := cy_delayConnections cy @ [(i, cn_version (conn i cy))]\<rparr>"

text \<open>
  \<open>add_timer\<close>, \<open>del_timer\<close> on an event of a connection. The time limit is an \<open>int32_t\<close> converted to
  \<open>uint32_t\<close>.
\<close>

definition get_event :: "event_type \<Rightarrow> CoConnection \<Rightarrow> CoEvent" where
  "get_event e c = (case e of EVENT_TYPE_READ \<Rightarrow> cn_readEvent c | EVENT_TYPE_WRITE \<Rightarrow> cn_writeEvent c
     | EVENT_TYPE_SLEEP \<Rightarrow> cn_sleepEvent c)"

definition put_event :: "event_type \<Rightarrow> CoEvent \<Rightarrow> CoConnection \<Rightarrow> CoConnection" where
  "put_event e v c = (case e of EVENT_TYPE_READ \<Rightarrow> c\<lparr>cn_readEvent := v\<rparr> | EVENT_TYPE_WRITE \<Rightarrow> c\<lparr>cn_writeEvent := v\<rparr>
     | EVENT_TYPE_SLEEP \<Rightarrow> c\<lparr>cn_sleepEvent := v\<rparr>)"

definition set_timer :: "nat \<Rightarrow> event_type \<Rightarrow> int \<Rightarrow> CoCycle \<Rightarrow> CoCycle" where
  "set_timer i e ms cy =
     (if ev_flagTimerSet (get_event e (conn i cy)) then cy
      else let (ev, cy') = add_timer (now_ms cy) (nat (ms mod two32)) (get_event e (conn i cy)) cy
      in upd_conn i (put_event e ev) (tick cy'))"

definition unset_timer :: "nat \<Rightarrow> event_type \<Rightarrow> CoCycle \<Rightarrow> CoCycle" where
  "unset_timer i e cy =
     (let (ev, cy') = del_timer (get_event e (conn i cy)) cy in upd_conn i (put_event e ev) cy')"

definition timer_is_set :: "nat \<Rightarrow> event_type \<Rightarrow> CoCycle \<Rightarrow> bool" where
  "timer_is_set i e cy \<longleftrightarrow> ev_flagTimerSet (get_event e (conn i cy))"

definition upd_tcp :: "nat \<Rightarrow> CoTCP \<Rightarrow> CoCycle \<Rightarrow> CoCycle" where
  "upd_tcp i t cy = upd_conn i (\<lambda>c. c\<lparr>cn_coTcp := t\<rparr>) cy"

definition fd_of :: "nat \<Rightarrow> CoCycle \<Rightarrow> int" where
  "fd_of i cy = tc_socketfd (cn_coTcp (conn i cy))"

text \<open>A thread with a pool of four connections, before anything is served; used to show that hypotheses can hold.\<close>

definition small_cycle :: CoCycle where
  "small_cycle = \<lparr>tm_timers = [], tm_next = 0, cy_innerThreadId = 1, cy_conf = new_config, cy_pool = small_pool,
     cy_curConnection = None, cy_serverControls = [], cy_userFuncs = [], cy_requests = \<lambda>_. None,
     cy_protocols = \<lambda>_. None, cy_infos = \<lambda>_. None, cy_nextObject = 1, cy_requestId = 0, cy_upstreams = [],
     cy_run = True, cy_delayConnections = [], cy_writeResumeConnection = None, cy_waitResumes = [],
     cy_waitSingles = [], cy_clock = \<lambda>n. n, cy_tick = 0, cy_sys = [], cy_errno = 0,
     cy_files = \<lambda>_. None, cy_calls = [], cy_interest = \<lambda>_. None, cy_refuse = \<lambda>_. False, cy_in = \<lambda>_. [],
     cy_out = \<lambda>_. [], cy_wire = \<lambda>_. [], cy_heap = full_heap (\<lambda>n. NUL), cy_itr = \<lambda>h. h,
     cy_single = new_single\<rparr>"

end
