(* ===== verification/Epoll.thy ===== *)
theory Epoll
  imports Cycle
begin

text \<open>
  \<^verbatim>\<open>base/co_epoll.h\<close>, \<^verbatim>\<open>base/co_epoll.cpp\<close> up to the event loop: which events of a connection the
  kernel watches. Every \<open>epoll_ctl\<close> is appended to \<open>cy_calls\<close>; its answer comes from \<open>cy_sys\<close>.
  What the kernel documents about the calls is the table \<open>epoll_apply\<close>.
\<close>

definition EPOLLIN :: "32 word" where "EPOLLIN = 1"
definition EPOLLOUT :: "32 word" where "EPOLLOUT = 4"
definition EPOLLERR :: "32 word" where "EPOLLERR = 8"
definition EPOLLHUP :: "32 word" where "EPOLLHUP = 16"
definition EPOLLRDHUP :: "32 word" where "EPOLLRDHUP = 8192"
definition EPOLLET :: "32 word" where "EPOLLET = 0x80000000"

lemmas epoll_bits = EPOLLIN_def EPOLLOUT_def EPOLLERR_def EPOLLHUP_def EPOLLRDHUP_def EPOLLET_def

definition CO_EVENT_IN :: "32 word" where "CO_EVENT_IN = EPOLLIN"
definition CO_EVENT_OUT :: "32 word" where "CO_EVENT_OUT = EPOLLOUT"
definition CO_EVENT_HUP :: "32 word" where "CO_EVENT_HUP = EPOLLRDHUP"
definition CO_EVENT_READ :: "32 word" where "CO_EVENT_READ = EPOLLIN OR EPOLLRDHUP"
definition CO_EVENT_WRITE :: "32 word" where "CO_EVENT_WRITE = EPOLLOUT OR EPOLLRDHUP"

datatype epoll_change = EPOLL_EVENTS_ADD | EPOLL_EVENTS_DEL

definition MIN_EV_NUMBER :: int where "MIN_EV_NUMBER = 32"
definition MAX_EV_NUMBER :: int where "MAX_EV_NUMBER = 1024"

text \<open>\<open>init\<close>: the number of events (the second assignment starts from the argument again) and the descriptor.\<close>

definition epoll_events_size :: "int \<Rightarrow> int" where
  "epoll_events_size eventSize =
     (let sz = (if eventSize > MAX_EV_NUMBER then MAX_EV_NUMBER else eventSize);
          sz = (if eventSize < MIN_EV_NUMBER then MIN_EV_NUMBER else eventSize)
      in sz)"

definition epoll_init :: "int \<Rightarrow> CoCycle \<Rightarrow> int \<times> int \<times> CoCycle" where
  "epoll_init eventSize cy =
     (let ((fd, _), s) = syscall (cy_sys cy)
      in (if fd < 0 then fd else 0, epoll_events_size eventSize, cy\<lparr>cy_sys := s\<rparr>))"

section \<open>epoll_ctl\<close>

text \<open>
  What the kernel documents: \<open>None\<close> when the call is refused, with \<open>EEXIST\<close> for adding a descriptor
  twice and \<open>ENOENT\<close> for changing one that is not there.
\<close>

definition epoll_apply :: "epoll_call \<Rightarrow> interest \<Rightarrow> interest option" where
  "epoll_apply k tbl =
     (case ec_op k of
        EPOLL_CTL_ADD \<Rightarrow> (if tbl (ec_fd k) = None then Some (tbl(ec_fd k \<mapsto> (ec_events k, ec_data k))) else None)
      | EPOLL_CTL_MOD \<Rightarrow> (if tbl (ec_fd k) \<noteq> None then Some (tbl(ec_fd k \<mapsto> (ec_events k, ec_data k))) else None)
      | EPOLL_CTL_DEL \<Rightarrow> (if tbl (ec_fd k) \<noteq> None then Some (tbl(ec_fd k := None)) else None))"

definition epoll_ctl :: "epoll_op \<Rightarrow> int \<Rightarrow> 32 word \<Rightarrow> 64 word \<Rightarrow> CoCycle \<Rightarrow> int \<times> CoCycle" where
  "epoll_ctl op fd events data cy =
     (let k = \<lparr>ec_op = op, ec_fd = fd, ec_events = events, ec_data = data\<rparr>;
          refused = cy_refuse cy (length (cy_calls cy));
          cy = cy\<lparr>cy_calls := cy_calls cy @ [k]\<rparr>
      in case epoll_apply k (cy_interest cy) of
           None \<Rightarrow> (- 1, cy)
         | Some tbl \<Rightarrow> if refused then (- 1, cy) else (0, cy\<lparr>cy_interest := tbl\<rparr>))"

definition conn_data :: "CoConnection \<Rightarrow> 64 word" where
  "conn_data c = GEN_U64 (word_of_nat (cn_connId c)) (cn_version c)"

text \<open>What the three operations store in the connection.\<close>

definition mark_events :: "32 word \<Rightarrow> 32 word \<Rightarrow> bool \<Rightarrow> bool \<Rightarrow> CoConnection \<Rightarrow> CoConnection" where
  "mark_events events version rd wr c = c\<lparr>cn_epollCurEvents := events, cn_epollCurVersion := version,
     cn_readEvent := (cn_readEvent c)\<lparr>ev_flagActive := rd\<rparr>, cn_writeEvent := (cn_writeEvent c)\<lparr>ev_flagActive := wr\<rparr>\<rparr>"

definition add_connection :: "nat \<Rightarrow> CoCycle \<Rightarrow> int \<times> CoCycle" where
  "add_connection i cy =
     (let c = conn i cy; events = EPOLLIN OR EPOLLOUT OR EPOLLRDHUP
      in if cn_epollCurEvents c = events \<and> cn_epollCurVersion c = cn_version c then (CO_OK, cy)
         else let (r, cy) = epoll_ctl EPOLL_CTL_ADD (fd_of i cy) (events OR EPOLLET) (conn_data c) cy
              in if r = - 1 then (CO_ERROR, cy)
                 else (CO_OK, upd_conn i (\<lambda>c. mark_events events (cn_version c) True True c) cy))"

definition del_connection :: "nat \<Rightarrow> CoCycle \<Rightarrow> int \<times> CoCycle" where
  "del_connection i cy =
     (let c = conn i cy
      in if cn_epollCurEvents c = 0 then (CO_OK, cy)
         else let (r, cy) = epoll_ctl EPOLL_CTL_DEL (fd_of i cy) 0 0 cy
              in if r = - 1 then (CO_ERROR, cy)
                 else (CO_OK, upd_conn i (mark_events 0 0 False False) cy))"

definition modify_op :: "32 word \<Rightarrow> 32 word \<Rightarrow> epoll_op" where
  "modify_op pre cur = (if pre \<noteq> 0 then (if cur = 0 then EPOLL_CTL_DEL else EPOLL_CTL_MOD) else EPOLL_CTL_ADD)"

definition modify_events :: "epoll_change \<Rightarrow> 32 word \<Rightarrow> 32 word \<Rightarrow> 32 word" where
  "modify_events eventType eventOP pre =
     (case eventType of EPOLL_EVENTS_ADD \<Rightarrow> pre OR eventOP | EPOLL_EVENTS_DEL \<Rightarrow> pre AND NOT eventOP)"

definition modify_connection :: "nat \<Rightarrow> epoll_change \<Rightarrow> 32 word \<Rightarrow> CoCycle \<Rightarrow> int \<times> CoCycle" where
  "modify_connection i eventType eventOP cy =
     (let c = conn i cy; pre = cn_epollCurEvents c; cur = modify_events eventType eventOP pre
      in if cur = pre \<and> cn_epollCurVersion c = cn_version c then (CO_OK, cy)
         else let (r, cy) = epoll_ctl (modify_op pre cur) (fd_of i cy) (cur OR EPOLLET) (conn_data c) cy
              in if r = - 1 then (CO_ERROR, cy)
                 else (CO_OK, upd_conn i (\<lambda>c. mark_events cur (cn_version c) (cur AND CO_EVENT_READ \<noteq> 0)
                                                (cur AND CO_EVENT_OUT \<noteq> 0) c) cy))"

section \<open>What the kernel watches\<close>

text \<open>The connection's view of its descriptor agrees with the kernel's.\<close>

definition watched :: "CoConnection \<Rightarrow> interest \<Rightarrow> bool" where
  "watched c tbl \<longleftrightarrow>
     (if cn_epollCurEvents c = 0 then tbl (tc_socketfd (cn_coTcp c)) = None
      else tbl (tc_socketfd (cn_coTcp c)) =
             Some (cn_epollCurEvents c OR EPOLLET, GEN_U64 (word_of_nat (cn_connId c)) (cn_epollCurVersion c)))"

definition valid_id :: "nat \<Rightarrow> CoCycle \<Rightarrow> bool" where
  "valid_id i cy \<longleftrightarrow> 0 < i \<and> i \<le> length (pl_connections (cy_pool cy))"

lemma conn_upd_same [simp]: "valid_id i cy \<Longrightarrow> conn i (upd_conn i f cy) = f (conn i cy)"
  by (simp add: conn_def upd_conn_def valid_id_def get_map_conn_same)

lemma conn_upd_other: "0 < i \<Longrightarrow> 0 < j \<Longrightarrow> i \<noteq> j \<Longrightarrow> conn j (upd_conn i f cy) = conn j cy"
  by (simp add: conn_def upd_conn_def get_map_conn_other)

lemma valid_id_upd [simp]: "valid_id j (upd_conn i f cy) = valid_id j cy"
  by (simp add: valid_id_def upd_conn_def)

lemma upd_conn_fields [simp]:
  "cy_calls (upd_conn i f cy) = cy_calls cy" "cy_interest (upd_conn i f cy) = cy_interest cy"
  "cy_refuse (upd_conn i f cy) = cy_refuse cy"
  by (simp_all add: upd_conn_def)

text \<open>A call the table allows and the kernel does not refuse.\<close>

definition allowed :: "CoCycle \<Rightarrow> bool" where
  "allowed cy \<longleftrightarrow> \<not> cy_refuse cy (length (cy_calls cy))"

lemma epoll_ctl_split:
  "epoll_ctl op fd ev d cy =
     (let k = \<lparr>ec_op = op, ec_fd = fd, ec_events = ev, ec_data = d\<rparr>
      in case epoll_apply k (cy_interest cy) of
           None \<Rightarrow> (- 1, cy\<lparr>cy_calls := cy_calls cy @ [k]\<rparr>)
         | Some tbl \<Rightarrow> if allowed cy then (0, cy\<lparr>cy_calls := cy_calls cy @ [k], cy_interest := tbl\<rparr>)
                      else (- 1, cy\<lparr>cy_calls := cy_calls cy @ [k]\<rparr>))"
  by (simp add: epoll_ctl_def allowed_def Let_def split: option.split)

lemma watched_modify:
  assumes "watched c tbl" and "pre = cn_epollCurEvents c" and "pre \<noteq> 0 \<or> cur \<noteq> 0"
  shows "\<exists>tbl'. epoll_apply \<lparr>ec_op = modify_op pre cur, ec_fd = tc_socketfd (cn_coTcp c),
       ec_events = cur OR EPOLLET, ec_data = conn_data c\<rparr> tbl = Some tbl'
     \<and> (\<forall>fd. fd \<noteq> tc_socketfd (cn_coTcp c) \<longrightarrow> tbl' fd = tbl fd)
     \<and> watched (mark_events cur (cn_version c) rd wr c) tbl'"
  using assms by (cases "pre = 0"; cases "cur = 0")
    (auto simp: epoll_apply_def modify_op_def watched_def mark_events_def conn_data_def)

lemma modify_connection_cases:
  assumes "valid_id i cy" and "watched (conn i cy) (cy_interest cy)"
    and "cur = modify_events e op (cn_epollCurEvents (conn i cy))"
    and "cn_epollCurEvents (conn i cy) \<noteq> 0 \<or> cur \<noteq> 0"
  shows "modify_connection i e op cy = (CO_OK, cy)
       \<and> cur = cn_epollCurEvents (conn i cy) \<and> cn_epollCurVersion (conn i cy) = cn_version (conn i cy)
    \<or> (\<exists>k tbl. epoll_apply k (cy_interest cy) = Some tbl \<and> (\<forall>fd. fd \<noteq> fd_of i cy \<longrightarrow> tbl fd = cy_interest cy fd)
        \<and> watched (mark_events cur (cn_version (conn i cy)) (cur AND CO_EVENT_READ \<noteq> 0) (cur AND CO_EVENT_OUT \<noteq> 0) (conn i cy)) tbl
        \<and> modify_connection i e op cy =
            (if allowed cy
             then (CO_OK, upd_conn i (\<lambda>c. mark_events cur (cn_version c) (cur AND CO_EVENT_READ \<noteq> 0) (cur AND CO_EVENT_OUT \<noteq> 0) c)
                            (cy\<lparr>cy_calls := cy_calls cy @ [k], cy_interest := tbl\<rparr>))
             else (CO_ERROR, cy\<lparr>cy_calls := cy_calls cy @ [k]\<rparr>)))"
proof (cases "cur = cn_epollCurEvents (conn i cy) \<and> cn_epollCurVersion (conn i cy) = cn_version (conn i cy)")
  case True
  then show ?thesis using assms(3) by (simp add: modify_connection_def Let_def)
next
  case False
  define c where "c = conn i cy"
  let ?k = "\<lparr>ec_op = modify_op (cn_epollCurEvents c) cur, ec_fd = tc_socketfd (cn_coTcp c),
       ec_events = cur OR EPOLLET, ec_data = conn_data c\<rparr>"
  obtain tbl where t: "epoll_apply ?k (cy_interest cy) = Some tbl" "\<forall>fd. fd \<noteq> fd_of i cy \<longrightarrow> tbl fd = cy_interest cy fd"
    "watched (mark_events cur (cn_version c) (cur AND CO_EVENT_READ \<noteq> 0) (cur AND CO_EVENT_OUT \<noteq> 0) c) tbl"
    using watched_modify [OF assms(2) refl assms(4)] unfolding c_def fd_of_def by blast
  have "modify_connection i e op cy =
      (if allowed cy
       then (CO_OK, upd_conn i (\<lambda>c. mark_events cur (cn_version c) (cur AND CO_EVENT_READ \<noteq> 0) (cur AND CO_EVENT_OUT \<noteq> 0) c)
                      (cy\<lparr>cy_calls := cy_calls cy @ [?k], cy_interest := tbl\<rparr>))
       else (CO_ERROR, cy\<lparr>cy_calls := cy_calls cy @ [?k]\<rparr>))"
    using t(1) unfolding modify_connection_def Let_def epoll_ctl_split fd_of_def c_def assms(3) [symmetric] if_not_P [OF False]
    by simp
  with t show ?thesis unfolding c_def by blast
qed

text \<open>C21: \<open>modify_connection\<close> and the kernel agree on what is watched: when the connection's view of its
  descriptor and the kernel's table agree before, and unless no events are taken from a connection
  the kernel does not watch, the call succeeds whenever the kernel does not refuse an allowed call;
  then they agree again, under the present version of the connection, the active flags say which
  events are watched, and no other descriptor is touched. When it is refused, nothing has changed.\<close>

theorem modify_connection_agrees:
  assumes "valid_id i cy" and "watched (conn i cy) (cy_interest cy)" and "modify_connection i e op cy = (ret, cy')"
    and "cn_epollCurEvents (conn i cy) \<noteq> 0 \<or> modify_events e op 0 \<noteq> 0"
  shows "watched (conn i cy') (cy_interest cy') \<and> (\<forall>fd. fd \<noteq> fd_of i cy \<longrightarrow> cy_interest cy' fd = cy_interest cy fd)
    \<and> (allowed cy \<longrightarrow> ret = CO_OK)
    \<and> (ret = CO_OK \<longrightarrow> cn_epollCurVersion (conn i cy') = cn_version (conn i cy')
        \<and> cn_epollCurEvents (conn i cy') = modify_events e op (cn_epollCurEvents (conn i cy))
        \<and> (cy' \<noteq> cy \<longrightarrow> ev_flagActive (cn_readEvent (conn i cy')) = (cn_epollCurEvents (conn i cy') AND CO_EVENT_READ \<noteq> 0)
            \<and> ev_flagActive (cn_writeEvent (conn i cy')) = (cn_epollCurEvents (conn i cy') AND CO_EVENT_OUT \<noteq> 0)))
    \<and> (ret \<noteq> CO_OK \<longrightarrow> ret = CO_ERROR \<and> conn i cy' = conn i cy \<and> cy_interest cy' = cy_interest cy)"
proof -
  define cur where "cur = modify_events e op (cn_epollCurEvents (conn i cy))"
  have nz: "cn_epollCurEvents (conn i cy) \<noteq> 0 \<or> cur \<noteq> 0" using assms(4) by (auto simp: cur_def)
  from modify_connection_cases [OF assms(1,2) cur_def nz] show ?thesis
  proof (elim disjE exE conjE)
    assume m: "modify_connection i e op cy = (CO_OK, cy)" "cur = cn_epollCurEvents (conn i cy)"
      "cn_epollCurVersion (conn i cy) = cn_version (conn i cy)"
    have "ret = CO_OK" "cy' = cy" using assms(3) unfolding m(1) by simp_all
    then show ?thesis using m assms(2) by (simp add: cur_def)
  next
    fix k tbl
    assume t: "\<forall>fd. fd \<noteq> fd_of i cy \<longrightarrow> tbl fd = cy_interest cy fd"
      "watched (mark_events cur (cn_version (conn i cy)) (cur AND CO_EVENT_READ \<noteq> 0) (cur AND CO_EVENT_OUT \<noteq> 0) (conn i cy)) tbl"
      "modify_connection i e op cy =
         (if allowed cy
          then (CO_OK, upd_conn i (\<lambda>c. mark_events cur (cn_version c) (cur AND CO_EVENT_READ \<noteq> 0) (cur AND CO_EVENT_OUT \<noteq> 0) c)
                         (cy\<lparr>cy_calls := cy_calls cy @ [k], cy_interest := tbl\<rparr>))
          else (CO_ERROR, cy\<lparr>cy_calls := cy_calls cy @ [k]\<rparr>))"
    show ?thesis
    proof (cases "allowed cy")
      case False
      then have "ret = CO_ERROR" "cy' = cy\<lparr>cy_calls := cy_calls cy @ [k]\<rparr>" using t(3) assms(3) by auto
      then show ?thesis using False assms(2) by (simp add: conn_def)
    next
      case True
      let ?cy = "cy\<lparr>cy_calls := cy_calls cy @ [k], cy_interest := tbl\<rparr>"
      have "valid_id i ?cy" "conn i ?cy = conn i cy" using assms(1) by (simp_all add: valid_id_def conn_def)
      then have c: "conn i cy' = mark_events cur (cn_version (conn i cy)) (cur AND CO_EVENT_READ \<noteq> 0) (cur AND CO_EVENT_OUT \<noteq> 0) (conn i cy)"
        "ret = CO_OK" "cy_interest cy' = tbl"
        using t(3) assms(3) True by auto
      then show ?thesis using t(1,2) unfolding c cur_def by (simp add: mark_events_def)
    qed
  qed
qed

text \<open>An accepted connection of \<^term>\<open>small_cycle\<close>, before its first read.\<close>

definition accepted_cycle :: CoCycle where
  "accepted_cycle = upd_tcp 1 (new_tcp_fd 9) small_cycle"

lemma accepted_cycle_facts:
  "valid_id 1 accepted_cycle" "cn_epollCurEvents (conn 1 accepted_cycle) = 0" "cy_interest accepted_cycle = (\<lambda>_. None)"
  "allowed accepted_cycle"
  by (simp_all add: accepted_cycle_def upd_tcp_def valid_id_def small_cycle_def small_pool_def new_pool_def new_pair_def allowed_def
      conn_def upd_conn_def get_connection_accord_id_def map_conn_def new_connection_def numeral_eq_Suc)

theorem modify_connection_agrees_witness:
  "\<exists>cy'. modify_connection 1 EPOLL_EVENTS_ADD CO_EVENT_READ accepted_cycle = (CO_OK, cy')
     \<and> cn_epollCurEvents (conn 1 cy') = CO_EVENT_READ \<and> watched (conn 1 cy') (cy_interest cy')"
proof -
  obtain ret cy' where m: "modify_connection 1 EPOLL_EVENTS_ADD CO_EVENT_READ accepted_cycle = (ret, cy')" by fastforce
  have e: "modify_events EPOLL_EVENTS_ADD CO_EVENT_READ 0 = CO_EVENT_READ" "CO_EVENT_READ \<noteq> 0"
    by (simp_all add: modify_events_def CO_EVENT_READ_def epoll_bits)
  have w: "watched (conn 1 accepted_cycle) (cy_interest accepted_cycle)" unfolding watched_def accepted_cycle_facts by simp
  have n: "cn_epollCurEvents (conn 1 accepted_cycle) \<noteq> 0 \<or> modify_events EPOLL_EVENTS_ADD CO_EVENT_READ 0 \<noteq> 0"
    using e by simp
  from modify_connection_agrees [OF accepted_cycle_facts(1) w m n] e(1) accepted_cycle_facts(4) m
  show ?thesis unfolding accepted_cycle_facts(2) by auto
qed

end
