(* ===== verification/Yield.thy ===== *)
theory Yield
  imports Epoll
begin

text \<open>
  The part of \<^verbatim>\<open>core/co_dispatcher.cpp\<close> that a coroutine calls: \<open>yield\<close>, \<open>yield_thirdsocket\<close>,
  \<open>yield_timer\<close>, \<open>resume_async\<close>, \<open>resume_single_async\<close>. The development follows one coroutine;
  what runs between its being switched out and in again, the rest of the program, is the field
  \<open>w_others\<close> of a \<open>world\<close>: the state of the thread before and after, for the connection whose
  coroutine waits. Theorems state what they need of it. The other fields are the functions of the
  user of the library, by the numbers the model gives them, and the peer of a descriptor.
\<close>

record world =
  w_others :: "nat \<Rightarrow> CoCycle \<Rightarrow> CoCycle"
  w_process :: "nat \<Rightarrow> nat \<Rightarrow> CoCycle \<Rightarrow> (int \<times> CoCycle) res"
  w_destroy :: "nat \<Rightarrow> nat \<Rightarrow> CoCycle \<Rightarrow> (int \<times> CoCycle) res"
  w_peer :: "int \<Rightarrow> (string \<times> 16 word) option"

section \<open>Switching out\<close>

text \<open>\<open>yield(CoConnection*)\<close> and \<open>yield(std::pair<void*, uint32_t>&)\<close> do the same.\<close>

definition dispatcher_yield :: "world \<Rightarrow> nat \<Rightarrow> CoCycle \<Rightarrow> int \<times> CoCycle" where
  "dispatcher_yield w i cy =
     (let cy = w_others w i cy in (if cn_flagDying (conn i cy) then CO_ERROR else CO_OK, cy))"

definition dispatcher_yield_pair :: "world \<Rightarrow> nat \<times> 32 word \<Rightarrow> CoCycle \<Rightarrow> int \<times> CoCycle" where
  "dispatcher_yield_pair w coroutineData cy =
     (let i = fst coroutineData; cy = w_others w i cy in (if cn_flagDying (conn i cy) then CO_ERROR else CO_OK, cy))"

text \<open>The deferred part of \<open>yield_thirdsocket\<close>, and what it returns after the switch.\<close>

definition leave_block :: "nat \<Rightarrow> CoCycle \<Rightarrow> CoCycle" where
  "leave_block i cy =
     (let cy = upd_conn i (\<lambda>c. c\<lparr>cn_flagUseBlockConn := False\<rparr>) cy in cy\<lparr>cy_pool := reset_block i (cy_pool cy)\<rparr>)"

definition block_result :: "CoConnection \<Rightarrow> int" where
  "block_result b =
     (if cn_flagDying b then CO_EXCEPTION else if cn_flagTimedOut b then CO_TIMEOUT
      else if cn_flagPendingEof b then CO_ERROR else CO_OK)"

definition yield_thirdsocket ::
  "world \<Rightarrow> int \<Rightarrow> 32 word \<Rightarrow> int \<Rightarrow> nat \<Rightarrow> socket_phase \<Rightarrow> CoCycle \<Rightarrow> (int \<times> CoCycle) res" where
  "yield_thirdsocket w socketFd eventOP timeoutMs i phase cy =
     (case cn_blockConn (conn i cy) of
        None \<Rightarrow> Inl NullPointer
      | Some b \<Rightarrow>
          let cy = upd_conn i (\<lambda>c. c\<lparr>cn_flagUseBlockConn := True\<rparr>) cy;
              (r, t) = init_client_socketfd socketFd (w_peer w socketFd) (phase \<noteq> SOCKET_PHASE_CONNECT) (cn_coTcp (conn b cy));
              cy = upd_tcp b t cy
          in if r \<noteq> CO_OK then Inr (CO_ERROR, leave_block i cy)
             else let e = (if eventOP = CO_EVENT_READ then EVENT_TYPE_READ else EVENT_TYPE_WRITE);
                      cy = snd (modify_connection b EPOLL_EVENTS_ADD eventOP cy);
                      cy = set_timer b e timeoutMs cy;
                      cy = w_others w i cy;
                      cy = cy\<lparr>cy_curConnection := Some i\<rparr>;
                      cy = snd (modify_connection b EPOLL_EVENTS_DEL eventOP cy);
                      cy = unset_timer b e cy;
                      ret = block_result (conn b cy)
                  in Inr (ret, leave_block i cy))"

definition yield_timer :: "world \<Rightarrow> nat \<Rightarrow> nat \<Rightarrow> CoCycle \<Rightarrow> int \<times> CoCycle" where
  "yield_timer w i sleepMs cy =
     (let cy = upd_conn i (\<lambda>c. c\<lparr>cn_flagThirdFuncBlocking := True\<rparr>) cy;
          cy = set_timer i EVENT_TYPE_SLEEP (int sleepMs) cy;
          cy = w_others w i cy;
          cy = upd_conn i (\<lambda>c. c\<lparr>cn_flagThirdFuncBlocking := False\<rparr>) cy;
          cy = (if timer_is_set i EVENT_TYPE_SLEEP cy then unset_timer i EVENT_TYPE_SLEEP cy else cy)
      in (if cn_flagDying (conn i cy) then CO_ERROR else CO_OK, cy))"

section \<open>Waking a coroutine of a worker thread\<close>

text \<open>
  The state is that of the thread that owns the connection. One byte is sent to it when its queue
  was empty; \<open>sys_send\<close> decides whether the socket takes it, nothing depends on that.
\<close>

definition wake_byte :: "CoCycle \<Rightarrow> CoCycle" where
  "wake_byte cy =
     (case cy_writeResumeConnection cy of
        None \<Rightarrow> cy
      | Some i \<Rightarrow>
          let (r, s, xs) = tcp_write (cn_coTcp (conn i cy)) ''a'' (cy_out cy (fd_of i cy))
          in cy\<lparr>cy_out := (cy_out cy)(fd_of i cy := xs), cy_wire := (cy_wire cy)(fd_of i cy := cy_wire cy (fd_of i cy) @ s)\<rparr>)"

definition resume_async :: "nat \<times> 32 word \<Rightarrow> CoCycle \<Rightarrow> int \<times> CoCycle" where
  "resume_async coroutineData cy =
     (let writeSocket = (cy_waitResumes cy = []);
          cy = cy\<lparr>cy_waitResumes := cy_waitResumes cy @ [coroutineData]\<rparr>
      in (CO_OK, if writeSocket then wake_byte cy else cy))"

definition resume_single_async :: "nat \<times> 32 word \<Rightarrow> CoCycle \<Rightarrow> int \<times> CoCycle" where
  "resume_single_async coroutineData cy =
     (let writeSocket = (cy_waitSingles cy = []);
          cy = cy\<lparr>cy_waitSingles := cy_waitSingles cy @ [coroutineData]\<rparr>
      in (CO_OK, if writeSocket then wake_byte cy else cy))"

end
