(* ===== verification/Hook.thy ===== *)
theory Hook
  imports Yield
begin

text \<open>
  \<^verbatim>\<open>base/co_hook.cpp\<close>: the calls of the C library that the server replaces on its worker threads
  (a thread without a \<open>CoCycle\<close> calls the original function and is not modelled). A call that
  would block switches the coroutine out. \<open>origin\<close> is the original function; its result is
  \<open>errno\<close> or a value. On return with an error \<open>cy_errno\<close> is \<open>errno\<close>, which may be an old one.
\<close>

type_synonym 'a sys_result = "(int + 'a) \<times> CoCycle"

section \<open>Read and write\<close>

definition socket_remove_nonblock :: "int \<Rightarrow> CoCycle \<Rightarrow> CoCycle" where
  "socket_remove_nonblock fd cy = cy\<lparr>cy_files := (cy_files cy)(fd := map_option (\<lambda>f. f\<lparr>f_nonblock := False\<rparr>) (cy_files cy fd))\<rparr>"

definition socket_set_nonblock :: "int \<Rightarrow> CoCycle \<Rightarrow> CoCycle" where
  "socket_set_nonblock fd cy = cy\<lparr>cy_files := (cy_files cy)(fd := map_option (\<lambda>f. f\<lparr>f_nonblock := True\<rparr>) (cy_files cy fd))\<rparr>"

text \<open>A \<open>struct timeval\<close> as milliseconds in an \<open>int32_t\<close>, \<open>-1\<close> without a limit.\<close>

definition timeval_ms :: "(nat \<times> nat) option \<Rightarrow> int" where
  "timeval_ms tv =
     (case tv of
        None \<Rightarrow> - 1
      | Some (sec, usec) \<Rightarrow> if sec > 0 \<or> usec > 0 then wrap32 (int sec * 1000 + int (usec div 1000)) else - 1)"

definition file_timeout :: "(file_info \<Rightarrow> (nat \<times> nat) option) \<Rightarrow> int \<Rightarrow> CoCycle \<Rightarrow> int" where
  "file_timeout so fd cy = timeval_ms (case cy_files cy fd of None \<Rightarrow> None | Some f \<Rightarrow> so f)"

text \<open>What follows a call that would block: \<open>wait\<close> has switched the coroutine out and in again.\<close>

definition after_wait :: "int \<times> CoCycle \<Rightarrow> (CoCycle \<Rightarrow> 'a sys_result) \<Rightarrow> 'a sys_result" where
  "after_wait r origin =
     (let (ret, cy) = r
      in if ret \<noteq> CO_OK
         then (let cy = (if ret = CO_TIMEOUT then cy\<lparr>cy_errno := EAGAIN\<rparr> else cy) in (Inl (cy_errno cy), cy))
         else origin cy)"

definition io_inner :: "world \<Rightarrow> nat \<Rightarrow> (CoCycle \<Rightarrow> 'a sys_result) \<Rightarrow> CoCycle \<Rightarrow> 'a sys_result" where
  "io_inner w i origin cy =
     (case origin cy of
        (Inr v, cy) \<Rightarrow> (Inr v, cy)
      | (Inl e, cy) \<Rightarrow> if e = EAGAIN then after_wait (dispatcher_yield w i cy) origin else (Inl e, cy))"

definition io_third ::
  "world \<Rightarrow> nat \<Rightarrow> int \<Rightarrow> 32 word \<Rightarrow> (file_info \<Rightarrow> (nat \<times> nat) option) \<Rightarrow> (CoCycle \<Rightarrow> 'a sys_result) \<Rightarrow> CoCycle \<Rightarrow> 'a sys_result res" where
  "io_third w i fd eventOP so origin cy =
     (let cy = socket_set_nonblock fd cy
      in case origin cy of
           (Inr v, cy) \<Rightarrow> Inr (Inr v, socket_remove_nonblock fd cy)
         | (Inl e, cy) \<Rightarrow>
             if e = EAGAIN
             then bindr (yield_thirdsocket w fd eventOP (file_timeout so fd cy) i SOCKET_PHASE_NONE cy)
                    (\<lambda>r. let (v, cy) = after_wait r origin in Inr (v, socket_remove_nonblock fd cy))
             else Inr (Inl e, socket_remove_nonblock fd cy))"

text \<open>A descriptor the server does not own is handled only if it is a socket without \<open>O_NONBLOCK\<close>.\<close>

definition blocking_socket :: "int \<Rightarrow> CoCycle \<Rightarrow> bool" where
  "blocking_socket fd cy \<longleftrightarrow>
     (case cy_files cy fd of None \<Rightarrow> False | Some f \<Rightarrow> f_socket f \<and> \<not> f_nonblock f \<and> f_setfl f)"

definition read_write_mode ::
  "world \<Rightarrow> int \<Rightarrow> 32 word \<Rightarrow> (file_info \<Rightarrow> (nat \<times> nat) option) \<Rightarrow> (CoCycle \<Rightarrow> 'a sys_result) \<Rightarrow> CoCycle \<Rightarrow> 'a sys_result res" where
  "read_write_mode w fd eventOP so origin cy =
     (case cy_curConnection cy of
        None \<Rightarrow> Inl NullPointer
      | Some i \<Rightarrow>
          if cn_flagDying (conn i cy) then Inr (Inl (cy_errno cy), cy)
          else if is_inner_socketfd fd (cy_pool cy) then Inr (io_inner w i origin cy)
          else if blocking_socket fd cy then io_third w i fd eventOP so origin cy
          else Inr (origin cy))"

text \<open>The original \<open>recv\<close>, \<open>send\<close> and \<open>accept\<close> on the answers of the kernel, and the calls that replace them.\<close>

definition origin_recv :: "int \<Rightarrow> nat \<Rightarrow> CoCycle \<Rightarrow> string sys_result" where
  "origin_recv fd n cy =
     (let (r, xs) = sys_recv n (cy_in cy fd); cy = cy\<lparr>cy_in := (cy_in cy)(fd := xs)\<rparr>
      in case r of Inl e \<Rightarrow> (Inl e, cy\<lparr>cy_errno := e\<rparr>) | Inr s \<Rightarrow> (Inr s, cy))"

definition origin_send :: "int \<Rightarrow> string \<Rightarrow> CoCycle \<Rightarrow> nat sys_result" where
  "origin_send fd buf cy =
     (let (r, xs) = sys_send buf (cy_out cy fd); cy = cy\<lparr>cy_out := (cy_out cy)(fd := xs)\<rparr>
      in case r of Inl e \<Rightarrow> (Inl e, cy\<lparr>cy_errno := e\<rparr>)
         | Inr k \<Rightarrow> (Inr k, cy\<lparr>cy_wire := (cy_wire cy)(fd := cy_wire cy fd @ take k buf)\<rparr>))"

definition origin_accept :: "int \<Rightarrow> CoCycle \<Rightarrow> int sys_result" where
  "origin_accept fd cy =
     (let ((r, e), s) = syscall (cy_sys cy); cy = cy\<lparr>cy_sys := s\<rparr>
      in if r < 0 then (Inl e, cy\<lparr>cy_errno := e\<rparr>) else (Inr r, cy))"

definition hook_recv :: "world \<Rightarrow> int \<Rightarrow> nat \<Rightarrow> CoCycle \<Rightarrow> string sys_result res" where
  "hook_recv w fd n = read_write_mode w fd CO_EVENT_READ f_rcvtimeo (origin_recv fd n)"

definition hook_send :: "world \<Rightarrow> int \<Rightarrow> string \<Rightarrow> CoCycle \<Rightarrow> nat sys_result res" where
  "hook_send w fd buf = read_write_mode w fd CO_EVENT_WRITE f_sndtimeo (origin_send fd buf)"

definition hook_accept :: "world \<Rightarrow> int \<Rightarrow> CoCycle \<Rightarrow> int sys_result res" where
  "hook_accept w fd = read_write_mode w fd CO_EVENT_READ f_rcvtimeo (origin_accept fd)"

section \<open>Connect\<close>

text \<open>\<open>connect\<close> returns \<open>0\<close>, or an error in \<open>errno\<close>; \<open>EINPROGRESS\<close> waits for the socket to be writable.\<close>

definition origin_connect :: "int \<Rightarrow> CoCycle \<Rightarrow> unit sys_result" where
  "origin_connect fd cy =
     (let ((r, e), s) = syscall (cy_sys cy); cy = cy\<lparr>cy_sys := s\<rparr>
      in if r = 0 then (Inr (), cy) else (Inl e, cy\<lparr>cy_errno := e\<rparr>))"

definition socket_error :: "CoCycle \<Rightarrow> unit sys_result" where
  "socket_error cy =
     (let ((r, v), s) = syscall (cy_sys cy); cy = cy\<lparr>cy_sys := s\<rparr>
      in if r = 0 then (if v = 0 then (Inr (), cy) else (Inl v, cy\<lparr>cy_errno := v\<rparr>))
         else (Inl v, cy\<lparr>cy_errno := v\<rparr>))"

definition connect_inner :: "world \<Rightarrow> nat \<Rightarrow> int \<Rightarrow> CoCycle \<Rightarrow> unit sys_result" where
  "connect_inner w i fd cy =
     (case origin_connect fd cy of
        (Inr v, cy) \<Rightarrow> (Inr v, cy)
      | (Inl e, cy) \<Rightarrow> if e = EINPROGRESS then after_wait (dispatcher_yield w i cy) socket_error else (Inl e, cy))"

definition connect_third :: "world \<Rightarrow> nat \<Rightarrow> int \<Rightarrow> CoCycle \<Rightarrow> unit sys_result res" where
  "connect_third w i fd cy =
     (let cy = socket_set_nonblock fd cy
      in case origin_connect fd cy of
           (Inr v, cy) \<Rightarrow> Inr (Inr v, socket_remove_nonblock fd cy)
         | (Inl e, cy) \<Rightarrow>
             if e = EINPROGRESS
             then bindr (yield_thirdsocket w fd CO_EVENT_WRITE (file_timeout f_sndtimeo fd cy) i SOCKET_PHASE_CONNECT cy)
                    (\<lambda>r. let (v, cy) = after_wait r socket_error in Inr (v, socket_remove_nonblock fd cy))
             else Inr (Inl e, socket_remove_nonblock fd cy))"

text \<open>Here the code does not ask whether the descriptor is a socket.\<close>

definition hook_connect :: "world \<Rightarrow> int \<Rightarrow> CoCycle \<Rightarrow> unit sys_result res" where
  "hook_connect w fd cy =
     (case cy_curConnection cy of
        None \<Rightarrow> Inl NullPointer
      | Some i \<Rightarrow>
          if cn_flagDying (conn i cy) then Inr (Inl (cy_errno cy), cy)
          else if is_inner_socketfd fd (cy_pool cy) then Inr (connect_inner w i fd cy)
          else case cy_files cy fd of
                 None \<Rightarrow> Inr (origin_connect fd cy)
               | Some f \<Rightarrow> if f_nonblock f \<or> \<not> f_setfl f then Inr (origin_connect fd cy) else connect_third w i fd cy)"

end
