(* ===== verification/Frame.thy ===== *)
theory Frame
  imports Hook
begin

text \<open>
  What the bookkeeping of the event loop leaves alone. \<open>epoll_ctl\<close>, timers, the block connections
  and the hooked calls change events, flags, sockets and what the kernel knows; they do not change
  what a connection is used for, nor requests, servers, upstreams and the queue of the dispatcher
  (\<open>same_objects\<close>). A predicate that only depends on those and that the other coroutines keep is
  kept by every hooked call: the locale \<open>coroutine_frame\<close>.
\<close>

section \<open>What a connection is used for\<close>

definition mark :: "CoConnection \<Rightarrow> nat option \<times> cleanup list" where
  "mark c = (cn_serverControl c, cn_handlerCleanups c)"

definition ident :: "CoConnection \<Rightarrow> _" where
  "ident c = (links c, mark c, cn_version c, (cn_scoketConnTimeout c, cn_socketRcvTimeout c, cn_socketSndTimeout c, cn_keepaliveTimeout c),
     (cn_request c, cn_requestCount c), (cn_upstream c, cn_backend c, cn_startTimestamp c), cn_handler c, cn_handlerException c)"

definition pool_ident :: "CoConnectionPool \<Rightarrow> _" where
  "pool_ident p = (map ident (pl_connections p), pl_curConnectionSize p, pl_freeConnections p, pl_innerSockets p)"

definition same_objects :: "CoCycle \<Rightarrow> CoCycle \<Rightarrow> bool" where
  "same_objects cy cy' \<longleftrightarrow> pool_ident (cy_pool cy') = pool_ident (cy_pool cy) \<and> cy_serverControls cy' = cy_serverControls cy
     \<and> cy_upstreams cy' = cy_upstreams cy \<and> cy_requests cy' = cy_requests cy \<and> cy_protocols cy' = cy_protocols cy
     \<and> cy_infos cy' = cy_infos cy \<and> cy_delayConnections cy' = cy_delayConnections cy
     \<and> cy_userFuncs cy' = cy_userFuncs cy \<and> cy_nextObject cy' = cy_nextObject cy \<and> cy_conf cy' = cy_conf cy"

lemma same_objects_refl [simp]: "same_objects cy cy"
  by (simp add: same_objects_def)

lemma same_objects_trans [trans]: "same_objects a b \<Longrightarrow> same_objects b c \<Longrightarrow> same_objects a c"
  by (simp add: same_objects_def)

lemma pool_ident_map_conn:
  assumes "\<And>c. ident (f c) = ident c"
  shows "pool_ident (map_conn i f p) = pool_ident p"
proof -
  let ?xs = "pl_connections p"
  have "map ident (?xs[i - 1 := f (?xs ! (i - 1))]) = map ident ?xs"
    by (metis assms list_update_beyond list_update_id linorder_not_less map_update nth_map)
  then show ?thesis by (simp add: pool_ident_def map_conn_def)
qed

lemma ident_at:
  assumes "pool_ident p = pool_ident q" and "0 < i" and "i \<le> length (pl_connections p)"
  shows "ident (get_connection_accord_id i p) = ident (get_connection_accord_id i q)"
proof -
  have e: "map ident (pl_connections p) = map ident (pl_connections q)" using assms(1) by (simp add: pool_ident_def)
  then have "length (pl_connections p) = length (pl_connections q)" by (metis length_map)
  then have "map ident (pl_connections p) ! (i - 1) = ident (get_connection_accord_id i p)"
    "map ident (pl_connections q) ! (i - 1) = ident (get_connection_accord_id i q)"
    using assms(2,3) by (simp_all add: get_connection_accord_id_def)
  then show ?thesis using e by simp
qed

section \<open>The bookkeeping operations\<close>

lemma same_objects_upd_conn: "(\<And>c. ident (f c) = ident c) \<Longrightarrow> same_objects cy (upd_conn i f cy)"
  by (simp add: same_objects_def upd_conn_def pool_ident_map_conn)

lemma same_objects_upd_tcp: "same_objects cy (upd_tcp i t cy)"
  unfolding upd_tcp_def by (rule same_objects_upd_conn) (simp add: ident_def links_def mark_def)

lemma same_objects_epoll_ctl: "same_objects cy (snd (epoll_ctl op fd ev d cy))"
  unfolding epoll_ctl_def Let_def same_objects_def by (simp split: option.split)

lemma same_objects_mark_events: "same_objects cy (upd_conn i (\<lambda>c. mark_events ev (v c) rd wr c) cy)"
  by (rule same_objects_upd_conn) (simp add: mark_events_def ident_def mark_def links_def)

lemma same_objects_modify: "same_objects cy (snd (modify_connection i e op cy))"
  using same_objects_trans [OF same_objects_epoll_ctl same_objects_mark_events] same_objects_epoll_ctl
  unfolding modify_connection_def Let_def case_prod_beta by simp

lemma same_objects_del: "same_objects cy (snd (del_connection i cy))"
proof -
  have "same_objects cy (upd_conn i (mark_events 0 0 False False) cy)" for cy
    using same_objects_mark_events [of cy i 0 "\<lambda>_. 0" False False] by simp
  from same_objects_trans [OF same_objects_epoll_ctl this] same_objects_epoll_ctl show ?thesis
    unfolding del_connection_def Let_def case_prod_beta by simp
qed

lemma same_objects_timer: "same_objects cy (set_timer i e ms cy)" "same_objects cy (unset_timer i e cy)"
proof -
  have f: "ident (put_event e v c) = ident c" for v c
    by (simp add: put_event_def ident_def mark_def links_def split: event_type.split)
  have "same_objects cy (snd (add_timer n m ev cy))" "same_objects cy (snd (del_timer ev cy))" for n m ev
    by (simp_all add: add_timer_def del_timer_def same_objects_def)
  moreover have "same_objects a b \<Longrightarrow> same_objects a (tick b)" for a b by (simp add: same_objects_def tick_def)
  ultimately show "same_objects cy (set_timer i e ms cy)" "same_objects cy (unset_timer i e cy)"
    unfolding set_timer_def unset_timer_def Let_def case_prod_beta
    by (auto intro!: same_objects_trans [OF _ same_objects_upd_conn] f)
qed

lemma pool_ident_reset_block: "pool_ident (reset_block i p) = pool_ident p"
  by (auto simp: reset_block_def pool_ident_map_conn block_reset_def ident_def mark_def links_def split: option.split)

lemma same_objects_leave_block: "same_objects cy (leave_block i cy)"
proof -
  have "same_objects cy (upd_conn i (\<lambda>c. c\<lparr>cn_flagUseBlockConn := False\<rparr>) cy)"
    by (rule same_objects_upd_conn) (simp add: ident_def mark_def links_def)
  then show ?thesis by (simp add: leave_block_def same_objects_def Let_def pool_ident_reset_block)
qed

lemma same_objects_flags:
  "same_objects cy (socket_set_nonblock fd cy)" "same_objects cy (socket_remove_nonblock fd cy)"
  by (simp_all add: socket_set_nonblock_def socket_remove_nonblock_def same_objects_def)

lemma same_objects_origin:
  "same_objects cy (snd (origin_recv fd n cy))" "same_objects cy (snd (origin_send fd buf cy))"
  "same_objects cy (snd (origin_accept fd cy))" "same_objects cy (snd (origin_connect fd cy))"
  "same_objects cy (snd (socket_error cy))"
  unfolding origin_recv_def origin_send_def origin_accept_def origin_connect_def socket_error_def
    Let_def case_prod_beta same_objects_def
  by (simp_all split: sum.split)

lemma same_objects_tick [simp]: "same_objects cy (tick cy)"
  by (simp add: same_objects_def tick_def)

section \<open>Hooked calls\<close>

text \<open>A predicate on the objects that the other coroutines keep.\<close>

locale coroutine_frame =
  fixes w :: world and P :: "CoCycle \<Rightarrow> bool"
  assumes others: "P cy \<Longrightarrow> P (w_others w i cy)"
    and same: "P cy \<Longrightarrow> same_objects cy cy' \<Longrightarrow> P cy'"
begin

lemma frame_yield: "P cy \<Longrightarrow> P (snd (dispatcher_yield w i cy))"
  by (simp add: dispatcher_yield_def Let_def others)

lemma frame_yield_thirdsocket:
  assumes "P cy" and "yield_thirdsocket w fd op ms i ph cy = Inr (r, cy')"
  shows "P cy'"
proof -
  have f: "P (upd_conn j (\<lambda>c. c\<lparr>cn_flagUseBlockConn := b\<rparr>) cy)" if "P cy" for j b cy
    by (rule same [OF that]) (rule same_objects_upd_conn, simp add: ident_def mark_def links_def)
  have c: "P (cy\<lparr>cy_curConnection := x\<rparr>)" if "P cy" for x cy
    by (rule same [OF that]) (simp add: same_objects_def)
  note s = same [OF _ same_objects_upd_tcp] same [OF _ same_objects_modify] same [OF _ same_objects_timer(1)]
    same [OF _ same_objects_timer(2)] same [OF _ same_objects_leave_block] f c others
  show ?thesis
    using assms unfolding yield_thirdsocket_def Let_def case_prod_beta
    by (auto intro!: s split: option.splits if_splits)
qed

lemma frame_yield_timer: "P cy \<Longrightarrow> P (snd (yield_timer w i ms cy))"
proof -
  assume p: "P cy"
  have f: "P (upd_conn j (\<lambda>c. c\<lparr>cn_flagThirdFuncBlocking := b\<rparr>) cy)" if "P cy" for j b cy
    by (rule same [OF that]) (rule same_objects_upd_conn, simp add: ident_def mark_def links_def)
  note s = same [OF _ same_objects_timer(1)] same [OF _ same_objects_timer(2)] f others
  show ?thesis using p unfolding yield_timer_def Let_def by (auto intro!: s)
qed

lemma frame_after_wait:
  assumes "P (snd r)" and "\<And>cy. P cy \<Longrightarrow> P (snd (origin cy))"
  shows "P (snd (after_wait r origin))"
proof -
  have "P (cy\<lparr>cy_errno := e\<rparr>)" if "P cy" for e cy by (rule same [OF that]) (simp add: same_objects_def)
  then show ?thesis using assms by (auto simp: after_wait_def Let_def split: prod.split)
qed

lemma frame_read_write_mode:
  assumes "P cy" and "\<And>cy. P cy \<Longrightarrow> P (snd (origin cy))" and "read_write_mode w fd op so origin cy = Inr (r, cy')"
  shows "P cy'"
proof -
  note s = same [OF _ same_objects_flags(1)] same [OF _ same_objects_flags(2)]
  have inner: "P (snd (io_inner w i origin cy))" for i
    using assms(2) [OF assms(1)] frame_after_wait [OF frame_yield assms(2)]
    by (auto simp: io_inner_def split: prod.split sum.split)
  have third: "P cy'" if t: "io_third w i fd op so origin cy = Inr (r, cy')" for i
  proof -
    obtain v cy1 where o: "origin (socket_set_nonblock fd cy) = (v, cy1)" by fastforce
    have p1: "P cy1" using assms(2) [OF s(1) [OF assms(1)]] o by (metis snd_conv)
    show ?thesis
    proof (cases "v = Inl EAGAIN")
      case True
      then obtain q cy2 where q: "yield_thirdsocket w fd op (file_timeout so fd cy1) i SOCKET_PHASE_NONE cy1 = Inr (q, cy2)"
        "cy' = socket_remove_nonblock fd (snd (after_wait (q, cy2) origin))"
        using t o unfolding io_third_def Let_def by (fastforce simp: bindr_eq_Inr_conv case_prod_beta)
      show ?thesis unfolding q(2)
        by (rule s(2), rule frame_after_wait) (simp add: frame_yield_thirdsocket [OF p1 q(1)], rule assms(2))
    next
      case False
      then have "cy' = socket_remove_nonblock fd cy1" using t o by (auto simp: io_third_def split: sum.splits if_splits)
      then show ?thesis using s(2) [OF p1] by simp
    qed
  qed
  show ?thesis
    using assms(1,3) assms(2) [OF assms(1)] inner third
    by (auto simp: read_write_mode_def split: option.splits if_splits) (metis snd_conv)+
qed

end

end
