(* ===== verification/Server_Control.thy ===== *)
theory Server_Control
  imports Frame
begin

text \<open>
  \<^verbatim>\<open>core/co_server_control.cpp\<close> and \<open>free_connection\<close> of \<^verbatim>\<open>core/co_connection.cpp\<close> with the
  cleanup functions it calls: the listening sockets, which stop listening when a server has as
  many connections as its configuration allows and start again when one is given back. A
  \<open>CoServerControl*\<close> is its position in \<open>cy_serverControls\<close>; the handlers that capture \<open>this\<close> name it.
\<close>

definition MAX_ACCEPT_NUM :: int where "MAX_ACCEPT_NUM = 64"

definition control :: "nat \<Rightarrow> CoCycle \<Rightarrow> CoServerControl" where
  "control k cy = cy_serverControls cy ! k"

definition upd_control :: "nat \<Rightarrow> (CoServerControl \<Rightarrow> CoServerControl) \<Rightarrow> CoCycle \<Rightarrow> CoCycle" where
  "upd_control k f cy = cy\<lparr>cy_serverControls := (cy_serverControls cy)[k := f (control k cy)]\<rparr>"

definition new_server_control :: "CoConfServer \<Rightarrow> CoServerControl" where
  "new_server_control conf = \<lparr>sc_confServer = conf, sc_userFuncs = None, sc_listening = False,
     sc_listenConnection = None, sc_curConnectionSize = 0\<rparr>"

section \<open>The limit\<close>

definition server_limit :: "CoServerControl \<Rightarrow> int" where
  "server_limit s =
     (if sc_curConnectionSize s \<ge> sv_maxConnections (sc_confServer s) then 0
      else let newConnectionSize = MAX_ACCEPT_NUM;
               maxNewConnectionSize = sv_maxConnections (sc_confServer s) - sc_curConnectionSize s
           in if maxNewConnectionSize < newConnectionSize then maxNewConnectionSize else newConnectionSize)"

definition modify_listening :: "nat \<Rightarrow> CoCycle \<Rightarrow> CoCycle res" where
  "modify_listening k cy =
     (let s = control k cy
      in if sc_curConnectionSize s \<ge> sv_maxConnections (sc_confServer s)
         then (if sc_listening s
               then (case sc_listenConnection s of
                       None \<Rightarrow> Inl NullPointer
                     | Some i \<Rightarrow> Inr (snd (modify_connection i EPOLL_EVENTS_DEL CO_EVENT_READ
                                       (upd_control k (\<lambda>s. s\<lparr>sc_listening := False\<rparr>) cy))))
               else Inr cy)
         else (if \<not> sc_listening s
               then (case sc_listenConnection s of
                       None \<Rightarrow> Inl NullPointer
                     | Some i \<Rightarrow> Inr (snd (modify_connection i EPOLL_EVENTS_ADD CO_EVENT_READ
                                       (upd_control k (\<lambda>s. s\<lparr>sc_listening := True\<rparr>) cy))))
               else Inr cy))"

section \<open>Giving a connection back\<close>

definition func_cleanup :: "nat \<Rightarrow> CoCycle \<Rightarrow> CoCycle res" where
  "func_cleanup i cy =
     (case cn_serverControl (conn i cy) of
        None \<Rightarrow> Inl NullPointer
      | Some k \<Rightarrow> modify_listening k
          (upd_control k (\<lambda>s. s\<lparr>sc_curConnectionSize := sc_curConnectionSize s - 1\<rparr>) cy))"

fun run_cleanups :: "cleanup list \<Rightarrow> nat \<Rightarrow> CoCycle \<Rightarrow> CoCycle res" where
  "run_cleanups [] i cy = Inr cy"
| "run_cleanups (H_SERVER_CLEANUP # fs) i cy = bindr (func_cleanup i cy) (run_cleanups fs i)"

text \<open>The kernel forgets a descriptor that is closed.\<close>

definition free_connection :: "nat \<Rightarrow> CoCycle \<Rightarrow> CoCycle res" where
  "free_connection i cy =
     (let cy = (if fd_of i cy > 0 then cy\<lparr>cy_interest := (cy_interest cy)(fd_of i cy := None)\<rparr> else cy);
          cy = cy\<lparr>cy_pool := free_socket i (cy_pool cy)\<rparr>
      in bindr (run_cleanups (cn_handlerCleanups (conn i cy)) i cy)
           (\<lambda>cy. Inr (cy\<lparr>cy_pool := free_finish i (cy_pool cy)\<rparr>)))"

section \<open>Accepting\<close>

text \<open>The two \<open>get_connection\<close> on the pool of the thread.\<close>

definition cycle_get_fd :: "world \<Rightarrow> int \<Rightarrow> CoCycle \<Rightarrow> (nat option \<times> CoCycle) res" where
  "cycle_get_fd w fd cy =
     bindr (get_connection_fd fd (w_peer w fd) (now_ms cy) (cy_pool cy) (cy_sys cy))
       (\<lambda>(r, pool, s). Inr (r, tick (cy\<lparr>cy_pool := pool, cy_sys := s\<rparr>)))"

definition cycle_get_ip :: "string \<Rightarrow> 16 word \<Rightarrow> bool \<Rightarrow> CoCycle \<Rightarrow> (nat option \<times> CoCycle) res" where
  "cycle_get_ip ip port listen cy =
     bindr (get_connection_ip ip port listen (now_ms cy) (cy_pool cy) (cy_sys cy))
       (\<lambda>(r, pool, s). Inr (r, tick (cy\<lparr>cy_pool := pool, cy_sys := s\<rparr>)))"

definition server_init_connection :: "world \<Rightarrow> nat \<Rightarrow> int \<Rightarrow> CoCycle \<Rightarrow> (int \<times> CoCycle) res" where
  "server_init_connection w k socketFd cy =
     bindr (cycle_get_fd w socketFd cy)
       (\<lambda>(r, cy). case r of
          None \<Rightarrow> Inr (CO_ERROR, cy)
        | Some i \<Rightarrow>
            let conf = sc_confServer (control k cy);
                cy = upd_conn i (\<lambda>c. c\<lparr>cn_serverControl := Some k, cn_socketRcvTimeout := sv_readTimeout conf,
                       cn_socketSndTimeout := sv_writeTimeout conf, cn_keepaliveTimeout := sv_keepaliveTimeout conf,
                       cn_handler := H_REQUEST_INIT, cn_handlerCleanups := cn_handlerCleanups c @ [H_SERVER_CLEANUP]\<rparr>) cy;
                cy = upd_control k (\<lambda>s. s\<lparr>sc_curConnectionSize := sc_curConnectionSize s + 1\<rparr>) cy
            in Inr (CO_OK, push_delay i cy))"

definition conn_accept :: "world \<Rightarrow> nat \<Rightarrow> CoCycle \<Rightarrow> (int \<times> int \<times> CoCycle) res" where
  "conn_accept w i cy =
     (if fd_of i cy \<le> 0 then Inr (CO_ERROR, - 1, cy)
      else bindr (hook_accept w (fd_of i cy) cy)
             (\<lambda>(r, cy). case r of Inl _ \<Rightarrow> Inr (CO_ERROR, - 1, cy) | Inr fd \<Rightarrow> Inr (CO_OK, fd, cy)))"

fun server_accept :: "world \<Rightarrow> nat \<Rightarrow> nat \<Rightarrow> nat \<Rightarrow> CoCycle \<Rightarrow> CoCycle res" where
  "server_accept w k i 0 cy = Inr cy"
| "server_accept w k i (Suc n) cy =
     bindr (conn_accept w i cy)
       (\<lambda>(ret, fd, cy). if ret \<noteq> CO_OK then server_accept w k i n cy
          else bindr (server_init_connection w k fd cy)
                 (\<lambda>(ret, cy). if ret \<noteq> CO_OK then Inr cy else server_accept w k i n cy))"

text \<open>The handler of a listening connection: the loop ends when the limit is reached.\<close>

partial_function (option) listen_handler :: "world \<Rightarrow> nat \<Rightarrow> nat \<Rightarrow> CoCycle \<Rightarrow> CoCycle res option" where
  "listen_handler w k i cy =
     (let maxAcceptSize = server_limit (control k cy)
      in if maxAcceptSize \<noteq> 0
         then (case server_accept w k i (nat maxAcceptSize) cy of
                 Inl e \<Rightarrow> Some (Inl e)
               | Inr cy \<Rightarrow> listen_handler w k i cy)
         else Some (modify_listening k cy))"

text \<open>The listening connection only logs that its peer is gone.\<close>

definition listen_exception :: int where "listen_exception = CO_OK"

text \<open>\<open>m_userFuncs\<close> is the position of the functions in the table of \<open>add_user_handlers\<close>.\<close>

fun find_user_funcs :: "string \<Rightarrow> nat \<Rightarrow> (string \<times> CoUserFuncs) list \<Rightarrow> nat option" where
  "find_user_funcs name n [] = None"
| "find_user_funcs name n ((k, f) # xs) = (if k = name then Some n else find_user_funcs name (n + 1) xs)"

definition server_init :: "nat \<Rightarrow> CoCycle \<Rightarrow> (int \<times> CoCycle) res" where
  "server_init k cy =
     (let conf = sc_confServer (control k cy)
      in case find_user_funcs (sv_handlerName conf) 0 (cy_userFuncs cy) of
           None \<Rightarrow> Inr (CO_ERROR, cy)
         | Some u \<Rightarrow>
             bindr (cycle_get_ip (sv_listenIP conf) (sv_listenPort conf) True
                      (upd_control k (\<lambda>s. s\<lparr>sc_userFuncs := Some u\<rparr>) cy))
               (\<lambda>(r, cy). let cy = upd_control k (\<lambda>s. s\<lparr>sc_listenConnection := r\<rparr>) cy
                 in case r of
                      None \<Rightarrow> Inr (CO_ERROR, cy)
                    | Some i \<Rightarrow>
                        bindr (modify_listening k (upd_conn i (\<lambda>c. c\<lparr>cn_handler := H_LISTEN k,
                                 cn_handlerException := H_LISTEN_EXCEPTION\<rparr>) cy))
                          (\<lambda>cy. Inr (CO_OK, cy))))"

end
