(* ===== verification/Request.thy ===== *)
theory Request
  imports Server_Control
begin

text \<open>
  \<^verbatim>\<open>core/co_request.cpp\<close>, \<^verbatim>\<open>core/co_callback_request.cpp\<close>: a request of a client, from the first
  byte to the last. \<open>request_init\<close> makes the request object, \<open>request_read\<close> reads and decodes,
  \<open>request_process\<close> calls the function of the user, \<open>request_write\<close> sends the response,
  \<open>request_finalize\<close> deletes the object, and the connection waits for the next request or is
  given back. The deferred functions of \<^verbatim>\<open>co_common.h\<close> run where the destructors run: what
  \<open>co_defer\<close> says in front of what \<open>co_defer_return\<close> says.
\<close>

section \<open>Objects\<close>

definition new_object :: "CoCycle \<Rightarrow> nat \<times> CoCycle" where
  "new_object cy = (cy_nextObject cy, cy\<lparr>cy_nextObject := cy_nextObject cy + 1\<rparr>)"

definition new_request_object :: "int \<Rightarrow> CoCycle \<Rightarrow> nat \<times> CoCycle" where
  "new_request_object type cy =
     (let (r, cy) = new_object cy in (r, cy\<lparr>cy_requests := (cy_requests cy)(r \<mapsto> new_co_request type)\<rparr>))"

definition new_protocol_object :: "protocol \<Rightarrow> CoCycle \<Rightarrow> nat \<times> CoCycle" where
  "new_protocol_object p cy =
     (let (n, cy) = new_object cy in (n, cy\<lparr>cy_protocols := (cy_protocols cy)(n \<mapsto> p)\<rparr>))"

text \<open>Reading through a pointer that may be NULL or to an object that is gone.\<close>

definition deref :: "('a \<Rightarrow> 'b option) \<Rightarrow> 'a option \<Rightarrow> 'b res" where
  "deref tbl p = (case p of None \<Rightarrow> Inl NullPointer | Some a \<Rightarrow> (case tbl a of None \<Rightarrow> Inl NullPointer | Some x \<Rightarrow> Inr x))"

definition the_ref :: "'a option \<Rightarrow> 'a res" where
  "the_ref p = (case p of None \<Rightarrow> Inl NullPointer | Some a \<Rightarrow> Inr a)"

definition request_of :: "nat \<Rightarrow> CoCycle \<Rightarrow> CoRequest res" where
  "request_of r cy = deref (cy_requests cy) (Some r)"

definition upd_protocol :: "nat \<Rightarrow> protocol \<Rightarrow> CoCycle \<Rightarrow> CoCycle" where
  "upd_protocol n p cy = cy\<lparr>cy_protocols := (cy_protocols cy)(n \<mapsto> p)\<rparr>"

text \<open>\<open>~CoUpstreamInfo\<close>, \<open>~CoUserHandlerData\<close> and \<open>~CoRequest\<close>.\<close>

definition delete_info :: "nat \<Rightarrow> CoCycle \<Rightarrow> CoCycle" where
  "delete_info n cy =
     (let cy' = cy\<lparr>cy_infos := (cy_infos cy)(n := None)\<rparr>
      in case cy_infos cy n of
           None \<Rightarrow> cy
         | Some u \<Rightarrow> (case ui_protocol u of
               None \<Rightarrow> cy' | Some p \<Rightarrow> cy'\<lparr>cy_protocols := (cy_protocols cy')(p := None)\<rparr>))"

definition delete_request :: "nat \<Rightarrow> CoCycle \<Rightarrow> CoCycle" where
  "delete_request r cy =
     (case cy_requests cy r of
        None \<Rightarrow> cy
      | Some q \<Rightarrow>
          let cy = fold delete_info (ud_upstreamInfos (rq_userData q)) cy;
              cy = (case rq_protocol q of
                      Some p \<Rightarrow> if rq_flagNeedFreeProtocol q then cy\<lparr>cy_protocols := (cy_protocols cy)(p := None)\<rparr> else cy
                    | None \<Rightarrow> cy)
          in cy\<lparr>cy_requests := (cy_requests cy)(r := None)\<rparr>)"

section \<open>CoRequest\<close>

text \<open>The functions a server's requests are handled with.\<close>

definition server_funcs :: "nat \<Rightarrow> CoCycle \<Rightarrow> CoUserFuncs res" where
  "server_funcs k cy =
     (case sc_userFuncs (control k cy) of None \<Rightarrow> Inl NullPointer | Some u \<Rightarrow> Inr (snd (cy_userFuncs cy ! u)))"

definition request_start :: "nat \<Rightarrow> nat \<Rightarrow> nat \<Rightarrow> CoCycle \<Rightarrow> (int \<times> CoCycle) res" where
  "request_start r i n cy =
     bindr (deref (cy_protocols cy) (Some n))
       (\<lambda>p. let cy = upd_protocol n (protocol_set_clientip (tc_ip (cn_coTcp (conn i cy))) p) cy;
                start = now_us cy; cy = tick cy;
                rid = (cy_requestId cy + 1) mod u64_mod; cy = cy\<lparr>cy_requestId := rid\<rparr>;
                cy = upd_request r (\<lambda>q. q\<lparr>rq_connection := Some i, rq_protocol := Some n, rq_startUs := start,
                       rq_requestId := rid mod 4294967296, rq_count := rq_count q + 1,
                       rq_userData := new_user_data\<lparr>ud_protocol := Some n, ud_coroutineData := (i, cn_version (conn i cy))\<rparr>\<rparr>) cy
            in case cn_serverControl (conn i cy) of
                 None \<Rightarrow> Inr (CO_OK, cy)
               | Some k \<Rightarrow>
                   bindr (server_funcs k cy)
                     (\<lambda>u. Inr (CO_OK, upd_request r (\<lambda>q. q\<lparr>rq_userProcess := uf_userProcess u, rq_userDestroy := uf_userDestroy u,
                            rq_userData := (rq_userData q)\<lparr>ud_userData := uf_userData u\<rparr>\<rparr>) cy)))"

definition co_request_init :: "nat \<Rightarrow> nat \<Rightarrow> int \<Rightarrow> nat option \<Rightarrow> CoCycle \<Rightarrow> (int \<times> CoCycle) res" where
  "co_request_init r i protocolType protocol cy =
     (let cy = upd_conn i (\<lambda>c. c\<lparr>cn_request := Some r, cn_requestCount := cn_requestCount c + 1\<rparr>) cy
      in case protocol of
           Some n \<Rightarrow> request_start r i n cy
         | None \<Rightarrow>
             let cy = upd_request r (\<lambda>q. q\<lparr>rq_flagNeedFreeProtocol := True\<rparr>) cy
             in case create_protocol protocolType of
                  None \<Rightarrow> Inr (CO_ERROR, cy)
                | Some p \<Rightarrow> let (n, cy) = new_protocol_object p cy in request_start r i n cy)"

definition request_reset_connection :: "nat \<Rightarrow> nat \<Rightarrow> CoCycle \<Rightarrow> CoCycle" where
  "request_reset_connection r i cy =
     (let cy = upd_conn i (\<lambda>c. c\<lparr>cn_request := Some r, cn_requestCount := cn_requestCount c + 1\<rparr>) cy
      in upd_request r (\<lambda>q. q\<lparr>rq_connection := Some i,
           rq_userData := (rq_userData q)\<lparr>ud_coroutineData := (i, cn_version (conn i cy))\<rparr>\<rparr>) cy)"

section \<open>Reading and writing on a connection\<close>

text \<open>\<open>tcp_read\<close> and \<open>tcp_write\<close> with the calls that replace \<open>recv\<close> and \<open>send\<close>.\<close>

definition clear_eagain :: "int + 'a \<Rightarrow> CoCycle \<Rightarrow> CoCycle" where
  "clear_eagain r cy = (if r = Inl EAGAIN then cy\<lparr>cy_errno := 0\<rparr> else cy)"

definition conn_read :: "world \<Rightarrow> nat \<Rightarrow> nat \<Rightarrow> CoCycle \<Rightarrow> (int \<times> string \<times> CoCycle) res" where
  "conn_read w i n cy =
     (if n = 0 \<or> fd_of i cy \<le> 0 then Inr (CO_ERROR, [], cy)
      else bindr (hook_recv w (fd_of i cy) n cy)
             (\<lambda>(r, cy). let (ret, s) = tcp_read_ret r in Inr (ret, s, clear_eagain r cy)))"

definition conn_write :: "world \<Rightarrow> nat \<Rightarrow> string \<Rightarrow> CoCycle \<Rightarrow> (int \<times> CoCycle) res" where
  "conn_write w i buf cy =
     (if buf = [] \<or> fd_of i cy \<le> 0 then Inr (CO_ERROR, cy)
      else bindr (hook_send w (fd_of i cy) buf cy)
             (\<lambda>(r, cy). Inr (fst (tcp_write_ret buf r), clear_eagain r cy)))"

definition buf_of :: "nat \<Rightarrow> CoCycle \<Rightarrow> co_buffer" where
  "buf_of i cy = cn_coBuffer (conn i cy)"

definition upd_buf :: "nat \<Rightarrow> co_buffer \<Rightarrow> CoCycle \<Rightarrow> CoCycle" where
  "upd_buf i b cy = upd_conn i (\<lambda>c. c\<lparr>cn_coBuffer := b\<rparr>) cy"

text \<open>
  One round of the read loop: room for 4096 bytes, read, decode with protocol \<open>n\<close>. The first result says
  whether the loop goes on.
\<close>

definition read_decode :: "nat \<Rightarrow> nat \<Rightarrow> string \<Rightarrow> CoCycle \<Rightarrow> (bool \<times> int \<times> CoCycle) res" where
  "read_decode i n s cy =
     bindr (buffer_recv s (buf_of i cy))
       (\<lambda>b. let (ret, b) = buffer_size_expand (length s) b; cy = upd_buf i b cy
            in if ret \<noteq> CO_OK then Inr (False, ret, cy)
               else bindr (deref (cy_protocols cy) (Some n))
                      (\<lambda>p. bindr (protocol_decode p b)
                         (\<lambda>(ret, p, b). Inr (ret = CO_AGAIN, ret, upd_protocol n p (upd_buf i b cy)))))"

definition read_step :: "world \<Rightarrow> nat \<Rightarrow> nat \<Rightarrow> CoCycle \<Rightarrow> (bool \<times> int \<times> CoCycle) res" where
  "read_step w i n cy =
     bindr (buffer_expand (cy_heap cy) BUFFER_SIZE_4096 (buf_of i cy))
       (\<lambda>(ret, b). let cy = upd_buf i b cy
          in if ret \<noteq> CO_OK then Inr (False, ret, cy)
             else bindr (conn_read w i BUFFER_SIZE_4096 cy)
                    (\<lambda>(ret, s, cy). if ret < CO_OK then Inr (False, ret, cy) else read_decode i n s cy))"

partial_function (option) read_loop :: "world \<Rightarrow> nat \<Rightarrow> nat \<Rightarrow> CoCycle \<Rightarrow> (int \<times> CoCycle) res option" where
  "read_loop w i n cy =
     (case read_step w i n cy of
        Inl e \<Rightarrow> Some (Inl e)
      | Inr (goon, ret, cy) \<Rightarrow> if goon then read_loop w i n cy else Some (Inr (ret, cy)))"

text \<open>The write loop: its result is whether everything was sent.\<close>

definition write_step :: "world \<Rightarrow> nat \<Rightarrow> CoCycle \<Rightarrow> (bool \<times> bool \<times> CoCycle) res" where
  "write_step w i cy =
     (if get_buffersize (buf_of i cy) > 0
      then bindr (conn_write w i (contents (buf_of i cy)) cy)
             (\<lambda>(ret, cy). if ret > 0 then Inr (True, False, upd_buf i (snd (buffer_erase (nat ret) (buf_of i cy))) cy)
                          else Inr (False, False, cy))
      else Inr (False, True, cy))"

partial_function (option) write_loop :: "world \<Rightarrow> nat \<Rightarrow> CoCycle \<Rightarrow> (bool \<times> CoCycle) res option" where
  "write_loop w i cy =
     (case write_step w i cy of
        Inl e \<Rightarrow> Some (Inl e)
      | Inr (goon, sent, cy) \<Rightarrow> if goon then write_loop w i cy else Some (Inr (sent, cy)))"

text \<open>A loop that does not return.\<close>

definition looped :: "'a res option \<Rightarrow> 'a res" where
  "looped x = (case x of None \<Rightarrow> Inl Diverges | Some y \<Rightarrow> y)"

section \<open>The end of a request\<close>

definition drop_timer :: "nat \<Rightarrow> event_type \<Rightarrow> CoCycle \<Rightarrow> CoCycle" where
  "drop_timer i e cy = (if timer_is_set i e cy then unset_timer i e cy else cy)"

definition free_request_connection :: "nat \<Rightarrow> int \<Rightarrow> CoCycle \<Rightarrow> CoCycle res" where
  "free_request_connection i retCode cy =
     (let cy = drop_timer i EVENT_TYPE_READ (drop_timer i EVENT_TYPE_WRITE cy)
      in if retCode \<noteq> CO_OK then free_connection i (snd (del_connection i cy))
         else let cy = cy\<lparr>cy_pool := connection_reset True i (cy_pool cy)\<rparr>;
                  cy = snd (modify_connection i EPOLL_EVENTS_ADD CO_EVENT_IN cy);
                  cy = snd (modify_connection i EPOLL_EVENTS_DEL CO_EVENT_OUT cy);
                  cy = set_timer i EVENT_TYPE_READ (cn_keepaliveTimeout (conn i cy)) cy
              in Inr (upd_conn i (\<lambda>c. c\<lparr>cn_handler := H_REQUEST_INIT\<rparr>) cy))"

definition call_destroy :: "world \<Rightarrow> nat \<Rightarrow> nat option \<Rightarrow> CoCycle \<Rightarrow> CoCycle res" where
  "call_destroy w r f cy =
     (case f of None \<Rightarrow> Inr cy | Some d \<Rightarrow> bindr (w_destroy w d r cy) (\<lambda>(_, cy). Inr cy))"

definition request_finalize :: "world \<Rightarrow> nat \<Rightarrow> int \<Rightarrow> CoCycle \<Rightarrow> CoCycle res" where
  "request_finalize w r retCode cy =
     bindr (request_of r cy)
       (\<lambda>q. bindr (the_ref (rq_connection q))
          (\<lambda>i. bindr (call_destroy w r (rq_userDestroy q) cy)
             (\<lambda>cy. free_request_connection i retCode (delete_request r cy))))"

section \<open>Writing the response\<close>

definition write_done :: "nat \<Rightarrow> CoCycle \<Rightarrow> CoCycle" where
  "write_done i cy = snd (modify_connection i EPOLL_EVENTS_DEL CO_EVENT_OUT (unset_timer i EVENT_TYPE_WRITE cy))"

text \<open>The buffer is emptied if it holds anything, then the message is encoded; the result of \<open>encode\<close> is not looked at.\<close>

definition encode_message :: "nat \<Rightarrow> nat option \<Rightarrow> CoCycle \<Rightarrow> CoCycle res" where
  "encode_message i n cy =
     bindr (the_ref n)
       (\<lambda>n. bindr (deref (cy_protocols cy) (Some n))
          (\<lambda>p. let b = (if get_buffersize (buf_of i cy) > 0 then buffer_reset (buf_of i cy) else buf_of i cy)
               in bindr (protocol_encode (cy_itr cy) (cy_heap cy) (tc_ipport (cn_coTcp (conn i cy))) p b)
                    (\<lambda>(ret, p, b). Inr (upd_protocol n p (upd_buf i b cy)))))"

definition elapsed_us :: "(CoRequest \<Rightarrow> nat) \<Rightarrow> CoRequest \<Rightarrow> CoCycle \<Rightarrow> nat" where
  "elapsed_us start q cy = u64_sub (now_us cy) (start q)"

definition request_write :: "world \<Rightarrow> nat \<Rightarrow> int \<Rightarrow> CoCycle \<Rightarrow> CoCycle res" where
  "request_write w r retCode cy =
     bindr (request_of r cy)
       (\<lambda>q. bindr (the_ref (rq_connection q))
          (\<lambda>i. let cy = set_timer i EVENT_TYPE_WRITE (cn_socketSndTimeout (conn i cy)) cy;
                   (ret, cy) = modify_connection i EPOLL_EVENTS_ADD CO_EVENT_OUT cy
               in if ret \<noteq> CO_OK then request_finalize w r CO_ERROR (write_done i cy)
                  else bindr (encode_message i (rq_protocol q) cy)
                         (\<lambda>cy. bindr (looped (write_loop w i cy))
                            (\<lambda>(sent, cy).
                               if \<not> sent then request_finalize w r CO_ERROR (write_done i cy)
                               else let cy = upd_request r (\<lambda>q. q\<lparr>rq_writeUs := elapsed_us rq_startUs q cy\<rparr>) cy
                                    in request_finalize w r retCode (write_done i (tick cy))))))"

section \<open>Reading and processing the request\<close>

definition call_process :: "world \<Rightarrow> nat \<Rightarrow> nat option \<Rightarrow> CoCycle \<Rightarrow> (int \<times> CoCycle) res" where
  "call_process w r f cy = (case f of None \<Rightarrow> Inl BadFunctionCall | Some p \<Rightarrow> w_process w p r cy)"

definition request_process :: "world \<Rightarrow> nat \<Rightarrow> CoCycle \<Rightarrow> CoCycle res" where
  "request_process w r cy =
     bindr (request_of r cy)
       (\<lambda>q. bindr (the_ref (rq_connection q))
          (\<lambda>i. let cy = set_timer i EVENT_TYPE_READ (cn_keepaliveTimeout (conn i cy)) cy
               in bindr (call_process w r (rq_userProcess q) cy)
                    (\<lambda>(ret, cy).
                       let cy = tick (upd_request r (\<lambda>q. q\<lparr>rq_processUs := elapsed_us rq_startUs q cy\<rparr>) cy);
                           cy = unset_timer i EVENT_TYPE_READ cy
                       in request_write w r ret cy)))"

definition read_done :: "nat \<Rightarrow> CoCycle \<Rightarrow> CoCycle" where
  "read_done i cy = snd (modify_connection i EPOLL_EVENTS_DEL CO_EVENT_IN (unset_timer i EVENT_TYPE_READ cy))"

text \<open>\<open>m_readUs\<close> is set when the message is complete.\<close>

definition read_time :: "nat \<Rightarrow> int \<Rightarrow> CoCycle \<Rightarrow> CoCycle" where
  "read_time r ret cy =
     (if ret = CO_OK then tick (upd_request r (\<lambda>q. q\<lparr>rq_readUs := elapsed_us rq_startUs q cy\<rparr>) cy) else cy)"

definition request_read :: "world \<Rightarrow> nat \<Rightarrow> CoCycle \<Rightarrow> CoCycle res" where
  "request_read w r cy =
     bindr (request_of r cy)
       (\<lambda>q. bindr (the_ref (rq_connection q))
          (\<lambda>i. bindr (the_ref (rq_protocol q))
             (\<lambda>n. let cy = set_timer i EVENT_TYPE_READ (cn_socketRcvTimeout (conn i cy)) cy;
                      (ret, cy) = modify_connection i EPOLL_EVENTS_ADD CO_EVENT_READ cy
                  in if ret \<noteq> CO_OK then request_write w r CO_ERROR (read_done i cy)
                     else bindr (looped (read_loop w i n cy))
                            (\<lambda>(ret, cy). let cy = read_done i (read_time r ret cy)
                               in if ret \<noteq> CO_OK then request_write w r CO_ERROR cy else request_process w r cy))))"

definition request_init :: "world \<Rightarrow> nat \<Rightarrow> CoCycle \<Rightarrow> CoCycle res" where
  "request_init w i cy =
     (let cy = drop_timer i EVENT_TYPE_READ cy;
          (r, cy) = new_request_object CO_REQUEST_NORMAL cy
      in case cn_serverControl (conn i cy) of
           None \<Rightarrow> Inl NullPointer
         | Some k \<Rightarrow>
             bindr (co_request_init r i (sv_serverType (sc_confServer (control k cy))) None cy)
               (\<lambda>(ret, cy). if ret \<noteq> CO_OK then request_write w r CO_ERROR cy else request_read w r cy))"

end
