(* ===== verification/Upstream.thy ===== *)
theory Upstream
  imports Request
begin

text \<open>
  \<^verbatim>\<open>upstream/co_upstream.cpp\<close> and \<^verbatim>\<open>upstream/co_callback_upstream.cpp\<close>: the connections to other
  servers and the sub-requests on them. \<open>add_upstream\<close> hangs a sub-request onto a request,
  \<open>run_upstreams\<close> lets the coroutine of the request wait for all of them, \<open>upstream_init\<close> to
  \<open>upstream_finalize\<close> are a sub-request's own coroutine; a failed one is tried again with another
  connection as often as the configuration allows. A \<open>CoUpstream*\<close> is its name, the key of
  \<open>cy_upstreams\<close>; a \<open>CoUserHandlerData*\<close> is the number of the request it belongs to.
\<close>

section \<open>The pool of upstreams\<close>

definition find_upstream :: "string \<Rightarrow> CoCycle \<Rightarrow> CoUpstream option" where
  "find_upstream name cy = map_of (cy_upstreams cy) name"

definition upd_upstream :: "string \<Rightarrow> (CoUpstream \<Rightarrow> CoUpstream) \<Rightarrow> CoCycle \<Rightarrow> CoCycle" where
  "upd_upstream name f cy = cy\<lparr>cy_upstreams := map (\<lambda>(k, u). (k, if k = name then f u else u)) (cy_upstreams cy)\<rparr>"

definition new_upstream :: "CoConfUpstream \<Rightarrow> CoUpstream" where
  "new_upstream conf = \<lparr>ups_confUpstream = conf, ups_backendStrategy = new_strategy, ups_curConnectionSize = 0,
     ups_reuseConnections = \<lambda>_. []\<rparr>"

fun add_backends :: "CoConfUpstream \<Rightarrow> CoConfUpstreamServer list \<Rightarrow> CoBackendStrategyWRR \<Rightarrow> int \<times> CoBackendStrategyWRR" where
  "add_backends conf [] st = (CO_OK, st)"
| "add_backends conf (s # ss) st =
     (let (ret, st) = add_backend conf s st in if ret \<noteq> CO_OK then (CO_ERROR, st) else add_backends conf ss st)"

definition upstream_setup :: "CoConfUpstream \<Rightarrow> (int \<times> CoUpstream) res" where
  "upstream_setup conf =
     (let u = new_upstream conf
      in if up_loadBalance conf \<noteq> UPSTREAM_LOAD_BALANCE_WRR then Inr (CO_ERROR, u)
         else let (ret, st) = add_backends conf (up_upstreamServers conf) new_strategy
              in if ret \<noteq> CO_OK then Inr (CO_ERROR, u\<lparr>ups_backendStrategy := st\<rparr>)
                 else bindr (init_strategy st)
                        (\<lambda>(ret, st). Inr (if ret \<noteq> CO_OK then CO_ERROR else CO_OK, u\<lparr>ups_backendStrategy := st\<rparr>)))"

fun upstream_pool_init :: "CoConfUpstream list \<Rightarrow> CoCycle \<Rightarrow> (int \<times> CoCycle) res" where
  "upstream_pool_init [] cy = Inr (CO_OK, cy)"
| "upstream_pool_init (conf # confs) cy =
     (if find_upstream (up_name conf) cy \<noteq> None then upstream_pool_init confs cy
      else bindr (upstream_setup conf)
             (\<lambda>(ret, u). upstream_pool_init confs
                (if ret \<noteq> CO_OK then cy else cy\<lparr>cy_upstreams := cy_upstreams cy @ [(up_name conf, u)]\<rparr>)))"

section \<open>Taking a connection\<close>

text \<open>
  The clock readings of \<open>get_backend\<close>: one per backend, in the order of the calls. Round robin counts
  the rounds down.
\<close>

definition backend_clock :: "CoBackendStrategyWRR \<Rightarrow> CoCycle \<Rightarrow> nat \<Rightarrow> nat" where
  "backend_clock st cy k =
     (let j = (if s_weighted st then k else length (s_backends st) - 1 - k)
      in cy_clock cy (cy_tick cy + j) div 1000 mod u64_mod)"

definition upstream_backend :: "string \<Rightarrow> CoUpstream \<Rightarrow> CoCycle \<Rightarrow> (nat option \<times> CoCycle) res" where
  "upstream_backend name u cy =
     bindr (get_backend (backend_clock (ups_backendStrategy u) cy) (ups_backendStrategy u))
       (\<lambda>(b, st). Inr (b, upd_upstream name (\<lambda>u. u\<lparr>ups_backendStrategy := st\<rparr>)
                           (cy\<lparr>cy_tick := cy_tick cy + length (s_backends (ups_backendStrategy u))\<rparr>)))"

definition backend_at :: "CoUpstream \<Rightarrow> nat \<Rightarrow> CoBackendWRR" where
  "backend_at u b = s_backends (ups_backendStrategy u) ! b"

definition serverkey_at :: "CoUpstream \<Rightarrow> nat \<Rightarrow> string" where
  "serverkey_at u b = us_serverkey (b_confUpstreamServer (backend_at u b))"

definition take_reused :: "string \<Rightarrow> string \<Rightarrow> CoCycle \<Rightarrow> CoCycle" where
  "take_reused name key = upd_upstream name (\<lambda>u. u\<lparr>ups_reuseConnections := (ups_reuseConnections u)(key := tl (ups_reuseConnections u key))\<rparr>)"

text \<open>\<open>m_connectionPool->get_connection(host, port)\<close>, and what follows it.\<close>

definition upstream_new_connection :: "string \<Rightarrow> CoUpstream \<Rightarrow> nat \<Rightarrow> CoCycle \<Rightarrow> (nat option \<times> CoCycle) res" where
  "upstream_new_connection name u b cy =
     (let server = b_confUpstreamServer (backend_at u b)
      in if ups_curConnectionSize u \<ge> up_maxConnections (ups_confUpstream u) then Inr (None, cy)
         else bindr (cycle_get_ip (us_host server) (word_of_int (us_port server)) False cy)
                (\<lambda>(r, cy). case r of
                   None \<Rightarrow> Inr (None, cy)
                 | Some i \<Rightarrow> Inr (Some i, tick (upd_conn i (\<lambda>c. c\<lparr>cn_startTimestamp := now_ms cy\<rparr>)
                      (upd_upstream name (\<lambda>u. u\<lparr>ups_curConnectionSize := ups_curConnectionSize u + 1\<rparr>) cy)))))"

definition upstream_get_connection :: "string \<Rightarrow> CoUpstream \<Rightarrow> CoCycle \<Rightarrow> (nat option \<times> CoCycle) res" where
  "upstream_get_connection name u cy =
     bindr (upstream_backend name u cy)
       (\<lambda>(b, cy). case b of
          None \<Rightarrow> Inr (None, cy)
        | Some b \<Rightarrow>
            bindr (case ups_reuseConnections u (serverkey_at u b) of
                     i # _ \<Rightarrow> Inr (Some i, take_reused name (serverkey_at u b) cy)
                   | [] \<Rightarrow> upstream_new_connection name u b cy)
              (\<lambda>(r, cy). case r of
                 None \<Rightarrow> Inr (None, cy)
               | Some i \<Rightarrow> Inr (Some i, upd_conn i (\<lambda>c. c\<lparr>cn_upstream := Some name, cn_backend := Some b\<rparr>) cy)))"

definition get_upstream_connection :: "string \<Rightarrow> CoCycle \<Rightarrow> (nat option \<times> CoCycle) res" where
  "get_upstream_connection name cy =
     (case find_upstream name cy of
        None \<Rightarrow> Inr (None, cy)
      | Some u \<Rightarrow>
          bindr (upstream_get_connection name u cy)
            (\<lambda>(r, cy). case r of
               None \<Rightarrow> Inr (None, cy)
             | Some i \<Rightarrow>
                 let conf = ups_confUpstream u
                 in Inr (Some i, upd_conn i (\<lambda>c. c\<lparr>cn_scoketConnTimeout := up_connTimeout conf,
                      cn_socketRcvTimeout := up_readTimeout conf, cn_socketSndTimeout := up_writeTimeout conf,
                      cn_keepaliveTimeout := up_keepaliveTimeout conf, cn_handler := H_UPSTREAM_INIT\<rparr>) cy)))"

section \<open>Giving a connection back\<close>

text \<open>The last element that passes, which the reverse iteration finds first, leaves the list.\<close>

definition remove_last :: "('a \<Rightarrow> bool) \<Rightarrow> 'a list \<Rightarrow> 'a list" where
  "remove_last P xs =
     (let (behind, front) = (takeWhile (\<lambda>x. \<not> P x) (rev xs), dropWhile (\<lambda>x. \<not> P x) (rev xs)) in rev (behind @ tl front))"

text \<open>Whether it has to be closed: the result also says whether the failure counts for the backend.\<close>

definition waits_for_reuse :: "nat \<Rightarrow> string \<Rightarrow> CoUpstream \<Rightarrow> CoCycle \<Rightarrow> bool" where
  "waits_for_reuse i key u cy \<longleftrightarrow> (\<exists>j\<in>set (ups_reuseConnections u key). cn_connId (conn j cy) = cn_connId (conn i cy))"

definition forget_reused :: "nat \<Rightarrow> string \<Rightarrow> string \<Rightarrow> CoCycle \<Rightarrow> CoCycle" where
  "forget_reused i name key cy =
     upd_upstream name (\<lambda>u. u\<lparr>ups_reuseConnections := (ups_reuseConnections u)
       (key := remove_last (\<lambda>j. cn_connId (conn j cy) = cn_connId (conn i cy)) (ups_reuseConnections u key))\<rparr>) cy"

definition backend_failed :: "string \<Rightarrow> CoUpstream \<Rightarrow> nat \<Rightarrow> CoCycle \<Rightarrow> CoCycle res" where
  "backend_failed name u b cy =
     bindr (wrr_comm_failed (now_ms cy) (backend_at u b))
       (\<lambda>bk. Inr (tick (upd_upstream name (\<lambda>u. u\<lparr>ups_backendStrategy := (ups_backendStrategy u)
                 \<lparr>s_backends := (s_backends (ups_backendStrategy u))[b := bk]\<rparr>\<rparr>) cy)))"

definition used_up :: "CoConfUpstream \<Rightarrow> CoConnection \<Rightarrow> bool" where
  "used_up conf c \<longleftrightarrow> up_connectionMaxRequest conf \<noteq> 0 \<and> sint (cn_requestCount c) \<ge> up_connectionMaxRequest conf"

definition too_old :: "CoConfUpstream \<Rightarrow> CoConnection \<Rightarrow> CoCycle \<Rightarrow> bool" where
  "too_old conf c cy \<longleftrightarrow> up_connectionMaxTime conf \<noteq> 0 \<and> elapsed (now_ms cy) (cn_startTimestamp c) \<ge> up_connectionMaxTime conf"

text \<open>The decision: \<open>True\<close> to close.\<close>

definition upstream_check :: "nat \<Rightarrow> string \<Rightarrow> CoUpstream \<Rightarrow> nat \<Rightarrow> int \<Rightarrow> CoCycle \<Rightarrow> (bool \<times> CoCycle) res" where
  "upstream_check i name u b retCode cy =
     (let key = serverkey_at u b; conf = ups_confUpstream u
      in if retCode = CO_EXCEPTION \<and> waits_for_reuse i key u cy then Inr (True, forget_reused i name key cy)
         else if retCode \<noteq> CO_OK then bindr (backend_failed name u b cy) (\<lambda>cy. Inr (True, cy))
         else if used_up conf (conn i cy) then Inr (True, cy)
         else Inr (too_old conf (conn i cy) cy, if up_connectionMaxTime conf \<noteq> 0 then tick cy else cy))"

definition upstream_close :: "nat \<Rightarrow> string \<Rightarrow> CoCycle \<Rightarrow> CoCycle res" where
  "upstream_close i name cy =
     free_connection i (snd (del_connection i
       (upd_upstream name (\<lambda>u. u\<lparr>ups_curConnectionSize := ups_curConnectionSize u - 1\<rparr>) cy)))"

definition upstream_keep :: "nat \<Rightarrow> string \<Rightarrow> string \<Rightarrow> CoCycle \<Rightarrow> CoCycle" where
  "upstream_keep i name key cy =
     (let cy = cy\<lparr>cy_pool := connection_reset True i (cy_pool cy)\<rparr>;
          cy = snd (modify_connection i EPOLL_EVENTS_DEL (CO_EVENT_IN OR CO_EVENT_OUT) cy);
          cy = set_timer i EVENT_TYPE_READ (cn_keepaliveTimeout (conn i cy)) cy
      in upd_upstream name (\<lambda>u. u\<lparr>ups_reuseConnections := (ups_reuseConnections u)(key := i # ups_reuseConnections u key)\<rparr>) cy)"

definition free_upstream_connection :: "nat \<Rightarrow> int \<Rightarrow> CoCycle \<Rightarrow> CoCycle res" where
  "free_upstream_connection i retCode cy =
     bindr (the_ref (cn_upstream (conn i cy)))
       (\<lambda>name. bindr (the_ref (find_upstream name cy))
          (\<lambda>u. bindr (the_ref (cn_backend (conn i cy)))
             (\<lambda>b. bindr (upstream_check i name u b retCode cy)
                (\<lambda>(closeConnection, cy).
                   let cy = drop_timer i EVENT_TYPE_WRITE (drop_timer i EVENT_TYPE_READ cy)
                   in if closeConnection then upstream_close i name cy
                      else Inr (upstream_keep i name (serverkey_at u b) cy)))))"

end
