(* ===== verification/Subrequest.thy ===== *)
theory Subrequest
  imports Upstream
begin

text \<open>
  \<^verbatim>\<open>upstream/co_callback_upstream.cpp\<close> and the part of \<^verbatim>\<open>upstream/co_upstream.cpp\<close> that starts
  sub-requests. A request and its sub-requests are joined by a counter: \<open>rq_count\<close> of the parent is
  one more than the number of its sub-requests that have not ended, and the last one to end puts the
  parent into the dispatcher's queue. The loops of reading and writing are those of \<open>Request\<close>.
\<close>

section \<open>The end of a sub-request\<close>

text \<open>\<open>m_requestType & CO_REQUEST_DETACH\<close>.\<close>

definition detached :: "CoRequest \<Rightarrow> bool" where
  "detached q \<longleftrightarrow> (word_of_int (rq_requestType q) :: 32 word) AND word_of_int CO_REQUEST_DETACH \<noteq> 0"

definition upd_info :: "nat \<Rightarrow> (CoUpstreamInfo \<Rightarrow> CoUpstreamInfo) \<Rightarrow> CoCycle \<Rightarrow> CoCycle" where
  "upd_info n f cy = cy\<lparr>cy_infos := (cy_infos cy)(n := map_option f (cy_infos cy n))\<rparr>"

text \<open>The sub-request leaves its parent, which is woken if it was the last.\<close>

definition leave_parent :: "CoRequest \<Rightarrow> CoCycle \<Rightarrow> CoCycle res" where
  "leave_parent q cy =
     bindr (the_ref (rq_parent q))
       (\<lambda>p. bindr (request_of p cy)
          (\<lambda>parent.
             let cy = upd_request p (\<lambda>x. x\<lparr>rq_upstreamRequests := filter (\<lambda>(k, _). k \<noteq> rq_requestId q) (rq_upstreamRequests x),
                        rq_count := rq_count x - 1\<rparr>) cy
             in if rq_count parent - 1 = 1
                then bindr (the_ref (rq_connection parent)) (\<lambda>i. Inr (push_delay i cy))
                else Inr cy))"

definition upstream_finalize_request :: "world \<Rightarrow> nat \<Rightarrow> int \<Rightarrow> CoCycle \<Rightarrow> CoCycle res" where
  "upstream_finalize_request w r retCode cy =
     bindr (request_of r cy)
       (\<lambda>q. bindr (deref (cy_infos cy) (rq_upstreamInfo q))
          (\<lambda>_. bindr (the_ref (rq_upstreamInfo q))
             (\<lambda>n. let cy = tick (upd_info n (\<lambda>u. u\<lparr>ui_useTimeUs := elapsed_us rq_startUs q cy mod 4294967296, ui_status := retCode\<rparr>) cy)
                  in bindr (call_destroy w r (rq_userDestroy q) cy)
                       (\<lambda>cy. bindr (request_of r cy)
                          (\<lambda>q. bindr (if detached q then Inr cy else leave_parent q cy)
                             (\<lambda>cy. Inr (delete_request r cy)))))))"

section \<open>Trying again\<close>

definition retry_upstream :: "world \<Rightarrow> nat \<Rightarrow> string \<Rightarrow> CoCycle \<Rightarrow> CoCycle res" where
  "retry_upstream w r name cy =
     (let cy = upd_request r (\<lambda>q. q\<lparr>rq_retryTimes := rq_retryTimes q + 1\<rparr>) cy
      in bindr (get_upstream_connection name cy)
           (\<lambda>(c, cy). case c of
              None \<Rightarrow> upstream_finalize_request w r CO_ERROR (upd_request r (\<lambda>q. q\<lparr>rq_connection := None\<rparr>) cy)
            | Some i \<Rightarrow>
                let cy = request_reset_connection r i cy
                in bindr (request_of r cy)
                     (\<lambda>q. bindr (deref (cy_protocols cy) (rq_protocol q))
                        (\<lambda>p. bindr (the_ref (rq_protocol q))
                           (\<lambda>n. Inr (push_delay i (upd_protocol n (protocol_reset_respmsg p) cy)))))))"

definition upstream_finalize :: "world \<Rightarrow> nat \<Rightarrow> int \<Rightarrow> CoCycle \<Rightarrow> CoCycle res" where
  "upstream_finalize w r retCode cy =
     bindr (request_of r cy)
       (\<lambda>q. bindr (the_ref (rq_connection q))
          (\<lambda>i. bindr (the_ref (cn_upstream (conn i cy)))
             (\<lambda>name. bindr (the_ref (find_upstream name cy))
                (\<lambda>u. if \<not> cn_flagParentDying (conn i cy) \<and> retCode \<noteq> CO_OK
                         \<and> up_retryMaxnum (ups_confUpstream u) > rq_retryTimes q
                      then bindr (free_upstream_connection i retCode cy)
                             (\<lambda>cy. retry_upstream w r (up_name (ups_confUpstream u)) cy)
                      else bindr (upstream_finalize_request w r retCode cy)
                             (\<lambda>cy. free_upstream_connection i retCode cy)))))"

section \<open>The coroutine of a sub-request\<close>

definition upstream_process :: "world \<Rightarrow> nat \<Rightarrow> CoCycle \<Rightarrow> CoCycle res" where
  "upstream_process w i cy =
     bindr (the_ref (cn_request (conn i cy)))
       (\<lambda>r. bindr (request_of r cy)
          (\<lambda>q. case rq_userProcess q of
                 None \<Rightarrow> upstream_finalize w r CO_OK cy
               | Some f \<Rightarrow>
                   bindr (w_process w f r (set_timer i EVENT_TYPE_READ (cn_keepaliveTimeout (conn i cy)) cy))
                     (\<lambda>(ret, cy).
                        let cy = tick (upd_request r (\<lambda>q. q\<lparr>rq_processUs := elapsed_us rq_startUs q cy\<rparr>) cy)
                        in upstream_finalize w r ret (unset_timer i EVENT_TYPE_READ cy))))"

definition upstream_read :: "world \<Rightarrow> nat \<Rightarrow> CoCycle \<Rightarrow> CoCycle res" where
  "upstream_read w i cy =
     bindr (the_ref (cn_request (conn i cy)))
       (\<lambda>r. let cy = set_timer i EVENT_TYPE_READ (cn_socketRcvTimeout (conn i cy)) cy;
                (ret, cy) = modify_connection i EPOLL_EVENTS_ADD CO_EVENT_IN cy
            in if ret \<noteq> CO_OK then upstream_finalize w r CO_ERROR (read_done i cy)
               else bindr (request_of r cy)
                      (\<lambda>q. bindr (the_ref (rq_protocol q))
                         (\<lambda>n. bindr (looped (read_loop w i n cy))
                            (\<lambda>(ret, cy). let cy = read_done i (read_time r ret cy)
                               in if ret = CO_OK then upstream_process w i cy else upstream_finalize w r ret cy))))"

text \<open>The deferred part of \<open>upstream_write\<close> may end the request itself; what comes behind it runs all the same.\<close>

definition upstream_write_done :: "world \<Rightarrow> nat \<Rightarrow> nat \<Rightarrow> CoCycle \<Rightarrow> CoCycle res" where
  "upstream_write_done w i r cy =
     (let (ret, cy) = modify_connection i EPOLL_EVENTS_DEL CO_EVENT_OUT (unset_timer i EVENT_TYPE_WRITE cy)
      in if ret \<noteq> CO_OK then upstream_finalize w r CO_ERROR cy else Inr cy)"

definition upstream_write :: "world \<Rightarrow> nat \<Rightarrow> CoCycle \<Rightarrow> CoCycle res" where
  "upstream_write w i cy =
     bindr (the_ref (cn_request (conn i cy)))
       (\<lambda>r. let cy = set_timer i EVENT_TYPE_WRITE (cn_socketSndTimeout (conn i cy)) cy;
                (ret, cy) = modify_connection i EPOLL_EVENTS_ADD CO_EVENT_OUT cy
            in if ret \<noteq> CO_OK then bindr (upstream_write_done w i r cy) (upstream_finalize w r CO_ERROR)
               else bindr (request_of r cy)
                      (\<lambda>q. bindr (encode_message i (rq_protocol q) cy)
                         (\<lambda>cy. bindr (looped (write_loop w i cy))
                            (\<lambda>(sent, cy).
                               if \<not> sent then bindr (upstream_write_done w i r cy) (upstream_finalize w r CO_ERROR)
                               else let cy = tick (upd_request r (\<lambda>q. q\<lparr>rq_writeUs := elapsed_us rq_startUs q cy\<rparr>) cy)
                                    in bindr (upstream_write_done w i r cy) (upstream_read w i)))))"

text \<open>\<open>CoTCP::client_connect\<close> with the call that replaces \<open>connect\<close>.\<close>

definition conn_connect :: "world \<Rightarrow> nat \<Rightarrow> CoCycle \<Rightarrow> (int \<times> CoCycle) res" where
  "conn_connect w i cy =
     (if \<not> can_connect (cn_coTcp (conn i cy)) then Inr (CO_ERROR, cy)
      else bindr (hook_connect w (fd_of i cy) cy)
             (\<lambda>(r, cy). let (ret, t) = (case r of Inl e \<Rightarrow> connect_ret (- 1) e (cn_coTcp (conn i cy))
                                        | Inr _ \<Rightarrow> connect_ret 0 0 (cn_coTcp (conn i cy)))
                        in Inr (ret, upd_tcp i t cy)))"

definition upstream_init :: "world \<Rightarrow> nat \<Rightarrow> CoCycle \<Rightarrow> CoCycle res" where
  "upstream_init w i cy =
     bindr (the_ref (cn_request (conn i cy)))
       (\<lambda>r. bindr
          (if ev_flagActive (cn_readEvent (conn i cy)) then Inr (CO_OK, unset_timer i EVENT_TYPE_READ cy)
           else let cy = set_timer i EVENT_TYPE_WRITE (cn_scoketConnTimeout (conn i cy)) cy;
                    (ret, cy) = modify_connection i EPOLL_EVENTS_ADD CO_EVENT_WRITE cy
                in if ret \<noteq> CO_OK then Inr (CO_ERROR, unset_timer i EVENT_TYPE_WRITE cy)
                   else bindr (conn_connect w i cy)
                          (\<lambda>(ret, cy). Inr (if ret \<noteq> CO_OK then CO_ERROR else CO_OK, unset_timer i EVENT_TYPE_WRITE cy)))
          (\<lambda>(ret, cy).
             if ret \<noteq> CO_OK then upstream_finalize w r CO_ERROR cy
             else bindr (request_of r cy)
                    (\<lambda>q. upstream_write w i (tick (upd_request r (\<lambda>q. q\<lparr>rq_connectUs := elapsed_us rq_startUs q cy\<rparr>) cy)))))"

section \<open>Starting sub-requests\<close>

definition new_info_object :: "nat \<Rightarrow> CoCycle \<Rightarrow> nat \<times> CoCycle" where
  "new_info_object protocol cy =
     (let (n, cy) = new_object cy in (n, cy\<lparr>cy_infos := (cy_infos cy)(n \<mapsto> new_upstream_info protocol)\<rparr>))"

definition put_pending :: "nat \<Rightarrow> nat \<Rightarrow> CoRequest \<Rightarrow> CoRequest" where
  "put_pending k u q = q\<lparr>rq_upstreamRequests := (k, u) # filter (\<lambda>(k', _). k' \<noteq> k) (rq_upstreamRequests q), rq_count := rq_count q + 1\<rparr>"

definition add_upstream :: "world \<Rightarrow> nat \<Rightarrow> string \<Rightarrow> int \<Rightarrow> CoCycle \<Rightarrow> (int \<times> CoCycle) res" where
  "add_upstream w d name protocolType cy =
     bindr (request_of d cy)
       (\<lambda>qd. let request = cn_request (conn (fst (ud_coroutineData (rq_userData qd))) cy)
        in bindr (get_upstream_connection name cy)
          (\<lambda>(c, cy). case c of
             None \<Rightarrow> Inr (CO_ERROR, cy)
           | Some i \<Rightarrow>
               (case create_protocol protocolType of
                  None \<Rightarrow> bindr (free_upstream_connection i CO_ERROR cy) (\<lambda>cy. Inr (CO_ERROR, cy))
                | Some p \<Rightarrow>
                    let (n, cy) = new_protocol_object p cy;
                        (info, cy) = new_info_object n cy;
                        cy = upd_request d (\<lambda>q. q\<lparr>rq_userData := (rq_userData q)
                               \<lparr>ud_upstreamInfos := ud_upstreamInfos (rq_userData q) @ [info]\<rparr>\<rparr>) cy;
                        (u, cy) = new_request_object CO_REQUEST_UPSTREAM cy
                    in bindr (co_request_init u i protocolType (Some n) cy)
                         (\<lambda>(ret, cy).
                            if ret \<noteq> CO_OK then bindr (upstream_finalize w u CO_ERROR cy) (\<lambda>cy. Inr (CO_ERROR, cy))
                            else bindr (the_ref request)
                                   (\<lambda>r. let cy = upd_request u (\<lambda>q. q\<lparr>rq_userProcess := None, rq_parent := Some r,
                                                   rq_upstreamInfo := Some info\<rparr>) cy
                                        in bindr (request_of r cy)
                                             (\<lambda>_. bindr (request_of u cy)
                                                (\<lambda>qu. Inr (CO_OK, push_delay i (upd_request r (put_pending (rq_requestId qu) u) cy)))))))))"

definition run_upstreams :: "world \<Rightarrow> nat \<Rightarrow> CoCycle \<Rightarrow> (int \<times> CoCycle) res" where
  "run_upstreams w d cy =
     bindr (request_of d cy)
       (\<lambda>q. if ud_upstreamInfos (rq_userData q) = [] then Inr (CO_ERROR, cy)
            else Inr (dispatcher_yield_pair w (ud_coroutineData (rq_userData q)) cy))"

text \<open>A sub-request without a parent; \<open>userProcess\<close> is called when it ends, however it ends.\<close>

definition add_upstream_detach ::
  "world \<Rightarrow> string \<Rightarrow> int \<Rightarrow> nat option \<Rightarrow> nat option \<Rightarrow> CoCycle \<Rightarrow> (nat option \<times> CoCycle) res" where
  "add_upstream_detach w name protocolType userProcess userData cy =
     bindr (get_upstream_connection name cy)
       (\<lambda>(c, cy). case c of
          None \<Rightarrow> Inr (None, cy)
        | Some i \<Rightarrow>
            (case create_protocol protocolType of
               None \<Rightarrow> bindr (free_upstream_connection i CO_ERROR cy) (\<lambda>cy. Inr (None, cy))
             | Some p \<Rightarrow>
                 let (n, cy) = new_protocol_object p cy;
                     (u, cy) = new_request_object (CO_REQUEST_UPSTREAM + CO_REQUEST_DETACH) cy
                 in bindr (co_request_init u i protocolType (Some n) cy)
                      (\<lambda>(ret, cy).
                         if ret \<noteq> CO_OK then bindr (upstream_finalize w u CO_ERROR cy) (\<lambda>cy. Inr (None, cy))
                         else let (info, cy) = new_info_object n cy;
                                  cy = upd_request u (\<lambda>q. q\<lparr>rq_userDestroy := userProcess, rq_upstreamInfo := Some info,
                                         rq_userData := (rq_userData q)\<lparr>ud_upstreamInfos := ud_upstreamInfos (rq_userData q) @ [info],
                                           ud_userData := userData\<rparr>\<rparr>) cy
                              in Inr (Some u, push_delay i cy))))"

end
