(* ===== verification/Dispatcher.thy ===== *)
theory Dispatcher
  imports Subrequest
begin

text \<open>
  \<^verbatim>\<open>core/co_callback_event.cpp\<close>, the event loop of \<^verbatim>\<open>base/co_epoll.cpp\<close> and the loop of
  \<^verbatim>\<open>core/co_dispatcher.cpp\<close> that runs the coroutines of a worker thread. Where \<open>Request\<close> and
  \<open>Subrequest\<close> follow one coroutine and take the rest of the thread as given, here the loop is
  followed and the coroutines are given: \<open>sd_slice k\<close> is what the coroutine of connection \<open>k\<close> does
  from being switched in to being switched out, and whether its handler has returned by then.
  \<open>sd_wait n\<close> is what happens during the \<open>n\<close>-th \<open>epoll_wait\<close>: its answer, and what other threads
  write to the state meanwhile. \<open>sd_order\<close> is the order in which \<open>unordered_map\<close> is iterated.
\<close>

type_synonym epoll_answer = "int + (32 word \<times> 64 word) list"

record scheduler =
  sd_slice :: "nat \<Rightarrow> CoCycle \<Rightarrow> (bool \<times> CoCycle) res"
  sd_wait :: "nat \<Rightarrow> CoCycle \<Rightarrow> epoll_answer \<times> CoCycle"
  sd_order :: "(nat \<times> nat) list \<Rightarrow> (nat \<times> nat) list"
  sd_shared :: bool

text \<open>
  \<open>sd_shared\<close>: the lambda of \<open>process_events_and_timers\<close> is \<open>static\<close> and captures \<open>needContinue\<close> by
  reference, so the reference is the variable of the first call, of whatever thread made it. It is
  the variable of the call at hand if that has the same place on the same stack, as in all calls of
  the thread that came first, and not in the calls of the other threads.
\<close>

section \<open>Exceptions\<close>

definition kill_subrequest :: "nat \<Rightarrow> CoCycle \<Rightarrow> CoCycle res" where
  "kill_subrequest u cy =
     bindr (request_of u cy)
       (\<lambda>q. bindr (the_ref (rq_connection q))
          (\<lambda>i. Inr (push_delay i (upd_conn i (\<lambda>c. c\<lparr>cn_flagDying := True, cn_flagParentDying := True\<rparr>) cy))))"

fun kill_subrequests :: "(nat \<times> nat) list \<Rightarrow> CoCycle \<Rightarrow> CoCycle res" where
  "kill_subrequests [] cy = Inr cy"
| "kill_subrequests ((k, u) # us) cy = bindr (kill_subrequest u cy) (kill_subrequests us)"

definition idle_exception :: "nat \<Rightarrow> CoCycle \<Rightarrow> CoCycle res" where
  "idle_exception i cy =
     (if cn_upstream (conn i cy) = None then free_request_connection i CO_EXCEPTION cy
      else free_upstream_connection i CO_EXCEPTION cy)"

definition event_exception :: "scheduler \<Rightarrow> nat \<Rightarrow> CoCycle \<Rightarrow> (int \<times> CoCycle) res" where
  "event_exception s i cy =
     (let c = conn i cy
      in if \<not> (cn_flagTimedOut c \<or> cn_flagPendingEof c \<or> cn_flagDying c) then Inr (CO_OK, cy)
         else
           let cy = upd_conn i (\<lambda>c. c\<lparr>cn_flagDying := True\<rparr>) cy
           in if cn_flagThirdFuncBlocking c then Inr (CO_EXCEPTION, cy)
              else if cn_flagUseBlockConn c \<or> cn_flagBlockConn c
              then (if cn_flagUseBlockConn c
                    then bindr (the_ref (cn_blockConn c)) (\<lambda>b. Inr (CO_OK, upd_conn b (\<lambda>c. c\<lparr>cn_flagDying := True\<rparr>) cy))
                    else Inr (CO_OK, cy))
              else case cn_request c of
                     Some r \<Rightarrow>
                       bindr (request_of r cy)
                         (\<lambda>q. if rq_upstreamRequests q \<noteq> []
                              then bindr (kill_subrequests (sd_order s (rq_upstreamRequests q)) cy) (\<lambda>cy. Inr (CO_EXCEPTION, cy))
                              else Inr (CO_OK, cy))
                   | None \<Rightarrow> bindr (idle_exception i cy) (\<lambda>cy. Inr (CO_EXCEPTION, cy)))"

definition handler_exception :: "scheduler \<Rightarrow> nat \<Rightarrow> CoCycle \<Rightarrow> (int \<times> CoCycle) res" where
  "handler_exception s i cy =
     (case cn_handlerException (conn i cy) of
        H_EVENT_EXCEPTION \<Rightarrow> event_exception s i cy
      | H_LISTEN_EXCEPTION \<Rightarrow> Inr (listen_exception, cy)
      | H_RESUME_EXCEPTION \<Rightarrow> Inr (CO_OK, cy))"

section \<open>Switching a coroutine in\<close>

text \<open>The end of \<open>func_proc_coroutine\<close>: the handler has returned.\<close>

definition run_coroutine :: "scheduler \<Rightarrow> nat \<Rightarrow> CoCycle \<Rightarrow> CoCycle res" where
  "run_coroutine s k cy =
     bindr (sd_slice s k cy)
       (\<lambda>(finished, cy). Inr (if finished then upd_conn k (\<lambda>c. c\<lparr>cn_coroutine := (cn_coroutine c)\<lparr>cr_status := COROUTINE_READY\<rparr>\<rparr>) cy else cy))"

definition start_coroutine :: "scheduler \<Rightarrow> nat \<Rightarrow> nat \<Rightarrow> CoCycle \<Rightarrow> CoCycle res" where
  "start_coroutine s i k cy =
     (let cy = upd_conn k (\<lambda>c. c\<lparr>cn_coroutine := snd (init_coroutine i ((cn_coroutine c)\<lparr>cr_status := COROUTINE_SUSPEND\<rparr>))\<rparr>) cy
      in if cn_handler (conn i cy) = H_NONE then Inl BadFunctionCall else run_coroutine s k cy)"

definition func_dispatcher :: "scheduler \<Rightarrow> nat \<Rightarrow> CoCycle \<Rightarrow> CoCycle res" where
  "func_dispatcher s i cy =
     bindr (handler_exception s i (cy\<lparr>cy_curConnection := Some i\<rparr>))
       (\<lambda>(ret, cy). if ret = CO_EXCEPTION then Inr cy
          else bindr (if cn_flagBlockConn (conn i cy) then the_ref (cn_blockOriginConn (conn i cy)) else Inr i)
                 (\<lambda>k. bindr (case cr_status (cn_coroutine (conn k cy)) of
                               COROUTINE_READY \<Rightarrow> start_coroutine s i k cy
                             | COROUTINE_SUSPEND \<Rightarrow> run_coroutine s k cy
                             | _ \<Rightarrow> Inr cy)
                        (\<lambda>cy. Inr (cy\<lparr>cy_curConnection := None\<rparr>))))"

section \<open>Events of the kernel\<close>

definition TIMER_INFINITE :: int where "TIMER_INFINITE = 4294967295"

text \<open>An error without a direction counts for both.\<close>

definition reported_events :: "32 word \<Rightarrow> 32 word" where
  "reported_events revents =
     (if revents AND (EPOLLERR OR EPOLLHUP) \<noteq> 0 \<and> revents AND (EPOLLIN OR EPOLLOUT) = 0
      then revents OR (EPOLLIN OR EPOLLOUT) else revents)"

definition dispatch_read :: "scheduler \<Rightarrow> nat \<Rightarrow> 32 word \<Rightarrow> CoCycle \<Rightarrow> CoCycle res" where
  "dispatch_read s i revents cy =
     (if (revents AND EPOLLIN \<noteq> 0 \<or> revents AND EPOLLRDHUP \<noteq> 0) \<and> ev_flagActive (cn_readEvent (conn i cy))
      then func_dispatcher s i (if revents AND EPOLLRDHUP \<noteq> 0 then upd_conn i (\<lambda>c. c\<lparr>cn_flagPendingEof := True\<rparr>) cy else cy)
      else Inr cy)"

definition dispatch_write :: "scheduler \<Rightarrow> nat \<Rightarrow> 32 word \<Rightarrow> CoCycle \<Rightarrow> CoCycle res" where
  "dispatch_write s i revents cy =
     (if revents AND EPOLLOUT \<noteq> 0 \<and> ev_flagActive (cn_writeEvent (conn i cy)) then func_dispatcher s i cy else Inr cy)"

definition dispatch_event :: "scheduler \<Rightarrow> 32 word \<Rightarrow> 64 word \<Rightarrow> CoCycle \<Rightarrow> CoCycle res" where
  "dispatch_event s events data cy =
     (let i = unat (GET_U64_HIGH32 data)
      in if \<not> valid_id i cy then Inl OutOfBounds
         else if cn_version (conn i cy) \<noteq> GET_U64_LOW32 data then Inr cy
         else bindr (dispatch_read s i (reported_events events) cy) (dispatch_write s i (reported_events events)))"

fun dispatch_events :: "scheduler \<Rightarrow> (32 word \<times> 64 word) list \<Rightarrow> CoCycle \<Rightarrow> CoCycle res" where
  "dispatch_events s [] cy = Inr cy"
| "dispatch_events s ((events, data) # evs) cy = bindr (dispatch_event s events data cy) (dispatch_events s evs)"

definition process_events :: "scheduler \<Rightarrow> nat \<Rightarrow> int \<Rightarrow> CoCycle \<Rightarrow> (int \<times> CoCycle) res" where
  "process_events s n timerMs cy =
     (let (answer, cy) = sd_wait s n cy
      in case answer of
           Inl e \<Rightarrow> Inr (if e = EINTR then CO_OK else CO_ERROR, cy)
         | Inr evs \<Rightarrow>
             if evs = [] then Inr (if timerMs \<noteq> TIMER_INFINITE then CO_OK else CO_ERROR, cy)
             else bindr (dispatch_events s evs cy) (\<lambda>cy. Inr (CO_OK, cy)))"

section \<open>Timers\<close>

text \<open>What \<open>process_timer\<close> does with an event that is due.\<close>

definition dispatch_timer :: "scheduler \<Rightarrow> event_ref \<Rightarrow> CoCycle \<Rightarrow> CoCycle res" where
  "dispatch_timer s ie cy =
     (let (i, e) = ie;
          cy = upd_conn i (\<lambda>c. put_event e ((get_event e c)\<lparr>ev_flagTimerSet := False\<rparr>) c\<lparr>cn_flagTimedOut := True\<rparr>) cy;
          cy = (if ev_preHandler (get_event e (conn i cy))
                then upd_conn i (\<lambda>c. c\<lparr>cn_flagTimedOut := False, cn_flagThirdFuncBlocking := False\<rparr>) cy else cy)
      in func_dispatcher s i cy)"

definition process_timers :: "scheduler \<Rightarrow> CoCycle \<Rightarrow> CoCycle res option" where
  "process_timers s cy = process_timer (dispatch_timer s) (now_ms cy) (tick cy)"

definition read_timer :: "CoCycle \<Rightarrow> nat \<times> CoCycle" where
  "read_timer cy = (find_timer (now_ms cy) cy, if tm_timers cy = [] then cy else tick cy)"

section \<open>The queues\<close>

definition resume_process :: "scheduler \<Rightarrow> nat \<times> 32 word \<Rightarrow> bool \<Rightarrow> CoCycle \<Rightarrow> (bool \<times> CoCycle) res" where
  "resume_process s coroutineData needContinue cy =
     (let (i, version) = coroutineData
      in if cn_version (conn i cy) \<noteq> version then Inr (needContinue, cy)
         else bindr (func_dispatcher s i cy) (\<lambda>cy. Inr (sd_shared s \<or> needContinue, cy)))"

text \<open>
  The three loops differ in the queue and in what is done with an entry: the first entry leaves the
  queue \<open>get\<close> reads and \<open>put\<close> writes and is handled, until the queue is empty.
\<close>

partial_function (option) drain ::
  "(CoCycle \<Rightarrow> (nat \<times> 32 word) list) \<Rightarrow> ((nat \<times> 32 word) list \<Rightarrow> CoCycle \<Rightarrow> CoCycle)
   \<Rightarrow> (nat \<times> 32 word \<Rightarrow> bool \<Rightarrow> CoCycle \<Rightarrow> (bool \<times> CoCycle) res) \<Rightarrow> bool \<times> CoCycle \<Rightarrow> (bool \<times> CoCycle) res option" where
  "drain get put handle st =
     (case get (snd st) of
        [] \<Rightarrow> Some (Inr st)
      | d # ds \<Rightarrow>
          (case handle d (fst st) (put ds (snd st)) of
             Inl e \<Rightarrow> Some (Inl e)
           | Inr st \<Rightarrow> drain get put handle st))"

definition drain_delays :: "scheduler \<Rightarrow> bool \<times> CoCycle \<Rightarrow> (bool \<times> CoCycle) res option" where
  "drain_delays s = drain cy_delayConnections (\<lambda>q cy. cy\<lparr>cy_delayConnections := q\<rparr>) (resume_process s)"

definition drain_resumes :: "scheduler \<Rightarrow> bool \<times> CoCycle \<Rightarrow> (bool \<times> CoCycle) res option" where
  "drain_resumes s = drain cy_waitResumes (\<lambda>q cy. cy\<lparr>cy_waitResumes := q\<rparr>) (resume_process s)"

text \<open>A coroutine that waits for a mutex is only resumed while it still waits for one.\<close>

definition resume_single :: "scheduler \<Rightarrow> nat \<times> 32 word \<Rightarrow> bool \<Rightarrow> CoCycle \<Rightarrow> (bool \<times> CoCycle) res" where
  "resume_single s coroutineData needContinue cy =
     (if \<not> find_block_mutex (cy_innerThreadId cy) (cn_connId (conn (fst coroutineData) cy)) (cy_single cy)
      then Inr (needContinue, cy)
      else resume_process s coroutineData needContinue cy)"

definition drain_singles :: "scheduler \<Rightarrow> bool \<times> CoCycle \<Rightarrow> (bool \<times> CoCycle) res option" where
  "drain_singles s = drain cy_waitSingles (\<lambda>q cy. cy\<lparr>cy_waitSingles := q\<rparr>) (resume_single s)"

section \<open>The loop\<close>

text \<open>One step after another, where a step may fault or never end.\<close>

definition bindo :: "'a res option \<Rightarrow> ('a \<Rightarrow> 'b res option) \<Rightarrow> 'b res option" where
  "bindo m f = (case m of None \<Rightarrow> None | Some (Inl e) \<Rightarrow> Some (Inl e) | Some (Inr x) \<Rightarrow> f x)"

text \<open>A queue is emptied between two readings of the clock; the result has the milliseconds.\<close>

definition timed :: "(bool \<times> CoCycle \<Rightarrow> (bool \<times> CoCycle) res option) \<Rightarrow> bool \<times> CoCycle \<Rightarrow> (nat \<times> bool \<times> CoCycle) res option" where
  "timed empty_queue st =
     (let (go, cy) = st; start = now_ms cy
      in bindo (empty_queue (go, tick cy)) (\<lambda>(go, cy). Some (Inr (u64_sub (now_ms cy) start, go, tick cy))))"

text \<open>
  The body of the \<open>do\<close> loop. The state is \<open>timerTime\<close>, \<open>processEventsTime\<close> and the thread; the first
  result is \<open>needContinue\<close>.
\<close>

definition dispatch_round :: "scheduler \<Rightarrow> nat \<times> nat \<times> CoCycle \<Rightarrow> (bool \<times> nat \<times> nat \<times> CoCycle) res option" where
  "dispatch_round s st =
     (let (timerTime, eventsTime, cy) = st
      in bindo (timed (drain_delays s) (False, cy))
           (\<lambda>(delaysTime, st). bindo (timed (drain_resumes s) st)
              (\<lambda>(resumesTime, st). bindo (timed (drain_singles s) st)
                 (\<lambda>(singlesTime, go, cy).
                    if timerTime = 0 \<or> eventsTime > 0 \<or> delaysTime > 0 \<or> resumesTime > 0 \<or> singlesTime > 0
                    then bindo (process_timers s cy)
                           (\<lambda>cy. let (timerTime, cy) = read_timer cy in Some (Inr (True, timerTime, 0, cy)))
                    else Some (Inr (go, timerTime, eventsTime, cy))))))"

partial_function (option) dispatch_rounds :: "scheduler \<Rightarrow> nat \<times> nat \<times> CoCycle \<Rightarrow> CoCycle res option" where
  "dispatch_rounds s st =
     (case dispatch_round s st of
        None \<Rightarrow> None
      | Some (Inl e) \<Rightarrow> Some (Inl e)
      | Some (Inr (needContinue, st)) \<Rightarrow> if needContinue then dispatch_rounds s st else Some (Inr (snd (snd st))))"

definition process_events_and_timers :: "scheduler \<Rightarrow> nat \<Rightarrow> CoCycle \<Rightarrow> CoCycle res option" where
  "process_events_and_timers s n cy =
     (let (timerTime, cy) = read_timer cy; start = now_ms cy
      in case process_events s n (int timerTime mod two32) (tick cy) of
           Inl e \<Rightarrow> Some (Inl e)
         | Inr (_, cy) \<Rightarrow> dispatch_rounds s (timerTime, u64_sub (now_ms cy) start, tick cy))"

text \<open>\<open>close_all_connection\<close> on the pool of the thread.\<close>

definition cycle_close_all :: "CoCycle \<Rightarrow> CoCycle" where
  "cycle_close_all cy =
     (let (pool, ds) = close_all_connection (cy_pool cy)
      in cy\<lparr>cy_pool := pool, cy_delayConnections := cy_delayConnections cy @ ds\<rparr>)"

partial_function (option) dispatcher_loop :: "scheduler \<Rightarrow> nat \<Rightarrow> CoCycle \<Rightarrow> (int \<times> CoCycle) res option" where
  "dispatcher_loop s n cy =
     (let cy' = (if cy_run cy then cy else cycle_close_all cy)
      in if \<not> cy_run cy \<and> timer_empty cy' then Some (Inr (CO_OK, cy'))
         else (case process_events_and_timers s n cy' of
                 None \<Rightarrow> None
               | Some (Inl e) \<Rightarrow> Some (Inl e)
               | Some (Inr cy) \<Rightarrow> dispatcher_loop s (n + 1) cy))"

definition dispatcher_start :: "scheduler \<Rightarrow> CoCycle \<Rightarrow> (int \<times> CoCycle) res option" where
  "dispatcher_start s cy = dispatcher_loop s 0 (cy\<lparr>cy_run := True\<rparr>)"

definition dispatcher_stop :: "CoCycle \<Rightarrow> int \<times> CoCycle" where
  "dispatcher_stop cy = (CO_OK, cy\<lparr>cy_run := False\<rparr>)"

section \<open>Setting the dispatcher up\<close>

text \<open>The descriptors of \<open>socketpair\<close> are the answer behind its return value.\<close>

definition init_yieldresume_comm :: "world \<Rightarrow> CoCycle \<Rightarrow> (int \<times> CoCycle) res" where
  "init_yieldresume_comm w cy =
     (let ((r, _), s) = syscall (cy_sys cy)
      in if r \<noteq> 0 then Inr (CO_ERROR, cy\<lparr>cy_sys := s\<rparr>)
         else let ((fd0, fd1), s) = syscall s
              in bindr (cycle_get_fd w fd0 (cy\<lparr>cy_sys := s\<rparr>))
                   (\<lambda>(c, cy). case c of
                      None \<Rightarrow> Inr (CO_ERROR, cy)
                    | Some i \<Rightarrow>
                        bindr (cycle_get_fd w fd1 cy)
                          (\<lambda>(c, cy). let cy = cy\<lparr>cy_writeResumeConnection := c\<rparr>
                             in case c of
                                  None \<Rightarrow> Inr (CO_ERROR, cy)
                                | Some _ \<Rightarrow> Inr (modify_connection i EPOLL_EVENTS_ADD CO_EVENT_READ
                                    (upd_conn i (\<lambda>c. c\<lparr>cn_handler := H_RESUME_READ, cn_handlerException := H_RESUME_EXCEPTION\<rparr>) cy)))))"

text \<open>A \<open>CoServerControl\<close> that cannot be set up stays in memory, as it does here; the thread ends then.\<close>

fun init_servers :: "CoConfServer list \<Rightarrow> CoCycle \<Rightarrow> (int \<times> CoCycle) res" where
  "init_servers [] cy = Inr (CO_OK, cy)"
| "init_servers (conf # confs) cy =
     bindr (server_init (length (cy_serverControls cy)) (cy\<lparr>cy_serverControls := cy_serverControls cy @ [new_server_control conf]\<rparr>))
       (\<lambda>(ret, cy). if ret \<noteq> CO_OK then Inr (CO_ERROR, cy) else init_servers confs cy)"

definition dispatcher_init :: "world \<Rightarrow> CoCycle \<Rightarrow> (int \<times> CoCycle) res" where
  "dispatcher_init w cy =
     bindr (init_yieldresume_comm w cy)
       (\<lambda>(ret, cy). if ret \<noteq> CO_OK then Inr (CO_ERROR, cy) else init_servers (m_confServers (cy_conf cy)) cy)"

text \<open>The handler of the reading end takes at most eight of the bytes that woke the thread.\<close>

definition resume_read :: "world \<Rightarrow> nat \<Rightarrow> CoCycle \<Rightarrow> CoCycle res" where
  "resume_read w i cy = bindr (conn_read w i 8 cy) (\<lambda>(_, _, cy). Inr cy)"

end
