(* ===== verification/Pool_Marks.thy ===== *)
theory Pool_Marks
  imports Server_Control
begin

text \<open>
  What a connection is marked with while it is in use --- the server or the upstream it belongs to --- and
  what the pool does to the marks: a connection that is taken has a blank one, giving it back blanks it, and
  nothing changes the marks of others. \<open>connection_mark\<close> states what a part of a connection must be like for this to hold;
  the pool's users look at two such parts (\<open>Server_Limit\<close>, \<open>Upstream_Limit\<close>).
\<close>

definition tag :: "(CoConnection \<Rightarrow> 'a) \<Rightarrow> nat \<Rightarrow> CoConnectionPool \<Rightarrow> 'a" where
  "tag m i p = m (get_connection_accord_id i p)"

definition free_blank :: "(CoConnection \<Rightarrow> 'a) \<Rightarrow> 'a \<Rightarrow> CoConnectionPool \<Rightarrow> bool" where
  "free_blank m blank p \<longleftrightarrow> (\<forall>i\<in>set (pl_freeConnections p). tag m i p = blank)"

text \<open>What taking a connection does: \<open>r\<close> is the one that was taken.\<close>

definition taken :: "(CoConnection \<Rightarrow> 'a) \<Rightarrow> 'a \<Rightarrow> CoConnectionPool \<Rightarrow> nat option \<Rightarrow> CoConnectionPool \<Rightarrow> bool" where
  "taken m blank p r q \<longleftrightarrow> pool_inv q \<and> free_blank m blank q \<and> (\<forall>j\<in>busy p. tag m j q = tag m j p)
     \<and> (case r of None \<Rightarrow> busy q = busy p | Some i \<Rightarrow> i \<notin> busy p \<and> busy q = insert i (busy p) \<and> tag m i q = blank)"

text \<open>Everything of the pool that matters for the marks.\<close>

definition pool_tags :: "(CoConnection \<Rightarrow> 'a) \<Rightarrow> CoConnectionPool \<Rightarrow> _" where
  "pool_tags m p = (map (\<lambda>c. (links c, m c)) (pl_connections p), pl_curConnectionSize p, pl_freeConnections p)"

section \<open>Positions\<close>

lemma busy_pos: "i \<in> busy p \<Longrightarrow> 0 < i \<and> i \<le> length (pl_connections p)"
  by (auto simp: busy_def dest: odd_pos)

lemma free_pos: "pool_inv p \<Longrightarrow> i \<in> set (pl_freeConnections p) \<Longrightarrow> 0 < i \<and> i \<le> length (pl_connections p)"
  by (auto simp: pool_inv_def dest: odd_pos)

lemma finite_busy [simp]: "finite (busy p)"
  by (rule finite_subset [of _ "{..length (pl_connections p)}"]) (auto simp: busy_def)

lemma pool_tags_eqD:
  assumes "pool_tags m p = pool_tags m q"
  shows "pool_inv p = pool_inv q" and "busy p = busy q" and "pl_freeConnections p = pl_freeConnections q"
    and "0 < i \<Longrightarrow> i \<le> length (pl_connections p) \<Longrightarrow> tag m i p = tag m i q"
    and "length (pl_connections p) = length (pl_connections q)"
proof -
  have e: "map (\<lambda>c. (links c, m c)) (pl_connections p) = map (\<lambda>c. (links c, m c)) (pl_connections q)"
    "pl_curConnectionSize p = pl_curConnectionSize q" "pl_freeConnections p = pl_freeConnections q"
    using assms by (auto simp: pool_tags_def)
  have l: "map links (pl_connections p) = map links (pl_connections q)" and m: "map m (pl_connections p) = map m (pl_connections q)"
    using arg_cong [OF e(1), of "map fst"] arg_cong [OF e(1), of "map snd"] by (simp_all add: comp_def)
  show len: "length (pl_connections p) = length (pl_connections q)" using arg_cong [OF e(1), of length] by simp
  show "pool_inv p = pool_inv q" "busy p = busy q" "pl_freeConnections p = pl_freeConnections q"
    using e l len by (simp_all add: pool_inv_def busy_def)
  assume "0 < i" "i \<le> length (pl_connections p)"
  then show "tag m i p = tag m i q"
    using arg_cong [OF m, of "\<lambda>xs. xs ! (i - 1)"] len by (simp add: tag_def get_connection_accord_id_def)
qed

lemma free_blank_eqD: "pool_tags m p = pool_tags m q \<Longrightarrow> pool_inv p \<Longrightarrow> free_blank m blank p = free_blank m blank q"
  unfolding free_blank_def using pool_tags_eqD(3,4) [of m p q] free_pos [of p] by simp

lemma tag_map_conn:
  assumes "\<And>c. m (f c) = m c" and "0 < j" and "0 < i" and "i \<le> length (pl_connections p)"
  shows "tag m j (map_conn i f p) = tag m j p"
  using assms get_map_conn_same [of i p f] get_map_conn_other [of i j f p]
  by (cases "i = j") (simp_all add: tag_def)

lemma pool_tags_map_conn:
  assumes "\<And>c. links (f c) = links c" and "\<And>c. m (f c) = m c"
  shows "pool_tags m (map_conn i f p) = pool_tags m p"
proof -
  let ?xs = "pl_connections p" and ?g = "\<lambda>c. (links c, m c)"
  have "map ?g (?xs[i - 1 := f (?xs ! (i - 1))]) = map ?g ?xs"
    by (cases "i - 1 < length ?xs") (simp_all add: map_update assms list_update_same_conv list_update_beyond not_less)
  then show ?thesis by (simp add: pool_tags_def map_conn_def)
qed

section \<open>The shape of taking\<close>

lemma expand_connections_append:
  assumes "expand_connections n p = Inr (ret, q)"
  shows "\<exists>zs. pl_connections q = pl_connections p @ zs \<and> (\<forall>c\<in>set zs. \<exists>i. c \<in> set (new_pair i))"
proof -
  have x: "\<exists>zs. pl_connections (expand_loop i n p) = pl_connections p @ zs \<and> (\<forall>c\<in>set zs. \<exists>i. c \<in> set (new_pair i))" for i n p
    by (induction i n p rule: expand_loop.induct) fastforce+
  have "q = p \<or> (\<exists>i m c. q = expand_loop i m (p\<lparr>pl_curConnectionSize := c\<rparr>))"
    using assms by (auto simp: expand_connections_def Let_def bindr_eq_Inr_conv split: if_splits)
  then show ?thesis
  proof (elim disjE exE)
    fix i m c
    assume "q = expand_loop i m (p\<lparr>pl_curConnectionSize := c\<rparr>)"
    then show ?thesis using x [of i m "p\<lparr>pl_curConnectionSize := c\<rparr>"] by simp
  qed simp
qed

text \<open>Both kinds of \<open>get_connection\<close>: the pool grows if it must, the first free connection gets a socket, and if all goes well it is taken.\<close>

definition take_shape :: "CoConnectionPool \<Rightarrow> nat option \<Rightarrow> CoConnectionPool \<Rightarrow> bool" where
  "take_shape p r p' \<longleftrightarrow> (\<exists>q. ensure_free p = Inr q \<and> (p' = q \<and> r = None \<or> (\<exists>i js t fd now. pl_freeConnections q = i # js
     \<and> (r = None \<and> p' = map_conn i (\<lambda>c. c\<lparr>cn_coTcp := t\<rparr>) q \<or> r = Some i \<and> p' = take_front now fd (map_conn i (\<lambda>c. c\<lparr>cn_coTcp := t\<rparr>) q)))))"

lemma get_connection_ip_shape:
  assumes "get_connection_ip ip port listen now p s = Inr (r, p', s')"
  shows "take_shape p r p'"
proof -
  obtain q where q: "ensure_free p = Inr q"
    using assms by (auto simp: get_connection_ip_def bindr_eq_Inr_conv)
  show ?thesis
  proof (cases "pl_freeConnections q")
    case (Cons i js)
    obtain r1 t s1 where 1: "init_ipport ip port (cn_coTcp (get_connection_accord_id i q)) s = (r1, t, s1)" by (metis prod_cases3)
    obtain r2 s2 where 2: "set_nonblock t s1 = (r2, s2)" by fastforce
    obtain ok s3 where 3: "(if listen then listen_socket t s2 else (True, s2)) = (ok, s3)" by fastforce
    let ?q = "map_conn i (\<lambda>c. c\<lparr>cn_coTcp := t\<rparr>) q"
    have "r = None \<and> p' = ?q \<or> r = Some i \<and> p' = take_front now (tc_socketfd t) ?q"
      using assms q Cons 1 2 3 by (auto simp: get_connection_ip_def Let_def split: if_splits)
    then show ?thesis using q Cons unfolding take_shape_def by blast
  qed (use assms q in \<open>simp add: get_connection_ip_def take_shape_def\<close>)
qed

lemma get_connection_fd_shape:
  assumes "get_connection_fd fd peer now p s = Inr (r, p', s')"
  shows "take_shape p r p'"
proof -
  obtain q where q: "ensure_free p = Inr q"
    using assms by (auto simp: get_connection_fd_def bindr_eq_Inr_conv)
  show ?thesis
  proof (cases "pl_freeConnections q")
    case (Cons i js)
    obtain r1 t where 1: "init_client_socketfd fd peer True (cn_coTcp (get_connection_accord_id i q)) = (r1, t)" by fastforce
    obtain r2 s2 where 2: "set_nonblock t s = (r2, s2)" by fastforce
    let ?q = "map_conn i (\<lambda>c. c\<lparr>cn_coTcp := t\<rparr>) q"
    have "r = None \<and> p' = ?q \<or> r = Some i \<and> p' = take_front now fd ?q"
      using assms q Cons 1 2 by (auto simp: get_connection_fd_def Let_def split: if_splits)
    then show ?thesis using q Cons unfolding take_shape_def by blast
  qed (use assms q in \<open>simp add: get_connection_fd_def take_shape_def\<close>)
qed

section \<open>Marks\<close>

locale connection_mark =
  fixes m :: "CoConnection \<Rightarrow> 'a" and blank :: 'a
  assumes fresh: "c \<in> set (new_pair i) \<Longrightarrow> m c = blank"
    and tcp: "m (c\<lparr>cn_coTcp := t\<rparr>) = m c"
    and stamp: "m (c\<lparr>cn_startTimestamp := n\<rparr>) = m c"
    and given_back: "m (reset_self False c) = blank"
    and bookkeeping: "ident c = ident d \<Longrightarrow> m c = m d"
begin

lemma tags_ident:
  assumes "pool_ident p = pool_ident q"
  shows "pool_tags m p = pool_tags m q"
proof -
  have e: "map ident (pl_connections p) = map ident (pl_connections q)" "pl_curConnectionSize p = pl_curConnectionSize q"
    "pl_freeConnections p = pl_freeConnections q" using assms by (auto simp: pool_ident_def)
  have l: "length (pl_connections p) = length (pl_connections q)" using arg_cong [OF e(1), of length] by simp
  have "map (\<lambda>c. (links c, m c)) (pl_connections p) = map (\<lambda>c. (links c, m c)) (pl_connections q)"
  proof (rule nth_equalityI)
    fix k
    assume k: "k < length (map (\<lambda>c. (links c, m c)) (pl_connections p))"
    then have i: "ident (pl_connections p ! k) = ident (pl_connections q ! k)"
      using arg_cong [OF e(1), of "\<lambda>xs. xs ! k"] l by simp
    from bookkeeping [OF i] i k l show "map (\<lambda>c. (links c, m c)) (pl_connections p) ! k = map (\<lambda>c. (links c, m c)) (pl_connections q) ! k"
      by (simp add: ident_def)
  qed (simp add: l)
  then show ?thesis using e by (simp add: pool_tags_def)
qed

lemma grow_tags:
  assumes "pool_inv p" and "free_blank m blank p" and e: "expand_connections n p = Inr (ret, q)"
  shows "taken m blank p None q"
proof -
  obtain zs where z: "pl_connections q = pl_connections p @ zs" "\<forall>c\<in>set zs. m c = blank"
    using expand_connections_append [OF e] fresh by blast
  have a: "tag m i q = tag m i p" if "0 < i" "i \<le> length (pl_connections p)" for i
    using that z by (simp add: tag_def get_connection_accord_id_def nth_append)
  have b: "tag m i q = blank" if "length (pl_connections p) < i" "i \<le> length (pl_connections q)" for i
    using that z by (simp add: tag_def get_connection_accord_id_def nth_append)
  note ok = expand_connections_ok [OF assms(1) e]
  have "tag m i q = blank" if i: "i \<in> set (pl_freeConnections q)" for i
  proof (cases "i \<le> length (pl_connections p)")
    case True
    have o: "odd i" "0 < i" "i \<notin> busy p" using i ok by (auto simp: pool_inv_def busy_def dest: odd_pos)
    with True have "i \<in> set (pl_freeConnections p)" by (simp add: busy_def)
    then show ?thesis using assms(2) a [OF o(2) True] by (simp add: free_blank_def)
  next
    case False
    then show ?thesis using b free_pos [OF _ i] ok by simp
  qed
  then show ?thesis using ok a busy_pos by (auto simp: taken_def free_blank_def)
qed

lemma ensure_free_tags:
  assumes "pool_inv p" and "free_blank m blank p" and "ensure_free p = Inr q"
  shows "taken m blank p None q"
proof (cases "pl_freeConnections p = []")
  case True
  then obtain r where "expand_connections 16 p = Inr (r, q)" using assms(3) by (auto simp: ensure_free_def bindr_eq_Inr_conv)
  then show ?thesis by (rule grow_tags [OF assms(1,2)])
qed (use assms in \<open>simp add: ensure_free_def taken_def\<close>)

lemma pool_init_tags:
  assumes "pool_init mn mx new_pool = Inr (ret, p)"
  shows "free_blank m blank p"
proof -
  obtain n q where q: "expand_connections n q = Inr (ret, p)" "pl_connections q = []" "pl_freeConnections q = []" "pl_curConnectionSize q = 0"
    using assms by (fastforce simp: pool_init_def bindr_eq_Inr_conv Let_def new_pool_def)
  then have "pool_inv q" "free_blank m blank q" by (simp_all add: pool_inv_def free_blank_def)
  from grow_tags [OF this q(1)] show ?thesis by (simp add: taken_def)
qed

lemma take_front_tags:
  assumes "pool_inv p" and "free_blank m blank p" and "pl_freeConnections p = i # js"
  shows "taken m blank p (Some i) (take_front now fd p)"
proof -
  let ?p = "p\<lparr>pl_freeConnections := js, pl_innerSockets := insert fd (pl_innerSockets p)\<rparr>"
  have i: "0 < i" "i \<le> length (pl_connections p)" using free_pos [OF assms(1)] assms(3) by auto
  have t: "take_front now fd p = map_conn i (\<lambda>c. c\<lparr>cn_startTimestamp := now\<rparr>) ?p"
    using assms(3) by (simp add: take_front_def Let_def)
  have g: "tag m j (take_front now fd p) = tag m j p" if "0 < j" for j
  proof -
    have "tag m j (take_front now fd p) = tag m j ?p"
      unfolding t by (rule tag_map_conn) (use i that stamp in simp_all)
    then show ?thesis by (simp add: tag_def get_connection_accord_id_def)
  qed
  have "tag m j (take_front now fd p) = blank" if "j \<in> set (pl_freeConnections (take_front now fd p))" for j
  proof -
    have j: "j \<in> set (pl_freeConnections p)" using that assms(3) unfolding t by simp
    then show ?thesis using g free_pos [OF assms(1) j] assms(2) by (simp add: free_blank_def)
  qed
  moreover have "tag m i (take_front now fd p) = blank" using g [OF i(1)] assms(2,3) by (simp add: free_blank_def)
  ultimately show ?thesis using take_front_ok [OF assms(1,3)] g busy_pos by (auto simp: taken_def free_blank_def)
qed

lemma take_shape_tags:
  assumes "pool_inv p" and "free_blank m blank p" and "take_shape p r p'"
  shows "taken m blank p r p'"
proof -
  obtain q where q: "ensure_free p = Inr q" and c: "p' = q \<and> r = None \<or> (\<exists>i js t fd now. pl_freeConnections q = i # js
      \<and> (r = None \<and> p' = map_conn i (\<lambda>c. c\<lparr>cn_coTcp := t\<rparr>) q \<or> r = Some i \<and> p' = take_front now fd (map_conn i (\<lambda>c. c\<lparr>cn_coTcp := t\<rparr>) q)))"
    using assms(3) unfolding take_shape_def by blast
  note tk = ensure_free_tags [OF assms(1,2) q]
  from c show ?thesis
  proof (elim disjE exE conjE)
    assume "p' = q" "r = None"
    then show ?thesis using tk by simp
  next
    fix i js t fd now
    assume f: "pl_freeConnections q = i # js"
    let ?q = "map_conn i (\<lambda>c. c\<lparr>cn_coTcp := t\<rparr>) q"
    have tq: "pool_inv q" "busy q = busy p" "free_blank m blank q" "\<forall>j\<in>busy p. tag m j q = tag m j p"
      using tk by (auto simp: taken_def)
    have i: "0 < i" "i \<le> length (pl_connections q)" using free_pos [OF tq(1)] f by auto
    have g: "tag m j ?q = tag m j q" if "0 < j" for j by (rule tag_map_conn) (use i that tcp in simp_all)
    have v: "pool_inv ?q" by (rule pool_inv_map_conn [OF tq(1)]) (simp add: links_def)
    have b: "free_blank m blank ?q" using tq(3) g free_pos [OF tq(1)] by (simp add: free_blank_def)
    have k: "\<forall>j\<in>busy p. tag m j ?q = tag m j p" using tq(4) g busy_pos by simp
    { assume "r = None" "p' = ?q" then show ?thesis using v b k tq(2) by (simp add: taken_def) }
    { assume r: "r = Some i" "p' = take_front now fd ?q"
      have "taken m blank ?q (Some i) p'" unfolding r(2) by (rule take_front_tags [OF v b]) (simp add: f)
      then show ?thesis using k tq(2) r(1) by (simp add: taken_def) }
  qed
qed

lemma cycle_get_tags:
  assumes "pool_inv (cy_pool cy)" and "free_blank m blank (cy_pool cy)"
  shows "cycle_get_fd w fd cy = Inr (r, cy') \<Longrightarrow> taken m blank (cy_pool cy) r (cy_pool cy')"
    and "cycle_get_ip ip port listen cy = Inr (r, cy') \<Longrightarrow> taken m blank (cy_pool cy) r (cy_pool cy')"
proof -
  note t = take_shape_tags [OF assms]
  show "taken m blank (cy_pool cy) r (cy_pool cy')" if "cycle_get_fd w fd cy = Inr (r, cy')"
    using that by (auto simp: cycle_get_fd_def bindr_eq_Inr_conv tick_def dest!: get_connection_fd_shape intro: t)
  show "taken m blank (cy_pool cy) r (cy_pool cy')" if "cycle_get_ip ip port listen cy = Inr (r, cy')"
    using that by (auto simp: cycle_get_ip_def bindr_eq_Inr_conv tick_def dest!: get_connection_ip_shape intro: t)
qed

lemma free_finish_tags:
  assumes "pool_inv p" and "free_blank m blank p" and "i \<in> busy p"
  shows "free_blank m blank (free_finish i p) \<and> (\<forall>j\<in>busy p. j \<noteq> i \<longrightarrow> tag m j (free_finish i p) = tag m j p)"
proof -
  let ?q = "map_conn i (\<lambda>c. c\<lparr>cn_handlerCleanups := []\<rparr>) p"
  let ?r = "map_conn i (reset_self False) ?q"
  have pos: "0 < i" "i \<le> length (pl_connections p)" using busy_pos assms(3) by auto
  have mi: "tag m i ?r = blank"
    using get_map_conn_same [OF pos(1), of ?q "reset_self False"] pos by (simp add: tag_def given_back)
  have mj: "tag m j ?r = tag m j p" if "0 < j" "j \<noteq> i" for j
    using get_map_conn_other [OF pos(1) that(1)] that(2) by (simp add: tag_def)
  have b: "tag m j (reset_block i ?r) = tag m j ?r" if "0 < j" "j \<le> length (pl_connections p)" for j
    using pool_tags_eqD(4) [OF tags_ident [OF pool_ident_reset_block [of i ?r]], of j] that by simp
  have f: "tag m j (free_finish i p) = tag m j (reset_block i ?r)" for j
    by (simp add: free_finish_def connection_reset_def Let_def tag_def get_connection_accord_id_def)
  have "pl_freeConnections (free_finish i p) = i # pl_freeConnections p" by (simp add: free_finish_def Let_def)
  moreover have "tag m i (free_finish i p) = blank" using f b pos mi by simp
  moreover have "tag m j (free_finish i p) = tag m j p" if "0 < j" "j \<le> length (pl_connections p)" "j \<noteq> i" for j
    using f b mj that by simp
  ultimately show ?thesis using assms(2) free_pos [OF assms(1)] busy_pos unfolding free_blank_def
    by (metis set_ConsD)
qed

lemma free_socket_tags:
  assumes "pool_inv p" and "i \<in> busy p" and "0 < j"
  shows "tag m j (free_socket i p) = tag m j p"
proof -
  have pos: "0 < i" "i \<le> length (pl_connections p)" using busy_pos assms(2) by auto
  have "tag m j (map_conn i (\<lambda>c. c\<lparr>cn_coTcp := snd (tcp_close (cn_coTcp c))\<rparr>) (p\<lparr>pl_innerSockets := X\<rparr>))
      = tag m j (p\<lparr>pl_innerSockets := X\<rparr>)" for X
    by (rule tag_map_conn) (use pos assms(3) tcp in simp_all)
  then show ?thesis by (simp add: free_socket_def Let_def tag_def get_connection_accord_id_def)
qed

text \<open>Giving a connection back, clean-up functions included.\<close>

lemma free_connection_tags:
  assumes "pool_inv (cy_pool cy)" and "free_blank m blank (cy_pool cy)" and "i \<in> busy (cy_pool cy)" and "free_connection i cy = Inr cy'"
  shows "pool_inv (cy_pool cy') \<and> free_blank m blank (cy_pool cy') \<and> busy (cy_pool cy') = busy (cy_pool cy) - {i}
    \<and> (\<forall>j\<in>busy (cy_pool cy). j \<noteq> i \<longrightarrow> tag m j (cy_pool cy') = tag m j (cy_pool cy))"
proof -
  let ?p = "cy_pool cy"
  define c where "c = (if fd_of i cy > 0 then cy\<lparr>cy_interest := (cy_interest cy)(fd_of i cy := None)\<rparr> else cy)"
  let ?c = "c\<lparr>cy_pool := free_socket i ?p\<rparr>"
  have cp: "cy_pool c = ?p" by (simp add: c_def)
  obtain d where d: "run_cleanups (cn_handlerCleanups (conn i ?c)) i ?c = Inr d" "cy' = d\<lparr>cy_pool := free_finish i (cy_pool d)\<rparr>"
    using assms(4) unfolding free_connection_def Let_def c_def [symmetric] by (auto simp: bindr_eq_Inr_conv cp)
  have q: "pool_inv (free_socket i ?p)" "busy (free_socket i ?p) = busy ?p" "free_blank m blank (free_socket i ?p)"
    using assms(1,2) pool_inv_free_socket free_socket_tags [OF assms(1,3)] free_pos [OF assms(1)] by (auto simp: free_blank_def)
  have ml: "pool_ident (cy_pool x') = pool_ident (cy_pool x)" if "modify_listening k x = Inr x'" for k x x'
    using that same_objects_modify [of "upd_control k _ x"]
    by (auto simp: modify_listening_def Let_def same_objects_def upd_control_def split: if_splits option.splits)
  have fc: "pool_ident (cy_pool x') = pool_ident (cy_pool x)" if "func_cleanup j x = Inr x'" for j x x'
    using that ml by (fastforce simp: func_cleanup_def upd_control_def split: option.splits)
  have "pool_ident (cy_pool x') = pool_ident (cy_pool x)" if "run_cleanups fs j x = Inr x'" for fs j x x'
    using that by (induction fs j x rule: run_cleanups.induct) (auto simp: bindr_eq_Inr_conv dest: fc)
  from this [OF d(1)] have "pool_ident (cy_pool d) = pool_ident (free_socket i ?p)" by simp
  note e = tags_ident [OF this]
  note v = pool_tags_eqD [OF e]
  have dp: "pool_inv (cy_pool d)" "busy (cy_pool d) = busy ?p" "free_blank m blank (cy_pool d)"
    using v(1,2) q free_blank_eqD [OF e] by auto
  have t: "tag m j (cy_pool d) = tag m j ?p" if "j \<in> busy ?p" for j
    using v(4) [of j] v(5) free_socket_tags [OF assms(1,3)] busy_pos [OF that] by simp
  show ?thesis using free_finish_ok [OF dp(1)] free_finish_tags [OF dp(1,3)] dp(2) assms(3) t unfolding d(2) by auto
qed

end

end
