(* ===== verification/Server_Limit.thy ===== *)
theory Server_Limit
  imports Pool_Marks
begin

text \<open>
  What \<^verbatim>\<open>core/co_server_control.cpp\<close> is for: a server never has more connections than its
  configuration allows, its count is the number of connections in the pool that belong to it, and
  as long as it has room it listens. The invariant is over the whole pool and all servers, and
  every operation keeps it; how the operations of several coroutines follow each other is in \<open>Accepting\<close>.
\<close>

section \<open>Who a connection belongs to\<close>

interpretation sm: connection_mark mark "(None, [])"
  by unfold_locales (auto simp: mark_def new_pair_def new_connection_def reset_self_def Let_def ident_def)

abbreviation mark_of :: "nat \<Rightarrow> CoConnectionPool \<Rightarrow> nat option \<times> cleanup list" where
  "mark_of \<equiv> tag mark"

abbreviation clean :: "CoConnectionPool \<Rightarrow> bool" where
  "clean \<equiv> free_blank mark (None, [])"

abbreviation pool_marks :: "CoConnectionPool \<Rightarrow> _" where
  "pool_marks \<equiv> pool_tags mark"

lemmas pool_marks_eqD = pool_tags_eqD [where m = mark]
lemmas pool_ident_eqD = pool_marks_eqD [OF sm.tags_ident]

text \<open>The connections of server \<open>k\<close>, without those in \<open>X\<close>, which are being given back.\<close>

definition served :: "nat set \<Rightarrow> nat \<Rightarrow> CoConnectionPool \<Rightarrow> nat" where
  "served X k p = card {i \<in> busy p - X. fst (mark_of i p) = Some k}"

text \<open>A server whose count is right, that is within its limit, and that listens if it has room.\<close>

definition server_ok :: "nat set \<Rightarrow> CoConnectionPool \<Rightarrow> nat \<Rightarrow> CoServerControl \<Rightarrow> bool" where
  "server_ok X p k s \<longleftrightarrow> sc_curConnectionSize s = int (served X k p)
     \<and> sc_curConnectionSize s \<le> max 0 (sv_maxConnections (sc_confServer s))
     \<and> sc_listenConnection s \<noteq> None
     \<and> (sc_curConnectionSize s < sv_maxConnections (sc_confServer s) \<longrightarrow> sc_listening s)"

definition mark_ok :: "nat \<Rightarrow> nat option \<times> cleanup list \<Rightarrow> bool" where
  "mark_ok n m \<longleftrightarrow> (case m of (None, cs) \<Rightarrow> cs = [] | (Some k, cs) \<Rightarrow> k < n \<and> cs = [H_SERVER_CLEANUP])"

definition server_inv :: "nat set \<Rightarrow> CoConnectionPool \<Rightarrow> CoServerControl list \<Rightarrow> bool" where
  "server_inv X p ss \<longleftrightarrow> pool_inv p \<and> clean p \<and> (\<forall>i\<in>busy p. mark_ok (length ss) (mark_of i p))
     \<and> (\<forall>k<length ss. server_ok X p k (ss ! k))"

definition servers_but :: "nat set \<Rightarrow> CoCycle \<Rightarrow> bool" where
  "servers_but X cy \<longleftrightarrow> server_inv X (cy_pool cy) (cy_serverControls cy)"

definition servers_ok :: "CoCycle \<Rightarrow> bool" where
  "servers_ok cy \<longleftrightarrow> servers_but {} cy"

section \<open>Frames\<close>

lemma server_inv_transfer:
  assumes inv: "server_inv X p ss" and q: "pool_inv q" "clean q" "busy q = busy p"
    and m: "\<And>i. i \<in> busy p \<Longrightarrow> mark_of i q = mark_of i p"
  shows "server_inv X q ss"
proof -
  have "served X k q = served X k p" for k unfolding served_def q(3) by (rule arg_cong [of _ _ card]) (auto simp: m)
  then show ?thesis using inv q m by (auto simp: server_inv_def server_ok_def)
qed

lemma server_inv_cong:
  assumes "pool_marks p = pool_marks q" and "server_inv X p ss"
  shows "server_inv X q ss"
proof -
  note v = pool_marks_eqD [OF assms(1)]
  have p: "pool_inv p" "clean p" using assms(2) by (auto simp: server_inv_def)
  have m: "mark_of i q = mark_of i p" if "0 < i \<and> i \<le> length (pl_connections p)" for i using v(4) [of i] that by simp
  have "clean q" using p(2) m free_pos [OF p(1)] unfolding free_blank_def v(3) [symmetric] by simp
  moreover have "pool_inv q" using p(1) v(1) by simp
  ultimately show ?thesis using server_inv_transfer [OF assms(2)] v(2) m busy_pos by blast
qed

lemma servers_but_same: "servers_but X cy \<Longrightarrow> same_objects cy cy' \<Longrightarrow> servers_but X cy'"
  unfolding servers_but_def same_objects_def using server_inv_cong sm.tags_ident by metis

section \<open>Listening\<close>

lemma control_upd [simp]:
  "k < length (cy_serverControls cy) \<Longrightarrow> control k (upd_control k f cy) = f (control k cy)"
  "j \<noteq> k \<Longrightarrow> control j (upd_control k f cy) = control j cy"
  "length (cy_serverControls (upd_control k f cy)) = length (cy_serverControls cy)"
  "cy_pool (upd_control k f cy) = cy_pool cy"
  by (simp_all add: control_def upd_control_def)

text \<open>Everything but the listening of server \<open>k\<close>, which \<open>modify_listening\<close> then puts right.\<close>

definition almost_ok :: "nat set \<Rightarrow> nat \<Rightarrow> CoCycle \<Rightarrow> bool" where
  "almost_ok X k cy \<longleftrightarrow> pool_inv (cy_pool cy) \<and> clean (cy_pool cy)
     \<and> (\<forall>i\<in>busy (cy_pool cy). mark_ok (length (cy_serverControls cy)) (mark_of i (cy_pool cy)))
     \<and> k < length (cy_serverControls cy)
     \<and> (\<forall>j<length (cy_serverControls cy). j \<noteq> k \<longrightarrow> server_ok X (cy_pool cy) j (control j cy))
     \<and> server_ok X (cy_pool cy) k ((control k cy)\<lparr>sc_listening := True\<rparr>)"

lemma same_objects_servers: "same_objects cy cy' \<Longrightarrow> cy_serverControls cy' = cy_serverControls cy"
  by (simp add: same_objects_def)

lemma modify_listening_ok:
  assumes "almost_ok X k cy"
  shows "\<exists>cy'. modify_listening k cy = Inr cy' \<and> servers_but X cy'
    \<and> (\<forall>j. (control j cy')\<lparr>sc_listening := b\<rparr> = (control j cy)\<lparr>sc_listening := b\<rparr>)
    \<and> length (cy_serverControls cy') = length (cy_serverControls cy) \<and> pool_ident (cy_pool cy') = pool_ident (cy_pool cy)"
proof -
  let ?s = "control k cy"
  have k: "k < length (cy_serverControls cy)" using assms by (simp add: almost_ok_def)
  obtain i where i: "sc_listenConnection ?s = Some i" using assms by (auto simp: almost_ok_def server_ok_def)
  define full where "full \<longleftrightarrow> sv_maxConnections (sc_confServer ?s) \<le> sc_curConnectionSize ?s"
  have upd: "servers_but X (upd_control k (\<lambda>s. s\<lparr>sc_listening := \<not> full\<rparr>) cy)"
  proof -
    have "server_ok X (cy_pool cy) k (?s\<lparr>sc_listening := \<not> full\<rparr>)"
      using assms by (auto simp: almost_ok_def server_ok_def full_def)
    then show ?thesis using assms k
      by (auto simp: servers_but_def server_inv_def almost_ok_def control_def upd_control_def nth_list_update)
  qed
  have stay: "servers_but X cy" if "sc_listening ?s = (\<not> full)"
  proof -
    have "server_ok X (cy_pool cy) k ?s" using assms that by (auto simp: almost_ok_def server_ok_def full_def)
    then show ?thesis using assms unfolding servers_but_def server_inv_def almost_ok_def control_def by metis
  qed
  show ?thesis
  proof (cases "sc_listening ?s = (\<not> full)")
    case True
    then have "modify_listening k cy = Inr cy" by (simp add: modify_listening_def Let_def full_def)
    with stay True show ?thesis by blast
  next
    case False
    define e where "e = (if full then EPOLL_EVENTS_DEL else EPOLL_EVENTS_ADD)"
    let ?u = "upd_control k (\<lambda>s. s\<lparr>sc_listening := \<not> full\<rparr>) cy"
    let ?c = "snd (modify_connection i e CO_EVENT_READ ?u)"
    have m: "modify_listening k cy = Inr ?c"
      using False i by (auto simp: modify_listening_def Let_def full_def e_def)
    have s: "same_objects ?u ?c" by (rule same_objects_modify)
    have "servers_but X ?c" by (rule servers_but_same [OF upd s])
    moreover have "cy_serverControls ?c = cy_serverControls ?u" "pool_ident (cy_pool ?c) = pool_ident (cy_pool cy)"
      using s by (simp_all add: same_objects_def)
    moreover have "(control j ?c)\<lparr>sc_listening := b\<rparr> = (control j cy)\<lparr>sc_listening := b\<rparr>" for j
      using calculation(2) k by (cases "j = k") (auto simp: control_def upd_control_def)
    ultimately show ?thesis using m by simp
  qed
qed

section \<open>Every operation keeps the servers in order\<close>

lemma servers_ok_same: "servers_ok cy \<Longrightarrow> same_objects cy cy' \<Longrightarrow> servers_ok cy'"
  unfolding servers_ok_def by (rule servers_but_same)

lemma served_insert:
  assumes "i \<notin> busy p" and "busy q = insert i (busy p)" and "\<forall>j\<in>busy p. mark_of j q = mark_of j p"
  shows "served {} k q = served {} k p + (if fst (mark_of i q) = Some k then 1 else 0)"
proof -
  have "{j \<in> busy q. fst (mark_of j q) = Some k}
      = {j \<in> busy p. fst (mark_of j p) = Some k} \<union> (if fst (mark_of i q) = Some k then {i} else {})"
    using assms by auto
  then show ?thesis using assms(1) by (simp add: served_def)
qed

text \<open>Room for \<open>n\<close> more connections of server \<open>k\<close>.\<close>

definition room :: "nat \<Rightarrow> nat \<Rightarrow> CoCycle \<Rightarrow> bool" where
  "room k n cy \<longleftrightarrow> servers_ok cy \<and> k < length (cy_serverControls cy)
     \<and> sc_curConnectionSize (control k cy) + int n \<le> sv_maxConnections (sc_confServer (control k cy))"

lemma room_same: "room k n cy \<Longrightarrow> same_objects cy cy' \<Longrightarrow> room k n cy'"
  using servers_ok_same same_objects_servers by (auto simp: room_def control_def)

lemma cycle_get_fd_ok:
  assumes "servers_ok cy" and g: "cycle_get_fd w fd cy = Inr (r, cy')"
  shows "cy_serverControls cy' = cy_serverControls cy \<and> cy_delayConnections cy' = cy_delayConnections cy
    \<and> pool_inv (cy_pool cy') \<and> clean (cy_pool cy')
    \<and> (\<forall>j\<in>busy (cy_pool cy). mark_of j (cy_pool cy') = mark_of j (cy_pool cy))
    \<and> (case r of None \<Rightarrow> busy (cy_pool cy') = busy (cy_pool cy)
        | Some i \<Rightarrow> i \<notin> busy (cy_pool cy) \<and> busy (cy_pool cy') = insert i (busy (cy_pool cy)) \<and> mark_of i (cy_pool cy') = (None, []))"
proof -
  have p: "pool_inv (cy_pool cy)" "clean (cy_pool cy)"
    using assms(1) by (auto simp: servers_ok_def servers_but_def server_inv_def)
  obtain q s where q: "get_connection_fd fd (w_peer w fd) (now_ms cy) (cy_pool cy) (cy_sys cy) = Inr (r, q, s)"
    "cy' = tick (cy\<lparr>cy_pool := q, cy_sys := s\<rparr>)"
    using g by (auto simp: cycle_get_fd_def bindr_eq_Inr_conv)
  have f: "cy_pool cy' = q" "cy_serverControls cy' = cy_serverControls cy" "cy_delayConnections cy' = cy_delayConnections cy"
    by (simp_all add: q(2) tick_def)
  show ?thesis unfolding f
    using sm.cycle_get_tags(1) [OF p g] unfolding f by (cases r) (auto simp: taken_def)
qed

lemma mark_upd_conn:
  assumes "0 < i" and "i \<le> length (pl_connections (cy_pool cy))"
  shows "mark_of i (cy_pool (upd_conn i f cy)) = mark (f (conn i cy))"
    and "0 < j \<Longrightarrow> j \<noteq> i \<Longrightarrow> mark_of j (cy_pool (upd_conn i f cy)) = mark_of j (cy_pool cy)"
  using assms by (simp_all add: tag_def upd_conn_def conn_def get_map_conn_same get_map_conn_other)

lemma server_init_connection_ok:
  assumes r: "room k (Suc n) cy" and e: "server_init_connection w k fd cy = Inr (ret, cy')"
  shows "room k n cy' \<and> (ret \<noteq> CO_OK \<longrightarrow> room k (Suc n) cy')"
proof -
  have ok: "servers_ok cy" and k: "k < length (cy_serverControls cy)"
    and lim: "sc_curConnectionSize (control k cy) + int (Suc n) \<le> sv_maxConnections (sc_confServer (control k cy))"
    using r by (auto simp: room_def)
  obtain c cy1 where g: "cycle_get_fd w fd cy = Inr (c, cy1)"
    using e by (auto simp: server_init_connection_def bindr_eq_Inr_conv)
  note f = cycle_get_fd_ok [OF ok g]
  have inv: "server_inv {} (cy_pool cy) (cy_serverControls cy)" using ok by (simp add: servers_ok_def servers_but_def)
  show ?thesis
  proof (cases c)
    case None
    then have x: "cy' = cy1" "ret = CO_ERROR" using e g by (auto simp: server_init_connection_def)
    have "server_inv {} (cy_pool cy1) (cy_serverControls cy)"
      using server_inv_transfer [OF inv] f None by auto
    then have "room k (Suc n) cy1" using f k lim by (auto simp: room_def servers_ok_def servers_but_def control_def)
    then show ?thesis using x by (auto simp: room_def)
  next
    case (Some i)
    define g' where "g' = (\<lambda>c::CoConnection. let conf = sc_confServer (control k cy1) in c\<lparr>cn_serverControl := Some k,
        cn_socketRcvTimeout := sv_readTimeout conf, cn_socketSndTimeout := sv_writeTimeout conf,
        cn_keepaliveTimeout := sv_keepaliveTimeout conf, cn_handler := H_REQUEST_INIT,
        cn_handlerCleanups := cn_handlerCleanups c @ [H_SERVER_CLEANUP]\<rparr>)"
    let ?u = "upd_conn i g' cy1" and ?h = "\<lambda>s. s\<lparr>sc_curConnectionSize := sc_curConnectionSize s + 1\<rparr>"
    have x: "cy' = push_delay i (upd_control k ?h ?u)" "ret = CO_OK"
      using e g Some by (auto simp: server_init_connection_def g'_def Let_def)
    have i: "i \<notin> busy (cy_pool cy)" "busy (cy_pool cy1) = insert i (busy (cy_pool cy))" "mark_of i (cy_pool cy1) = (None, [])"
      using f Some by auto
    have pos: "0 < i" "i \<le> length (pl_connections (cy_pool cy1))" using busy_pos [of i "cy_pool cy1"] i(2) by auto
    have "conn i cy1 = get_connection_accord_id i (cy_pool cy1)" by (simp add: conn_def)
    then have mi: "mark_of i (cy_pool ?u) = (Some k, [H_SERVER_CLEANUP])"
      using mark_upd_conn(1) [OF pos, of g'] i(3) by (simp add: g'_def Let_def mark_def tag_def)
    have mj: "\<forall>j\<in>busy (cy_pool cy). mark_of j (cy_pool ?u) = mark_of j (cy_pool cy)"
      using mark_upd_conn(2) [OF pos] f i(1) busy_pos by metis
    have bu: "busy (cy_pool ?u) = insert i (busy (cy_pool cy))" using i(2) by (simp add: upd_conn_def)
    have pu: "pool_inv (cy_pool ?u)"
      using f by (simp add: upd_conn_def pool_inv_map_conn g'_def Let_def links_def)
    have fr: "pl_freeConnections (cy_pool ?u) = pl_freeConnections (cy_pool cy1)" by (simp add: upd_conn_def)
    have cu: "clean (cy_pool ?u)"
    proof -
      have "j \<noteq> i \<and> 0 < j" if "j \<in> set (pl_freeConnections (cy_pool cy1))" for j
        using that i(2) f free_pos [of "cy_pool cy1"] by (auto simp: busy_def)
      then show ?thesis using f mark_upd_conn(2) [OF pos] unfolding free_blank_def fr by metis
    qed
    have sv: "served {} j (cy_pool ?u) = served {} j (cy_pool cy) + (if j = k then 1 else 0)" for j
      using served_insert [OF i(1) bu mj, of j] mi by simp
    have "server_ok {} (cy_pool cy) j (cy_serverControls cy ! j)" if "j < length (cy_serverControls cy)" for j
      using inv that by (simp add: server_inv_def)
    then have so: "server_ok {} (cy_pool ?u) j ((cy_serverControls cy)[k := ?h (control k cy)] ! j)"
      if "j < length (cy_serverControls cy)" for j
      using that lim by (cases "j = k") (fastforce simp: server_ok_def sv control_def)+
    have mo: "\<forall>j\<in>busy (cy_pool ?u). mark_ok (length (cy_serverControls cy)) (mark_of j (cy_pool ?u))"
      using inv mi mj k unfolding bu by (auto simp: server_inv_def mark_ok_def)
    have sc: "cy_serverControls (upd_control k ?h ?u) = (cy_serverControls cy)[k := ?h (control k cy)]"
      using f by (simp add: upd_control_def control_def upd_conn_def)
    have "servers_ok (upd_control k ?h ?u)"
      unfolding servers_ok_def servers_but_def server_inv_def sc using pu cu mo so by simp
    moreover have "control k (upd_control k ?h ?u) = ?h (control k cy)" using k sc by (simp add: control_def)
    ultimately have "room k n (upd_control k ?h ?u)" using k lim sc by (simp add: room_def)
    moreover have "cy_pool cy' = cy_pool (upd_control k ?h ?u)" "cy_serverControls cy' = cy_serverControls (upd_control k ?h ?u)"
      by (simp_all add: x push_delay_def)
    ultimately have "room k n cy'" by (simp add: room_def servers_ok_def servers_but_def control_def)
    then show ?thesis using x(2) by simp
  qed
qed

lemma room_less: "room k (Suc n) cy \<Longrightarrow> room k n cy"
  by (simp add: room_def)

section \<open>Giving back\<close>

lemma run_cleanups_one: "run_cleanups [H_SERVER_CLEANUP] i cy = func_cleanup i cy"
proof -
  have "run_cleanups [] i = Inr" by (rule ext) simp
  then show ?thesis by (simp add: bindr_def split: sum.split)
qed

lemma served_but:
  assumes "busy p = busy q" and "i \<in> busy q" and "\<forall>j\<in>busy q. mark_of j p = mark_of j q"
  shows "served {} k q = served {i} k p + (if fst (mark_of i q) = Some k then 1 else 0)"
proof -
  have "{j \<in> busy q. fst (mark_of j q) = Some k}
      = {j \<in> busy p - {i}. fst (mark_of j p) = Some k} \<union> (if fst (mark_of i q) = Some k then {i} else {})"
    using assms by auto
  then show ?thesis by (simp add: served_def)
qed

lemma free_connection_ok:
  assumes ok: "servers_ok cy" and i: "i \<in> busy (cy_pool cy)"
  shows "\<exists>cy'. free_connection i cy = Inr cy' \<and> servers_ok cy' \<and> busy (cy_pool cy') = busy (cy_pool cy) - {i}
    \<and> length (cy_serverControls cy') = length (cy_serverControls cy)
    \<and> (\<forall>j\<in>busy (cy_pool cy). j \<noteq> i \<longrightarrow> mark_of j (cy_pool cy') = mark_of j (cy_pool cy))
    \<and> (\<forall>k. sc_confServer (control k cy') = sc_confServer (control k cy)
          \<and> sc_curConnectionSize (control k cy') \<le> sc_curConnectionSize (control k cy))"
proof -
  let ?ss = "cy_serverControls cy" and ?p = "cy_pool cy"
  let ?q = "free_socket i ?p"
  define c0 where "c0 = (if fd_of i cy > 0 then cy\<lparr>cy_interest := (cy_interest cy)(fd_of i cy := None)\<rparr> else cy)"
  have c0 [simp]: "cy_pool c0 = ?p" "cy_serverControls c0 = ?ss" by (simp_all add: c0_def)
  let ?c = "c0\<lparr>cy_pool := ?q\<rparr>"
  have inv: "server_inv {} ?p ?ss" using ok by (simp add: servers_ok_def servers_but_def)
  then have pc: "pool_inv ?p" "clean ?p" by (auto simp: server_inv_def)
  have pos: "0 < i" "i \<le> length (pl_connections ?p)" using busy_pos i by auto
  have qm: "mark_of j ?q = mark_of j ?p" if "0 < j" for j
  proof -
    have "mark_of j (map_conn i (\<lambda>c. c\<lparr>cn_coTcp := snd (tcp_close (cn_coTcp c))\<rparr>) (?p\<lparr>pl_innerSockets := X\<rparr>))
        = mark_of j (?p\<lparr>pl_innerSockets := X\<rparr>)" for X
      by (rule tag_map_conn) (use pos that in \<open>simp_all add: mark_def\<close>)
    then show ?thesis by (simp add: free_socket_def Let_def tag_def get_connection_accord_id_def)
  qed
  have qb: "pool_inv ?q" "clean ?q" "busy ?q = busy ?p" "\<forall>j\<in>busy ?p. mark_of j ?q = mark_of j ?p"
    using pc qm pool_inv_free_socket free_pos [OF pc(1)] busy_pos by (auto simp: free_blank_def)
  have sv: "served {} k ?p = served {i} k ?q + (if fst (mark_of i ?p) = Some k then 1 else 0)" for k
    by (rule served_but) (use qb i in auto)
  have mo: "mark_ok (length ?ss) (mark_of i ?p)" using inv i by (simp add: server_inv_def)
  have mall: "\<forall>j\<in>busy ?q. mark_ok (length ?ss) (mark_of j ?q)" using inv qb by (simp add: server_inv_def)
  have so: "server_ok {} ?p k (?ss ! k)" if "k < length ?ss" for k using inv that by (simp add: server_inv_def)
  have ci: "(cn_serverControl (conn i ?c), cn_handlerCleanups (conn i ?c)) = mark_of i ?p"
    using qm [OF pos(1)] by (simp add: conn_def tag_def mark_def)
  obtain d where d: "run_cleanups (cn_handlerCleanups (conn i ?c)) i ?c = Inr d" "servers_but {i} d"
    "pool_ident (cy_pool d) = pool_ident ?q" "length (cy_serverControls d) = length ?ss"
    "\<forall>k. sc_confServer (control k d) = sc_confServer (control k cy) \<and> sc_curConnectionSize (control k d) \<le> sc_curConnectionSize (control k cy)"
  proof (cases "mark_of i ?p")
    case (Pair a cs)
    show ?thesis
    proof (cases a)
      case None
      with Pair mo have cs: "cs = []" by (simp add: mark_ok_def)
      have "server_ok {i} ?q k (?ss ! k)" if "k < length ?ss" for k
        using so [OF that] sv [of k] Pair None by (simp add: server_ok_def)
      then have "servers_but {i} ?c" using qb mall by (simp add: servers_but_def server_inv_def)
      moreover have "run_cleanups (cn_handlerCleanups (conn i ?c)) i ?c = Inr ?c" using ci Pair cs by simp
      moreover have "pool_ident (cy_pool ?c) = pool_ident ?q" by simp
      ultimately show ?thesis using that [of ?c] by (simp add: control_def)
    next
      case (Some k)
      with Pair mo have cs: "cs = [H_SERVER_CLEANUP]" "k < length ?ss" by (auto simp: mark_ok_def)
      let ?h = "\<lambda>s. s\<lparr>sc_curConnectionSize := sc_curConnectionSize s - 1\<rparr>"
      let ?u = "upd_control k ?h ?c"
      have uc: "control j ?u = (if j = k then ?h (?ss ! k) else ?ss ! j)" for j
        using cs(2) by (simp add: control_def upd_control_def)
      have ul: "length (cy_serverControls ?u) = length ?ss" "cy_pool ?u = ?q" by simp_all
      have "server_ok {i} ?q j (?ss ! j)" if "j < length ?ss" "j \<noteq> k" for j
        using so [OF that(1)] sv [of j] Pair Some that(2) by (simp add: server_ok_def)
      moreover have "server_ok {i} ?q k ((?h (?ss ! k))\<lparr>sc_listening := True\<rparr>)"
        using so [OF cs(2)] sv [of k] Pair Some by (auto simp: server_ok_def)
      ultimately have "almost_ok {i} k ?u"
        unfolding almost_ok_def ul uc using qb mall cs(2) by simp
      from modify_listening_ok [OF this, of True] obtain e where e: "modify_listening k ?u = Inr e" "servers_but {i} e"
        "\<forall>j. (control j e)\<lparr>sc_listening := True\<rparr> = (control j ?u)\<lparr>sc_listening := True\<rparr>"
        "length (cy_serverControls e) = length ?ss" "pool_ident (cy_pool e) = pool_ident ?q" by auto
      have "func_cleanup i ?c = Inr e" using ci Pair Some e(1) by (simp add: func_cleanup_def)
      then have rc: "run_cleanups (cn_handlerCleanups (conn i ?c)) i ?c = Inr e"
        using ci Pair cs(1) run_cleanups_one by simp
      have "sc_confServer (control j e) = sc_confServer (control j cy)
          \<and> sc_curConnectionSize (control j e) \<le> sc_curConnectionSize (control j cy)" for j
      proof -
        have "(control j e)\<lparr>sc_listening := True\<rparr> = (control j ?u)\<lparr>sc_listening := True\<rparr>" using e(3) by blast
        from arg_cong [OF this, of sc_confServer] arg_cong [OF this, of sc_curConnectionSize]
        have "sc_confServer (control j e) = sc_confServer (control j ?u)"
          "sc_curConnectionSize (control j e) = sc_curConnectionSize (control j ?u)" by simp_all
        then show ?thesis unfolding uc by (cases "j = k") (simp_all add: control_def)
      qed
      then show ?thesis using that rc e by blast
    qed
  qed
  have dinv: "server_inv {i} (cy_pool d) (cy_serverControls d)" using d(2) by (simp add: servers_but_def)
  then have dp: "pool_inv (cy_pool d)" "clean (cy_pool d)" by (auto simp: server_inv_def)
  have db: "busy (cy_pool d) = busy ?p" using pool_ident_eqD(2) [OF d(3)] qb(3) by simp
  let ?f = "free_finish i (cy_pool d)"
  have f: "pool_inv ?f" "busy ?f = busy ?p - {i}" "clean ?f" "\<forall>j\<in>busy ?p. j \<noteq> i \<longrightarrow> mark_of j ?f = mark_of j (cy_pool d)"
    using free_finish_ok [OF dp(1)] sm.free_finish_tags [OF dp] i db by auto
  have "served {} k ?f = served {i} k (cy_pool d)" for k
    unfolding served_def f(2) db by (rule arg_cong [of _ _ card]) (use f(4) in auto)
  then have "server_inv {} ?f (cy_serverControls d)"
    using dinv f db unfolding server_inv_def server_ok_def by auto
  then have "servers_ok (d\<lparr>cy_pool := ?f\<rparr>)" by (simp add: servers_ok_def servers_but_def)
  moreover have "free_connection i cy = Inr (d\<lparr>cy_pool := ?f\<rparr>)"
    using d(1) unfolding free_connection_def Let_def c0_def [symmetric] by simp
  moreover have "mark_of j ?f = mark_of j ?p" if "j \<in> busy ?p" "j \<noteq> i" for j
  proof -
    have "0 < j" "j \<le> length (pl_connections ?p)" using busy_pos that(1) by auto
    then have "mark_of j (cy_pool d) = mark_of j ?p"
      using pool_ident_eqD(4,5) [OF d(3)] qm by simp
    then show ?thesis using f(4) that by simp
  qed
  ultimately show ?thesis using d(4,5) f(2) by (auto simp: control_def)
qed

section \<open>Servers with room\<close>

lemma limit_room:
  assumes "servers_ok cy" and "k < length (cy_serverControls cy)" and "server_limit (control k cy) \<noteq> 0"
  shows "room k (nat (server_limit (control k cy))) cy"
  using assms by (auto simp: room_def server_limit_def MAX_ACCEPT_NUM_def Let_def split: if_splits)

lemma almost_ok_servers: "servers_ok cy \<Longrightarrow> k < length (cy_serverControls cy) \<Longrightarrow> almost_ok {} k cy"
  by (auto simp: servers_ok_def servers_but_def server_inv_def almost_ok_def control_def server_ok_def)

text \<open>A thread with one server at its limit: connection 1 listens, connection 3 is served.\<close>

definition full_server :: CoCycle where
  "full_server = small_cycle\<lparr>
     cy_pool := map_conn 3 (\<lambda>c. c\<lparr>cn_serverControl := Some 0, cn_handlerCleanups := [H_SERVER_CLEANUP]\<rparr>)
       (small_pool\<lparr>pl_freeConnections := [5, 7]\<rparr>),
     cy_serverControls := [(new_server_control (new_conf_server\<lparr>sv_maxConnections := 1\<rparr>))\<lparr>
       sc_userFuncs := Some 0, sc_listenConnection := Some 1, sc_curConnectionSize := 1\<rparr>]\<rparr>"

section \<open>When accept fails\<close>

text \<open>From now on the kernel refuses every \<open>accept\<close>, with an error that is not \<open>EAGAIN\<close>.\<close>

definition accept_broken :: "nat \<Rightarrow> nat \<Rightarrow> CoCycle \<Rightarrow> bool" where
  "accept_broken k i cy \<longleftrightarrow> cy_sys cy = [] \<and> cy_curConnection cy = Some i \<and> 0 < fd_of i cy
     \<and> is_inner_socketfd (fd_of i cy) (cy_pool cy) \<and> \<not> cn_flagDying (conn i cy) \<and> server_limit (control k cy) \<noteq> 0"

lemma conn_accept_broken:
  assumes "accept_broken k i cy"
  shows "\<exists>cy'. conn_accept w i cy = Inr (CO_ERROR, - 1, cy') \<and> accept_broken k i cy'"
proof -
  let ?c = "cy\<lparr>cy_sys := [], cy_errno := EPIPE\<rparr>"
  have "origin_accept (fd_of i cy) cy = (Inl EPIPE, ?c)"
    using assms by (simp add: origin_accept_def accept_broken_def)
  moreover have "EPIPE \<noteq> EAGAIN" by (simp add: EPIPE_def EAGAIN_def)
  ultimately have "hook_accept w (fd_of i cy) cy = Inr (Inl EPIPE, ?c)"
    using assms by (simp add: hook_accept_def read_write_mode_def io_inner_def accept_broken_def)
  moreover have "accept_broken k i ?c"
    using assms by (simp add: accept_broken_def fd_of_def conn_def control_def)
  ultimately show ?thesis using assms by (auto simp: conn_accept_def accept_broken_def)
qed

lemma server_accept_broken:
  "accept_broken k i cy \<Longrightarrow> \<exists>cy'. server_accept w k i n cy = Inr cy' \<and> accept_broken k i cy'"
proof (induction n arbitrary: cy)
  case (Suc n)
  obtain c where c: "conn_accept w i cy = Inr (CO_ERROR, - 1, c)" "accept_broken k i c"
    using conn_accept_broken [OF Suc.prems] by blast
  then show ?case using Suc.IH [OF c(2)] by simp
qed simp

lemma listen_handler_broken:
  assumes "listen_handler w k i cy = Some y"
  shows "\<not> accept_broken k i cy"
proof (rule listen_handler.raw_induct [where P = "\<lambda>w k i cy y. \<not> accept_broken k i cy", OF _ assms])
  fix g :: "world \<Rightarrow> nat \<Rightarrow> nat \<Rightarrow> CoCycle \<Rightarrow> CoCycle res option" and w k i cy y
  assume IH: "\<And>w k i cy y. g w k i cy = Some y \<Longrightarrow> \<not> accept_broken k i cy"
    and g: "(let maxAcceptSize = server_limit (control k cy)
       in if maxAcceptSize \<noteq> 0
          then (case server_accept w k i (nat maxAcceptSize) cy of Inl e \<Rightarrow> Some (Inl e) | Inr cy \<Rightarrow> g w k i cy)
          else Some (modify_listening k cy)) = Some y"
  show "\<not> accept_broken k i cy"
  proof
    assume b: "accept_broken k i cy"
    then have l: "server_limit (control k cy) \<noteq> 0" by (simp add: accept_broken_def)
    obtain c where c: "server_accept w k i (nat (server_limit (control k cy))) cy = Inr c" "accept_broken k i c"
      using server_accept_broken [OF b] by blast
    then have "g w k i c = Some y" using g l by (simp add: Let_def)
    from IH [OF this] c(2) show False by simp
  qed
qed

text \<open>C39: When \<open>accept\<close> fails and keeps failing with an error other than \<open>EAGAIN\<close> (no descriptors left, say), a
  listening server below its limit never returns from its handler nor switches its coroutine out: the
  loop of the handler runs for ever and the thread serves nobody.\<close>

theorem accept_failure_spins:
  assumes "accept_broken k i cy"
  shows "listen_handler w k i cy = None"
  using listen_handler_broken [of w k i cy] assms by (cases "listen_handler w k i cy") auto

definition broken_server :: CoCycle where
  "broken_server = upd_control 0 (\<lambda>s. s\<lparr>sc_curConnectionSize := 0\<rparr>)
     (upd_tcp 1 (new_tcp_fd 5) (full_server\<lparr>cy_curConnection := Some 1,
        cy_pool := (cy_pool full_server)\<lparr>pl_innerSockets := {5}\<rparr>\<rparr>))"

theorem accept_failure_spins_witness: "\<forall>w. listen_handler w 0 1 broken_server = None"
proof (rule allI, rule accept_failure_spins)
  let ?c = "full_server\<lparr>cy_curConnection := Some 1, cy_pool := (cy_pool full_server)\<lparr>pl_innerSockets := {5}\<rparr>\<rparr>"
  have v: "valid_id 1 ?c" by (simp add: valid_id_def full_server_def small_pool_free)
  have d: "\<not> cn_flagDying (conn 1 ?c)"
    by (simp add: conn_def full_server_def map_conn_def get_connection_accord_id_def small_pool_connections new_pair_def new_connection_def)
  have c: "conn 1 broken_server = (conn 1 ?c)\<lparr>cn_coTcp := new_tcp_fd 5\<rparr>"
    using conn_upd_same [OF v, of "\<lambda>c. c\<lparr>cn_coTcp := new_tcp_fd 5\<rparr>"]
    by (simp add: broken_server_def upd_tcp_def upd_control_def conn_def)
  have f: "fd_of 1 broken_server = 5" unfolding fd_of_def c by (simp add: new_tcp_fd_def)
  have dd: "\<not> cn_flagDying (conn 1 broken_server)" unfolding c using d by simp
  have r: "cy_sys broken_server = []" "cy_curConnection broken_server = Some 1" "pl_innerSockets (cy_pool broken_server) = {5}"
    "server_limit (control 0 broken_server) \<noteq> 0"
    by (simp_all add: broken_server_def upd_control_def upd_tcp_def upd_conn_def full_server_def small_cycle_def control_def
        server_limit_def new_server_control_def MAX_ACCEPT_NUM_def)
  show "accept_broken 0 1 broken_server"
    unfolding accept_broken_def is_inner_socketfd_def f r(1,2,3) using dd r(4) by simp
qed

end
