(* ===== verification/Server.thy ===== *)
theory Server
  imports Dispatcher Server_Limit "HOL-Library.AList"
begin

text \<open>
  \<^verbatim>\<open>core/co_server.cpp\<close>, \<^verbatim>\<open>core/co_server.h\<close>: what the user of the library calls, and how a worker
  thread is set up. The map of user functions is global; a thread reads it while it is set up.
  \<open>new CoCycle\<close> keeps what the thread gets from outside (clock, kernel, sockets, allocator). The
  process ends where the code calls \<open>exit(-1)\<close>: then there is no thread (\<open>None\<close>).
\<close>

section \<open>The server object\<close>

record CoServer =
  srv_configParser :: "CoConfigParser option"
  srv_workerThreads :: "nat list"
  srv_workerDispatchers :: nat

definition new_server :: CoServer where
  "new_server = \<lparr>srv_configParser = None, srv_workerThreads = [], srv_workerDispatchers = 0\<rparr>"

definition add_user_handlers ::
  "string \<Rightarrow> nat option \<Rightarrow> nat option \<Rightarrow> nat option \<Rightarrow> (string \<times> CoUserFuncs) list \<Rightarrow> (string \<times> CoUserFuncs) list" where
  "add_user_handlers handlerName process destroy data userFuncs =
     AList.update handlerName \<lparr>uf_userProcess = process, uf_userDestroy = destroy, uf_userData = data\<rparr> userFuncs"

text \<open>
  \<open>run_server\<close>: the return value, the number of the worker that runs on the calling thread before the
  call returns, and the server with the workers that got threads of their own. \<open>resize\<close> takes the
  number of threads as a \<open>size_t\<close>.
\<close>

definition run_server ::
  "(string \<Rightarrow> string list option) \<Rightarrow> string option \<Rightarrow> int \<Rightarrow> CoServer \<Rightarrow> (int \<times> nat option \<times> CoServer) res" where
  "run_server dns file useCurThreadServer srv =
     (let (ret, p) = parse_configfile dns file new_parser; srv = srv\<lparr>srv_configParser := Some p\<rparr>
      in if ret \<noteq> CO_OK then Inr (ret, None, srv)
         else let threadSize = cf_workerThreads (m_conf (pr_config p));
                  here = (\<lambda>i. int i = threadSize - 1 \<and> useCurThreadServer = 1)
              in if threadSize < 0 then Inl LengthError
                 else Inr (CO_OK, List.find here [0..<nat threadSize],
                   srv\<lparr>srv_workerDispatchers := nat threadSize,
                       srv_workerThreads := srv_workerThreads srv @ filter (\<lambda>i. \<not> here i) [0..<nat threadSize]\<rparr>))"

section \<open>A worker thread\<close>

definition new_cycle :: "32 word \<Rightarrow> CoConfig \<Rightarrow> (string \<times> CoUserFuncs) list \<Rightarrow> CoCycle \<Rightarrow> CoCycle" where
  "new_cycle threadId conf userFuncs env = env\<lparr>tm_timers := [], tm_next := 0, cy_innerThreadId := threadId, cy_conf := conf,
     cy_pool := new_pool, cy_curConnection := None, cy_serverControls := [], cy_userFuncs := userFuncs, cy_requests := \<lambda>_. None,
     cy_protocols := \<lambda>_. None, cy_infos := \<lambda>_. None, cy_nextObject := 1, cy_requestId := 0, cy_upstreams := [], cy_run := False,
     cy_delayConnections := [], cy_writeResumeConnection := None, cy_waitResumes := [], cy_waitSingles := [],
     cy_calls := [], cy_interest := \<lambda>_. None\<rparr>"

text \<open>How many connections the thread may need, in an \<open>int32_t\<close>.\<close>

fun add_sizes :: "int list \<Rightarrow> int \<Rightarrow> int res" where
  "add_sizes [] n = Inr n"
| "add_sizes (x # xs) n = bindr (i32 (n + x)) (add_sizes xs)"

definition connection_size :: "CoConfig \<Rightarrow> int res" where
  "connection_size conf =
     bindr (add_sizes (map sv_maxConnections (m_confServers conf)) 4) (add_sizes (map up_maxConnections (m_confUpstreams conf)))"

text \<open>\<open>run_server_thread\<close> up to the event loop. \<open>junk\<close> is what the memory of the shared stack holds.\<close>

definition thread_setup :: "world \<Rightarrow> (nat \<Rightarrow> char) \<Rightarrow> CoCycle \<Rightarrow> CoCycle option res" where
  "thread_setup w junk cy =
     bindr (connection_size (cy_conf cy))
       (\<lambda>maxConnectionSize. bindr (pool_init (maxConnectionSize sdiv 4) maxConnectionSize (cy_pool cy))
          (\<lambda>(ret, pool). if ret \<noteq> CO_OK then Inr None
             else let (ret, _, cy) = epoll_init 256 (cy\<lparr>cy_pool := pool\<rparr>)
                  in if ret \<noteq> CO_OK then Inr None
                     else if fst (coroutine_main_init junk (1024 * 1024)) \<noteq> CO_OK then Inr None
                     else bindr (upstream_pool_init (m_confUpstreams (cy_conf cy)) cy)
                            (\<lambda>(ret, cy). if ret \<noteq> CO_OK then Inr None
                               else bindr (dispatcher_init w cy)
                                      (\<lambda>(ret, cy). Inr (if ret \<noteq> CO_OK then None else Some cy)))))"

definition run_server_thread ::
  "world \<Rightarrow> scheduler \<Rightarrow> (nat \<Rightarrow> char) \<Rightarrow> 32 word \<Rightarrow> CoConfig \<Rightarrow> (string \<times> CoUserFuncs) list \<Rightarrow> CoCycle \<Rightarrow> CoCycle option res option" where
  "run_server_thread w s junk threadId conf userFuncs env =
     (case thread_setup w junk (new_cycle threadId conf userFuncs env) of
        Inl e \<Rightarrow> Some (Inl e)
      | Inr None \<Rightarrow> Some (Inr None)
      | Inr (Some cy) \<Rightarrow> bindo (dispatcher_start s cy) (\<lambda>(_, cy). Some (Inr (Some cy))))"

section \<open>Shutting down\<close>

text \<open>
  \<open>m_workerDispatchers[i]\<close> is looked at once a millisecond until the worker has entered its dispatcher;
  \<open>look n\<close> is what is there at the \<open>n\<close>-th look. The result has the dispatchers as \<open>stop\<close> leaves them;
  joining the threads waits for their event loops.
\<close>

partial_function (option) wait_dispatcher :: "(nat \<Rightarrow> CoCycle option) \<Rightarrow> nat \<Rightarrow> (CoCycle \<times> nat) option" where
  "wait_dispatcher look n = (case look n of None \<Rightarrow> wait_dispatcher look (n + 1) | Some cy \<Rightarrow> Some (cy, n))"

fun stop_dispatchers :: "(nat \<Rightarrow> CoCycle option) list \<Rightarrow> nat \<Rightarrow> CoCycle list option" where
  "stop_dispatchers [] n = Some []"
| "stop_dispatchers (look # looks) n =
     (case wait_dispatcher look n of
        None \<Rightarrow> None
      | Some (cy, n) \<Rightarrow> map_option ((#) (snd (dispatcher_stop cy))) (stop_dispatchers looks n))"

definition shut_down :: "(nat \<Rightarrow> CoCycle option) list \<Rightarrow> CoServer \<Rightarrow> (int \<times> CoCycle list \<times> CoServer) option" where
  "shut_down looks srv =
     map_option (\<lambda>stopped. (CO_OK, stopped, srv\<lparr>srv_workerDispatchers := 0, srv_workerThreads := []\<rparr>)) (stop_dispatchers looks 0)"

lemma wait_dispatcher_ends:
  "look m \<noteq> None \<Longrightarrow> n \<le> m \<Longrightarrow> \<exists>cy k. wait_dispatcher look n = Some (cy, k) \<and> n \<le> k \<and> look k = Some cy"
proof (induction "m - n" arbitrary: n)
  case 0
  then show ?case by (subst wait_dispatcher.simps) auto
next
  case (Suc d)
  show ?case
  proof (cases "look n")
    case None
    have n: "d = m - (n + 1)" "n + 1 \<le> m" using Suc.hyps(2) by arith+
    from Suc.hyps(1) [OF n(1) Suc.prems(1) n(2)] obtain cy k
      where "wait_dispatcher look (n + 1) = Some (cy, k)" "n + 1 \<le> k" "look k = Some cy" by blast
    with None show ?thesis by (subst wait_dispatcher.simps) auto
  next
    case (Some cy)
    then show ?thesis by (subst wait_dispatcher.simps) auto
  qed
qed

text \<open>Once every worker has entered its dispatcher and leaves it there, \<open>shut_down\<close> stops them all.\<close>

lemma stop_dispatchers_ends:
  "\<forall>look\<in>set looks. \<exists>m. \<forall>k\<ge>m. look k \<noteq> None \<Longrightarrow>
   \<exists>cys. stop_dispatchers looks n = Some cys \<and> length cys = length looks \<and> (\<forall>cy\<in>set cys. \<not> cy_run cy)"
proof (induction looks arbitrary: n)
  case (Cons look looks)
  then obtain m where "\<forall>k\<ge>m. look k \<noteq> None" by auto
  then have "look (max m n) \<noteq> None" by simp
  from wait_dispatcher_ends [of look, OF this, of n] obtain cy k where "wait_dispatcher look n = Some (cy, k)" by auto
  moreover obtain cys where "stop_dispatchers looks k = Some cys" "length cys = length looks" "\<forall>cy\<in>set cys. \<not> cy_run cy"
    using Cons.IH [of k] Cons.prems by auto
  ultimately show ?case by (simp add: dispatcher_stop_def)
qed simp

text \<open>A \<open>stop\<close> between the end of the set-up and \<open>start\<close> has no effect: \<open>start\<close> sets the flag again.\<close>

lemma stop_before_start_lost: "dispatcher_start s (snd (dispatcher_stop cy)) = dispatcher_start s cy"
  by (simp add: dispatcher_start_def dispatcher_stop_def)

end
