(* ===== verification/Server_Properties.thy ===== *)
theory Server_Properties
  imports Server
begin

text \<open>
  What the set-up of \<^verbatim>\<open>core/co_server.cpp\<close> gives a worker thread: how many connections its pool can
  hand out, and that its servers start in the order the rest of the development relies on.
\<close>

section \<open>The size of the pool\<close>

lemma card_odd: "card {i. odd i \<and> i \<le> 2 * n} = n"
proof -
  have "{i. odd i \<and> i \<le> 2 * n} = (\<lambda>j. 2 * j + 1) ` {..<n}" by (auto elim!: oddE)
  then show ?thesis by (simp add: card_image inj_on_def)
qed

text \<open>The number of connections that can exist, and how many of them are in use.\<close>

definition capacity :: "int \<Rightarrow> CoConnectionPool \<Rightarrow> bool" where
  "capacity m p \<longleftrightarrow> pl_maxConnectionSize p = m \<and> pl_curConnectionSize p \<le> m"

lemma card_busy:
  assumes "pool_inv p"
  shows "int (card (busy p)) = pl_curConnectionSize p - int (length (pl_freeConnections p))"
proof -
  define n where "n = nat (pl_curConnectionSize p)"
  have i: "int (length (pl_connections p)) = 2 * pl_curConnectionSize p" using assms by (simp add: pool_inv_def)
  then have "0 \<le> pl_curConnectionSize p" by linarith
  then have c: "pl_curConnectionSize p = int n" by (simp add: n_def)
  then have l: "length (pl_connections p) = 2 * n" using i by linarith
  have s: "set (pl_freeConnections p) \<subseteq> {i. odd i \<and> i \<le> 2 * n}" "distinct (pl_freeConnections p)"
    using assms l by (auto simp: pool_inv_def)
  have f: "finite {i. odd i \<and> i \<le> 2 * n}" by (rule finite_subset [of _ "{..2 * n}"]) auto
  have "card (busy p) = n - length (pl_freeConnections p)"
    unfolding busy_def l using card_Diff_subset [OF finite_set s(1)] card_odd [of n] distinct_card [OF s(2)] by simp
  moreover have "length (pl_freeConnections p) \<le> n"
    using card_mono [OF f s(1)] card_odd [of n] distinct_card [OF s(2)] by simp
  ultimately show ?thesis using c by simp
qed

lemma expand_loop_size [simp]:
  "pl_curConnectionSize (expand_loop i n p) = pl_curConnectionSize p"
  "pl_maxConnectionSize (expand_loop i n p) = pl_maxConnectionSize p"
  by (induction i n p rule: expand_loop.induct) simp_all

lemma expand_loop_free: "pl_freeConnections (expand_loop i (Suc n) p) \<noteq> []"
proof -
  have s: "set (pl_freeConnections p) \<subseteq> set (pl_freeConnections (expand_loop i n p))" for i n p
    by (induction i n p rule: expand_loop.induct) auto
  have "i + 1 \<in> set (pl_freeConnections (expand_loop i (Suc n) p))" unfolding expand_loop.simps by (rule subsetD [OF s]) simp
  then show ?thesis by auto
qed

lemma expand_capacity: "expand_connections n p = Inr (ret, p') \<Longrightarrow> capacity m p \<Longrightarrow> capacity m p'"
  by (auto simp: expand_connections_def capacity_def Let_def bindr_eq_Inr_conv split: if_splits)

lemma ensure_capacity: "ensure_free p = Inr p' \<Longrightarrow> capacity m p \<Longrightarrow> capacity m p'"
  by (auto simp: ensure_free_def bindr_eq_Inr_conv intro: expand_capacity split: if_splits)

lemma map_conn_capacity [simp]: "capacity m (map_conn i f p) = capacity m p"
  by (simp add: capacity_def)

lemma take_front_capacity: "capacity m (take_front now fd p) = capacity m p"
  by (simp add: take_front_def Let_def) (simp add: capacity_def)

lemma take_capacity:
  assumes "capacity m (fst ps)" and "take_connection a ps = Inr (r, ps')"
  shows "capacity m (fst ps')"
proof -
  obtain p s p' s' where ps: "ps = (p, s)" "ps' = (p', s')" by fastforce
  have c: "capacity m p" using assms(1) ps by simp
  have "take_shape p r p'"
    using assms(2) ps by (cases a) (auto intro: get_connection_ip_shape get_connection_fd_shape)
  then have "capacity m p'"
    unfolding take_shape_def using ensure_capacity [OF _ c] by (auto simp: take_front_capacity)
  then show ?thesis using ps by simp
qed

lemma give_capacity: "capacity m (fst (give_connection i ps)) = capacity m (fst ps)"
proof -
  have "capacity m (reset_block j p) = capacity m p" for j p by (simp add: reset_block_def split: option.split)
  moreover have "capacity m (p\<lparr>pl_freeConnections := fs\<rparr>) = capacity m p" "capacity m (p\<lparr>pl_innerSockets := ss\<rparr>) = capacity m p" for p fs ss
    by (simp_all add: capacity_def)
  ultimately show ?thesis by (simp add: give_connection_def free_finish_def free_socket_def Let_def connection_reset_def)
qed

context object_pool begin

lemma run_keeps:
  assumes "\<And>a p r p'. Q p \<Longrightarrow> alloc a p = Inr (r, p') \<Longrightarrow> Q p'" and "\<And>i p. Q p \<Longrightarrow> Q (release i p)"
  shows "run xs held p = Inr (held', p') \<Longrightarrow> Q p \<Longrightarrow> Q p'"
  by (induction xs held p rule: run.induct) (auto simp: bindr_eq_Inr_conv intro: assms split: if_splits)

end

lemma ensure_free_gives:
  assumes "pool_inv p" and "capacity m p" and "m < 2 ^ 31 - 16"
  shows "(\<exists>q. ensure_free p = Inr q \<and> pl_freeConnections q \<noteq> []) \<longleftrightarrow> int (card (busy p)) < m"
proof (cases "pl_freeConnections p = []")
  case False
  then have "0 < length (pl_freeConnections p)" by simp
  then have "int (card (busy p)) < m" using card_busy [OF assms(1)] assms(2) unfolding capacity_def by linarith
  then show ?thesis using False by (simp add: ensure_free_def)
next
  case True
  define cur where "cur = pl_curConnectionSize p"
  have c: "int (card (busy p)) = cur" "0 \<le> cur" using card_busy [OF assms(1)] True by (simp_all add: cur_def)
  show ?thesis
  proof (cases "cur < m")
    case False
    then have "ensure_free p = Inr p" using True assms(2) by (simp add: ensure_free_def expand_connections_def capacity_def cur_def)
    then show ?thesis using True c False by simp
  next
    case le: True
    define n where "n = (if cur + 16 > m then m else cur + 16)"
    have i: "in_i32 (cur + 16)" using assms(3) le c(2) by (simp add: in_i32_def)
    have n: "cur < n" using le by (simp add: n_def)
    then obtain d where d: "nat (n - cur) = Suc d" by (metis gr0_implies_Suc zero_less_nat_eq diff_gt_0_iff_gt)
    have "ensure_free p = Inr (expand_loop (2 * nat cur) (nat (n - cur)) (p\<lparr>pl_curConnectionSize := n\<rparr>))"
      using True le assms(2) i n unfolding ensure_free_def expand_connections_def Let_def capacity_def cur_def [symmetric]
      by (simp add: n_def i32_ok)
    then show ?thesis unfolding d using expand_loop_free c(1) le by (simp del: expand_loop.simps)
  qed
qed

lemma pool_init_capacity: "pool_init mn mx new_pool = Inr (CO_OK, p) \<Longrightarrow> capacity (min mx MAX_CONNECTION_SIZE + 3) p"
proof -
  assume e: "pool_init mn mx new_pool = Inr (CO_OK, p)"
  let ?m = "min mx MAX_CONNECTION_SIZE + 3"
  let ?q = "new_pool\<lparr>pl_minConnectionSize := if mn < MIN_CONNECTION_SIZE then MIN_CONNECTION_SIZE else mn, pl_maxConnectionSize := ?m\<rparr>"
  have "(if MAX_CONNECTION_SIZE < mx then MAX_CONNECTION_SIZE else mx) = min mx MAX_CONNECTION_SIZE" by (simp add: min_def)
  with e obtain n where x: "expand_connections n ?q = Inr (CO_OK, p)"
    unfolding pool_init_def Let_def by (auto simp: bindr_eq_Inr_conv)
  have q: "pl_maxConnectionSize ?q = ?m" "pl_curConnectionSize ?q = 0" by (simp_all add: new_pool_def)
  have "\<not> ?m \<le> 0"
  proof
    assume "?m \<le> 0"
    then have "expand_connections n ?q = Inr (CO_ERROR, ?q)" unfolding expand_connections_def Let_def q by simp
    with x show False by simp
  qed
  then have "capacity ?m ?q" using q by (simp add: capacity_def)
  with x show ?thesis by (rule expand_capacity)
qed


text \<open>Six servers of one connection each: 13 connections can be had, and 14 would be needed.\<close>

definition six_servers :: CoConfig where
  "six_servers = new_config\<lparr>m_confServers := replicate 6 (new_conf_server\<lparr>sv_maxConnections := 1\<rparr>)\<rparr>"

lemma take_many:
  assumes "pool_inv p" and "capacity m p" and "m < 2 ^ 31 - 16" and "int (card (busy p) + n) \<le> m"
  shows "\<exists>held' p'. cp.run (replicate n (Inl (ByFd 9 None 0))) held (p, replicate n (0, 0)) = Inr (held', p', []) \<and> length held' = length held + n"
  using assms(1,2,4)
proof (induction n arbitrary: held p)
  case (Suc n)
  have "int (card (busy p)) < m" using Suc.prems(3) by simp
  with ensure_free_gives [OF Suc.prems(1,2) assms(3)] obtain q i js where q: "ensure_free p = Inr q" "pl_freeConnections q = i # js"
    by (metis list.exhaust)
  obtain q' where t: "take_connection (ByFd 9 None 0) (p, (0, 0) # replicate n (0, 0)) = Inr (Some i, q', replicate n (0, 0))"
    using q by (simp add: get_connection_fd_def init_client_socketfd_def set_nonblock_def Let_def)
  have a: "pool_inv q'" "i \<notin> busy p" "busy q' = insert i (busy p)"
    using cp.alloc_ok [OF _ t] Suc.prems(1) by simp_all
  have c: "capacity m q'" using take_capacity [OF _ t] Suc.prems(2) by simp
  have "int (card (busy q') + n) \<le> m" using a(2,3) Suc.prems(3) by simp
  from Suc.IH [OF a(1) c this, of "i # held"] show ?case using t by (simp del: take_connection.simps)
qed simp


section \<open>The servers of a new thread\<close>

lemma server_inv_take:
  assumes inv: "server_inv {} p ss" and q: "pool_inv q" "clean q" "i \<notin> busy p" "busy q = insert i (busy p)"
    and m: "\<forall>j\<in>busy p. mark_of j q = mark_of j p" "mark_of i q = (None, [])"
  shows "server_inv {} q ss"
proof -
  have "served {} k q = served {} k p" for k using served_insert [OF q(3,4) m(1), of k] m(2) by simp
  then show ?thesis using inv q m by (auto simp: server_inv_def server_ok_def mark_ok_def)
qed

lemma server_inv_map_conn:
  assumes "server_inv X p ss" and "\<And>c. links (f c) = links c" and "\<And>c. mark (f c) = mark c" and i: "0 < i" "i \<le> length (pl_connections p)"
  shows "server_inv X (map_conn i f p) ss"
proof -
  have p: "pool_inv p" "clean p" using assms(1) by (auto simp: server_inv_def)
  have m: "mark_of j (map_conn i f p) = mark_of j p" if "0 < j" for j using tag_map_conn [of mark f, OF assms(3) that i] .
  show ?thesis
  proof (rule server_inv_transfer [OF assms(1)])
    show "pool_inv (map_conn i f p)" by (rule pool_inv_map_conn [OF p(1) assms(2)])
    show "clean (map_conn i f p)" using p m free_pos [OF p(1)] by (simp add: free_blank_def)
    show "mark_of j (map_conn i f p) = mark_of j p" if "j \<in> busy p" for j using m busy_pos [OF that] by simp
  qed simp
qed

text \<open>Both kinds of \<open>get_connection\<close> on the pool of the thread keep the servers \<open>ss\<close> in order.\<close>

lemma cycle_get_servers:
  assumes "server_inv {} (cy_pool cy) ss"
  shows "cycle_get_fd w fd cy = Inr (r, cy') \<Longrightarrow> server_inv {} (cy_pool cy') ss \<and> (\<forall>i. r = Some i \<longrightarrow> i \<in> busy (cy_pool cy'))"
    and "cycle_get_ip ip port listen cy = Inr (r, cy') \<Longrightarrow> server_inv {} (cy_pool cy') ss \<and> (\<forall>i. r = Some i \<longrightarrow> i \<in> busy (cy_pool cy'))"
proof -
  have p: "pool_inv (cy_pool cy)" "clean (cy_pool cy)" using assms by (auto simp: server_inv_def)
  have k: "server_inv {} q ss \<and> (\<forall>i. r = Some i \<longrightarrow> i \<in> busy q)" if "taken mark (None, []) (cy_pool cy) r q" for q
    using that server_inv_take [OF assms] server_inv_transfer [OF assms] by (cases r) (auto simp: taken_def)
  show "server_inv {} (cy_pool cy') ss \<and> (\<forall>i. r = Some i \<longrightarrow> i \<in> busy (cy_pool cy'))" if "cycle_get_fd w fd cy = Inr (r, cy')"
    using k sm.cycle_get_tags(1) [OF p that] by blast
  show "server_inv {} (cy_pool cy') ss \<and> (\<forall>i. r = Some i \<longrightarrow> i \<in> busy (cy_pool cy'))" if "cycle_get_ip ip port listen cy = Inr (r, cy')"
    using k sm.cycle_get_tags(2) [OF p that] by blast
qed

text \<open>A thread that has nothing to do yet and whose loop has not started.\<close>

definition at_rest :: "CoCycle \<Rightarrow> bool" where
  "at_rest cy \<longleftrightarrow> cy_delayConnections cy = [] \<and> cy_waitResumes cy = [] \<and> cy_waitSingles cy = [] \<and> tm_timers cy = [] \<and> \<not> cy_run cy"

lemma at_rest_frames [simp]:
  "at_rest (upd_conn i f cy) = at_rest cy" "at_rest (upd_control k g cy) = at_rest cy" "at_rest (tick cy) = at_rest cy"
  "at_rest (cy\<lparr>cy_sys := s\<rparr>) = at_rest cy" "at_rest (cy\<lparr>cy_pool := q\<rparr>) = at_rest cy" "at_rest (cy\<lparr>cy_serverControls := ss\<rparr>) = at_rest cy"
  "at_rest (cy\<lparr>cy_upstreams := us\<rparr>) = at_rest cy" "at_rest (cy\<lparr>cy_writeResumeConnection := r\<rparr>) = at_rest cy"
  by (simp_all add: at_rest_def upd_conn_def upd_control_def tick_def)

lemma at_rest_modify [simp]: "at_rest (snd (modify_connection i e op cy)) = at_rest cy"
proof -
  have "at_rest (snd (epoll_ctl ctl f v d c)) = at_rest c" for ctl f v d c
    by (simp add: at_rest_def epoll_ctl_def Let_def split: option.split)
  then show ?thesis unfolding modify_connection_def Let_def case_prod_beta by simp
qed

lemma at_rest_listening: "modify_listening k cy = Inr cy' \<Longrightarrow> at_rest cy' = at_rest cy"
  by (auto simp: modify_listening_def Let_def split: if_splits option.splits)

lemma cycle_get_frames:
  "cycle_get_fd w fd cy = Inr (r, cy') \<Longrightarrow> cy_serverControls cy' = cy_serverControls cy \<and> cy_conf cy' = cy_conf cy \<and> at_rest cy' = at_rest cy"
  "cycle_get_ip ip port listen cy = Inr (r, cy') \<Longrightarrow> cy_serverControls cy' = cy_serverControls cy \<and> cy_conf cy' = cy_conf cy \<and> at_rest cy' = at_rest cy"
  by (auto simp: cycle_get_fd_def cycle_get_ip_def bindr_eq_Inr_conv at_rest_def tick_def)

lemma mark_ok_new: "mark_ok n m \<Longrightarrow> fst m \<noteq> Some n" "mark_ok n m \<Longrightarrow> mark_ok (Suc n) m"
  by (auto simp: mark_ok_def split: prod.splits option.splits)

text \<open>A server that has been added and does not listen yet.\<close>

lemma almost_ok_new:
  assumes "server_inv {} (cy_pool cy) ss" and "cy_serverControls cy = ss @ [s]"
    and "sc_curConnectionSize s = 0" and "sc_listenConnection s \<noteq> None"
  shows "almost_ok {} (length ss) cy"
proof -
  have "served {} (length ss) (cy_pool cy) = 0"
    using assms(1) mark_ok_new(1) unfolding served_def server_inv_def by (metis (mono_tags, lifting) DiffD1 card.empty Collect_empty_eq)
  then have "server_ok {} (cy_pool cy) (length ss) (s\<lparr>sc_listening := True\<rparr>)" using assms(3,4) by (simp add: server_ok_def)
  moreover have "\<forall>i\<in>busy (cy_pool cy). mark_ok (Suc (length ss)) (mark_of i (cy_pool cy))"
    using assms(1) mark_ok_new(2) unfolding server_inv_def by blast
  moreover have "server_ok {} (cy_pool cy) j ((ss @ [s]) ! j)" if "j < Suc (length ss)" "j \<noteq> length ss" for j
    using assms(1) that by (simp add: server_inv_def nth_append)
  ultimately show ?thesis using assms(1,2) by (simp add: almost_ok_def control_def server_inv_def)
qed

lemma server_init_ok:
  assumes inv: "server_inv {} (cy_pool cy) ss" and c: "cy_serverControls cy = ss @ [new_server_control conf]"
    and r: "at_rest cy" and e: "server_init (length ss) cy = Inr (CO_OK, cy')"
  shows "server_inv {} (cy_pool cy') (cy_serverControls cy') \<and> at_rest cy'
    \<and> map sc_confServer (cy_serverControls cy') = map sc_confServer ss @ [conf]
    \<and> map sc_curConnectionSize (cy_serverControls cy') = map sc_curConnectionSize ss @ [0]"
proof -
  let ?k = "length ss"
  obtain u where u: "find_user_funcs (sv_handlerName conf) 0 (cy_userFuncs cy) = Some u"
    using e c by (auto simp: server_init_def Let_def control_def new_server_control_def split: option.splits)
  obtain g cy1 where g: "cycle_get_ip (sv_listenIP conf) (sv_listenPort conf) True (upd_control ?k (\<lambda>s. s\<lparr>sc_userFuncs := Some u\<rparr>) cy) = Inr (g, cy1)"
    using e c u by (auto simp: server_init_def Let_def control_def new_server_control_def bindr_eq_Inr_conv)
  have i1: "server_inv {} (cy_pool cy1) ss" "\<And>i. g = Some i \<Longrightarrow> i \<in> busy (cy_pool cy1)" 
    using cycle_get_servers(2) [OF _ g, of ss] inv by auto
  have c1: "cy_serverControls cy1 = ss @ [(new_server_control conf)\<lparr>sc_userFuncs := Some u\<rparr>]" "at_rest cy1"
    using cycle_get_frames(2) [OF g] c r by (auto simp: upd_control_def control_def)
  obtain i where i: "g = Some i" using e c u g by (cases g) (auto simp: server_init_def Let_def control_def new_server_control_def)
  let ?s = "(new_server_control conf)\<lparr>sc_userFuncs := Some u, sc_listenConnection := Some i\<rparr>"
  let ?c = "upd_conn i (\<lambda>c. c\<lparr>cn_handler := H_LISTEN ?k, cn_handlerException := H_LISTEN_EXCEPTION\<rparr>)
    (upd_control ?k (\<lambda>s. s\<lparr>sc_listenConnection := Some i\<rparr>) cy1)"
  have m: "modify_listening ?k ?c = Inr cy'"
    using e c u g i by (auto simp: server_init_def Let_def control_def new_server_control_def bindr_eq_Inr_conv)
  have s: "cy_serverControls ?c = ss @ [?s]" using c1(1) by (simp add: upd_control_def upd_conn_def control_def)
  have b: "0 < i" "i \<le> length (pl_connections (cy_pool cy1))" using i1(2) [OF i] busy_pos by auto
  have "cy_pool ?c = map_conn i (\<lambda>c. c\<lparr>cn_handler := H_LISTEN ?k, cn_handlerException := H_LISTEN_EXCEPTION\<rparr>) (cy_pool cy1)"
    by (simp add: upd_conn_def upd_control_def)
  then have inv3: "server_inv {} (cy_pool ?c) ss"
    using server_inv_map_conn [OF i1(1) _ _ b] by (simp add: links_def mark_def)
  have "almost_ok {} ?k ?c" by (rule almost_ok_new [OF inv3 s]) (simp_all add: new_server_control_def)
  from modify_listening_ok [OF this, of False] m obtain "servers_but {} cy'" "length (cy_serverControls cy') = Suc ?k"
    and l: "\<And>j. (control j cy')\<lparr>sc_listening := False\<rparr> = (control j ?c)\<lparr>sc_listening := False\<rparr>" using s by auto
  moreover have f: "sc_confServer (control j cy') = sc_confServer (control j ?c)" "sc_curConnectionSize (control j cy') = sc_curConnectionSize (control j ?c)" for j
    using arg_cong [OF l [of j], of sc_confServer] arg_cong [OF l [of j], of sc_curConnectionSize] by simp_all
  moreover have n: "length (cy_serverControls cy') = length (cy_serverControls ?c)" using calculation(2) s by simp
  moreover have "map sc_confServer (cy_serverControls cy') = map sc_confServer (cy_serverControls ?c)"
    by (rule nth_equalityI) (use f(1) n in \<open>simp_all add: control_def\<close>)
  moreover have "map sc_curConnectionSize (cy_serverControls cy') = map sc_curConnectionSize (cy_serverControls ?c)"
    by (rule nth_equalityI) (use f(2) n in \<open>simp_all add: control_def\<close>)
  moreover have "at_rest cy'" using at_rest_listening [OF m] c1(2) by simp
  ultimately show ?thesis using s by (simp add: servers_but_def new_server_control_def)
qed

lemma init_servers_ok:
  "server_inv {} (cy_pool cy) (cy_serverControls cy) \<Longrightarrow> at_rest cy \<Longrightarrow> init_servers confs cy = Inr (CO_OK, cy') \<Longrightarrow>
   server_inv {} (cy_pool cy') (cy_serverControls cy') \<and> at_rest cy'
   \<and> map sc_confServer (cy_serverControls cy') = map sc_confServer (cy_serverControls cy) @ confs
   \<and> map sc_curConnectionSize (cy_serverControls cy') = map sc_curConnectionSize (cy_serverControls cy) @ map (\<lambda>_. 0) confs"
proof (induction confs arbitrary: cy)
  case (Cons conf confs)
  let ?c = "cy\<lparr>cy_serverControls := cy_serverControls cy @ [new_server_control conf]\<rparr>"
  obtain cy1 where 1: "server_init (length (cy_serverControls cy)) ?c = Inr (CO_OK, cy1)" "init_servers confs cy1 = Inr (CO_OK, cy')"
    using Cons.prems(3) by (auto simp: bindr_eq_Inr_conv split: if_splits)
  have "server_inv {} (cy_pool ?c) (cy_serverControls cy)" "at_rest ?c" using Cons.prems(1,2) by simp_all
  from server_init_ok [OF this(1) _ this(2) 1(1)] have s: "server_inv {} (cy_pool cy1) (cy_serverControls cy1)" "at_rest cy1"
    "map sc_confServer (cy_serverControls cy1) = map sc_confServer (cy_serverControls cy) @ [conf]"
    "map sc_curConnectionSize (cy_serverControls cy1) = map sc_curConnectionSize (cy_serverControls cy) @ [0]" by simp_all
  from Cons.IH [OF s(1,2) 1(2)] s(3,4) show ?case by simp
qed simp

lemma init_comm_ok:
  assumes "server_inv {} (cy_pool cy) ss" and "cy_serverControls cy = ss" and "at_rest cy" and e: "init_yieldresume_comm w cy = Inr (CO_OK, cy')"
  shows "server_inv {} (cy_pool cy') ss \<and> cy_serverControls cy' = ss \<and> at_rest cy' \<and> cy_conf cy' = cy_conf cy"
proof -
  obtain r x s1 fd0 fd1 s2 where s: "syscall (cy_sys cy) = ((r, x), s1)" "syscall s1 = ((fd0, fd1), s2)" by (metis prod.exhaust)
  let ?a = "cy\<lparr>cy_sys := s2\<rparr>"
  obtain i cy1 where 1: "cycle_get_fd w fd0 ?a = Inr (Some i, cy1)"
    using e s by (fastforce simp: init_yieldresume_comm_def bindr_eq_Inr_conv split: if_splits option.splits)
  obtain j cy2 where 2: "cycle_get_fd w fd1 cy1 = Inr (Some j, cy2)"
    using e s 1 by (fastforce simp: init_yieldresume_comm_def bindr_eq_Inr_conv Let_def split: if_splits option.splits)
  define f where "f = (\<lambda>c::CoConnection. c\<lparr>cn_handler := H_RESUME_READ, cn_handlerException := H_RESUME_EXCEPTION\<rparr>)"
  let ?b = "upd_conn i f (cy2\<lparr>cy_writeResumeConnection := Some j\<rparr>)"
  have r: "cy' = snd (modify_connection i EPOLL_EVENTS_ADD CO_EVENT_READ ?b)"
    using e s 1 2 by (auto simp: init_yieldresume_comm_def Let_def f_def split: if_splits)
  have "server_inv {} (cy_pool ?a) ss" using assms(1) by simp
  from cycle_get_servers(1) [OF this 1] have i: "server_inv {} (cy_pool cy1) ss" "i \<in> busy (cy_pool cy1)" by simp_all
  then have p: "pool_inv (cy_pool cy1)" "0 < i" "i \<le> length (pl_connections (cy_pool cy1))" using busy_pos by (auto simp: server_inv_def)
  obtain q s where q: "get_connection_fd fd1 (w_peer w fd1) (now_ms cy1) (cy_pool cy1) (cy_sys cy1) = Inr (Some j, q, s)"
    and c: "cy2 = tick (cy1\<lparr>cy_pool := q, cy_sys := s\<rparr>)" using 2 by (auto simp: cycle_get_fd_def bindr_eq_Inr_conv)
  have "i \<in> busy q" using get_connection_fd_ok [OF p(1) q] i(2) by simp
  then have b: "0 < i" "i \<le> length (pl_connections (cy_pool cy2))" using busy_pos by (auto simp: c tick_def)
  have "server_inv {} (cy_pool cy2) ss" using cycle_get_servers(1) [OF i(1) 2] by simp
  from server_inv_map_conn [OF this, of f i] b have "server_inv {} (cy_pool ?b) ss"
    by (simp add: upd_conn_def f_def links_def mark_def)
  then have "server_inv {} (cy_pool cy') ss"
    using server_inv_cong sm.tags_ident same_objects_modify [of ?b] unfolding r same_objects_def by metis
  moreover have "cy_serverControls cy' = ss \<and> cy_conf cy' = cy_conf cy"
    using same_objects_modify [of ?b] cycle_get_frames(1) [OF 1] cycle_get_frames(1) [OF 2] assms(2)
    unfolding r same_objects_def by (simp add: upd_conn_def)
  moreover have "at_rest cy'" using cycle_get_frames(1) [OF 1] cycle_get_frames(1) [OF 2] assms(3) unfolding r by simp
  ultimately show ?thesis by simp
qed

lemma upstream_pool_init_frame: "upstream_pool_init confs cy = Inr (r, cy') \<Longrightarrow> \<exists>us. cy' = cy\<lparr>cy_upstreams := us\<rparr>"
proof (induction confs arbitrary: cy)
  case Nil
  then have "cy' = cy\<lparr>cy_upstreams := cy_upstreams cy\<rparr>" by simp
  then show ?case by blast
next
  case (Cons conf confs)
  show ?case
  proof (cases "find_upstream (up_name conf) cy = None")
    case True
    then obtain ret u where "upstream_pool_init confs (if ret \<noteq> CO_OK then cy else cy\<lparr>cy_upstreams := cy_upstreams cy @ [(up_name conf, u)]\<rparr>) = Inr (r, cy')"
      using Cons.prems by (auto simp: bindr_eq_Inr_conv)
    from Cons.IH [OF this] show ?thesis by (auto split: if_splits)
  qed (use Cons in simp)
qed

lemma pool_init_clean: "pool_init mn mx new_pool = Inr (ret, p) \<Longrightarrow> server_inv {} p []"
proof -
  assume e: "pool_init mn mx new_pool = Inr (ret, p)"
  show "server_inv {} p []" using pool_init_ok [OF e] sm.pool_init_tags [OF e] by (simp add: server_inv_def)
qed

lemma thread_setup_core:
  assumes "thread_setup w junk (new_cycle threadId conf userFuncs env) = Inr (Some cy)"
  shows "servers_ok cy \<and> map sc_confServer (cy_serverControls cy) = m_confServers conf
    \<and> (\<forall>s\<in>set (cy_serverControls cy). sc_curConnectionSize s = 0 \<and> sc_listenConnection s \<noteq> None
        \<and> (0 < sv_maxConnections (sc_confServer s) \<longrightarrow> sc_listening s))
    \<and> cy_delayConnections cy = [] \<and> cy_waitResumes cy = [] \<and> cy_waitSingles cy = [] \<and> tm_timers cy = [] \<and> \<not> cy_run cy"
proof -
  let ?n = "new_cycle threadId conf userFuncs env"
  obtain mx pool where p: "pool_init (mx sdiv 4) mx (cy_pool ?n) = Inr (CO_OK, pool)"
    and e: "(let (ret, _, cy) = epoll_init 256 (?n\<lparr>cy_pool := pool\<rparr>)
             in if ret \<noteq> CO_OK then Inr None
                else if fst (coroutine_main_init junk (1024 * 1024)) \<noteq> CO_OK then Inr None
                else bindr (upstream_pool_init (m_confUpstreams (cy_conf cy)) cy)
                       (\<lambda>(ret, cy). if ret \<noteq> CO_OK then Inr None
                          else bindr (dispatcher_init w cy) (\<lambda>(ret, cy). Inr (if ret \<noteq> CO_OK then None else Some cy)))) = Inr (Some cy)"
    using assms unfolding thread_setup_def by (auto simp: bindr_eq_Inr_conv simp del: CO_OK_def split: if_splits)
  obtain s us where d: "dispatcher_init w (?n\<lparr>cy_pool := pool, cy_sys := s, cy_upstreams := us\<rparr>) = Inr (CO_OK, cy)"
    using e upstream_pool_init_frame by (fastforce simp: epoll_init_def Let_def case_prod_beta bindr_eq_Inr_conv split: if_splits)
  let ?a = "?n\<lparr>cy_pool := pool, cy_sys := s, cy_upstreams := us\<rparr>"
  obtain cy1 where 1: "init_yieldresume_comm w ?a = Inr (CO_OK, cy1)" "init_servers (m_confServers (cy_conf cy1)) cy1 = Inr (CO_OK, cy)"
    using d by (auto simp: dispatcher_init_def bindr_eq_Inr_conv split: if_splits)
  have n: "cy_pool ?n = new_pool" by (simp add: new_cycle_def)
  have "server_inv {} (cy_pool ?a) []" using pool_init_clean p unfolding n by simp
  moreover have "at_rest ?a" "cy_serverControls ?a = []" by (simp_all add: at_rest_def new_cycle_def)
  ultimately have c: "server_inv {} (cy_pool cy1) []" "cy_serverControls cy1 = []" "at_rest cy1" "cy_conf cy1 = conf"
    using init_comm_ok [OF _ _ _ 1(1)] by (simp_all add: new_cycle_def)
  have i: "server_inv {} (cy_pool cy) (cy_serverControls cy)" "at_rest cy" "map sc_confServer (cy_serverControls cy) = m_confServers conf"
    "map sc_curConnectionSize (cy_serverControls cy) = map (\<lambda>_. 0) (m_confServers conf)"
    using init_servers_ok [OF _ c(3) 1(2)] c by simp_all
  have z: "sc_curConnectionSize s = 0" if "s \<in> set (cy_serverControls cy)" for s
    using that i(4) by (metis (no_types, lifting) image_eqI list.set_map imageE)
  have "\<exists>k<length (cy_serverControls cy). server_ok {} (cy_pool cy) k s" if "s \<in> set (cy_serverControls cy)" for s
    using that i(1) by (metis in_set_conv_nth server_inv_def)
  then show ?thesis using i z by (fastforce simp: servers_ok_def servers_but_def server_ok_def at_rest_def)
qed

text \<open>C18: A worker thread starts in order: when the set-up of \<open>run_server_thread\<close> succeeds, there is one server
  per \<open>server\<close> block of the configuration, in their order, each with its listening connection and no
  client, listening if it may have clients at all; the pool and the servers are in the state that
  accepting and closing then keep, nothing waits in the queues, no timer runs, and the loop has not
  started.\<close>

theorem thread_setup_ok:
  assumes "thread_setup w junk (new_cycle threadId conf userFuncs env) = Inr (Some cy)"
  shows "servers_ok cy \<and> map sc_confServer (cy_serverControls cy) = m_confServers conf
    \<and> (\<forall>s\<in>set (cy_serverControls cy). sc_curConnectionSize s = 0 \<and> sc_listenConnection s \<noteq> None
        \<and> (0 < sv_maxConnections (sc_confServer s) \<longrightarrow> sc_listening s))
    \<and> cy_delayConnections cy = [] \<and> cy_waitResumes cy = [] \<and> cy_waitSingles cy = [] \<and> tm_timers cy = [] \<and> \<not> cy_run cy"
  using assms by (rule thread_setup_core)

text \<open>A thread with one server; the kernel gives it the descriptors 3 to 6.\<close>

definition lone_world :: world where
  "lone_world = \<lparr>w_others = \<lambda>_ cy. cy, w_process = \<lambda>_ _ cy. Inr (0, cy), w_destroy = \<lambda>_ _ cy. Inr (0, cy), w_peer = \<lambda>_. None\<rparr>"

definition one_server :: CoConfig where
  "one_server = new_config\<lparr>m_confServers := [new_conf_server\<lparr>sv_listenPort := 8080, sv_handlerName := ''hello'', sv_maxConnections := 1\<rparr>]\<rparr>"

definition one_server_cycle :: CoCycle where
  "one_server_cycle = new_cycle 1 one_server (add_user_handlers ''hello'' (Some 0) None None [])
     (small_cycle\<lparr>cy_sys := [(3, 0), (0, 0), (4, 5), (0, 0), (0, 0), (6, 0), (0, 0), (0, 0), (0, 0), (0, 0), (0, 0)]\<rparr>)"

lemma take_fd_next:
  assumes "pl_freeConnections (cy_pool cy) = i # js" and "cy_sys cy = (0, e) # s" and "0 < i" "i \<le> length (pl_connections (cy_pool cy))"
  shows "\<exists>q. cycle_get_fd w fd cy = Inr (Some i, tick (cy\<lparr>cy_pool := q, cy_sys := s\<rparr>)) \<and> pl_freeConnections q = js
    \<and> length (pl_connections q) = length (pl_connections (cy_pool cy))
    \<and> cn_epollCurEvents (get_connection_accord_id i q) = cn_epollCurEvents (get_connection_accord_id i (cy_pool cy))
    \<and> (\<forall>j. 0 < j \<and> j \<noteq> i \<longrightarrow> get_connection_accord_id j q = get_connection_accord_id j (cy_pool cy))"
proof -
  obtain t where t: "init_client_socketfd fd (w_peer w fd) True (cn_coTcp (get_connection_accord_id i (cy_pool cy))) = (CO_OK, t)"
    by (simp add: init_client_socketfd_def Let_def)
  define p where "p = map_conn i (\<lambda>c. c\<lparr>cn_coTcp := t\<rparr>) (cy_pool cy)"
  let ?q = "take_front (now_ms cy) fd p"
  have f: "pl_freeConnections p = i # js" "length (pl_connections p) = length (pl_connections (cy_pool cy))"
    using assms(1) by (simp_all add: p_def)
  have r: "cycle_get_fd w fd cy = Inr (Some i, tick (cy\<lparr>cy_pool := ?q, cy_sys := s\<rparr>))"
    using assms(1,2) t by (simp add: cycle_get_fd_def get_connection_fd_def ensure_free_def set_nonblock_def Let_def p_def)
  let ?p = "p\<lparr>pl_freeConnections := js, pl_innerSockets := insert fd (pl_innerSockets p)\<rparr>"
  have q: "?q = map_conn i (\<lambda>c. c\<lparr>cn_startTimestamp := now_ms cy\<rparr>) ?p" using f(1) by (simp add: take_front_def)
  have g: "get_connection_accord_id j ?p = get_connection_accord_id j p" for j by (simp add: get_connection_accord_id_def)
  have i: "i \<le> length (pl_connections ?p)" using assms(4) f(2) by simp
  have "cn_epollCurEvents (get_connection_accord_id i ?q) = cn_epollCurEvents (get_connection_accord_id i p)"
    unfolding q get_map_conn_same [OF assms(3) i] g by simp
  also have "\<dots> = cn_epollCurEvents (get_connection_accord_id i (cy_pool cy))"
    unfolding p_def get_map_conn_same [OF assms(3,4)] by simp
  finally have "cn_epollCurEvents (get_connection_accord_id i ?q) = cn_epollCurEvents (get_connection_accord_id i (cy_pool cy))" .
  moreover have "get_connection_accord_id j ?q = get_connection_accord_id j (cy_pool cy)" if "0 < j \<and> j \<noteq> i" for j
  proof -
    have j: "0 < j" "i \<noteq> j" using that by simp_all
    show ?thesis unfolding q get_map_conn_other [OF assms(3) j] g unfolding p_def get_map_conn_other [OF assms(3) j] ..
  qed
  moreover have "pl_freeConnections ?q = js" "length (pl_connections ?q) = length (pl_connections (cy_pool cy))"
    unfolding q using f(2) by simp_all
  ultimately show ?thesis using r by blast
qed

lemma take_ip_next:
  assumes "pl_freeConnections (cy_pool cy) = i # js" and "cn_coTcp (get_connection_accord_id i (cy_pool cy)) = new_tcp [] 0 0 0 0"
    and "cy_sys cy = (6, e) # replicate 5 (0, 0)" and "port \<noteq> 0"
  shows "\<exists>cy'. cycle_get_ip ip port True cy = Inr (Some i, cy') \<and> pl_freeConnections (cy_pool cy') = js"
  using assms by (simp add: take_front_def tick_def cycle_get_ip_def get_connection_ip_def ensure_free_def init_ipport_def new_tcp_def set_nonblock_def listen_socket_def
      set_reused_def set_option_def server_bind_def server_listen_def Let_def numeral_eq_Suc)

lemma modify_connection_first:
  assumes "cn_epollCurEvents (conn i cy) = 0" and "cy_interest cy = (\<lambda>_. None)" and "\<not> cy_refuse cy (length (cy_calls cy))"
  shows "fst (modify_connection i EPOLL_EVENTS_ADD CO_EVENT_READ cy) = CO_OK"
proof -
  have "modify_events EPOLL_EVENTS_ADD CO_EVENT_READ 0 = CO_EVENT_READ" "CO_EVENT_READ \<noteq> 0"
    by (simp_all add: modify_events_def CO_EVENT_READ_def EPOLLIN_def EPOLLRDHUP_def)
  then show ?thesis using assms
    by (simp add: modify_connection_def Let_def modify_op_def epoll_ctl_def epoll_apply_def)
qed

lemma modify_listening_total: "sc_listenConnection (control k cy) \<noteq> None \<Longrightarrow> \<exists>cy'. modify_listening k cy = Inr cy'"
  by (auto simp: modify_listening_def Let_def)

lemma modify_listening_free: "modify_listening k cy = Inr cy' \<Longrightarrow> pl_freeConnections (cy_pool cy') = pl_freeConnections (cy_pool cy)"
proof -
  have "pl_freeConnections (cy_pool (snd (modify_connection i e op c))) = pl_freeConnections (cy_pool c)" for i e op c
    using same_objects_modify [of c i e op] by (simp add: same_objects_def pool_ident_def)
  then show "modify_listening k cy = Inr cy' \<Longrightarrow> pl_freeConnections (cy_pool cy') = pl_freeConnections (cy_pool cy)"
    by (auto simp: modify_listening_def Let_def split: if_splits option.splits)
qed

lemma modify_connection_frames:
  "cy_sys (snd (modify_connection i e op cy)) = cy_sys cy"
  "cn_coTcp (conn j (snd (modify_connection i e op cy))) = cn_coTcp (conn j cy)"
proof -
  have c: "cy_pool (snd (epoll_ctl ctl f v d c)) = cy_pool c" "cy_sys (snd (epoll_ctl ctl f v d c)) = cy_sys c" for ctl f v d c
    by (simp_all add: epoll_ctl_def Let_def split: option.split)
  have u: "cn_coTcp (conn j (upd_conn i g c)) = cn_coTcp (conn j c)" if "\<And>x. cn_coTcp (g x) = cn_coTcp x" for g c
    using that by (cases "i - 1 < length (pl_connections (cy_pool c))")
      (auto simp: conn_def upd_conn_def map_conn_def get_connection_accord_id_def nth_list_update not_less list_update_beyond)
  have t: "cn_coTcp (conn j (snd (epoll_ctl ctl f v d c))) = cn_coTcp (conn j c)" for ctl f v d c by (simp add: conn_def c)
  show "cy_sys (snd (modify_connection i e op cy)) = cy_sys cy"
    unfolding modify_connection_def Let_def case_prod_beta by (simp add: c upd_conn_def)
  show "cn_coTcp (conn j (snd (modify_connection i e op cy))) = cn_coTcp (conn j cy)"
    unfolding modify_connection_def Let_def case_prod_beta by (simp add: t u mark_events_def)
qed

lemma one_server_starts: "\<exists>cy. thread_setup lone_world (\<lambda>_. NUL) one_server_cycle = Inr (Some cy) \<and> pl_freeConnections (cy_pool cy) = [7, 9, 11, 13]"
proof -
  let ?p = "expand_loop 0 7 (new_pool\<lparr>pl_minConnectionSize := 4, pl_maxConnectionSize := 8, pl_curConnectionSize := 7\<rparr>)"
  let ?a = "one_server_cycle\<lparr>cy_pool := ?p, cy_sys := replicate 1 (0, 0) @ (4, 5) # (0, 0) # (0, 0) # (6, 0) # replicate 5 (0, 0)\<rparr>"
  let ?b = "?a\<lparr>cy_sys := (0, 0) # (0, 0) # (6, 0) # replicate 5 (0, 0)\<rparr>"
  have f: "pl_freeConnections (cy_pool ?b) = [1, 3, 5, 7, 9, 11, 13]" "length (pl_connections (cy_pool ?b)) = 14"
    "cn_epollCurEvents (get_connection_accord_id 1 (cy_pool ?b)) = 0"
    "cn_coTcp (get_connection_accord_id 5 (cy_pool ?b)) = new_tcp [] 0 0 0 0"
    by (simp_all add: new_pool_def new_pair_def new_connection_def get_connection_accord_id_def numeral_eq_Suc)
  obtain q where q: "cycle_get_fd lone_world 4 ?b = Inr (Some 1, tick (?b\<lparr>cy_pool := q, cy_sys := (0, 0) # (6, 0) # replicate 5 (0, 0)\<rparr>))"
    "pl_freeConnections q = [3, 5, 7, 9, 11, 13]" "length (pl_connections q) = 14" "cn_epollCurEvents (get_connection_accord_id 1 q) = 0"
    "cn_coTcp (get_connection_accord_id 5 q) = new_tcp [] 0 0 0 0"
    using take_fd_next [OF f(1), of 0 "(0, 0) # (6, 0) # replicate 5 (0, 0)" lone_world 4] f(2,3,4) by auto
  let ?c = "tick (?b\<lparr>cy_pool := q, cy_sys := (0, 0) # (6, 0) # replicate 5 (0, 0)\<rparr>)"
  have c: "cy_pool ?c = q" "cy_sys ?c = (0, 0) # (6, 0) # replicate 5 (0, 0)" by (simp_all add: tick_def)
  obtain r where r: "cycle_get_fd lone_world 5 ?c = Inr (Some 3, tick (?c\<lparr>cy_pool := r, cy_sys := (6, 0) # replicate 5 (0, 0)\<rparr>))"
    "pl_freeConnections r = [5, 7, 9, 11, 13]" "length (pl_connections r) = 14" "cn_epollCurEvents (get_connection_accord_id 1 r) = 0"
    "cn_coTcp (get_connection_accord_id 5 r) = new_tcp [] 0 0 0 0"
    using take_fd_next [of ?c 3 "[5, 7, 9, 11, 13]" 0 "(6, 0) # replicate 5 (0, 0)" lone_world 5] q(2-5) unfolding c by auto
  define d where "d = (tick (?c\<lparr>cy_pool := r, cy_sys := (6, 0) # replicate 5 (0, 0)\<rparr>))\<lparr>cy_writeResumeConnection := Some 3\<rparr>"
  let ?d = "upd_conn 1 (\<lambda>c. c\<lparr>cn_handler := H_RESUME_READ, cn_handlerException := H_RESUME_EXCEPTION\<rparr>) d"
  have d: "cy_pool d = r" "cy_sys d = (6, 0) # replicate 5 (0, 0)" "cy_interest d = (\<lambda>_. None)" "\<not> cy_refuse d n"
    "cy_serverControls d = []" "cy_userFuncs d = [(''hello'', \<lparr>uf_userProcess = Some 0, uf_userDestroy = None, uf_userData = None\<rparr>)]"
    "cy_conf d = one_server" for n
    by (simp_all add: d_def tick_def one_server_cycle_def new_cycle_def small_cycle_def add_user_handlers_def)
  have u: "conn 1 ?d = (conn 1 d)\<lparr>cn_handler := H_RESUME_READ, cn_handlerException := H_RESUME_EXCEPTION\<rparr>" "conn 5 ?d = conn 5 d"
    using get_map_conn_same [of 1 r] get_map_conn_other [of 1 5] r(3) d(1) by (simp_all add: conn_def upd_conn_def)
  have du: "cy_interest ?d = (\<lambda>_. None)" "\<not> cy_refuse ?d (length (cy_calls ?d))" using d(3,4) by (simp_all add: upd_conn_def)
  have "cn_epollCurEvents (conn 1 ?d) = 0" using u(1) r(4) d(1) by (simp add: conn_def)
  from modify_connection_first [OF this du] obtain e where e: "modify_connection 1 EPOLL_EVENTS_ADD CO_EVENT_READ ?d = (CO_OK, e)"
    by (metis prod.collapse)
  have es: "same_objects ?d e" using same_objects_modify [where cy = ?d and i = 1 and e = EPOLL_EVENTS_ADD and op = CO_EVENT_READ] unfolding e by simp
  have ef: "cy_serverControls e = []" "cy_userFuncs e = cy_userFuncs d" "cy_conf e = one_server" "pl_freeConnections (cy_pool e) = [5, 7, 9, 11, 13]"
    using es d(1,5,7) r(2) by (simp_all add: same_objects_def upd_conn_def pool_ident_def)
  have et: "cy_sys e = (6, 0) # replicate 5 (0, 0)" "cn_coTcp (conn 5 e) = new_tcp [] 0 0 0 0"
    using modify_connection_frames [where cy = ?d and i = 1 and e = EPOLL_EVENTS_ADD and op = CO_EVENT_READ] r(5) d(1,2) u(2) unfolding e snd_conv
    by (simp_all add: conn_def upd_conn_def)
  let ?s = "new_conf_server\<lparr>sv_listenPort := 8080, sv_handlerName := ''hello'', sv_maxConnections := 1\<rparr>"
  let ?e = "upd_control 0 (\<lambda>s. s\<lparr>sc_userFuncs := Some 0\<rparr>) (e\<lparr>cy_serverControls := [new_server_control ?s]\<rparr>)"
  have "cy_pool ?e = cy_pool e" "cy_sys ?e = cy_sys e" by (simp_all add: upd_control_def)
  then obtain g where g: "cycle_get_ip (sv_listenIP ?s) 8080 True ?e = Inr (Some 5, g)" and gf: "pl_freeConnections (cy_pool g) = [7, 9, 11, 13]"
    using take_ip_next [of ?e 5 "[7, 9, 11, 13]" 0 8080 "sv_listenIP ?s"] ef(4) et by (auto simp: conn_def)
  have "cy_serverControls g = [(new_server_control ?s)\<lparr>sc_userFuncs := Some 0\<rparr>]"
    using cycle_get_frames(2) [OF g] by (simp add: upd_control_def control_def)
  then have "sc_listenConnection (control 0 (upd_conn 5 k (upd_control 0 (\<lambda>s. s\<lparr>sc_listenConnection := Some 5\<rparr>) g))) \<noteq> None" for k
    by (simp add: control_def upd_conn_def upd_control_def)
  from modify_listening_total [OF this] obtain h where h: "modify_listening 0
      (upd_conn 5 (\<lambda>c. c\<lparr>cn_handler := H_LISTEN 0, cn_handlerException := H_LISTEN_EXCEPTION\<rparr>)
        (upd_control 0 (\<lambda>s. s\<lparr>sc_listenConnection := Some 5\<rparr>) g)) = Inr h" by blast
  have hf: "pl_freeConnections (cy_pool h) = [7, 9, 11, 13]"
    using modify_listening_free [OF h] gf by (simp add: upd_conn_def upd_control_def)
  have servers: "init_servers [?s] e = Inr (CO_OK, h)"
    using g h ef(1,2) d(6) by (simp add: server_init_def control_def new_server_control_def Let_def)
  have comm: "init_yieldresume_comm lone_world ?a = Inr (CO_OK, e)"
    using q(1) r(1) e by (simp add: init_yieldresume_comm_def Let_def d_def)
  have pool: "pool_init (5 sdiv 4) 5 new_pool = Inr (CO_OK, ?p)"
    by (simp add: pool_init_def expand_connections_def new_pool_def MIN_CONNECTION_SIZE_def MAX_CONNECTION_SIZE_def
        i32_def in_i32_def signed_divide_int_def del: expand_loop.simps)
  have "connection_size one_server = Inr 5"
    by (simp add: connection_size_def one_server_def new_config_def i32_def in_i32_def)
  moreover have "epoll_init 256 (one_server_cycle\<lparr>cy_pool := ?p\<rparr>) = (CO_OK, 256, ?a)"
    by (simp add: epoll_init_def one_server_cycle_def new_cycle_def small_cycle_def epoll_events_size_def MIN_EV_NUMBER_def MAX_EV_NUMBER_def numeral_eq_Suc
        del: expand_loop.simps)
  moreover have "cy_conf one_server_cycle = one_server" "cy_pool one_server_cycle = new_pool" by (simp_all add: one_server_cycle_def new_cycle_def)
  moreover have "m_confServers one_server = [?s]" "m_confUpstreams one_server = []" by (simp_all add: one_server_def new_config_def)
  ultimately have t: "thread_setup lone_world (\<lambda>_. NUL) one_server_cycle = Inr (Some h)"
    using pool comm servers ef(3) by (simp add: thread_setup_def dispatcher_init_def coroutine_main_init_def Let_def del: expand_loop.simps init_servers.simps)
  then show ?thesis using hf by blast
qed

theorem thread_setup_ok_witness:
  "\<exists>cy. thread_setup lone_world (\<lambda>_. NUL) one_server_cycle = Inr (Some cy) \<and> servers_ok cy
    \<and> map sc_listening (cy_serverControls cy) = [True]"
proof -
  obtain cy where t: "thread_setup lone_world (\<lambda>_. NUL) one_server_cycle = Inr (Some cy)" using one_server_starts by blast
  from thread_setup_ok [OF t [unfolded one_server_cycle_def]]
  have "servers_ok cy" "length (cy_serverControls cy) = 1" "map (\<lambda>s. sv_maxConnections (sc_confServer s)) (cy_serverControls cy) = [1]"
    "\<forall>s\<in>set (cy_serverControls cy). 0 < sv_maxConnections (sc_confServer s) \<longrightarrow> sc_listening s"
    by (auto simp: one_server_def new_config_def map_eq_Cons_conv)
  with t show ?thesis by (auto simp: length_Suc_conv)
qed

end
