(* ===== verification/Accepting.thy ===== *)
theory Accepting
  imports Server_Properties
begin

text \<open>
  The coroutines of a thread and its servers. Between two waits a coroutine does one of a few things to the
  servers: the handler of a listening connection looks at its limit, or turns a socket it has been given into a
  connection; anybody gives a connection back, takes one for an upstream, or leaves the servers
  alone. A run of the thread is any sequence of these steps. The loop of \<^verbatim>\<open>CoServerControl::accept\<close>, which
  waits in \<open>accept\<close> with its limit computed before, is such a run.
\<close>

section \<open>The steps\<close>

text \<open>Everything but the servers and what their connections are marked with may change: requests, upstreams, timers, queues, events.\<close>

definition same_servers :: "CoCycle \<Rightarrow> CoCycle \<Rightarrow> bool" where
  "same_servers cy cy' \<longleftrightarrow> cy_serverControls cy' = cy_serverControls cy \<and> pool_marks (cy_pool cy') = pool_marks (cy_pool cy)"

lemma same_objects_same_servers: "same_objects cy cy' \<Longrightarrow> same_servers cy cy'"
  unfolding same_objects_def same_servers_def by (elim conjE, intro conjI sm.tags_ident)

text \<open>
  \<open>p k\<close> is how often the handler of server \<open>k\<close> will still call \<open>accept\<close> before it looks at its limit again,
  the rest of \<open>maxAcceptSize\<close> in the loop of \<open>CoServerControl::accept\<close>.
\<close>

inductive serve :: "world \<Rightarrow> CoCycle \<times> (nat \<Rightarrow> nat) \<Rightarrow> CoCycle \<times> (nat \<Rightarrow> nat) \<Rightarrow> bool" for w where
  serve_start: "serve w (cy, p) (cy, p(k := nat (server_limit (control k cy))))"
    if "k < length (cy_serverControls cy)" and "p k = 0"
| serve_refused: "serve w (cy, p) (cy, p(k := n))" if "p k = Suc n"
| serve_accept: "serve w (cy, p) (cy', p(k := if ret = CO_OK then n else 0))"
    if "p k = Suc n" and "server_init_connection w k fd cy = Inr (ret, cy')"
| serve_limit: "serve w (cy, p) (cy', p)"
    if "k < length (cy_serverControls cy)" and "modify_listening k cy = Inr cy'"
| serve_free: "serve w (cy, p) (cy', p)" if "i \<in> busy (cy_pool cy)" and "free_connection i cy = Inr cy'"
| serve_take: "serve w (cy, p) (cy', p)" if "cycle_get_ip ip port listen cy = Inr (r, cy')"
| serve_other: "serve w (cy, p) (cy', p)" if "same_servers cy cy'"

inductive_cases serveE: "serve w s s'"

section \<open>The configuration stays\<close>

text \<open>The configurations of the servers; no operation on the servers of a running thread changes them.\<close>

definition server_confs :: "CoCycle \<Rightarrow> CoConfServer list" where
  "server_confs cy = map sc_confServer (cy_serverControls cy)"

lemma server_confs_cong: "cy_serverControls cy' = cy_serverControls cy \<Longrightarrow> server_confs cy' = server_confs cy"
  by (simp add: server_confs_def)

lemma server_confs_length: "server_confs cy' = server_confs cy \<Longrightarrow> length (cy_serverControls cy') = length (cy_serverControls cy)"
  unfolding server_confs_def by (rule map_eq_imp_length_eq)

lemma server_confs_upd: "(\<And>s. sc_confServer (f s) = sc_confServer s) \<Longrightarrow> server_confs (upd_control k f cy) = server_confs cy"
  by (simp add: server_confs_def upd_control_def control_def map_update) (metis length_map list_update_beyond list_update_id not_less nth_map)

lemma server_confs_same: "same_objects cy cy' \<Longrightarrow> server_confs cy' = server_confs cy"
  by (rule server_confs_cong) (simp add: same_objects_def)

lemma modify_listening_confs: "modify_listening k cy = Inr cy' \<Longrightarrow> server_confs cy' = server_confs cy"
  using server_confs_same [OF same_objects_modify] server_confs_upd [of "\<lambda>s. s\<lparr>sc_listening := _\<rparr>"]
  by (fastforce simp: modify_listening_def Let_def split: if_splits option.splits)

lemma server_init_connection_confs: "server_init_connection w k fd cy = Inr (r, cy') \<Longrightarrow> server_confs cy' = server_confs cy"
proof -
  assume e: "server_init_connection w k fd cy = Inr (r, cy')"
  then obtain c cy1 where g: "cycle_get_fd w fd cy = Inr (c, cy1)" by (auto simp: server_init_connection_def bindr_eq_Inr_conv)
  have a: "server_confs cy1 = server_confs cy" using cycle_get_frames(1) [OF g] by (simp add: server_confs_def)
  have u: "server_confs (upd_conn i f c) = server_confs c" "server_confs (push_delay i c) = server_confs c" for i f c
    by (simp_all add: server_confs_def upd_conn_def push_delay_def)
  show ?thesis using e g a by (cases c) (auto simp: server_init_connection_def Let_def u server_confs_upd)
qed

lemma func_cleanup_confs: "func_cleanup i cy = Inr cy' \<Longrightarrow> server_confs cy' = server_confs cy"
  by (auto simp: func_cleanup_def server_confs_upd dest!: modify_listening_confs split: option.splits)

lemma run_cleanups_confs: "run_cleanups fs i cy = Inr cy' \<Longrightarrow> server_confs cy' = server_confs cy"
  by (induction fs i cy rule: run_cleanups.induct) (auto simp: bindr_eq_Inr_conv dest!: func_cleanup_confs)

lemma free_connection_confs:
  assumes "free_connection i cy = Inr cy'"
  shows "server_confs cy' = server_confs cy"
proof -
  define c where "c = (if fd_of i cy > 0 then cy\<lparr>cy_interest := (cy_interest cy)(fd_of i cy := None)\<rparr> else cy)"
  let ?c = "c\<lparr>cy_pool := free_socket i (cy_pool c)\<rparr>"
  obtain d where d: "run_cleanups (cn_handlerCleanups (conn i ?c)) i ?c = Inr d" "cy' = d\<lparr>cy_pool := free_finish i (cy_pool d)\<rparr>"
    using assms unfolding free_connection_def Let_def c_def [symmetric] by (auto simp: bindr_eq_Inr_conv)
  have "server_confs cy' = server_confs d" unfolding d(2) by (simp add: server_confs_def)
  also have "\<dots> = server_confs cy" using run_cleanups_confs [OF d(1)] by (simp add: server_confs_def c_def)
  finally show ?thesis .
qed

lemma serve_confs: "serve w s s' \<Longrightarrow> server_confs (fst s') = server_confs (fst s)"
proof (erule serveE)
  fix cy cy' :: CoCycle and p :: "nat \<Rightarrow> nat"
  { fix ip port listen r assume "s = (cy, p)" "s' = (cy', p)" "cycle_get_ip ip port listen cy = Inr (r, cy')"
    then show ?thesis using cycle_get_frames(2) by (simp add: server_confs_def) }
  { assume "s = (cy, p)" "s' = (cy', p)" "same_servers cy cy'"
    then show ?thesis by (simp add: server_confs_def same_servers_def) }
qed (simp_all add: server_init_connection_confs modify_listening_confs free_connection_confs)

section \<open>The limit is kept\<close>

text \<open>The servers are in order, and each has room for the connections its handler may still accept.\<close>

definition accepting_ok :: "CoCycle \<times> (nat \<Rightarrow> nat) \<Rightarrow> bool" where
  "accepting_ok s \<longleftrightarrow> servers_ok (fst s) \<and> (\<forall>k. 0 < snd s k \<longrightarrow> room k (snd s k) (fst s))"

lemma accepting_room: "accepting_ok (cy, p) \<Longrightarrow> p k = Suc n \<Longrightarrow> room k (Suc n) cy"
  unfolding accepting_ok_def fst_conv snd_conv by (metis zero_less_Suc)

text \<open>Room is kept where servers have no more connections than before.\<close>

lemma room_mono:
  assumes "room k n cy" and "servers_ok cy'" and "server_confs cy' = server_confs cy"
    and "sc_curConnectionSize (control k cy') \<le> sc_curConnectionSize (control k cy)"
  shows "room k n cy'"
proof -
  have l: "k < length (cy_serverControls cy')" "k < length (cy_serverControls cy)"
    using assms(1) server_confs_length [OF assms(3)] by (simp_all add: room_def)
  have "sc_confServer (control k cy') = sc_confServer (control k cy)"
    using arg_cong [OF assms(3), of "\<lambda>xs. xs ! k"] l by (simp add: server_confs_def control_def)
  then show ?thesis using assms(1,2,4) l by (simp add: room_def)
qed

lemma accepting_mono:
  assumes "accepting_ok (cy, p)" and "servers_ok cy'" and "server_confs cy' = server_confs cy"
    and "\<And>k. sc_curConnectionSize (control k cy') \<le> sc_curConnectionSize (control k cy)"
  shows "accepting_ok (cy', p)"
  using assms(1,2) room_mono [OF _ assms(2,3,4)] by (simp add: accepting_ok_def)

lemma accepting_upd:
  assumes "accepting_ok (cy, p)" and "0 < n \<Longrightarrow> room k n cy"
  shows "accepting_ok (cy, p(k := n))"
  using assms by (auto simp: accepting_ok_def)

lemma server_init_connection_others:
  assumes "server_init_connection w k fd cy = Inr (ret, cy')" and "j \<noteq> k"
  shows "control j cy' = control j cy"
proof -
  obtain c cy1 where g: "cycle_get_fd w fd cy = Inr (c, cy1)" using assms(1) by (auto simp: server_init_connection_def bindr_eq_Inr_conv)
  then have "cy_serverControls cy1 = cy_serverControls cy" using cycle_get_frames(1) by blast
  then show ?thesis using assms g
    by (cases c) (auto simp: server_init_connection_def Let_def control_def upd_control_def upd_conn_def push_delay_def)
qed

lemma accepting_accept:
  assumes ok: "accepting_ok (cy, p)" and p: "p k = Suc n" and e: "server_init_connection w k fd cy = Inr (ret, cy')"
  shows "accepting_ok (cy', p(k := if ret = CO_OK then n else 0))"
proof -
  note r = server_init_connection_ok [OF accepting_room [OF ok p] e]
  have "room j (p j) cy'" if "0 < p j" "j \<noteq> k" for j
  proof (rule room_mono)
    show "room j (p j) cy" using ok that(1) by (simp add: accepting_ok_def)
    show "servers_ok cy'" using r by (simp add: room_def)
    show "server_confs cy' = server_confs cy" using e by (rule server_init_connection_confs)
    show "sc_curConnectionSize (control j cy') \<le> sc_curConnectionSize (control j cy)" using server_init_connection_others [OF e that(2)] by simp
  qed
  then show ?thesis using r by (simp add: accepting_ok_def room_def)
qed

lemma serve_step:
  assumes "accepting_ok s" and "serve w s s'"
  shows "accepting_ok s'"
  using assms(2)
proof cases
  case (serve_start k cy p)
  have ok: "servers_ok cy" using assms(1) serve_start(1) by (simp add: accepting_ok_def)
  show ?thesis unfolding serve_start(2)
  proof (rule accepting_upd)
    show "accepting_ok (cy, p)" using assms(1) serve_start(1) by simp
    assume "0 < nat (server_limit (control k cy))"
    then show "room k (nat (server_limit (control k cy))) cy" using limit_room [OF ok serve_start(3)] by simp
  qed
next
  case (serve_refused p k n cy)
  have "room k n cy" using room_less [OF accepting_room] assms(1) serve_refused(1,3) by simp
  then show ?thesis unfolding serve_refused(2) using assms(1) serve_refused(1) accepting_upd by simp
next
  case (serve_accept p k n fd cy ret cy')
  from assms(1) serve_accept(1) have "accepting_ok (cy, p)" by simp
  from accepting_accept [OF this serve_accept(3,4)] show ?thesis unfolding serve_accept(2) .
next
  case (serve_limit k cy cy' p)
  have ok: "servers_ok cy" using assms(1) serve_limit(1) by (simp add: accepting_ok_def)
  from modify_listening_ok [OF almost_ok_servers [OF ok serve_limit(3)], of True] serve_limit(4)
  have m: "servers_ok cy'" "\<And>j. (control j cy')\<lparr>sc_listening := True\<rparr> = (control j cy)\<lparr>sc_listening := True\<rparr>"
    by (auto simp: servers_ok_def)
  have "sc_curConnectionSize (control j cy') \<le> sc_curConnectionSize (control j cy)" for j
    using arg_cong [OF m(2) [of j], of sc_curConnectionSize] by simp
  then show ?thesis unfolding serve_limit(2)
    using accepting_mono [OF _ m(1) modify_listening_confs [OF serve_limit(4)]] assms(1) serve_limit(1) by simp
next
  case (serve_free i cy cy' p)
  have ok: "servers_ok cy" using assms(1) serve_free(1) by (simp add: accepting_ok_def)
  from free_connection_ok [OF ok serve_free(3)] serve_free(4)
  have "servers_ok cy'" "\<And>k. sc_curConnectionSize (control k cy') \<le> sc_curConnectionSize (control k cy)" by auto
  then show ?thesis unfolding serve_free(2)
    using accepting_mono [OF _ _ free_connection_confs [OF serve_free(4)]] assms(1) serve_free(1) by simp
next
  case (serve_take ip port listen cy r cy' p)
  have ok: "server_inv {} (cy_pool cy) (cy_serverControls cy)"
    using assms(1) serve_take(1) by (simp add: accepting_ok_def servers_ok_def servers_but_def)
  have c: "cy_serverControls cy' = cy_serverControls cy" using cycle_get_frames(2) [OF serve_take(3)] by simp
  have "servers_ok cy'" using cycle_get_servers(2) [OF ok serve_take(3)] c by (simp add: servers_ok_def servers_but_def)
  then show ?thesis unfolding serve_take(2)
    using accepting_mono [OF _ _ server_confs_cong [OF c]] c assms(1) serve_take(1) by (simp add: control_def)
next
  case (serve_other cy cy' p)
  then have c: "cy_serverControls cy' = cy_serverControls cy" "pool_marks (cy_pool cy) = pool_marks (cy_pool cy')"
    by (simp_all add: same_servers_def)
  have "servers_ok cy" using assms(1) serve_other(1) by (simp add: accepting_ok_def)
  then have "servers_ok cy'" using server_inv_cong [OF c(2)] c(1) by (simp add: servers_ok_def servers_but_def)
  then show ?thesis unfolding serve_other(2)
    using accepting_mono [OF _ _ server_confs_cong [OF c(1)]] c(1) assms(1) serve_other(1) by (simp add: control_def)
qed

lemma serve_reach:
  assumes "(serve w)\<^sup>*\<^sup>* s s'" and "accepting_ok s"
  shows "accepting_ok s' \<and> server_confs (fst s') = server_confs (fst s)"
  using assms by (induction rule: rtranclp_induct) (auto dest: serve_step serve_confs)

section \<open>The handler of a listening connection is such a run\<close>

text \<open>A run from \<open>s\<close> has come to \<open>c\<close>, and the handler of server \<open>k\<close> has \<open>n\<close> calls of \<open>accept\<close> before it.\<close>

definition reached :: "world \<Rightarrow> nat \<Rightarrow> CoCycle \<times> (nat \<Rightarrow> nat) \<Rightarrow> nat \<Rightarrow> CoCycle \<Rightarrow> bool" where
  "reached w k s n c \<longleftrightarrow> k < length (cy_serverControls c) \<and> (\<exists>p. p k = n \<and> (serve w)\<^sup>*\<^sup>* s (c, p))"

lemma reachedI:
  assumes "reached w k s n c" and "\<And>p. p k = n \<Longrightarrow> serve w (c, p) (c', p(k := m))"
  shows "reached w k s m c'"
proof -
  obtain p where p: "p k = n" "(serve w)\<^sup>*\<^sup>* s (c, p)" using assms(1) by (auto simp: reached_def)
  have t: "serve w (c, p) (c', p(k := m))" using p(1) by (rule assms(2))
  have "k < length (cy_serverControls c')"
    using server_confs_length [OF serve_confs [OF t, simplified]] assms(1) by (simp add: reached_def)
  moreover have "(p(k := m)) k = m" "(serve w)\<^sup>*\<^sup>* s (c', p(k := m))" by (rule fun_upd_same) (rule rtranclp.rtrancl_into_rtrancl [OF p(2) t])
  ultimately show ?thesis unfolding reached_def by blast
qed

lemma reached_keep: "reached w k s n c \<Longrightarrow> (\<And>p. serve w (c, p) (c', p)) \<Longrightarrow> reached w k s n c'"
  by (erule reachedI) (metis fun_upd_triv)

lemma reached_same: "reached w k s n c \<Longrightarrow> same_objects c c' \<Longrightarrow> reached w k s n c'"
  by (erule reached_keep) (rule serve_other, rule same_objects_same_servers)

text \<open>\<open>accept\<close> waits while the others go on with their steps; then the socket is turned into a connection.\<close>

lemma conn_accept_reached:
  assumes W: "coroutine_frame w (reached w k s n)" and r: "reached w k s n cy" and a: "conn_accept w i cy = Inr (ret, fd, cy')"
  shows "reached w k s n cy'"
proof (cases "fd_of i cy \<le> 0")
  case True
  then show ?thesis using a r by (simp add: conn_accept_def)
next
  case False
  then obtain x c where x: "hook_accept w (fd_of i cy) cy = Inr (x, c)" using a by (auto simp: conn_accept_def bindr_eq_Inr_conv)
  have "reached w k s n c"
    using coroutine_frame.frame_read_write_mode [OF W r] reached_same [OF _ same_objects_origin(3)] x unfolding hook_accept_def by blast
  then show ?thesis using a x False by (cases x) (auto simp: conn_accept_def)
qed

lemma server_accept_reached:
  assumes W: "\<And>n. coroutine_frame w (reached w k s n)"
  shows "reached w k s n cy \<Longrightarrow> server_accept w k i n cy = Inr cy' \<Longrightarrow> reached w k s 0 cy'"
proof (induction n arbitrary: cy)
  case (Suc n)
  obtain ret fd cy1 where a: "conn_accept w i cy = Inr (ret, fd, cy1)" using Suc.prems(2) by (auto simp: bindr_eq_Inr_conv)
  note r1 = conn_accept_reached [OF W Suc.prems(1) a]
  show ?case
  proof (cases "ret = CO_OK")
    case False
    have "reached w k s n cy1" by (rule reachedI [OF r1], rule serve_refused)
    then show ?thesis using Suc.IH Suc.prems(2) a False by simp
  next
    case True
    then obtain ret2 cy2 where b: "server_init_connection w k fd cy1 = Inr (ret2, cy2)"
      "(if ret2 \<noteq> CO_OK then Inr cy2 else server_accept w k i n cy2) = Inr cy'"
      using Suc.prems(2) a by (auto simp: bindr_eq_Inr_conv)
    have "reached w k s (if ret2 = CO_OK then n else 0) cy2" by (rule reachedI [OF r1]) (rule serve_accept [OF _ b(1)])
    then show ?thesis using b(2) Suc.IH by (cases "ret2 = CO_OK") auto
  qed
qed simp

text \<open>The whole loop of the handler, if it returns (it need not: \<open>accept_failure_spins\<close>).\<close>

lemma listen_handler_reached:
  assumes "\<And>k s n. coroutine_frame w (reached w k s n)" and "listen_handler w k i cy = Some (Inr cy')" and "reached w k s 0 cy"
  shows "reached w k s 0 cy'"
proof -
  let ?P = "\<lambda>w k i cy (y :: CoCycle res). \<forall>cy'. y = Inr cy' \<longrightarrow> (\<forall>n. coroutine_frame w (reached w k s n)) \<longrightarrow> reached w k s 0 cy \<longrightarrow> reached w k s 0 cy'"
  have "?P w k i cy (Inr cy')"
  proof (rule listen_handler.raw_induct [where P = ?P, OF _ assms(2)], intro allI impI)
    fix g :: "world \<Rightarrow> nat \<Rightarrow> nat \<Rightarrow> CoCycle \<Rightarrow> CoCycle res option" and w k i cy y cy'
    assume IH: "\<And>w k i cy y. g w k i cy = Some y \<Longrightarrow> ?P w k i cy y"
      and g: "(let maxAcceptSize = server_limit (control k cy)
         in if maxAcceptSize \<noteq> 0
            then (case server_accept w k i (nat maxAcceptSize) cy of Inl e \<Rightarrow> Some (Inl e) | Inr cy \<Rightarrow> g w k i cy)
            else Some (modify_listening k cy)) = Some y"
      and y: "y = Inr cy'" and W: "\<forall>n. coroutine_frame w (reached w k s n)" and r: "reached w k s 0 cy"
    have k: "k < length (cy_serverControls cy)" using r by (simp add: reached_def)
    show "reached w k s 0 cy'"
    proof (cases "server_limit (control k cy) = 0")
      case True
      then have "modify_listening k cy = Inr cy'" using g y by (simp add: Let_def)
      then show ?thesis using serve_limit [OF k] by (intro reached_keep [OF r])
    next
      case False
      then obtain c where c: "server_accept w k i (nat (server_limit (control k cy))) cy = Inr c" "g w k i c = Some y"
        using g y by (auto simp: Let_def split: sum.splits)
      have "reached w k s (nat (server_limit (control k cy))) cy" by (rule reachedI [OF r], rule serve_start [OF k])
      then have "reached w k s 0 c" using server_accept_reached W c(1) by blast
      then show ?thesis using IH [OF c(2)] y W by blast
    qed
  qed
  then show ?thesis using assms(1,3) by blast
qed

section \<open>Other coroutines that give connections back\<close>

text \<open>
  A thread on which, whenever a coroutine waits, the connections \<open>js\<close> are given back as far as they
  are in use: what the timers and broken sockets of other connections come to for the servers.
\<close>

fun give_back :: "nat list \<Rightarrow> CoCycle \<Rightarrow> CoCycle" where
  "give_back [] cy = cy"
| "give_back (j # js) cy =
     give_back js (if j \<in> busy (cy_pool cy) then (case free_connection j cy of Inl _ \<Rightarrow> cy | Inr cy' \<Rightarrow> cy') else cy)"

definition closing_world :: "nat list \<Rightarrow> world \<Rightarrow> world" where
  "closing_world js w = w\<lparr>w_others := \<lambda>i. give_back js\<rparr>"

lemma reached_give_back: "reached w k s n c \<Longrightarrow> reached w k s n (give_back js c)"
proof (induction js arbitrary: c)
  case (Cons j js)
  have "reached w k s n cy'" if "j \<in> busy (cy_pool c)" "free_connection j c = Inr cy'" for cy'
    by (rule reached_keep [OF Cons.prems]) (rule serve_free [OF that])
  then show ?case using Cons by (auto split: sum.split)
qed simp

interpretation closing: coroutine_frame "closing_world js w" "reached (closing_world js w) k s n" for js w k s n
  by unfold_locales (simp add: closing_world_def reached_give_back, rule reached_same)

text \<open>On such a thread the handler of a listening connection goes through steps of the run.\<close>

lemma closing_handler_runs:
  assumes "listen_handler (closing_world js w) k i cy = Some (Inr cy')" and "k < length (cy_serverControls cy)"
  shows "\<exists>p. (serve (closing_world js w))\<^sup>*\<^sup>* (cy, \<lambda>_. 0) (cy', p)"
proof -
  have "reached (closing_world js w) k (cy, \<lambda>_. 0) 0 cy"
    unfolding reached_def using assms(2) by (intro conjI exI [of _ "\<lambda>_. 0"]) simp_all
  from listen_handler_reached [OF closing.coroutine_frame_axioms assms(1) this] show ?thesis by (auto simp: reached_def)
qed

section \<open>A thread that accepts\<close>

text \<open>The thread with one server of one connection: its handler looks at its limit and accepts descriptor 9.\<close>

lemma one_server_accepts:
  "\<exists>cy cy' p. thread_setup lone_world (\<lambda>_. NUL) one_server_cycle = Inr (Some cy) \<and> (serve lone_world)\<^sup>*\<^sup>* (cy, \<lambda>_. 0) (cy', p)
    \<and> sc_curConnectionSize (control 0 cy') = 1"
proof -
  obtain cy where t: "thread_setup lone_world (\<lambda>_. NUL) one_server_cycle = Inr (Some cy)"
    and f: "pl_freeConnections (cy_pool cy) = [7, 9, 11, 13]" using one_server_starts by blast
  note core = thread_setup_core [OF t [unfolded one_server_cycle_def]]
  have "pool_inv (cy_pool cy)" using core by (simp add: servers_ok_def servers_but_def server_inv_def)
  from free_pos [OF this, of 7] f have i: "7 \<le> length (pl_connections (cy_pool cy))" by simp
  have "map sc_confServer (cy_serverControls cy) = [new_conf_server\<lparr>sv_listenPort := 8080, sv_handlerName := ''hello'', sv_maxConnections := 1\<rparr>]"
    using core by (simp add: one_server_def new_config_def)
  then obtain s where s: "cy_serverControls cy = [s]" "sv_maxConnections (sc_confServer s) = 1" by (auto simp: map_eq_Cons_conv)
  have z: "sc_curConnectionSize s = 0" using core s(1) by simp
  let ?a = "cy\<lparr>cy_sys := [(0, 0)]\<rparr>"
  have l: "server_limit (control 0 ?a) = 1" using s z by (simp add: server_limit_def control_def MAX_ACCEPT_NUM_def)
  obtain q where q: "cycle_get_fd lone_world 9 ?a = Inr (Some 7, tick (?a\<lparr>cy_pool := q, cy_sys := []\<rparr>))"
    using take_fd_next [of ?a 7 "[9, 11, 13]" 0 "[]" lone_world 9] f i by auto
  obtain c where c: "server_init_connection lone_world 0 9 ?a = Inr (CO_OK, c)" "sc_curConnectionSize (control 0 c) = 1"
    using q s z by (auto simp: server_init_connection_def Let_def push_delay_def control_def upd_control_def upd_conn_def tick_def)
  have 1: "serve lone_world (cy, \<lambda>_. 0) (?a, \<lambda>_. 0)" by (rule serve_other) (simp add: same_servers_def)
  have 2: "serve lone_world (?a, \<lambda>_. 0) (?a, (\<lambda>_. 0)(0 := 1))"
    using serve_start [of 0 ?a "\<lambda>_. 0" lone_world] s(1) l by simp
  have 3: "serve lone_world (?a, (\<lambda>_. 0)(0 := 1)) (c, (\<lambda>_. 0)(0 := 1, 0 := 0))"
    using serve_accept [of "(\<lambda>_. 0)(0 := 1)" 0 0 lone_world 9 ?a CO_OK c] c(1) by simp
  have "(serve lone_world)\<^sup>*\<^sup>* (cy, \<lambda>_. 0) (c, (\<lambda>_. 0)(0 := 1, 0 := 0))" by (rule rtranclp.rtrancl_into_rtrancl, rule rtranclp.rtrancl_into_rtrancl, rule r_into_rtranclp, rule 1, rule 2, rule 3)
  then show ?thesis using t c(2) by blast
qed

end
