(* ===== verification/Local_State.thy ===== *)
theory Local_State
  imports Request
begin

text \<open>
  A connection seen from its own coroutine. \<open>local_state\<close> is what the handlers of one connection
  work on: the connection without its events, the bytes it will read and may write, its request and
  its protocol object. Every bookkeeping operation of the event loop is a function on it (a
  simulation, one lemma per operation, collected in \<open>seen_steps\<close>), and the other coroutines leave
  it alone (\<open>patient\<close>).
\<close>

section \<open>The local state\<close>

definition core :: "CoConnection \<Rightarrow> CoConnection" where
  "core c = c\<lparr>cn_epollCurEvents := 0, cn_epollCurVersion := 0, cn_readEvent := new_event EVENT_TYPE_READ 0,
     cn_writeEvent := new_event EVENT_TYPE_WRITE 0, cn_sleepEvent := new_event EVENT_TYPE_SLEEP 0\<rparr>"

text \<open>What of the servers the handlers of a connection go by: the configuration of each, its functions, and the table of functions.\<close>

abbreviation server_setup :: "CoCycle \<Rightarrow> (CoConfServer \<times> nat option) list \<times> (string \<times> CoUserFuncs) list" where
  "server_setup cy \<equiv> (map (\<lambda>s. (sc_confServer s, sc_userFuncs s)) (cy_serverControls cy), cy_userFuncs cy)"

record local_state =
  l_conn :: CoConnection
  l_events :: "32 word"
  l_in :: "recv_answer list"
  l_out :: "send_answer list"
  l_wire :: string
  l_request :: "CoRequest option"
  l_protocol :: "protocol option"
  l_heap :: heap
  l_itr :: "headers \<Rightarrow> headers"
  l_servers :: "(CoConfServer \<times> nat option) list \<times> (string \<times> CoUserFuncs) list"

definition local :: "nat \<Rightarrow> nat \<Rightarrow> nat \<Rightarrow> CoCycle \<Rightarrow> local_state" where
  "local i r n cy = \<lparr>l_conn = core (conn i cy), l_events = cn_epollCurEvents (conn i cy),
     l_in = cy_in cy (fd_of i cy), l_out = cy_out cy (fd_of i cy), l_wire = cy_wire cy (fd_of i cy),
     l_request = cy_requests cy r, l_protocol = cy_protocols cy n, l_heap = cy_heap cy, l_itr = cy_itr cy,
     l_servers = server_setup cy\<rparr>"

text \<open>
  The connection can run: it exists, it is the current one, its socket is the thread's own and open, the
  kernel plays along, and the server it belongs to, if any, has its listening connection.
\<close>

definition alive :: "nat \<Rightarrow> CoCycle \<Rightarrow> bool" where
  "alive i cy \<longleftrightarrow> valid_id i cy \<and> cy_curConnection cy = Some i \<and> 0 < fd_of i cy
     \<and> is_inner_socketfd (fd_of i cy) (cy_pool cy) \<and> \<not> cn_flagDying (conn i cy)
     \<and> watched (conn i cy) (cy_interest cy) \<and> (\<forall>k. \<not> cy_refuse cy k)
     \<and> (\<forall>k. cn_serverControl (conn i cy) = Some k \<longrightarrow> sc_listenConnection (control k cy) \<noteq> None)"

text \<open>
  What connection \<open>i\<close> relies on while the others run: it can still run afterwards (it is not closed, and no timer of its
  own goes off), its own fields, its socket and the configuration are as they were, and so are the objects \<open>r\<close> and \<open>n\<close>
  if they are a request of its own with its protocol. Any other connection, request and protocol may have changed.
\<close>

definition own :: "nat \<Rightarrow> nat \<Rightarrow> local_state \<Rightarrow> bool" where
  "own i n l \<longleftrightarrow> (\<exists>q. l_request l = Some q \<and> rq_connection q = Some i \<and> rq_protocol q = Some n)"

definition bare :: "local_state \<Rightarrow> local_state" where
  "bare l = l\<lparr>l_request := None, l_protocol := None\<rparr>"

definition patient :: "world \<Rightarrow> nat \<Rightarrow> nat \<Rightarrow> nat \<Rightarrow> bool" where
  "patient w i r n \<longleftrightarrow> (\<forall>cy. alive i cy \<longrightarrow> alive i (w_others w i cy)
     \<and> bare (local i r n (w_others w i cy)) = bare (local i r n cy)
     \<and> (own i n (local i r n cy) \<longrightarrow> local i r n (w_others w i cy) = local i r n cy))"

lemma bare_eq:
  "bare l = bare l' \<longleftrightarrow> l_conn l = l_conn l' \<and> l_events l = l_events l' \<and> l_in l = l_in l' \<and> l_out l = l_out l' \<and> l_wire l = l_wire l'
     \<and> l_heap l = l_heap l' \<and> l_itr l = l_itr l' \<and> l_servers l = l_servers l'"
  by (cases l; cases l') (auto simp: bare_def)

lemma own_updates [simp]:
  "own i n (l\<lparr>l_conn := c\<rparr>) = own i n l" "own i n (l\<lparr>l_events := ev\<rparr>) = own i n l" "own i n (l\<lparr>l_in := xs\<rparr>) = own i n l"
  "own i n (l\<lparr>l_out := ys\<rparr>) = own i n l" "own i n (l\<lparr>l_wire := s\<rparr>) = own i n l" "own i n (l\<lparr>l_protocol := p\<rparr>) = own i n l"
  "own i n (l\<lparr>l_request := Some q\<rparr>) \<longleftrightarrow> rq_connection q = Some i \<and> rq_protocol q = Some n"
  by (simp_all add: own_def)

lemma ownI: "\<lbrakk>l_request l = Some q; rq_connection q = Some i; rq_protocol q = Some n\<rbrakk> \<Longrightarrow> own i n l"
  by (simp add: own_def)

lemma core_fields [simp]:
  "cn_coTcp (core c) = cn_coTcp c" "cn_coBuffer (core c) = cn_coBuffer c" "cn_flagDying (core c) = cn_flagDying c"
  "cn_version (core c) = cn_version c" "cn_connId (core c) = cn_connId c" "cn_serverControl (core c) = cn_serverControl c"
  "cn_handler (core c) = cn_handler c" "cn_request (core c) = cn_request c"
  "cn_keepaliveTimeout (core c) = cn_keepaliveTimeout c" "cn_socketRcvTimeout (core c) = cn_socketRcvTimeout c"
  "cn_socketSndTimeout (core c) = cn_socketSndTimeout c" "cn_blockConn (core c) = cn_blockConn c"
  "core (core c) = core c"
  by (simp_all add: core_def)

lemma alive_allowed: "alive i cy \<Longrightarrow> allowed cy"
  by (simp add: alive_def allowed_def)

text \<open>An update of the connection that leaves its socket and its epoll fields alone.\<close>

lemma alive_upd_conn:
  assumes "alive i cy" and "\<And>c. cn_coTcp (f c) = cn_coTcp c" and "\<And>c. cn_flagDying (f c) = cn_flagDying c"
    and "\<And>c. cn_epollCurEvents (f c) = cn_epollCurEvents c" and "\<And>c. cn_epollCurVersion (f c) = cn_epollCurVersion c"
    and "\<And>c. cn_connId (f c) = cn_connId c" and "\<And>c. cn_serverControl (f c) = cn_serverControl c"
  shows "alive i (upd_conn i f cy) \<and> fd_of i (upd_conn i f cy) = fd_of i cy"
proof -
  have v: "valid_id i cy" using assms(1) by (simp add: alive_def)
  have c: "conn i (upd_conn i f cy) = f (conn i cy)" using v by simp
  have p: "cy_curConnection (upd_conn i f cy) = cy_curConnection cy" "pl_innerSockets (cy_pool (upd_conn i f cy)) = pl_innerSockets (cy_pool cy)"
    "cy_serverControls (upd_conn i f cy) = cy_serverControls cy"
    by (simp_all add: upd_conn_def)
  show ?thesis
    using assms v unfolding alive_def fd_of_def c is_inner_socketfd_def p watched_def control_def by simp
qed

lemma local_upd_conn:
  assumes "alive i cy" and "\<And>c. cn_coTcp (f c) = cn_coTcp c"
    and "\<And>c. cn_epollCurEvents (f c) = cn_epollCurEvents c" and "core (f (conn i cy)) = g (core (conn i cy))"
  shows "local i r n (upd_conn i f cy) = (local i r n cy)\<lparr>l_conn := g (l_conn (local i r n cy))\<rparr>"
proof -
  have c: "conn i (upd_conn i f cy) = f (conn i cy)" using assms(1) by (simp add: alive_def)
  have p: "cy_in (upd_conn i f cy) = cy_in cy" "cy_out (upd_conn i f cy) = cy_out cy" "cy_wire (upd_conn i f cy) = cy_wire cy"
    "cy_requests (upd_conn i f cy) = cy_requests cy" "cy_protocols (upd_conn i f cy) = cy_protocols cy"
    "cy_heap (upd_conn i f cy) = cy_heap cy" "cy_itr (upd_conn i f cy) = cy_itr cy"
    "cy_serverControls (upd_conn i f cy) = cy_serverControls cy" "cy_userFuncs (upd_conn i f cy) = cy_userFuncs cy"
    by (simp_all add: upd_conn_def)
  show ?thesis using assms by (simp add: local_def fd_of_def c p)
qed

section \<open>Bookkeeping\<close>

text \<open>A change of the state that does not touch the pool, the table of the kernel or what the local state is made of.\<close>

lemma alive_local_cong:
  assumes "alive i cy" and "cy_pool cy' = cy_pool cy" and "cy_interest cy' = cy_interest cy" and "cy_refuse cy' = cy_refuse cy"
    and "cy_curConnection cy' = cy_curConnection cy" and "cy_serverControls cy' = cy_serverControls cy"
  shows "alive i cy' \<and> conn i cy' = conn i cy \<and> fd_of i cy' = fd_of i cy"
  using assms by (simp add: alive_def conn_def fd_of_def valid_id_def control_def)

lemma timer_ops:
  assumes "alive i cy"
  shows "alive i (set_timer i e ms cy) \<and> local i r n (set_timer i e ms cy) = local i r n cy"
    and "alive i (unset_timer i e cy) \<and> local i r n (unset_timer i e cy) = local i r n cy"
proof -
  have put: "alive i (upd_conn i (put_event e v) c) \<and> local i r n (upd_conn i (put_event e v) c) = local i r n c"
    if "alive i c" for v c
  proof -
    have f: "core (put_event e v k) = core k" "cn_coTcp (put_event e v k) = cn_coTcp k" "cn_flagDying (put_event e v k) = cn_flagDying k"
      "cn_epollCurEvents (put_event e v k) = cn_epollCurEvents k" "cn_epollCurVersion (put_event e v k) = cn_epollCurVersion k"
      "cn_connId (put_event e v k) = cn_connId k" "cn_serverControl (put_event e v k) = cn_serverControl k" for k
      by (simp_all add: put_event_def core_def split: event_type.split)
    show ?thesis
      using alive_upd_conn [OF that, of "put_event e v"] local_upd_conn [OF that, of "put_event e v" "\<lambda>x. x" r n] f by simp
  qed
  have add: "alive i (tick (snd (add_timer m k ev cy))) \<and> local i r n (tick (snd (add_timer m k ev cy))) = local i r n cy" for m k ev
    using alive_local_cong [OF assms, of "tick (snd (add_timer m k ev cy))"]
    by (simp add: add_timer_def tick_def local_def)
  have del: "alive i (snd (del_timer ev cy)) \<and> local i r n (snd (del_timer ev cy)) = local i r n cy" for ev
    using alive_local_cong [OF assms, of "snd (del_timer ev cy)"] by (simp add: del_timer_def local_def)
  show "alive i (set_timer i e ms cy) \<and> local i r n (set_timer i e ms cy) = local i r n cy"
    using assms put add unfolding set_timer_def Let_def case_prod_beta by simp
  show "alive i (unset_timer i e cy) \<and> local i r n (unset_timer i e cy) = local i r n cy"
    using assms put del unfolding unset_timer_def Let_def case_prod_beta by simp
qed

lemma drop_timer_ok:
  "alive i cy \<Longrightarrow> alive i (drop_timer i e cy) \<and> local i r n (drop_timer i e cy) = local i r n cy"
  using timer_ops(2) by (simp add: drop_timer_def)

lemma modify_ok:
  assumes a: "alive i cy" and nz: "cn_epollCurEvents (conn i cy) \<noteq> 0 \<or> modify_events e op 0 \<noteq> 0"
  shows "\<exists>cy'. modify_connection i e op cy = (CO_OK, cy') \<and> alive i cy'
    \<and> local i r n cy' = (local i r n cy)\<lparr>l_events := modify_events e op (l_events (local i r n cy))\<rparr>"
proof -
  define cur where "cur = modify_events e op (cn_epollCurEvents (conn i cy))"
  have v: "valid_id i cy" and w: "watched (conn i cy) (cy_interest cy)" using a by (auto simp: alive_def)
  have z: "cn_epollCurEvents (conn i cy) \<noteq> 0 \<or> cur \<noteq> 0" using nz by (auto simp: cur_def)
  have le: "l_events (local i r n cy) = cn_epollCurEvents (conn i cy)" by (simp add: local_def)
  from modify_connection_cases [OF v w cur_def z] show ?thesis
  proof (elim disjE exE conjE)
    assume "modify_connection i e op cy = (CO_OK, cy)" "cur = cn_epollCurEvents (conn i cy)"
    then show ?thesis using a by (simp add: cur_def le)
  next
    fix k tbl
    let ?f = "\<lambda>c. mark_events cur (cn_version c) (cur AND CO_EVENT_READ \<noteq> 0) (cur AND CO_EVENT_OUT \<noteq> 0) c"
    let ?c = "cy\<lparr>cy_calls := cy_calls cy @ [k], cy_interest := tbl\<rparr>"
    assume t: "watched (?f (conn i cy)) tbl"
      and m: "modify_connection i e op cy = (if allowed cy then (CO_OK, upd_conn i ?f ?c) else (CO_ERROR, cy\<lparr>cy_calls := cy_calls cy @ [k]\<rparr>))"
    have vc: "valid_id i ?c" using v by (simp add: valid_id_def)
    have c: "conn i (upd_conn i ?f ?c) = ?f (conn i cy)" using conn_upd_same [OF vc, of ?f] by (simp add: conn_def)
    have p: "cy_curConnection (upd_conn i ?f ?c) = cy_curConnection cy" "cy_interest (upd_conn i ?f ?c) = tbl"
      "pl_innerSockets (cy_pool (upd_conn i ?f ?c)) = pl_innerSockets (cy_pool cy)" "cy_refuse (upd_conn i ?f ?c) = cy_refuse cy"
      "cy_in (upd_conn i ?f ?c) = cy_in cy" "cy_out (upd_conn i ?f ?c) = cy_out cy" "cy_wire (upd_conn i ?f ?c) = cy_wire cy"
      "cy_requests (upd_conn i ?f ?c) = cy_requests cy" "cy_protocols (upd_conn i ?f ?c) = cy_protocols cy"
      "cy_serverControls (upd_conn i ?f ?c) = cy_serverControls cy" "cy_heap (upd_conn i ?f ?c) = cy_heap cy" "cy_itr (upd_conn i ?f ?c) = cy_itr cy"
      "cy_userFuncs (upd_conn i ?f ?c) = cy_userFuncs cy" "valid_id i (upd_conn i ?f ?c)"
      using v by (simp_all add: upd_conn_def valid_id_def)
    have fd: "fd_of i (upd_conn i ?f ?c) = fd_of i cy" unfolding fd_of_def c by (simp add: mark_events_def)
    have "alive i (upd_conn i ?f ?c)"
      unfolding alive_def fd is_inner_socketfd_def p c control_def using a t vc
      by (simp add: alive_def is_inner_socketfd_def mark_events_def control_def)
    moreover have "local i r n (upd_conn i ?f ?c) = (local i r n cy)\<lparr>l_events := cur\<rparr>"
      unfolding local_def fd p c by (simp add: mark_events_def core_def)
    ultimately show ?thesis using m alive_allowed [OF a] le by (simp add: cur_def)
  qed
qed

lemma upd_buf_ok:
  assumes "alive i cy"
  shows "alive i (upd_buf i b cy)" and "buf_of i (upd_buf i b cy) = b" and "fd_of i (upd_buf i b cy) = fd_of i cy"
    and "local i r n (upd_buf i b cy) = (local i r n cy)\<lparr>l_conn := (l_conn (local i r n cy))\<lparr>cn_coBuffer := b\<rparr>\<rparr>"
proof -
  let ?f = "\<lambda>c::CoConnection. c\<lparr>cn_coBuffer := b\<rparr>"
  have "alive i (upd_conn i ?f cy) \<and> fd_of i (upd_conn i ?f cy) = fd_of i cy" by (rule alive_upd_conn [OF assms]) simp_all
  then show "alive i (upd_buf i b cy)" "fd_of i (upd_buf i b cy) = fd_of i cy" by (simp_all add: upd_buf_def)
  show "buf_of i (upd_buf i b cy) = b" using assms by (simp add: buf_of_def upd_buf_def alive_def)
  show "local i r n (upd_buf i b cy) = (local i r n cy)\<lparr>l_conn := (l_conn (local i r n cy))\<lparr>cn_coBuffer := b\<rparr>\<rparr>"
    unfolding upd_buf_def by (rule local_upd_conn [OF assms]) (simp_all add: core_def)
qed

lemma upd_request_ok:
  assumes "alive i cy"
  shows "alive i (upd_request r f cy)"
    and "local i r n (upd_request r f cy) = (local i r n cy)\<lparr>l_request := map_option f (l_request (local i r n cy))\<rparr>"
  using alive_local_cong [OF assms, of "upd_request r f cy"] by (simp_all add: upd_request_def local_def)

lemma tick_ok: "alive i cy \<Longrightarrow> alive i (tick cy) \<and> local i r n (tick cy) = local i r n cy"
  using alive_local_cong [of i cy "tick cy"] by (simp add: tick_def local_def)

lemma upd_protocol_ok:
  assumes "alive i cy"
  shows "alive i (upd_protocol n p cy)"
    and "local i r n (upd_protocol n p cy) = (local i r n cy)\<lparr>l_protocol := Some p\<rparr>"
  using alive_local_cong [OF assms, of "upd_protocol n p cy"] by (simp_all add: upd_protocol_def local_def)

section \<open>Steps on the local state\<close>

definition seen :: "nat \<Rightarrow> nat \<Rightarrow> nat \<Rightarrow> CoCycle \<Rightarrow> local_state \<Rightarrow> bool" where
  "seen i r n cy l \<longleftrightarrow> alive i cy \<and> local i r n cy = l"

abbreviation l_buf :: "local_state \<Rightarrow> co_buffer" where "l_buf l \<equiv> cn_coBuffer (l_conn l)"

abbreviation put_buf :: "co_buffer \<Rightarrow> local_state \<Rightarrow> local_state" where
  "put_buf b l \<equiv> l\<lparr>l_conn := (l_conn l)\<lparr>cn_coBuffer := b\<rparr>\<rparr>"

text \<open>Updates are brought into the order of the fields.\<close>

lemma local_order [simp]:
  "l_conn_update f0 (l_events_update f1 l) = l_events_update f1 (l_conn_update f0 l)" "l_conn_update f0 (l_in_update f2 l) = l_in_update f2 (l_conn_update f0 l)"
  "l_conn_update f0 (l_out_update f3 l) = l_out_update f3 (l_conn_update f0 l)" "l_conn_update f0 (l_wire_update f4 l) = l_wire_update f4 (l_conn_update f0 l)"
  "l_conn_update f0 (l_request_update f5 l) = l_request_update f5 (l_conn_update f0 l)" "l_conn_update f0 (l_protocol_update f6 l) = l_protocol_update f6 (l_conn_update f0 l)"
  "l_events_update f1 (l_in_update f2 l) = l_in_update f2 (l_events_update f1 l)" "l_events_update f1 (l_out_update f3 l) = l_out_update f3 (l_events_update f1 l)"
  "l_events_update f1 (l_wire_update f4 l) = l_wire_update f4 (l_events_update f1 l)" "l_events_update f1 (l_request_update f5 l) = l_request_update f5 (l_events_update f1 l)"
  "l_events_update f1 (l_protocol_update f6 l) = l_protocol_update f6 (l_events_update f1 l)" "l_in_update f2 (l_out_update f3 l) = l_out_update f3 (l_in_update f2 l)"
  "l_in_update f2 (l_wire_update f4 l) = l_wire_update f4 (l_in_update f2 l)" "l_in_update f2 (l_request_update f5 l) = l_request_update f5 (l_in_update f2 l)"
  "l_in_update f2 (l_protocol_update f6 l) = l_protocol_update f6 (l_in_update f2 l)" "l_out_update f3 (l_wire_update f4 l) = l_wire_update f4 (l_out_update f3 l)"
  "l_out_update f3 (l_request_update f5 l) = l_request_update f5 (l_out_update f3 l)" "l_out_update f3 (l_protocol_update f6 l) = l_protocol_update f6 (l_out_update f3 l)"
  "l_wire_update f4 (l_request_update f5 l) = l_request_update f5 (l_wire_update f4 l)" "l_wire_update f4 (l_protocol_update f6 l) = l_protocol_update f6 (l_wire_update f4 l)"
  "l_request_update f5 (l_protocol_update f6 l) = l_protocol_update f6 (l_request_update f5 l)"
  by (cases l; simp)+

lemma seen_reads:
  assumes "seen i r n cy l"
  shows "buf_of i cy = l_buf l" "cy_heap cy = l_heap l" "cy_itr cy = l_itr l" "cy_requests cy r = l_request l"
    "cy_protocols cy n = l_protocol l" "cn_coTcp (conn i cy) = cn_coTcp (l_conn l)" "cn_epollCurEvents (conn i cy) = l_events l"
    "cy_in cy (fd_of i cy) = l_in l" "cy_out cy (fd_of i cy) = l_out l" "cy_wire cy (fd_of i cy) = l_wire l"
    "cn_serverControl (conn i cy) = cn_serverControl (l_conn l)" "cn_version (conn i cy) = cn_version (l_conn l)"
    "cn_blockConn (conn i cy) = cn_blockConn (l_conn l)" "server_setup cy = l_servers l"
  using assms by (auto simp: seen_def local_def buf_of_def)

lemma seen_fd: "seen i r n cy l \<Longrightarrow> fd_of i cy = tc_socketfd (cn_coTcp (l_conn l)) \<and> 0 < fd_of i cy"
  by (auto simp: seen_def local_def fd_of_def alive_def)

lemma seen_steps:
  assumes "seen i r n cy l"
  shows "seen i r n (set_timer i e ms cy) l" "seen i r n (unset_timer i e cy) l" "seen i r n (drop_timer i e cy) l" "seen i r n (tick cy) l"
    "seen i r n (upd_buf i b cy) (put_buf b l)"
    "seen i r n (upd_request r f cy) (l\<lparr>l_request := map_option f (l_request l)\<rparr>)"
    "seen i r n (upd_protocol n p cy) (l\<lparr>l_protocol := Some p\<rparr>)"
  using assms by (simp_all add: seen_def timer_ops drop_timer_ok tick_ok upd_buf_ok upd_request_ok upd_protocol_ok)

lemma seen_modify:
  assumes "seen i r n cy l" and "l_events l \<noteq> 0 \<or> modify_events e op 0 \<noteq> 0"
  obtains cy' where "modify_connection i e op cy = (CO_OK, cy')" "seen i r n cy' (l\<lparr>l_events := modify_events e op (l_events l)\<rparr>)"
proof -
  have "alive i cy" "local i r n cy = l" "cn_epollCurEvents (conn i cy) = l_events l" using assms(1) seen_reads [OF assms(1)]
    by (auto simp: seen_def)
  then show ?thesis using that modify_ok [of i cy e op r n] assms(2) by (auto simp: seen_def)
qed

lemma seen_others: "patient w i r n \<Longrightarrow> seen i r n cy l \<Longrightarrow> own i n l \<Longrightarrow> seen i r n (w_others w i cy) l"
  by (auto simp: patient_def seen_def)

end
