(* ===== verification/Byte_Flow.thy ===== *)
theory Byte_Flow
  imports Local_State
begin

text \<open>
  The loops of a connection on its local state, the same for the requests of clients and for
  sub-requests: the read loop is the loop on segments \<open>feed\<close> of the HTTP theories (the locale
  \<open>stream_protocol\<close>, with an interpretation for each end of HTTP), the write loop sends what
  \<open>encode\<close> wrote.
\<close>

section \<open>Bytes that arrive and bytes that are taken\<close>

text \<open>Segments that arrive, and numbers of bytes the kernel takes; those marked \<open>True\<close> make the coroutine wait first.\<close>

definition late :: "'a \<Rightarrow> bool \<times> 'b \<Rightarrow> ('b \<Rightarrow> 'a) \<Rightarrow> 'a list" where
  "late e x f = (if fst x then [e] else []) @ [f (snd x)]"

definition arrivals :: "(bool \<times> string) list \<Rightarrow> recv_answer list" where
  "arrivals xs = concat (map (\<lambda>x. late (RecvError EAGAIN) x Data) xs)"

definition takings :: "(bool \<times> nat) list \<Rightarrow> send_answer list" where
  "takings ks = concat (map (\<lambda>x. late (SendError EAGAIN) x Accept) ks)"

lemma arrivals_simps [simp]: "arrivals [] = []" "arrivals (x # xs) = late (RecvError EAGAIN) x Data @ arrivals xs"
  "arrivals (xs @ ys) = arrivals xs @ arrivals ys"
  by (simp_all add: arrivals_def)

lemma takings_simps [simp]: "takings [] = []" "takings (k # ks) = late (SendError EAGAIN) k Accept @ takings ks"
  by (simp_all add: takings_def)

lemma seen_recv:
  assumes "seen i r n cy l" and "l_in l = x # xs" and "sys_recv k (x # xs) = (a, xs)"
  shows "\<exists>cy'. origin_recv (fd_of i cy) k cy = (a, cy') \<and> seen i r n cy' (l\<lparr>l_in := xs\<rparr>)"
proof -
  let ?c = "cy\<lparr>cy_in := (cy_in cy)(fd_of i cy := xs), cy_errno := (case a of Inl e \<Rightarrow> e | Inr _ \<Rightarrow> cy_errno cy)\<rparr>"
  have a: "alive i cy" and l: "local i r n cy = l" using assms(1) by (auto simp: seen_def)
  have "origin_recv (fd_of i cy) k cy = (a, ?c)"
    using assms(2,3) seen_reads(8) [OF assms(1)] by (auto simp: origin_recv_def split: sum.split)
  moreover have "seen i r n ?c (l\<lparr>l_in := xs\<rparr>)"
    using alive_local_cong [OF a, of ?c] l by (auto simp: seen_def local_def)
  ultimately show ?thesis by blast
qed

lemma seen_send:
  assumes "seen i r n cy l" and "l_out l = x # xs" and "sys_send s (x # xs) = (a, xs)"
  shows "\<exists>cy'. origin_send (fd_of i cy) s cy = (a, cy')
    \<and> seen i r n cy' (l\<lparr>l_out := xs, l_wire := l_wire l @ (case a of Inl e \<Rightarrow> [] | Inr k \<Rightarrow> take k s)\<rparr>)"
proof -
  let ?c = "cy\<lparr>cy_out := (cy_out cy)(fd_of i cy := xs), cy_errno := (case a of Inl e \<Rightarrow> e | Inr _ \<Rightarrow> cy_errno cy),
    cy_wire := (cy_wire cy)(fd_of i cy := cy_wire cy (fd_of i cy) @ (case a of Inl e \<Rightarrow> [] | Inr k \<Rightarrow> take k s))\<rparr>"
  have a: "alive i cy" and l: "local i r n cy = l" using assms(1) by (auto simp: seen_def)
  have "origin_send (fd_of i cy) s cy = (a, ?c)"
    using assms(2,3) seen_reads(9) [OF assms(1)] by (auto simp: origin_send_def split: sum.split)
  moreover have "seen i r n ?c (l\<lparr>l_out := xs, l_wire := l_wire l @ (case a of Inl e \<Rightarrow> [] | Inr k \<Rightarrow> take k s)\<rparr>)"
    using alive_local_cong [OF a, of ?c] l by (auto simp: seen_def local_def)
  ultimately show ?thesis by blast
qed

lemma alive_hooked: "alive i cy \<Longrightarrow> read_write_mode w (fd_of i cy) ev so origin cy = Inr (io_inner w i origin cy)"
  by (simp add: read_write_mode_def alive_def)

lemma alive_yield:
  assumes "patient w i r n" and "seen i r n cy l" and "own i n l"
  shows "after_wait (dispatcher_yield w i cy) origin = origin (w_others w i cy)"
  using seen_others [OF assms] by (simp add: dispatcher_yield_def after_wait_def seen_def alive_def CO_OK_def Let_def)

lemma hook_recv_ok:
  assumes w: "patient w i r n" and s: "seen i r n cy l" and own: "own i n l" and x: "l_in l = late (RecvError EAGAIN) x Data @ later"
    and k: "length (snd x) \<le> k"
  obtains cy' where "hook_recv w (fd_of i cy) k cy = Inr (Inr (snd x), cy')" "seen i r n cy' (l\<lparr>l_in := later\<rparr>)"
proof -
  have data: "\<exists>cy'. origin_recv (fd_of i c) k c = (Inr (snd x), cy') \<and> seen i r n cy' (m\<lparr>l_in := later\<rparr>)"
    if "seen i r n c m" "l_in m = Data (snd x) # later" for c m
    using seen_recv [OF that] k by simp
  have fd: "fd_of i c = fd_of i cy" if "seen i r n c m" "l_conn m = l_conn l" for c m
    using seen_fd [OF that(1)] seen_fd [OF s] that(2) by simp
  have a: "alive i cy" using s by (simp add: seen_def)
  show ?thesis
  proof (cases "fst x")
    case True
    then have l: "l_in l = RecvError EAGAIN # Data (snd x) # later" using x by (simp add: late_def)
    obtain c1 where c1: "origin_recv (fd_of i cy) k cy = (Inl EAGAIN, c1)" "seen i r n c1 (l\<lparr>l_in := Data (snd x) # later\<rparr>)"
      using seen_recv [OF s l, of k "Inl EAGAIN"] by auto
    have o: "seen i r n (w_others w i c1) (l\<lparr>l_in := Data (snd x) # later\<rparr>)" by (rule seen_others [OF w c1(2)]) (simp add: own)
    obtain c2 where c2: "origin_recv (fd_of i cy) k (w_others w i c1) = (Inr (snd x), c2)" "seen i r n c2 (l\<lparr>l_in := later\<rparr>)"
      using data [OF o] fd [OF o] by auto
    show ?thesis using that [OF _ c2(2)] c1(1) c2(1)
      by (simp add: alive_yield [OF w c1(2)] own hook_recv_def alive_hooked [OF a] io_inner_def)
  next
    case False
    then have "l_in l = Data (snd x) # later" using x by (simp add: late_def)
    from data [OF s this] that show ?thesis by (auto simp: hook_recv_def alive_hooked [OF a] io_inner_def)
  qed
qed

lemma hook_send_ok:
  assumes w: "patient w i r n" and s: "seen i r n cy l" and own: "own i n l" and x: "l_out l = late (SendError EAGAIN) x Accept @ later"
    and k: "snd x \<le> length buf"
  obtains cy' where "hook_send w (fd_of i cy) buf cy = Inr (Inr (snd x), cy')"
    "seen i r n cy' (l\<lparr>l_out := later, l_wire := l_wire l @ take (snd x) buf\<rparr>)"
proof -
  have data: "\<exists>cy'. origin_send (fd_of i c) buf c = (Inr (snd x), cy') \<and> seen i r n cy' (m\<lparr>l_out := later, l_wire := l_wire m @ take (snd x) buf\<rparr>)"
    if "seen i r n c m" "l_out m = Accept (snd x) # later" for c m
    using seen_send [OF that, of buf "Inr (snd x)"] k by (simp add: min_def)
  have fd: "fd_of i c = fd_of i cy" if "seen i r n c m" "l_conn m = l_conn l" for c m
    using seen_fd [OF that(1)] seen_fd [OF s] that(2) by simp
  have a: "alive i cy" using s by (simp add: seen_def)
  show ?thesis
  proof (cases "fst x")
    case True
    then have l: "l_out l = SendError EAGAIN # Accept (snd x) # later" using x by (simp add: late_def)
    let ?l = "l\<lparr>l_out := Accept (snd x) # later\<rparr>"
    obtain c1 where c1: "origin_send (fd_of i cy) buf cy = (Inl EAGAIN, c1)" "seen i r n c1 ?l"
      using seen_send [OF s l, of buf "Inl EAGAIN"] by auto
    have o: "seen i r n (w_others w i c1) ?l" by (rule seen_others [OF w c1(2)]) (simp add: own)
    obtain c2 where c2: "origin_send (fd_of i cy) buf (w_others w i c1) = (Inr (snd x), c2)"
      "seen i r n c2 (l\<lparr>l_out := later, l_wire := l_wire l @ take (snd x) buf\<rparr>)"
      using data [OF o] fd [OF o] by auto
    show ?thesis using that [OF _ c2(2)] c1(1) c2(1)
      by (simp add: alive_yield [OF w c1(2)] own hook_send_def alive_hooked [OF a] io_inner_def)
  next
    case False
    then have "l_out l = Accept (snd x) # later" using x by (simp add: late_def)
    from data [OF s this] that show ?thesis by (auto simp: hook_send_def alive_hooked [OF a] io_inner_def)
  qed
qed

lemma conn_read_ok:
  assumes "patient w i r n" and "seen i r n cy l" and "own i n l" and "l_in l = late (RecvError EAGAIN) x Data @ later"
    and "snd x \<noteq> []" and "length (snd x) \<le> k"
  obtains cy' where "conn_read w i k cy = Inr (int (length (snd x)), snd x, cy')" "seen i r n cy' (l\<lparr>l_in := later\<rparr>)"
proof -
  obtain cy' where h: "hook_recv w (fd_of i cy) k cy = Inr (Inr (snd x), cy')" "seen i r n cy' (l\<lparr>l_in := later\<rparr>)"
    by (rule hook_recv_ok [OF assms(1-4,6)])
  have "k \<noteq> 0" "\<not> fd_of i cy \<le> 0" using assms(5,6) seen_fd [OF assms(2)] by (cases "snd x"; auto)+
  then show ?thesis using that h assms(5) by (simp add: conn_read_def tcp_read_ret_def clear_eagain_def)
qed

lemma conn_write_ok:
  assumes "patient w i r n" and "seen i r n cy l" and "own i n l" and "l_out l = late (SendError EAGAIN) x Accept @ later"
    and "0 < snd x" and "snd x \<le> length buf"
  obtains cy' where "conn_write w i buf cy = Inr (int (snd x), cy')"
    "seen i r n cy' (l\<lparr>l_out := later, l_wire := l_wire l @ take (snd x) buf\<rparr>)"
proof -
  obtain cy' where h: "hook_send w (fd_of i cy) buf cy = Inr (Inr (snd x), cy')"
    "seen i r n cy' (l\<lparr>l_out := later, l_wire := l_wire l @ take (snd x) buf\<rparr>)"
    by (rule hook_send_ok [OF assms(1-4,6)])
  have "buf \<noteq> []" "\<not> fd_of i cy \<le> 0" using assms(5,6) seen_fd [OF assms(2)] by auto
  then show ?thesis using that h by (simp add: conn_write_def tcp_write_ret_def clear_eagain_def)
qed

section \<open>The read loop\<close>

lemma rest_of_length: "length (rest_of act s) \<le> length s"
  by (cases act) auto

text \<open>
  A protocol whose \<open>decode\<close> runs a parser on what the buffer holds and changes the buffer as the
  parser says: \<open>wrap\<close> makes the protocol object around the message it fills.
\<close>

locale stream_protocol =
  fixes wrap :: "'m \<Rightarrow> protocol" and dec :: "'m decoder"
  assumes decodes: "dec m (contents b) = Inr (ret, m', act) \<Longrightarrow>
    protocol_decode (wrap m) b = Inr (ret, wrap m', apply_action act b)"
begin

lemma read_step_ok:
  assumes w: "patient w i r n" and s: "seen i r n cy l" and own: "own i n l" and x: "l_in l = late (RecvError EAGAIN) x Data @ later"
    and len: "snd x \<noteq> []" "length (snd x) \<le> 4096" and h: "l_heap l = full_heap j"
    and inv: "buf_inv (l_buf l)" and room: "length (contents (l_buf l)) + 4096 \<le> buf_limit"
    and p: "l_protocol l = Some (wrap p)"
    and d: "dec p (contents (l_buf l) @ snd x) = Inr (ret, m, act)"
  obtains cy' b where "read_step w i n cy = Inr (ret = CO_AGAIN, ret, cy')" "buf_inv b"
    "contents b = rest_of act (contents (l_buf l) @ snd x)"
    "seen i r n cy' (put_buf b (l\<lparr>l_in := later, l_protocol := Some (wrap m)\<rparr>))"
proof -
  have "m_bufferSize (l_buf l) + 4096 \<le> 9223372036854775808" using room inv by (simp add: length_contents)
  from buffer_expand_ok [OF inv this, of "full_heap j"] obtain b1
    where b1: "buffer_expand (full_heap j) 4096 (l_buf l) = Inr (CO_OK, b1)" "buf_inv b1" "contents b1 = contents (l_buf l)"
      "m_misalignSize b1 + m_bufferSize b1 + 4096 \<le> m_totalSize b1"
    by (auto simp: full_heap_def)
  have s1: "seen i r n (upd_buf i b1 cy) (put_buf b1 l)" by (rule seen_steps(5) [OF s])
  obtain c2 where c2: "conn_read w i 4096 (upd_buf i b1 cy) = Inr (int (length (snd x)), snd x, c2)"
    "seen i r n c2 (put_buf b1 (l\<lparr>l_in := later\<rparr>))"
  proof -
    have x1: "l_in (put_buf b1 l) = late (RecvError EAGAIN) x Data @ later" using x by simp
    obtain c2 where "conn_read w i 4096 (upd_buf i b1 cy) = Inr (int (length (snd x)), snd x, c2)"
      "seen i r n c2 ((put_buf b1 l)\<lparr>l_in := later\<rparr>)" by (rule conn_read_ok [OF w s1 _ x1 len]) (simp add: own)
    moreover have "(put_buf b1 l)\<lparr>l_in := later\<rparr> = put_buf b1 (l\<lparr>l_in := later\<rparr>)" by (cases l) simp
    ultimately show ?thesis using that by metis
  qed
  obtain b2 b3 where b3: "buffer_recv (snd x) b1 = Inr b2" "buffer_size_expand (length (snd x)) b2 = (CO_OK, b3)"
    "buf_inv b3" "contents b3 = contents (l_buf l) @ snd x"
    using buffer_recv_expand_ok [OF b1(2), of "snd x"] b1(3,4) len(2) by auto
  let ?p = "wrap m" and ?b = "apply_action act b3"
  have dec: "protocol_decode (wrap p) b3 = Inr (ret, ?p, ?b)"
    using decodes [of p b3] d b3(4) by simp
  have s3: "seen i r n (upd_buf i b3 c2) (put_buf b3 (l\<lparr>l_in := later\<rparr>))" using seen_steps(5) [OF c2(2), of b3] by simp
  have s4: "seen i r n (upd_protocol n ?p (upd_buf i ?b (upd_buf i b3 c2))) (put_buf ?b (l\<lparr>l_in := later, l_protocol := Some ?p\<rparr>))"
    using seen_steps(7) [OF seen_steps(5) [OF s3, of ?b], of ?p] by simp
  have rd: "read_decode i n (snd x) c2 = Inr (ret = CO_AGAIN, ret, upd_protocol n ?p (upd_buf i ?b (upd_buf i b3 c2)))"
    using seen_reads(1) [OF c2(2)] seen_reads(5) [OF s3] p b3 dec
    by (simp add: read_decode_def deref_def CO_OK_def)
  have "read_step w i n cy = Inr (ret = CO_AGAIN, ret, upd_protocol n ?p (upd_buf i ?b (upd_buf i b3 c2)))"
    using seen_reads(1,2) [OF s] h b1(1) c2(1) rd
    by (simp add: read_step_def BUFFER_SIZE_4096_def CO_OK_def)
  from that [OF this _ _ s4] show ?thesis using b3(3,4) by (simp add: apply_action_inv contents_apply_action)
qed

text \<open>The loop is \<open>feed\<close>: it takes the segments up to the one that completes the request, or spoils it.\<close>

lemma read_loop_ok:
  "\<lbrakk>patient w i r n; seen i r n cy l; own i n l; l_in l = arrivals xs @ later; \<forall>x\<in>set xs. snd x \<noteq> [] \<and> length (snd x) \<le> 4096;
    l_heap l = full_heap j; buf_inv (l_buf l); length (contents (l_buf l)) + 4096 * length xs \<le> buf_limit;
    l_protocol l = Some (wrap p);
    feed dec p (contents (l_buf l)) (map snd xs) = Inr (ret, m, rest); ret \<noteq> CO_AGAIN\<rbrakk> \<Longrightarrow>
   \<exists>cy' b ys zs. read_loop w i n cy = Some (Inr (ret, cy')) \<and> buf_inv b \<and> xs = ys @ zs \<and> ys \<noteq> []
     \<and> rest = contents b @ concat (map snd zs) \<and> feed dec p (contents (l_buf l)) (map snd ys) = Inr (ret, m, contents b)
     \<and> seen i r n cy' (put_buf b (l\<lparr>l_in := arrivals zs @ later, l_protocol := Some (wrap m)\<rparr>))"
proof (induction xs arbitrary: cy l p)
  case Nil
  have "ret = CO_AGAIN" using Nil.prems(10) by simp
  then show ?case using Nil.prems(11) by contradiction
next
  case (Cons x xs)
  note w = Cons.prems(1)
  from Cons.prems(10) obtain r1 m1 a1
    where d: "dec p (contents (l_buf l) @ snd x) = Inr (r1, m1, a1)"
      and f: "(if r1 = CO_AGAIN then feed dec m1 (rest_of a1 (contents (l_buf l) @ snd x)) (map snd xs)
        else Inr (r1, m1, rest_of a1 (contents (l_buf l) @ snd x) @ concat (map snd xs))) = Inr (ret, m, rest)"
    by (auto simp: bindr_eq_Inr_conv)
  have x: "l_in l = late (RecvError EAGAIN) x Data @ arrivals xs @ later" "snd x \<noteq> []" "length (snd x) \<le> 4096"
    and room: "length (contents (l_buf l)) + 4096 \<le> buf_limit" using Cons.prems(4,5,8) by auto
  obtain c b where c: "read_step w i n cy = Inr (r1 = CO_AGAIN, r1, c)" "buf_inv b"
    "contents b = rest_of a1 (contents (l_buf l) @ snd x)"
    "seen i r n c (put_buf b (l\<lparr>l_in := arrivals xs @ later, l_protocol := Some (wrap m1)\<rparr>))"
    by (rule read_step_ok [OF w Cons.prems(2,3) x Cons.prems(6,7) room Cons.prems(9) d])
  show ?case
  proof (cases "r1 = CO_AGAIN")
    case True
    have "length (contents b) \<le> length (contents (l_buf l)) + length (snd x)" using c(3) rest_of_length [of a1 "contents (l_buf l) @ snd x"] by simp
    then have room': "length (contents b) + 4096 * length xs \<le> buf_limit" using Cons.prems(8) x(3) by simp
    let ?l = "put_buf b (l\<lparr>l_in := arrivals xs @ later, l_protocol := Some (wrap m1)\<rparr>)"
    have sel: "l_in ?l = arrivals xs @ later" "l_heap ?l = full_heap j" "l_buf ?l = b" "l_protocol ?l = Some (wrap m1)"
      using Cons.prems(6) by simp_all
    have own: "own i n ?l" using Cons.prems(3) by simp
    have xs: "\<forall>x\<in>set xs. snd x \<noteq> [] \<and> length (snd x) \<le> 4096" using Cons.prems(5) by simp
    have f': "feed dec m1 (contents b) (map snd xs) = Inr (ret, m, rest)" using f True c(3) by simp
    from Cons.IH [OF w c(4) own, unfolded sel, OF refl xs refl c(2) room' refl f' Cons.prems(11)] obtain c2 b2 ys zs where
      "read_loop w i n c = Some (Inr (ret, c2))" "buf_inv b2" "xs = ys @ zs" "rest = contents b2 @ concat (map snd zs)"
      "feed dec m1 (contents b) (map snd ys) = Inr (ret, m, contents b2)" "seen i r n c2 (put_buf b2 (l\<lparr>l_in := arrivals zs @ later, l_protocol := Some (wrap m)\<rparr>))"
      by auto
    moreover have "read_loop w i n cy = read_loop w i n c" using c(1) True by (simp add: read_loop.simps [of w i n cy])
    ultimately show ?thesis using d True c(3) by (intro exI [of _ c2] exI [of _ b2] exI [of _ "x # ys"] exI [of _ zs]) simp
  next
    case False
    then have "ret = r1" "m = m1" "rest = contents b @ concat (map snd xs)" using f c(3) by auto
    moreover have "read_loop w i n cy = Some (Inr (r1, c))" using c(1) False by (simp add: read_loop.simps [of w i n cy])
    ultimately show ?thesis using c(2-4) d False by (intro exI [of _ c] exI [of _ b] exI [of _ "[x]"] exI [of _ xs]) simp
  qed
qed

end

interpretation srv_stream: stream_protocol "\<lambda>m. HttpServer (p\<lparr>m_reqMsg := m\<rparr>)" server_parse for p
  by unfold_locales (simp add: wrap_protocol_def server_decode_def)

interpretation cli_stream: stream_protocol "\<lambda>m. HttpClient (p\<lparr>m_respMsg := m\<rparr>)" client_parse for p
  by unfold_locales (simp add: wrap_protocol_def client_decode_def)

section \<open>The write loop\<close>

lemma write_loop_ok:
  "\<lbrakk>patient w i r n; seen i r n cy l; own i n l; l_out l = takings ks @ later; \<forall>k\<in>set ks. 0 < snd k; buf_inv (l_buf l);
    sum_list (map snd ks) = length (contents (l_buf l))\<rbrakk> \<Longrightarrow>
   \<exists>cy' b. write_loop w i cy = Some (Inr (True, cy')) \<and> buf_inv b \<and> contents b = []
     \<and> seen i r n cy' (put_buf b (l\<lparr>l_out := later, l_wire := l_wire l @ contents (l_buf l)\<rparr>))"
proof (induction ks arbitrary: cy l)
  case Nil
  then have "get_buffersize (buf_of i cy) = 0" using seen_reads(1) [OF Nil.prems(2)] by (simp add: get_buffersize_def length_contents)
  then have "write_loop w i cy = Some (Inr (True, cy))" by (simp add: write_loop.simps [of w i cy] write_step_def)
  moreover have e: "contents (l_buf l) = []" using Nil.prems(7) by simp
  moreover have "put_buf (l_buf l) (l\<lparr>l_out := later, l_wire := l_wire l @ contents (l_buf l)\<rparr>) = l"
    using Nil.prems(4) e by simp
  then have "seen i r n cy (put_buf (l_buf l) (l\<lparr>l_out := later, l_wire := l_wire l @ contents (l_buf l)\<rparr>))"
    using Nil.prems(2) by (simp only:)
  ultimately show ?case using Nil.prems(6) by blast
next
  case (Cons k ks)
  note w = Cons.prems(1) and s = Cons.prems(2)
  have k: "l_out l = late (SendError EAGAIN) k Accept @ takings ks @ later" "0 < snd k" "snd k \<le> length (contents (l_buf l))"
    using Cons.prems(4,5,7) by auto
  obtain c where c: "conn_write w i (contents (l_buf l)) cy = Inr (int (snd k), c)"
    "seen i r n c (l\<lparr>l_out := takings ks @ later, l_wire := l_wire l @ take (snd k) (contents (l_buf l))\<rparr>)"
    by (rule conn_write_ok [OF w s Cons.prems(3) k])
  let ?b = "snd (buffer_erase (snd k) (l_buf l))"
  have b: "buf_inv ?b" "contents ?b = drop (snd k) (contents (l_buf l))"
    using Cons.prems(6) by (simp_all add: buf_inv_erase contents_erase)
  have c': "seen i r n (upd_buf i ?b c) (put_buf ?b (l\<lparr>l_out := takings ks @ later, l_wire := l_wire l @ take (snd k) (contents (l_buf l))\<rparr>))"
    by (rule seen_steps(5) [OF c(2)])
  have "0 < get_buffersize (buf_of i cy)" using k(2,3) seen_reads(1) [OF s] Cons.prems(6) by (simp add: get_buffersize_def length_contents)
  then have st: "write_loop w i cy = write_loop w i (upd_buf i ?b c)"
    using c(1) k(2) seen_reads(1) [OF s] seen_reads(1) [OF c(2)] by (simp add: write_loop.simps [of w i cy] write_step_def)
  let ?l = "put_buf ?b (l\<lparr>l_out := takings ks @ later, l_wire := l_wire l @ take (snd k) (contents (l_buf l))\<rparr>)"
  have sel: "l_out ?l = takings ks @ later" "l_buf ?l = ?b" by simp_all
  have own: "own i n ?l" using Cons.prems(3) by simp
  have ks: "\<forall>k\<in>set ks. 0 < snd k" "sum_list (map snd ks) = length (contents ?b)" using Cons.prems(5,7) b(2) by auto
  from Cons.IH [OF w c' own, unfolded sel, OF refl ks(1) b(1) ks(2)] obtain c2 b2 where "write_loop w i (upd_buf i ?b c) = Some (Inr (True, c2))" "buf_inv b2" "contents b2 = []"
    "seen i r n c2 (put_buf b2 (l\<lparr>l_out := later, l_wire := l_wire l @ contents (l_buf l)\<rparr>))"
    using b(2) by auto
  then show ?case using st by auto
qed

section \<open>Events and updates\<close>

lemma event_bits: "CO_EVENT_READ \<noteq> 0" "CO_EVENT_OUT \<noteq> 0" "CO_EVENT_IN \<noteq> 0" "CO_EVENT_WRITE \<noteq> 0"
  by (simp_all add: CO_EVENT_READ_def CO_EVENT_OUT_def CO_EVENT_IN_def CO_EVENT_WRITE_def epoll_bits)

lemma add_events_nonzero: "op \<noteq> 0 \<Longrightarrow> modify_events EPOLL_EVENTS_ADD op ev \<noteq> 0"
  by (simp add: modify_events_def or_eq_0_iff)

lemma seen_upd_conn:
  assumes "seen i r n cy l" and "\<And>c. cn_coTcp (f c) = cn_coTcp c" and "\<And>c. cn_flagDying (f c) = cn_flagDying c"
    and "\<And>c. cn_epollCurEvents (f c) = cn_epollCurEvents c" and "\<And>c. cn_epollCurVersion (f c) = cn_epollCurVersion c"
    and "\<And>c. cn_connId (f c) = cn_connId c" and "\<And>c. cn_serverControl (f c) = cn_serverControl c"
    and "\<And>c. core (f c) = f (core c)"
  shows "seen i r n (upd_conn i f cy) (l\<lparr>l_conn := f (l_conn l)\<rparr>)"
proof -
  have a: "alive i cy" and l: "local i r n cy = l" using assms(1) by (auto simp: seen_def)
  have "local i r n (upd_conn i f cy) = l\<lparr>l_conn := f (l_conn l)\<rparr>"
    using local_upd_conn [OF a, of f f r n] assms(2,4,8) l by simp
  then show ?thesis using alive_upd_conn [OF a assms(2-7)] by (simp add: seen_def)
qed

lemma wire_frame:
  "cy_wire (drop_timer i e cy) = cy_wire cy" "cy_wire (snd (modify_connection i t op cy)) = cy_wire cy"
  "cy_wire (snd (del_connection i cy)) = cy_wire cy"
proof -
  have u: "cy_wire (upd_conn j g c) = cy_wire c" for j g c by (simp add: upd_conn_def)
  have k: "cy_wire (snd (epoll_ctl p fd ev d c)) = cy_wire c" for p fd ev d c
    by (simp add: epoll_ctl_def Let_def split: option.split)
  show "cy_wire (snd (modify_connection i t op cy)) = cy_wire cy" "cy_wire (snd (del_connection i cy)) = cy_wire cy"
    unfolding modify_connection_def del_connection_def Let_def case_prod_beta by (simp_all add: u k)
  show "cy_wire (drop_timer i e cy) = cy_wire cy"
    unfolding drop_timer_def unset_timer_def Let_def case_prod_beta by (simp add: u del_timer_def)
qed

lemma seen_done:
  assumes "seen i r n cy l" and "l_events l \<noteq> 0"
  shows "seen i r n (write_done i cy) (l\<lparr>l_events := modify_events EPOLL_EVENTS_DEL CO_EVENT_OUT (l_events l)\<rparr>)"
    and "seen i r n (read_done i cy) (l\<lparr>l_events := modify_events EPOLL_EVENTS_DEL CO_EVENT_IN (l_events l)\<rparr>)"
proof -
  have d: "seen i r n (snd (modify_connection i EPOLL_EVENTS_DEL op (unset_timer i e cy))) (l\<lparr>l_events := modify_events EPOLL_EVENTS_DEL op (l_events l)\<rparr>)" for op e
  proof -
    have nz: "l_events l \<noteq> 0 \<or> modify_events EPOLL_EVENTS_DEL op 0 \<noteq> 0" using assms(2) by simp
    obtain c where "modify_connection i EPOLL_EVENTS_DEL op (unset_timer i e cy) = (CO_OK, c)"
      "seen i r n c (l\<lparr>l_events := modify_events EPOLL_EVENTS_DEL op (l_events l)\<rparr>)"
      by (rule seen_modify [OF seen_steps(2) [OF assms(1)] nz])
    then show ?thesis by simp
  qed
  show "seen i r n (write_done i cy) (l\<lparr>l_events := modify_events EPOLL_EVENTS_DEL CO_EVENT_OUT (l_events l)\<rparr>)"
    "seen i r n (read_done i cy) (l\<lparr>l_events := modify_events EPOLL_EVENTS_DEL CO_EVENT_IN (l_events l)\<rparr>)"
    unfolding write_done_def read_done_def by (rule d)+
qed

lemma seen_cong:
  assumes "seen i r n cy l" and "cy_pool cy' = cy_pool cy" and "cy_interest cy' = cy_interest cy" and "cy_refuse cy' = cy_refuse cy"
    and "cy_curConnection cy' = cy_curConnection cy" and "cy_serverControls cy' = cy_serverControls cy"
    and "cy_in cy' = cy_in cy" and "cy_out cy' = cy_out cy" and "cy_wire cy' = cy_wire cy" and "cy_heap cy' = cy_heap cy" and "cy_itr cy' = cy_itr cy"
    and "cy_userFuncs cy' = cy_userFuncs cy"
  shows "seen i r n cy' (l\<lparr>l_request := cy_requests cy' r, l_protocol := cy_protocols cy' n\<rparr>)"
proof -
  have a: "alive i cy" and l: "local i r n cy = l" using assms(1) by (auto simp: seen_def)
  from alive_local_cong [OF a assms(2-6)] l show ?thesis
    unfolding seen_def local_def using assms(6-) by auto
qed

end
