(* ===== verification/Request_Flow.thy ===== *)
theory Request_Flow
  imports Byte_Flow
begin

text \<open>
  A request from its first byte to its last, on the local state of its connection: the loops are
  those of \<open>Byte_Flow\<close>, and the end of the request leaves the connection ready for the next one,
  or closed.
\<close>

section \<open>The end of a request\<close>

text \<open>
  A request of connection \<open>i\<close> with protocol object \<open>n\<close> of its own and without sub-requests, whose user
  destroys nothing the server looks at.
\<close>

definition quiet_destroy :: "world \<Rightarrow> nat option \<Rightarrow> bool" where
  "quiet_destroy w f \<longleftrightarrow> (case f of None \<Rightarrow> True | Some d \<Rightarrow> \<forall>r cy. \<exists>x. w_destroy w d r cy = Inr (x, cy))"

lemma call_quiet_destroy: "quiet_destroy w f \<Longrightarrow> call_destroy w r f cy = Inr cy"
  by (auto simp: quiet_destroy_def call_destroy_def split: option.splits) (metis (no_types, lifting) bindr_simps(2) case_prod_conv)

definition plain_request :: "world \<Rightarrow> nat \<Rightarrow> nat \<Rightarrow> CoRequest \<Rightarrow> bool" where
  "plain_request w i n q \<longleftrightarrow> rq_connection q = Some i \<and> rq_protocol q = Some n \<and> quiet_destroy w (rq_userDestroy q)
     \<and> ud_protocol (rq_userData q) = Some n \<and> ud_upstreamInfos (rq_userData q) = [] \<and> rq_flagNeedFreeProtocol q"

lemma plain_own: "\<lbrakk>l_request l = Some q; plain_request w i n q\<rbrakk> \<Longrightarrow> own i n l"
  by (simp add: own_def plain_request_def)

text \<open>The connection of a request that ended well, and the events it listens to.\<close>

definition idle :: "CoConnection \<Rightarrow> CoConnection" where
  "idle c = (core (reset_self True c))\<lparr>cn_handler := H_REQUEST_INIT\<rparr>"

definition idle_events :: "32 word \<Rightarrow> 32 word" where
  "idle_events ev = modify_events EPOLL_EVENTS_DEL CO_EVENT_OUT (modify_events EPOLL_EVENTS_ADD CO_EVENT_IN ev)"

lemma idle_fields:
  "cn_version (idle c) = cn_version c + 1" "cn_handler (idle c) = H_REQUEST_INIT" "cn_coTcp (idle c) = cn_coTcp c"
  "cn_coBuffer (idle c) = buffer_reset (cn_coBuffer c)" "cn_serverControl (idle c) = cn_serverControl c"
  "cn_request (idle c) = None" "cn_blockConn (idle c) = cn_blockConn c" "cn_handlerCleanups (idle c) = cn_handlerCleanups c"
  by (simp_all add: idle_def core_def reset_self_def Let_def)

lemma seen_delete_request:
  assumes "seen i r n cy l" and "l_request l = Some q" and "plain_request w i n q"
  shows "seen i r n (delete_request r cy) (l\<lparr>l_request := None, l_protocol := None\<rparr>)"
proof -
  have a: "alive i cy" and l: "local i r n cy = l" and r: "cy_requests cy r = Some q"
    using assms(1,2) seen_reads(4) [OF assms(1)] by (auto simp: seen_def)
  have d: "delete_request r cy = cy\<lparr>cy_protocols := (cy_protocols cy)(n := None), cy_requests := (cy_requests cy)(r := None)\<rparr>"
    using r assms(3) by (simp add: delete_request_def plain_request_def Let_def)
  have "alive i (delete_request r cy) \<and> conn i (delete_request r cy) = conn i cy \<and> fd_of i (delete_request r cy) = fd_of i cy"
    unfolding d by (rule alive_local_cong [OF a]) simp_all
  then show ?thesis using l unfolding seen_def d local_def by auto
qed

lemma seen_reset:
  assumes "seen i r n cy l" and "cn_blockConn (l_conn l) = Some (i + 1)"
  shows "seen i r n (cy\<lparr>cy_pool := connection_reset True i (cy_pool cy)\<rparr>) (l\<lparr>l_conn := core (reset_self True (l_conn l))\<rparr>)"
proof -
  let ?c = "cy\<lparr>cy_pool := connection_reset True i (cy_pool cy)\<rparr>"
  have a: "alive i cy" and l: "local i r n cy = l" using assms(1) by (auto simp: seen_def)
  have v: "valid_id i cy" using a by (simp add: alive_def)
  then have b: "cn_blockConn (conn i (upd_conn i (reset_self True) cy)) = Some (i + 1)"
    using seen_reads(13) [OF assms(1)] assms(2) by (simp add: reset_self_def Let_def)
  then have c: "conn i ?c = reset_self True (conn i cy)" using v
    by (simp add: conn_def connection_reset_def upd_conn_def reset_block_def get_map_conn_same get_map_conn_other valid_id_def)
  have f: "cn_coTcp (reset_self True k) = cn_coTcp k" "\<not> cn_flagDying (reset_self True k)" "cn_epollCurEvents (reset_self True k) = cn_epollCurEvents k"
    "cn_epollCurVersion (reset_self True k) = cn_epollCurVersion k" "cn_connId (reset_self True k) = cn_connId k"
    "cn_serverControl (reset_self True k) = cn_serverControl k" "core (reset_self True k) = core (reset_self True (core k))" for k
    by (simp_all add: reset_self_def core_def Let_def)
  have p: "pl_innerSockets (cy_pool ?c) = pl_innerSockets (cy_pool cy)" "valid_id i ?c" using v by (simp_all add: valid_id_def)
  have fd: "fd_of i ?c = fd_of i cy" unfolding fd_of_def c f by (rule refl)
  have "alive i ?c" using a p f(2) unfolding alive_def is_inner_socketfd_def fd c watched_def f(1-6) by (simp add: control_def)
  moreover have "local i r n ?c = l\<lparr>l_conn := core (reset_self True (l_conn l))\<rparr>"
    using l f(7) [of "conn i cy"] unfolding local_def fd c f(1-6) by auto
  ultimately show ?thesis by (simp add: seen_def)
qed

lemma keep_connection:
  assumes "seen i r n cy l" and "cn_blockConn (l_conn l) = Some (i + 1)"
  obtains cy' where "free_request_connection i CO_OK cy = Inr cy'"
    "seen i r n cy' (l\<lparr>l_conn := idle (l_conn l), l_events := idle_events (l_events l)\<rparr>)"
proof -
  let ?c0 = "drop_timer i EVENT_TYPE_READ (drop_timer i EVENT_TYPE_WRITE cy)"
  let ?c1 = "?c0\<lparr>cy_pool := connection_reset True i (cy_pool ?c0)\<rparr>"
  let ?l1 = "l\<lparr>l_conn := core (reset_self True (l_conn l))\<rparr>"
  have s1: "seen i r n ?c1 ?l1" using seen_reset [OF seen_steps(3) [OF seen_steps(3) [OF assms(1)]] assms(2)] .
  have nz1: "l_events ?l1 \<noteq> 0 \<or> modify_events EPOLL_EVENTS_ADD CO_EVENT_IN 0 \<noteq> 0" using add_events_nonzero event_bits(3) by simp
  obtain c2 where c2: "modify_connection i EPOLL_EVENTS_ADD CO_EVENT_IN ?c1 = (CO_OK, c2)"
    "seen i r n c2 (?l1\<lparr>l_events := modify_events EPOLL_EVENTS_ADD CO_EVENT_IN (l_events ?l1)\<rparr>)"
    by (rule seen_modify [OF s1 nz1])
  let ?l2 = "?l1\<lparr>l_events := modify_events EPOLL_EVENTS_ADD CO_EVENT_IN (l_events ?l1)\<rparr>"
  have nz: "l_events ?l2 \<noteq> 0 \<or> modify_events EPOLL_EVENTS_DEL CO_EVENT_OUT 0 \<noteq> 0" using add_events_nonzero event_bits(3) by simp
  obtain c3 where c3: "modify_connection i EPOLL_EVENTS_DEL CO_EVENT_OUT c2 = (CO_OK, c3)"
    "seen i r n c3 (?l2\<lparr>l_events := modify_events EPOLL_EVENTS_DEL CO_EVENT_OUT (l_events ?l2)\<rparr>)"
    by (rule seen_modify [OF c2(2) nz])
  have s4: "seen i r n (upd_conn i (\<lambda>c. c\<lparr>cn_handler := H_REQUEST_INIT\<rparr>) (set_timer i EVENT_TYPE_READ (cn_keepaliveTimeout (conn i c3)) c3))
    (l\<lparr>l_conn := idle (l_conn l), l_events := idle_events (l_events l)\<rparr>)"
    using seen_upd_conn [OF seen_steps(1) [OF c3(2)], of "\<lambda>c. c\<lparr>cn_handler := H_REQUEST_INIT\<rparr>"]
    by (simp add: idle_def idle_events_def core_def)
  show ?thesis using that [OF _ s4] c2(1) c3(1) by (simp add: free_request_connection_def Let_def)
qed

lemma control_upd_listen: "sc_listenConnection (control k (upd_control k (\<lambda>s. s\<lparr>sc_curConnectionSize := g s\<rparr>) cy)) = sc_listenConnection (control k cy)"
  by (cases "k < length (cy_serverControls cy)") (simp_all add: upd_control_def control_def list_update_beyond)

lemma func_cleanup_ok:
  assumes "cn_serverControl (conn i cy) = Some k" and "sc_listenConnection (control k cy) \<noteq> None"
  obtains cy' where "func_cleanup i cy = Inr cy'" "cy_wire cy' = cy_wire cy"
proof -
  have m: "\<exists>cy'. modify_listening k c = Inr cy' \<and> cy_wire cy' = cy_wire c" if "sc_listenConnection (control k c) \<noteq> None" for c
    using that wire_frame(2) by (auto simp: modify_listening_def Let_def upd_control_def)
  let ?c = "upd_control k (\<lambda>s. s\<lparr>sc_curConnectionSize := sc_curConnectionSize s - 1\<rparr>) cy"
  have "sc_listenConnection (control k ?c) \<noteq> None" using assms(2) control_upd_listen [of k "\<lambda>s. sc_curConnectionSize s - 1" cy] by metis
  from m [OF this] obtain c where "modify_listening k ?c = Inr c" "cy_wire c = cy_wire ?c" by blast
  moreover have "cy_wire ?c = cy_wire cy" by (simp add: upd_control_def)
  ultimately show ?thesis using that assms(1) by (simp add: func_cleanup_def)
qed

lemma free_connection_wire:
  assumes "valid_id i cy" and "cn_serverControl (conn i cy) = Some k" and "sc_listenConnection (control k cy) \<noteq> None"
    and "cn_handlerCleanups (conn i cy) = [H_SERVER_CLEANUP]"
  obtains cy' where "free_connection i cy = Inr cy'" "cy_wire cy' = cy_wire cy" "i \<in> set (pl_freeConnections (cy_pool cy'))"
proof -
  define c where "c = (if fd_of i cy > 0 then cy\<lparr>cy_interest := (cy_interest cy)(fd_of i cy := None)\<rparr> else cy)\<lparr>cy_pool := free_socket i (cy_pool cy)\<rparr>"
  have g: "get_connection_accord_id i (p\<lparr>pl_innerSockets := x\<rparr>) = get_connection_accord_id i p" for p x
    by (simp add: get_connection_accord_id_def)
  have f: "cn_serverControl (conn i c) = cn_serverControl (conn i cy)" "cn_handlerCleanups (conn i c) = cn_handlerCleanups (conn i cy)"
    "control k c = control k cy" "cy_wire c = cy_wire cy"
    using assms(1) by (auto simp: c_def free_socket_def Let_def conn_def control_def get_map_conn_same valid_id_def g)
  obtain c' where c': "func_cleanup i c = Inr c'" "cy_wire c' = cy_wire c"
    using func_cleanup_ok [of i c k] assms(2,3) f by metis
  have "free_connection i cy = Inr (c'\<lparr>cy_pool := free_finish i (cy_pool c')\<rparr>)"
  proof -
    have "free_connection i cy = bindr (run_cleanups (cn_handlerCleanups (conn i c)) i c) (\<lambda>cy. Inr (cy\<lparr>cy_pool := free_finish i (cy_pool cy)\<rparr>))"
      by (cases "0 < fd_of i cy") (simp_all add: free_connection_def c_def Let_def)
    then show ?thesis using c'(1) assms(4) f(2) by simp
  qed
  then show ?thesis using that c'(2) f(4) by (auto simp: free_finish_def Let_def)
qed

lemma close_connection:
  assumes "seen i r n cy l" and "ret \<noteq> CO_OK" and "cn_handlerCleanups (l_conn l) = [H_SERVER_CLEANUP]" and "cn_serverControl (l_conn l) \<noteq> None"
  obtains cy' where "free_request_connection i ret cy = Inr cy'" "cy_wire cy' (fd_of i cy) = l_wire l" "i \<in> set (pl_freeConnections (cy_pool cy'))"
proof -
  let ?c0 = "drop_timer i EVENT_TYPE_READ (drop_timer i EVENT_TYPE_WRITE cy)"
  have s0: "seen i r n ?c0 l" using assms(1) seen_steps(3) by blast
  have a0: "alive i ?c0" using s0 by (simp add: seen_def)
  have same: "same_objects ?c0 (snd (del_connection i ?c0))" by (rule same_objects_del)
  have "map ident (pl_connections (cy_pool (snd (del_connection i ?c0)))) = map ident (pl_connections (cy_pool ?c0))"
    using same by (simp add: same_objects_def pool_ident_def)
  from arg_cong [OF this, of length] have v: "valid_id i (snd (del_connection i ?c0))" using a0 by (simp add: alive_def valid_id_def)
  have id: "ident (conn i (snd (del_connection i ?c0))) = ident (conn i ?c0)"
    using same v unfolding conn_def by (intro ident_at) (auto simp: same_objects_def valid_id_def)
  obtain k where k: "cn_serverControl (conn i ?c0) = Some k" "sc_listenConnection (control k ?c0) \<noteq> None"
    using a0 assms(4) seen_reads(11) [OF s0] by (auto simp: alive_def)
  have cl: "cn_handlerCleanups (conn i ?c0) = [H_SERVER_CLEANUP]" using s0 assms(3) by (auto simp: seen_def local_def core_def)
  have e: "cn_serverControl (conn i (snd (del_connection i ?c0))) = Some k"
    "cn_handlerCleanups (conn i (snd (del_connection i ?c0))) = [H_SERVER_CLEANUP]"
    "control k (snd (del_connection i ?c0)) = control k ?c0"
    using id k(1) cl same by (auto simp: ident_def mark_def same_objects_def control_def)
  obtain cy' where c: "free_connection i (snd (del_connection i ?c0)) = Inr cy'" "cy_wire cy' = cy_wire cy" "i \<in> set (pl_freeConnections (cy_pool cy'))"
    using free_connection_wire [OF v e(1) _ e(2)] k(2) e(3) wire_frame by metis
  have "free_request_connection i ret cy = Inr cy'" using c(1) assms(2) by (simp add: free_request_connection_def Let_def)
  with that c(2,3) seen_reads(10) [OF assms(1)] show ?thesis by simp
qed

lemma finalize_steps:
  assumes "seen i r n cy l" and "l_request l = Some q" and "plain_request w i n q"
  shows "request_finalize w r ret cy = free_request_connection i ret (delete_request r cy)"
  using assms(2,3) seen_reads(4) [OF assms(1)]
  by (simp add: request_finalize_def request_of_def deref_def the_ref_def plain_request_def call_quiet_destroy)

lemma finalize_keeps:
  assumes "seen i r n cy l" and "l_request l = Some q" and "plain_request w i n q" and "cn_blockConn (l_conn l) = Some (i + 1)"
  obtains cy' where "request_finalize w r CO_OK cy = Inr cy'"
    "seen i r n cy' (l\<lparr>l_conn := idle (l_conn l), l_events := idle_events (l_events l), l_request := None, l_protocol := None\<rparr>)"
proof -
  obtain cy' where c: "free_request_connection i CO_OK (delete_request r cy) = Inr cy'"
    "seen i r n cy' (l\<lparr>l_request := None, l_protocol := None, l_conn := idle (l_conn l), l_events := idle_events (l_events l)\<rparr>)"
    using keep_connection [OF seen_delete_request [OF assms(1-3)]] assms(4) by auto
  show ?thesis using that [OF _ c(2) [simplified]] c(1) finalize_steps [OF assms(1-3)] by simp
qed

lemma finalize_closes:
  assumes "seen i r n cy l" and "l_request l = Some q" and "plain_request w i n q" and "ret \<noteq> CO_OK"
    and "cn_handlerCleanups (l_conn l) = [H_SERVER_CLEANUP]" and "cn_serverControl (l_conn l) \<noteq> None"
  obtains cy' where "request_finalize w r ret cy = Inr cy'" "cy_wire cy' (fd_of i cy) = l_wire l" "i \<in> set (pl_freeConnections (cy_pool cy'))"
proof -
  have s: "seen i r n (delete_request r cy) (l\<lparr>l_request := None, l_protocol := None\<rparr>)" by (rule seen_delete_request [OF assms(1-3)])
  have "fd_of i (delete_request r cy) = fd_of i cy" using seen_fd [OF s] seen_fd [OF assms(1)] by simp
  moreover obtain cy' where "free_request_connection i ret (delete_request r cy) = Inr cy'"
    "cy_wire cy' (fd_of i (delete_request r cy)) = l_wire l" "i \<in> set (pl_freeConnections (cy_pool cy'))"
    using close_connection [OF s assms(4)] assms(5,6) by auto
  ultimately show ?thesis using that finalize_steps [OF assms(1-3)] by simp
qed

section \<open>Writing the response\<close>

lemma encode_message_ok:
  assumes "seen i r n cy l" and "l_protocol l = Some (HttpServer p)" and "l_heap l = full_heap j" and "buf_inv (l_buf l)"
    and "length (response_text (l_itr l) (m_respMsg p)) \<le> buf_limit"
  obtains c b where "encode_message i (Some n) cy = Inr c" "buf_inv b" "contents b = response_text (l_itr l) (m_respMsg p)"
    "seen i r n c (put_buf b (l\<lparr>l_protocol := Some (HttpServer (p\<lparr>m_respMsg := server_headers (m_respMsg p)\<rparr>))\<rparr>))"
proof -
  let ?b = "if get_buffersize (buf_of i cy) > 0 then buffer_reset (buf_of i cy) else buf_of i cy"
  have "buf_inv ?b \<and> contents ?b = []"
    using bq.reset_ok [OF assms(4)] assms(4) length_contents [OF assms(4)] seen_reads(1) [OF assms(1)] by (auto simp: get_buffersize_def)
  then obtain b where b: "server_encode (l_itr l) (full_heap j) p ?b = Inr (CO_OK, p\<lparr>m_respMsg := server_headers (m_respMsg p)\<rparr>, b)"
    "buf_inv b" "contents b = response_text (l_itr l) (m_respMsg p)"
    using server_encode_ok [of ?b "l_itr l" p j] assms(5) by auto
  let ?c = "upd_protocol n (HttpServer (p\<lparr>m_respMsg := server_headers (m_respMsg p)\<rparr>)) (upd_buf i b cy)"
  have "encode_message i (Some n) cy = Inr ?c"
    using b(1) assms(2,3) seen_reads(2,3,5) [OF assms(1)]
    by (simp add: encode_message_def the_ref_def deref_def wrap_protocol_def Let_def)
  moreover have "seen i r n ?c (put_buf b (l\<lparr>l_protocol := Some (HttpServer (p\<lparr>m_respMsg := server_headers (m_respMsg p)\<rparr>))\<rparr>))"
    using seen_steps(7) [OF seen_steps(5) [OF assms(1), of b]] by simp
  ultimately show ?thesis using that b(2,3) by blast
qed

definition sent_events :: "32 word \<Rightarrow> 32 word" where
  "sent_events ev = modify_events EPOLL_EVENTS_DEL CO_EVENT_OUT (modify_events EPOLL_EVENTS_ADD CO_EVENT_OUT ev)"

lemma request_write_sends:
  assumes w: "patient w i r n" and s: "seen i r n cy l" and q: "l_request l = Some q" "plain_request w i n q"
    and p: "l_protocol l = Some (HttpServer p)" and h: "l_heap l = full_heap j" and b: "buf_inv (l_buf l)"
    and len: "length (response_text (l_itr l) (m_respMsg p)) \<le> buf_limit"
    and out: "l_out l = takings ks @ later" "\<forall>k\<in>set ks. 0 < snd k" "sum_list (map snd ks) = length (response_text (l_itr l) (m_respMsg p))"
  obtains c b q' where "request_write w r ret cy = request_finalize w r ret c" "plain_request w i n q'" "buf_inv b" "contents b = []"
    "seen i r n c (put_buf b (l\<lparr>l_events := sent_events (l_events l), l_out := later,
       l_wire := l_wire l @ response_text (l_itr l) (m_respMsg p), l_request := Some q',
       l_protocol := Some (HttpServer (p\<lparr>m_respMsg := server_headers (m_respMsg p)\<rparr>))\<rparr>))"
proof -
  let ?ev = "modify_events EPOLL_EVENTS_ADD CO_EVENT_OUT (l_events l)"
  let ?P = "Some (HttpServer (p\<lparr>m_respMsg := server_headers (m_respMsg p)\<rparr>))"
  let ?text = "response_text (l_itr l) (m_respMsg p)"
  have nz: "l_events l \<noteq> 0 \<or> modify_events EPOLL_EVENTS_ADD CO_EVENT_OUT 0 \<noteq> 0" using add_events_nonzero event_bits(2) by simp
  let ?t = "set_timer i EVENT_TYPE_WRITE (cn_socketSndTimeout (conn i cy)) cy"
  obtain c1 where c1: "modify_connection i EPOLL_EVENTS_ADD CO_EVENT_OUT ?t = (CO_OK, c1)" "seen i r n c1 (l\<lparr>l_events := ?ev\<rparr>)"
    by (rule seen_modify [OF seen_steps(1) [OF s] nz])
  have sel: "l_protocol (l\<lparr>l_events := ?ev\<rparr>) = Some (HttpServer p)" "l_heap (l\<lparr>l_events := ?ev\<rparr>) = full_heap j"
    "buf_inv (l_buf (l\<lparr>l_events := ?ev\<rparr>))" "length (response_text (l_itr (l\<lparr>l_events := ?ev\<rparr>)) (m_respMsg p)) \<le> buf_limit"
    using p h b len by simp_all
  obtain c2 b2 where c2: "encode_message i (Some n) c1 = Inr c2" "buf_inv b2" "contents b2 = ?text"
    "seen i r n c2 (put_buf b2 (l\<lparr>l_events := ?ev, l_protocol := ?P\<rparr>))"
    by (rule encode_message_ok [OF c1(2) sel]) auto
  let ?l2 = "put_buf b2 (l\<lparr>l_events := ?ev, l_protocol := ?P\<rparr>)"
  have o2: "l_out ?l2 = takings ks @ later" "buf_inv (l_buf ?l2)" "sum_list (map snd ks) = length (contents (l_buf ?l2))"
    using out c2(2,3) by simp_all
  obtain c3 b3 where c3: "write_loop w i c2 = Some (Inr (True, c3))" "buf_inv b3" "contents b3 = []"
    "seen i r n c3 (put_buf b3 (?l2\<lparr>l_out := later, l_wire := l_wire ?l2 @ contents (l_buf ?l2)\<rparr>))"
    using write_loop_ok [OF w c2(4) _ o2(1) out(2) o2(2,3)] plain_own [OF q] by simp blast
  let ?f = "\<lambda>q. q\<lparr>rq_writeUs := elapsed_us rq_startUs q c3\<rparr>"
  let ?c = "write_done i (tick (upd_request r ?f c3))"
  have "seen i r n (tick (upd_request r ?f c3)) (put_buf b3 (l\<lparr>l_events := ?ev, l_out := later, l_wire := l_wire l @ ?text,
      l_request := Some (?f q), l_protocol := ?P\<rparr>))"
    using seen_steps(4) [OF seen_steps(6) [OF c3(4), of ?f]] c2(3) q(1) by simp
  from seen_done(1) [OF this] have c: "seen i r n ?c (put_buf b3 (l\<lparr>l_events := sent_events (l_events l), l_out := later,
      l_wire := l_wire l @ ?text, l_request := Some (?f q), l_protocol := ?P\<rparr>))"
    using add_events_nonzero event_bits(2) by (simp add: sent_events_def)
  have "request_write w r ret cy = request_finalize w r ret ?c"
    using seen_reads(4) [OF s] q c1(1) c2(1) c3(1)
    by (simp add: request_write_def request_of_def deref_def the_ref_def plain_request_def looped_def Let_def)
  moreover have "plain_request w i n (?f q)" using q(2) by (simp add: plain_request_def)
  ultimately show ?thesis using that [OF _ _ c3(2,3) c] by blast
qed

section \<open>The start of a request\<close>

text \<open>
  What a user's function gets from \<open>m_protocol->get_reqmsg()\<close> and \<open>get_respmsg()\<close> when it casts them to the classes of HTTP: both
  sides of HTTP hold such messages; an object of another class is read outside of it.
\<close>

fun http_part :: "protocol \<Rightarrow> http_protocol res" where
  "http_part (HttpServer h) = Inr h"
| "http_part (HttpClient h) = Inr h"
| "http_part (TcpProtocol _) = Inl OutOfBounds"

fun with_http :: "http_protocol \<Rightarrow> protocol \<Rightarrow> protocol" where
  "with_http h (HttpServer _) = HttpServer h"
| "with_http h (HttpClient _) = HttpClient h"
| "with_http h (TcpProtocol p) = TcpProtocol p"

definition on_http :: "nat option \<Rightarrow> (http_protocol \<Rightarrow> http_protocol res) \<Rightarrow> CoCycle \<Rightarrow> CoCycle res" where
  "on_http n f cy =
     bindr (the_ref n)
       (\<lambda>n. bindr (deref (cy_protocols cy) (Some n))
          (\<lambda>p. bindr (http_part p)
             (\<lambda>h. bindr (f h) (\<lambda>h. Inr (upd_protocol n (with_http h p) cy)))))"

text \<open>
  A user's function that reads the request and fills in the response: \<open>f\<close> makes the response object from both.
  \<open>http_ready\<close> is a connection of a server with such a function that waits for a request.
\<close>

definition http_handler :: "(CoHTTPRequest \<Rightarrow> CoHTTPResponse \<Rightarrow> CoHTTPResponse res) \<Rightarrow> nat \<Rightarrow> CoCycle \<Rightarrow> (int \<times> CoCycle) res" where
  "http_handler f r cy =
     bindr (request_of r cy)
       (\<lambda>q. bindr (on_http (ud_protocol (rq_userData q))
               (\<lambda>h. bindr (f (m_reqMsg h) (m_respMsg h)) (\<lambda>m. Inr (h\<lparr>m_respMsg := m\<rparr>))) cy)
          (\<lambda>cy. Inr (CO_OK, cy)))"

definition http_ready :: "world \<Rightarrow> (CoHTTPRequest \<Rightarrow> CoHTTPResponse \<Rightarrow> CoHTTPResponse res) \<Rightarrow> nat \<Rightarrow> CoCycle \<Rightarrow> bool" where
  "http_ready w f i cy \<longleftrightarrow> alive i cy \<and> cn_blockConn (conn i cy) = Some (i + 1) \<and> cn_handlerCleanups (conn i cy) = [H_SERVER_CLEANUP]
     \<and> buf_inv (buf_of i cy) \<and> contents (buf_of i cy) = [] \<and> (\<exists>j. cy_heap cy = full_heap j)
     \<and> (\<exists>k u pf. cn_serverControl (conn i cy) = Some k \<and> k < length (cy_serverControls cy)
          \<and> sv_serverType (sc_confServer (control k cy)) = PROTOCOL_HTTP_SERVER
          \<and> sc_userFuncs (control k cy) = Some u \<and> uf_userProcess (snd (cy_userFuncs cy ! u)) = Some pf
          \<and> quiet_destroy w (uf_userDestroy (snd (cy_userFuncs cy ! u))) \<and> w_process w pf = http_handler f)"

text \<open>It shows in the local state.\<close>

definition ready_local :: "world \<Rightarrow> (CoHTTPRequest \<Rightarrow> CoHTTPResponse \<Rightarrow> CoHTTPResponse res) \<Rightarrow> nat \<Rightarrow> local_state \<Rightarrow> bool" where
  "ready_local w f i l \<longleftrightarrow> cn_blockConn (l_conn l) = Some (i + 1) \<and> cn_handlerCleanups (l_conn l) = [H_SERVER_CLEANUP]
     \<and> buf_inv (l_buf l) \<and> contents (l_buf l) = [] \<and> (\<exists>j. l_heap l = full_heap j)
     \<and> (\<exists>k u pf. cn_serverControl (l_conn l) = Some k \<and> k < length (fst (l_servers l))
          \<and> sv_serverType (fst (fst (l_servers l) ! k)) = PROTOCOL_HTTP_SERVER \<and> snd (fst (l_servers l) ! k) = Some u
          \<and> uf_userProcess (snd (snd (l_servers l) ! u)) = Some pf \<and> quiet_destroy w (uf_userDestroy (snd (snd (l_servers l) ! u)))
          \<and> w_process w pf = http_handler f)"

lemma http_ready_local: "http_ready w f i cy \<longleftrightarrow> alive i cy \<and> ready_local w f i (local i r n cy)"
  by (auto simp: http_ready_def ready_local_def local_def control_def buf_of_def core_def)

lemma request_started:
  assumes s: "seen i r n cy l" and rn: "r = cy_nextObject cy" "n = r + 1" and k: "cn_serverControl (l_conn l) = Some k"
    and u: "sc_userFuncs (control k cy) = Some u" "uf_userProcess (snd (cy_userFuncs cy ! u)) = Some pf"
      "quiet_destroy w (uf_userDestroy (snd (cy_userFuncs cy ! u)))"
  obtains c q where "co_request_init r i PROTOCOL_HTTP_SERVER None (snd (new_request_object CO_REQUEST_NORMAL cy)) = Inr (CO_OK, c)"
    "plain_request w i n q" "rq_userProcess q = Some pf"
    "seen i r n c (l\<lparr>l_conn := (l_conn l)\<lparr>cn_request := Some r, cn_requestCount := cn_requestCount (l_conn l) + 1\<rparr>,
       l_request := Some q, l_protocol := Some (HttpServer (set_clientip (tc_ip (cn_coTcp (l_conn l))) new_http_protocol))\<rparr>)"
proof -
  let ?f = "\<lambda>c::CoConnection. c\<lparr>cn_request := Some r, cn_requestCount := cn_requestCount c + 1\<rparr>"
  let ?p = "HttpServer (set_clientip (tc_ip (cn_coTcp (l_conn l))) new_http_protocol)"
  let ?l1 = "l\<lparr>l_conn := ?f (l_conn l)\<rparr>"
  let ?c1 = "upd_conn i ?f (snd (new_request_object CO_REQUEST_NORMAL cy))"
  let ?c2 = "upd_request r (\<lambda>q. q\<lparr>rq_flagNeedFreeProtocol := True\<rparr>) ?c1"
  let ?c3 = "snd (new_protocol_object (HttpServer new_http_protocol) ?c2)"
  let ?c4 = "tick (upd_protocol n ?p ?c3)"
  have s0: "seen i r n (snd (new_request_object CO_REQUEST_NORMAL cy)) (l\<lparr>l_request := Some (new_co_request CO_REQUEST_NORMAL),
      l_protocol := l_protocol l\<rparr>)"
    using seen_cong [OF s, of "snd (new_request_object CO_REQUEST_NORMAL cy)"] rn(1) seen_reads(5) [OF s]
    by (simp add: new_request_object_def new_object_def)
  have s1: "seen i r n ?c1 (?l1\<lparr>l_request := Some (new_co_request CO_REQUEST_NORMAL)\<rparr>)"
    using seen_upd_conn [OF s0, of ?f] by (simp add: core_def)
  let ?q2 = "(new_co_request CO_REQUEST_NORMAL)\<lparr>rq_flagNeedFreeProtocol := True\<rparr>"
  have s2: "seen i r n ?c2 (?l1\<lparr>l_request := Some ?q2\<rparr>)"
    using seen_steps(6) [OF s1, of "\<lambda>q. q\<lparr>rq_flagNeedFreeProtocol := True\<rparr>"] by simp
  have nx: "cy_nextObject ?c2 = n" using rn by (simp add: upd_request_def upd_conn_def new_request_object_def new_object_def)
  have "seen i r n ?c3 (?l1\<lparr>l_request := Some ?q2, l_protocol := Some (HttpServer new_http_protocol)\<rparr>)"
    using seen_cong [OF s2, of ?c3] nx seen_reads(4) [OF s2] by (simp add: new_protocol_object_def new_object_def)
  note s3 = this
  have s4: "seen i r n ?c4 (?l1\<lparr>l_request := Some ?q2, l_protocol := Some ?p\<rparr>)"
    using seen_steps(4) [OF seen_steps(7) [OF s3, of ?p]] by simp
  let ?id = "(cy_requestId ?c4 + 1) mod u64_mod"
  let ?c5 = "?c4\<lparr>cy_requestId := ?id\<rparr>"
  have s5: "seen i r n ?c5 (?l1\<lparr>l_request := Some ?q2, l_protocol := Some ?p\<rparr>)"
    using seen_cong [OF s4, of ?c5] seen_reads(4,5) [OF s4] by simp
  let ?g = "\<lambda>q. q\<lparr>rq_connection := Some i, rq_protocol := Some n, rq_startUs := now_us (upd_protocol n ?p ?c3),
    rq_requestId := ?id mod 4294967296, rq_count := rq_count q + 1,
    rq_userData := new_user_data\<lparr>ud_protocol := Some n, ud_coroutineData := (i, cn_version (conn i ?c5))\<rparr>\<rparr>"
  let ?h = "\<lambda>q. q\<lparr>rq_userProcess := Some pf, rq_userDestroy := uf_userDestroy (snd (cy_userFuncs cy ! u)),
    rq_userData := (rq_userData q)\<lparr>ud_userData := uf_userData (snd (cy_userFuncs cy ! u))\<rparr>\<rparr>"
  let ?c6 = "upd_request r ?g ?c5"
  have s6: "seen i r n ?c6 (?l1\<lparr>l_request := Some (?g ?q2), l_protocol := Some ?p\<rparr>)"
    using seen_steps(6) [OF s5, of ?g] by simp
  have s7: "seen i r n (upd_request r ?h ?c6) (?l1\<lparr>l_request := Some (?h (?g ?q2)), l_protocol := Some ?p\<rparr>)"
    using seen_steps(6) [OF s6, of ?h] by simp
  have ip: "tc_ip (cn_coTcp (conn i ?c3)) = tc_ip (cn_coTcp (l_conn l))" using seen_reads(6) [OF s3] by simp
  have frame: "cy_serverControls ?c6 = cy_serverControls cy" "cy_userFuncs ?c6 = cy_userFuncs cy"
    by (simp_all add: upd_request_def upd_conn_def upd_protocol_def tick_def new_request_object_def new_protocol_object_def new_object_def)
  have fs: "server_funcs k ?c6 = Inr (snd (cy_userFuncs cy ! u))"
    unfolding server_funcs_def control_def frame using u(1) by (simp add: control_def)
  have fst: "fst (new_protocol_object (HttpServer new_http_protocol) ?c2) = n" using nx by (simp add: new_protocol_object_def new_object_def)
  have d3: "deref (cy_protocols ?c3) (Some n) = Inr (HttpServer new_http_protocol)" using seen_reads(5) [OF s3] by (simp add: deref_def)
  have sc: "cn_serverControl (conn i ?c6) = Some k" using seen_reads(11) [OF s6] k by simp
  have "request_start r i n ?c3 = Inr (CO_OK, upd_request r ?h ?c6)"
    unfolding request_start_def d3 bindr_simps Let_def ip protocol_set_clientip.simps sc option.case fs u(2) by simp
  moreover have create: "create_protocol PROTOCOL_HTTP_SERVER = Some (HttpServer new_http_protocol)"
    by (simp add: create_protocol_def config_constants)
  have "co_request_init r i PROTOCOL_HTTP_SERVER None (snd (new_request_object CO_REQUEST_NORMAL cy)) = request_start r i n ?c3"
    unfolding co_request_init_def Let_def option.case create case_prod_beta fst by (rule refl)
  ultimately have "co_request_init r i PROTOCOL_HTTP_SERVER None (snd (new_request_object CO_REQUEST_NORMAL cy)) = Inr (CO_OK, upd_request r ?h ?c6)"
    by (rule trans [rotated])
  then show ?thesis using that [OF _ _ _ s7] u(3) by (simp add: plain_request_def new_co_request_def new_user_data_def)
qed

section \<open>From the first byte to the last\<close>

definition read_events :: "32 word \<Rightarrow> 32 word" where
  "read_events ev = modify_events EPOLL_EVENTS_DEL CO_EVENT_IN (modify_events EPOLL_EVENTS_ADD CO_EVENT_READ ev)"

lemma request_read_runs:
  assumes w: "patient w i r n" and s: "seen i r n cy l" and q: "l_request l = Some q" "plain_request w i n q"
    and p: "l_protocol l = Some (HttpServer p)" and h: "l_heap l = full_heap j" and b: "buf_inv (l_buf l)" "contents (l_buf l) = []"
    and x: "l_in l = arrivals xs @ later" "\<forall>x\<in>set xs. snd x \<noteq> [] \<and> length (snd x) \<le> 4096" "4096 * length xs \<le> buf_limit"
    and f: "feed server_parse (m_reqMsg p) [] (map snd xs) = Inr (ret, m, rest)" "ret \<noteq> CO_AGAIN"
  obtains c bf ys zs q' where "request_read w r cy = (if ret \<noteq> CO_OK then request_write w r CO_ERROR c else request_process w r c)"
    "buf_inv bf" "xs = ys @ zs" "ys \<noteq> []" "plain_request w i n q'" "rq_userProcess q' = rq_userProcess q"
    "feed server_parse (m_reqMsg p) [] (map snd ys) = Inr (ret, m, contents bf)"
    "seen i r n c (put_buf bf (l\<lparr>l_events := read_events (l_events l), l_in := arrivals zs @ later, l_request := Some q',
       l_protocol := Some (HttpServer (p\<lparr>m_reqMsg := m\<rparr>))\<rparr>))"
proof -
  let ?ev = "modify_events EPOLL_EVENTS_ADD CO_EVENT_READ (l_events l)"
  have nz: "l_events l \<noteq> 0 \<or> modify_events EPOLL_EVENTS_ADD CO_EVENT_READ 0 \<noteq> 0" using add_events_nonzero event_bits(1) by simp
  let ?t = "set_timer i EVENT_TYPE_READ (cn_socketRcvTimeout (conn i cy)) cy"
  let ?P = "Some (HttpServer (p\<lparr>m_reqMsg := m\<rparr>))"
  obtain c1 where c1: "modify_connection i EPOLL_EVENTS_ADD CO_EVENT_READ ?t = (CO_OK, c1)" "seen i r n c1 (l\<lparr>l_events := ?ev\<rparr>)"
    by (rule seen_modify [OF seen_steps(1) [OF s] nz])
  have sel: "l_in (l\<lparr>l_events := ?ev\<rparr>) = arrivals xs @ later" "l_heap (l\<lparr>l_events := ?ev\<rparr>) = full_heap j" "buf_inv (l_buf (l\<lparr>l_events := ?ev\<rparr>))"
    "length (contents (l_buf (l\<lparr>l_events := ?ev\<rparr>))) + 4096 * length xs \<le> buf_limit" "l_protocol (l\<lparr>l_events := ?ev\<rparr>) = Some (HttpServer (p\<lparr>m_reqMsg := m_reqMsg p\<rparr>))"
    "feed server_parse (m_reqMsg p) (contents (l_buf (l\<lparr>l_events := ?ev\<rparr>))) (map snd xs) = Inr (ret, m, rest)"
    using x h b p f by simp_all
  obtain c2 bf ys zs where c2: "read_loop w i n c1 = Some (Inr (ret, c2))" "buf_inv bf" "xs = ys @ zs" "ys \<noteq> []"
    "seen i r n c2 (put_buf bf (l\<lparr>l_events := ?ev, l_in := arrivals zs @ later, l_protocol := ?P\<rparr>))"
    "feed server_parse (m_reqMsg p) (contents (l_buf (l\<lparr>l_events := ?ev\<rparr>))) (map snd ys) = Inr (ret, m, contents bf)"
    using srv_stream.read_loop_ok [OF w c1(2) _ sel(1) x(2) sel(2-6) f(2)] plain_own [OF q] by simp blast
  then have fy: "feed server_parse (m_reqMsg p) [] (map snd ys) = Inr (ret, m, contents bf)" using b(2) by simp
  let ?f = "\<lambda>q. q\<lparr>rq_readUs := elapsed_us rq_startUs q c2\<rparr>"
  let ?q = "if ret = CO_OK then ?f q else q"
  let ?l3 = "put_buf bf (l\<lparr>l_events := ?ev, l_in := arrivals zs @ later, l_request := Some ?q, l_protocol := ?P\<rparr>)"
  have "seen i r n (read_time r ret c2) ?l3"
  proof (cases "ret = CO_OK")
    case True
    then show ?thesis using seen_steps(4) [OF seen_steps(6) [OF c2(5), of ?f]] q(1) by (simp add: read_time_def)
  next
    case False
    have e: "l = l\<lparr>l_request := Some q\<rparr>" using q(1) by (cases l) simp
    have "put_buf bf (l\<lparr>l_events := ?ev, l_in := arrivals zs @ later, l_protocol := ?P\<rparr>) = ?l3"
      using False by (subst e) simp
    then show ?thesis using c2(5) False unfolding read_time_def by (simp only: if_False)
  qed
  from seen_done(2) [OF this] have c: "seen i r n (read_done i (read_time r ret c2)) (put_buf bf (l\<lparr>l_events := read_events (l_events l),
      l_in := arrivals zs @ later, l_request := Some ?q, l_protocol := ?P\<rparr>))"
    using add_events_nonzero event_bits(1) by (simp add: read_events_def)
  have "request_read w r cy = (if ret \<noteq> CO_OK then request_write w r CO_ERROR (read_done i (read_time r ret c2))
      else request_process w r (read_done i (read_time r ret c2)))"
    using seen_reads(4) [OF s] q c1(1) c2(1)
    by (simp add: request_read_def request_of_def deref_def the_ref_def plain_request_def looped_def Let_def)
  moreover have "plain_request w i n ?q" "rq_userProcess ?q = rq_userProcess q" using q(2) by (simp_all add: plain_request_def)
  ultimately show ?thesis using that [OF _ c2(2-4) _ _ fy c] by blast
qed

lemma request_process_runs:
  assumes s: "seen i r n cy l" and q: "l_request l = Some q" "plain_request w i n q" "rq_userProcess q = Some pf"
    and p: "l_protocol l = Some (HttpServer p)" and w: "w_process w pf = http_handler f" and f: "f (m_reqMsg p) (m_respMsg p) = Inr resp"
  obtains c q' where "request_process w r cy = request_write w r CO_OK c" "plain_request w i n q'"
    "seen i r n c (l\<lparr>l_request := Some q', l_protocol := Some (HttpServer (p\<lparr>m_respMsg := resp\<rparr>))\<rparr>)"
proof -
  let ?t = "set_timer i EVENT_TYPE_READ (cn_keepaliveTimeout (conn i cy)) cy"
  let ?p = "HttpServer (p\<lparr>m_respMsg := resp\<rparr>)"
  let ?c1 = "upd_protocol n ?p ?t"
  let ?f = "\<lambda>q. q\<lparr>rq_processUs := elapsed_us rq_startUs q ?c1\<rparr>"
  let ?c = "unset_timer i EVENT_TYPE_READ (tick (upd_request r ?f ?c1))"
  note st = seen_steps(1) [OF s]
  have h: "http_handler f r ?t = Inr (CO_OK, ?c1)"
    using q p f seen_reads(4,5) [OF st] by (simp add: http_handler_def on_http_def request_of_def deref_def the_ref_def plain_request_def)
  have "request_process w r cy = request_write w r CO_OK ?c"
    using q w seen_reads(4) [OF s] h by (simp add: request_process_def request_of_def deref_def the_ref_def plain_request_def call_process_def Let_def)
  moreover have "seen i r n ?c (l\<lparr>l_request := Some (?f q), l_protocol := Some ?p\<rparr>)"
    using seen_steps(2) [OF seen_steps(4) [OF seen_steps(6) [OF seen_steps(7) [OF st, of ?p], of ?f]]] q(1) by simp
  moreover have "plain_request w i n (?f q)" using q(2) by (simp add: plain_request_def)
  ultimately show ?thesis using that by blast
qed

text \<open>The start on a connection that is ready.\<close>

lemma request_init_starts:
  assumes ready: "http_ready w f i cy" and rn: "r = cy_nextObject cy" "n = r + 1"
  obtains c q pf where "request_init w i cy = request_read w r c" "plain_request w i n q" "rq_userProcess q = Some pf" "w_process w pf = http_handler f"
    "seen i r n c ((local i r n cy)\<lparr>l_conn := (core (conn i cy))\<lparr>cn_request := Some r, cn_requestCount := cn_requestCount (conn i cy) + 1\<rparr>,
       l_request := Some q, l_protocol := Some (HttpServer (set_clientip (tc_ip (cn_coTcp (conn i cy))) new_http_protocol))\<rparr>)"
proof -
  let ?c0 = "drop_timer i EVENT_TYPE_READ cy" and ?l = "local i r n cy"
  obtain k u pf where k: "cn_serverControl (conn i cy) = Some k" "sv_serverType (sc_confServer (control k cy)) = PROTOCOL_HTTP_SERVER"
    "sc_userFuncs (control k cy) = Some u" "uf_userProcess (snd (cy_userFuncs cy ! u)) = Some pf"
    "quiet_destroy w (uf_userDestroy (snd (cy_userFuncs cy ! u)))" "w_process w pf = http_handler f"
    using ready by (auto simp: http_ready_def)
  have same: "cy_nextObject ?c0 = cy_nextObject cy" "control k ?c0 = control k cy" "cy_userFuncs ?c0 = cy_userFuncs cy"
    using same_objects_timer(2) [of cy i EVENT_TYPE_READ] by (simp_all add: drop_timer_def same_objects_def control_def)
  have "seen i r n cy ?l" using ready by (simp add: seen_def http_ready_def)
  then have s0: "seen i r n ?c0 ?l" by (rule seen_steps(3))
  have lc: "l_conn ?l = core (conn i cy)" by (simp add: local_def)
  have k': "cn_serverControl (l_conn ?l) = Some k" using k(1) lc by simp
  obtain c q where c: "co_request_init r i PROTOCOL_HTTP_SERVER None (snd (new_request_object CO_REQUEST_NORMAL ?c0)) = Inr (CO_OK, c)"
    "plain_request w i n q" "rq_userProcess q = Some pf"
    "seen i r n c (?l\<lparr>l_conn := (l_conn ?l)\<lparr>cn_request := Some r, cn_requestCount := cn_requestCount (l_conn ?l) + 1\<rparr>,
       l_request := Some q, l_protocol := Some (HttpServer (set_clientip (tc_ip (cn_coTcp (l_conn ?l))) new_http_protocol))\<rparr>)"
    using request_started [OF s0 _ rn(2) k', of u pf] k(3-5) same rn(1) by metis
  have r: "fst (new_request_object CO_REQUEST_NORMAL ?c0) = r" using same(1) rn(1) by (simp add: new_request_object_def new_object_def)
  have kc: "cn_serverControl (conn i (snd (new_request_object CO_REQUEST_NORMAL ?c0))) = Some k"
    "control k (snd (new_request_object CO_REQUEST_NORMAL ?c0)) = control k cy"
    using seen_reads(11) [OF s0] k' same(2) by (simp_all add: new_request_object_def new_object_def conn_def control_def)
  have "request_init w i cy = request_read w r c"
    unfolding request_init_def Let_def case_prod_beta r kc option.case k(2) c(1) by simp
  moreover have "cn_requestCount (core (conn i cy)) = cn_requestCount (conn i cy)" by (simp add: core_def)
  ultimately show ?thesis using that [OF _ c(2,3) k(6)] c(4) lc by simp
qed

text \<open>Up to the end of the read loop, and from the write loop on; \<open>opened\<close> is the connection with its request.\<close>

definition opened :: "nat \<Rightarrow> CoConnection \<Rightarrow> CoConnection" where
  "opened r c = (core c)\<lparr>cn_request := Some r, cn_requestCount := cn_requestCount c + 1\<rparr>"

definition fresh_http :: "CoConnection \<Rightarrow> http_protocol" where
  "fresh_http c = set_clientip (tc_ip (cn_coTcp c)) new_http_protocol"

lemma fresh_http_messages: "m_reqMsg (fresh_http c) = new_request" "m_respMsg (fresh_http c) = new_response"
  by (simp_all add: fresh_http_def set_clientip_def new_http_protocol_def)

lemma opened_fields:
  "cn_blockConn (opened r c) = cn_blockConn c" "cn_handlerCleanups (opened r c) = cn_handlerCleanups c"
  "cn_serverControl (opened r c) = cn_serverControl c"
  by (simp_all add: opened_def core_def)

lemma request_init_reads:
  assumes "http_ready w f i cy" and w: "patient w i r n" and rn: "r = cy_nextObject cy" "n = r + 1"
    and x: "cy_in cy (fd_of i cy) = arrivals xs @ later" "\<forall>x\<in>set xs. snd x \<noteq> [] \<and> length (snd x) \<le> 4096" "4096 * length xs \<le> buf_limit"
    and f: "feed server_parse new_request [] (map snd xs) = Inr (ret, m, rest)" "ret \<noteq> CO_AGAIN"
  obtains c b ys zs q pf where "request_init w i cy = (if ret \<noteq> CO_OK then request_write w r CO_ERROR c else request_process w r c)"
    "buf_inv b" "xs = ys @ zs" "ys \<noteq> []" "plain_request w i n q" "rq_userProcess q = Some pf" "w_process w pf = http_handler f"
    "feed server_parse new_request [] (map snd ys) = Inr (ret, m, contents b)"
    "seen i r n c ((local i r n cy)\<lparr>l_conn := (opened r (conn i cy))\<lparr>cn_coBuffer := b\<rparr>, l_events := read_events (cn_epollCurEvents (conn i cy)),
       l_in := arrivals zs @ later, l_request := Some q, l_protocol := Some (HttpServer ((fresh_http (conn i cy))\<lparr>m_reqMsg := m\<rparr>))\<rparr>)"
proof -
  let ?l = "local i r n cy" and ?p = "fresh_http (conn i cy)"
  obtain j where j: "cy_heap cy = full_heap j" "buf_inv (cn_coBuffer (conn i cy))" "contents (cn_coBuffer (conn i cy)) = []"
    using assms(1) by (auto simp: http_ready_def buf_of_def)
  obtain c q pf where c: "request_init w i cy = request_read w r c" "plain_request w i n q" "rq_userProcess q = Some pf"
    "w_process w pf = http_handler f"
    "seen i r n c (?l\<lparr>l_conn := opened r (conn i cy), l_request := Some q, l_protocol := Some (HttpServer ?p)\<rparr>)"
    unfolding opened_def fresh_http_def by (rule request_init_starts [OF assms(1) rn])
  let ?L = "?l\<lparr>l_conn := opened r (conn i cy), l_request := Some q, l_protocol := Some (HttpServer ?p)\<rparr>"
  have sel: "l_request ?L = Some q" "l_protocol ?L = Some (HttpServer ?p)" "l_heap ?L = full_heap j" "buf_inv (l_buf ?L)"
    "contents (l_buf ?L) = []" "l_in ?L = arrivals xs @ later" "feed server_parse (m_reqMsg ?p) [] (map snd xs) = Inr (ret, m, rest)"
    using x(1) j f(1) fresh_http_messages by (simp_all add: local_def opened_def)
  have ev: "l_events ?L = cn_epollCurEvents (conn i cy)" by (simp add: local_def)
  obtain c2 b ys zs q2 where "request_read w r c = (if ret \<noteq> CO_OK then request_write w r CO_ERROR c2 else request_process w r c2)"
    "buf_inv b" "xs = ys @ zs" "ys \<noteq> []" "plain_request w i n q2" "rq_userProcess q2 = rq_userProcess q"
    "feed server_parse (m_reqMsg ?p) [] (map snd ys) = Inr (ret, m, contents b)" "seen i r n c2 (put_buf b (?L\<lparr>l_events := read_events (l_events ?L), l_in := arrivals zs @ later, l_request := Some q2,
       l_protocol := Some (HttpServer (?p\<lparr>m_reqMsg := m\<rparr>))\<rparr>))"
    by (rule request_read_runs [OF w c(5) sel(1) c(2) sel(2-6) x(2,3) sel(7) f(2)])
  then show ?thesis using that [of c2 b ys zs q2 pf] c(1,3,4) ev fresh_http_messages by simp
qed

lemma idle_events_in: "idle_events ev AND CO_EVENT_IN = CO_EVENT_IN"
proof -
  have "NOT CO_EVENT_OUT AND CO_EVENT_IN = CO_EVENT_IN" by (simp add: CO_EVENT_OUT_def CO_EVENT_IN_def epoll_bits)
  then have "idle_events ev AND CO_EVENT_IN = (ev OR CO_EVENT_IN) AND CO_EVENT_IN"
    by (simp add: idle_events_def modify_events_def and.assoc)
  then show ?thesis by (simp add: word_ao_absorbs)
qed

text \<open>From the first byte of the request to the wait for the next one.\<close>

lemma request_comes_and_goes:
  assumes "http_ready w f i cy" and "patient w i (cy_nextObject cy) (cy_nextObject cy + 1)"
    and "cy_in cy (fd_of i cy) = arrivals xs @ later" and "\<forall>x\<in>set xs. snd x \<noteq> [] \<and> length (snd x) \<le> 4096"
    and "4096 * length xs \<le> buf_limit" and "feed server_parse new_request [] (map snd xs) = Inr (CO_OK, m, rest)"
    and "f m new_response = Inr resp" and "length (response_text (cy_itr cy) resp) \<le> buf_limit"
    and "cy_out cy (fd_of i cy) = takings ks @ out" and "\<forall>k\<in>set ks. 0 < snd k"
    and "sum_list (map snd ks) = length (response_text (cy_itr cy) resp)"
  shows "\<exists>cy' ys zs. request_init w i cy = Inr cy' \<and> xs = ys @ zs \<and> ys \<noteq> []
    \<and> cy_wire cy' (fd_of i cy') = cy_wire cy (fd_of i cy) @ response_text (cy_itr cy) resp
    \<and> cy_in cy' (fd_of i cy') = arrivals zs @ later \<and> cy_out cy' (fd_of i cy') = out
    \<and> (\<exists>rest'. feed server_parse new_request [] (map snd ys) = Inr (CO_OK, m, rest'))
    \<and> http_ready w f i cy' \<and> fd_of i cy' = fd_of i cy \<and> cn_handler (conn i cy') = H_REQUEST_INIT
    \<and> cn_epollCurEvents (conn i cy') AND CO_EVENT_IN = CO_EVENT_IN \<and> cn_version (conn i cy') = cn_version (conn i cy) + 1
    \<and> cy_requests cy' (cy_nextObject cy) = None \<and> cy_protocols cy' (cy_nextObject cy + 1) = None \<and> cy_itr cy' = cy_itr cy"
proof -
  define r where "r = cy_nextObject cy"
  define n where "n = r + 1"
  let ?l = "local i r n cy" and ?p = "fresh_http (conn i cy)" and ?c1 = "opened r (conn i cy)"
  let ?ev = "read_events (cn_epollCurEvents (conn i cy))"
  have w: "patient w i r n" using assms(2) by (simp add: r_def n_def)
  obtain j where j: "cy_heap cy = full_heap j" "cn_blockConn (conn i cy) = Some (i + 1)" using assms(1) by (auto simp: http_ready_def)
  have lf: "l_heap ?l = full_heap j" "l_out ?l = takings ks @ out" "l_itr ?l = cy_itr cy" "l_wire ?l = cy_wire cy (fd_of i cy)"
    using j(1) assms(9) by (simp_all add: local_def)
  obtain c2 bf ys zs q2 pf' where c2: "request_init w i cy = (if CO_OK \<noteq> CO_OK then request_write w r CO_ERROR c2 else request_process w r c2)"
    "buf_inv bf" "xs = ys @ zs" "ys \<noteq> []" "plain_request w i n q2" "rq_userProcess q2 = Some pf'" "w_process w pf' = http_handler f"
    "feed server_parse new_request [] (map snd ys) = Inr (CO_OK, m, contents bf)"
    "seen i r n c2 (?l\<lparr>l_conn := ?c1\<lparr>cn_coBuffer := bf\<rparr>, l_events := ?ev, l_in := arrivals zs @ later,
       l_request := Some q2, l_protocol := Some (HttpServer (?p\<lparr>m_reqMsg := m\<rparr>))\<rparr>)"
    by (rule request_init_reads [OF assms(1) w r_def n_def assms(3-6)]) (auto simp: CO_AGAIN_def CO_OK_def)
  obtain c3 q3 where c3: "request_process w r c2 = request_write w r CO_OK c3" "plain_request w i n q3"
    "seen i r n c3 (?l\<lparr>l_conn := ?c1\<lparr>cn_coBuffer := bf\<rparr>, l_events := ?ev, l_in := arrivals zs @ later,
       l_request := Some q3, l_protocol := Some (HttpServer (?p\<lparr>m_reqMsg := m, m_respMsg := resp\<rparr>))\<rparr>)"
    using request_process_runs [OF c2(9) _ c2(5,6) _ c2(7), of "?p\<lparr>m_reqMsg := m\<rparr>" resp] assms(7) fresh_http_messages by auto
  obtain c4 b4 q4 p4 where c4: "request_write w r CO_OK c3 = request_finalize w r CO_OK c4" "plain_request w i n q4" "buf_inv b4" "contents b4 = []"
    "seen i r n c4 (?l\<lparr>l_conn := ?c1\<lparr>cn_coBuffer := b4\<rparr>, l_events := sent_events (?ev), l_in := arrivals zs @ later,
       l_out := out, l_wire := l_wire ?l @ response_text (cy_itr cy) resp, l_request := Some q4, l_protocol := Some p4\<rparr>)"
  proof -
    let ?p3 = "?p\<lparr>m_reqMsg := m, m_respMsg := resp\<rparr>"
    let ?L = "?l\<lparr>l_conn := ?c1\<lparr>cn_coBuffer := bf\<rparr>, l_events := ?ev, l_in := arrivals zs @ later,
      l_request := Some q3, l_protocol := Some (HttpServer ?p3)\<rparr>"
    have sel: "l_request ?L = Some q3" "l_protocol ?L = Some (HttpServer ?p3)" "l_heap ?L = full_heap j" "buf_inv (l_buf ?L)"
      "length (response_text (l_itr ?L) (m_respMsg ?p3)) \<le> buf_limit" "l_out ?L = takings ks @ out"
      "sum_list (map snd ks) = length (response_text (l_itr ?L) (m_respMsg ?p3))"
      using lf c2(2) assms(8,11) by simp_all
    obtain c4 b4 q4 where "request_write w r CO_OK c3 = request_finalize w r CO_OK c4" "plain_request w i n q4" "buf_inv b4" "contents b4 = []"
      "seen i r n c4 (put_buf b4 (?L\<lparr>l_events := sent_events (l_events ?L), l_out := out,
         l_wire := l_wire ?L @ response_text (l_itr ?L) (m_respMsg ?p3), l_request := Some q4,
         l_protocol := Some (HttpServer (?p3\<lparr>m_respMsg := server_headers (m_respMsg ?p3)\<rparr>))\<rparr>))"
      by (rule request_write_sends [OF w c3(3) sel(1) c3(2) sel(2-6) assms(10) sel(7)])
    then show ?thesis using that [of c4 q4 b4] lf(3) by simp
  qed
  obtain cy' where e: "request_finalize w r CO_OK c4 = Inr cy'"
    "seen i r n cy' (?l\<lparr>l_conn := idle (?c1\<lparr>cn_coBuffer := b4\<rparr>), l_events := idle_events (sent_events (?ev)),
       l_in := arrivals zs @ later, l_out := out, l_wire := l_wire ?l @ response_text (cy_itr cy) resp, l_request := None, l_protocol := None\<rparr>)"
    using finalize_keeps [OF c4(5) _ c4(2)] j(2) opened_fields by auto
  have b5: "contents (buffer_reset b4) = []" "buf_inv (buffer_reset b4)" using c4(3) by simp_all
  have "ready_local w f i (local i r n cy')"
    using assms(1) b5 e(2) unfolding http_ready_local [where r = r and n = n] by (auto simp: ready_local_def seen_def idle_fields opened_def core_def local_def)
  have itr: "cy_itr cy' = cy_itr cy" using seen_reads(3) [OF e(2)] lf(3) by simp
  from \<open>ready_local w f i (local i r n cy')\<close> have ready: "http_ready w f i cy'" using e(2) unfolding http_ready_local [where r = r and n = n] by (simp add: seen_def)
  have "core (conn i cy') = idle (?c1\<lparr>cn_coBuffer := b4\<rparr>)" using e(2) by (auto simp: seen_def local_def)
  from arg_cong [OF this, of cn_handler] have "cn_handler (conn i cy') = H_REQUEST_INIT" by (simp add: idle_fields)
  then show ?thesis
    using ready itr e(1) c2(1,3,4,8) c3(1) c4(1) seen_reads [OF e(2)] seen_fd [OF e(2)] lf(4) e(2) idle_events_in
    by - (rule exI [of _ cy'], rule exI [of _ ys], rule exI [of _ zs],
      simp add: idle_fields opened_def seen_def r_def [symmetric] n_def fd_of_def)
qed

text \<open>C3: A keep-alive HTTP connection answers: when the bytes of a complete request arrive, in any segments
  and with any waiting in between, \<open>request_init\<close> runs to its end without a fault; exactly the
  response of the user's function goes out, however the socket takes it; the request and its
  protocol object are gone; and the connection is ready for the next request (\<open>http_ready\<close>), with the read event
  registered, \<open>request_init\<close> as handler, and a new version that makes entries for the old one stale. The segments it has not read (\<open>zs\<close>) are still in the socket.\<close>

theorem request_answered:
  assumes "http_ready w f i cy" and "patient w i (cy_nextObject cy) (cy_nextObject cy + 1)"
    and "cy_in cy (fd_of i cy) = arrivals xs @ later" and "\<forall>x\<in>set xs. snd x \<noteq> [] \<and> length (snd x) \<le> 4096"
    and "4096 * length xs \<le> buf_limit" and "feed server_parse new_request [] (map snd xs) = Inr (CO_OK, m, rest)"
    and "f m new_response = Inr resp" and "length (response_text (cy_itr cy) resp) \<le> buf_limit"
    and "cy_out cy (fd_of i cy) = takings ks @ out" and "\<forall>k\<in>set ks. 0 < snd k"
    and "sum_list (map snd ks) = length (response_text (cy_itr cy) resp)"
  shows "\<exists>cy' ys zs. request_init w i cy = Inr cy' \<and> xs = ys @ zs \<and> ys \<noteq> []
    \<and> cy_wire cy' (fd_of i cy') = cy_wire cy (fd_of i cy) @ response_text (cy_itr cy) resp
    \<and> cy_in cy' (fd_of i cy') = arrivals zs @ later \<and> cy_out cy' (fd_of i cy') = out
    \<and> (\<exists>rest'. feed server_parse new_request [] (map snd ys) = Inr (CO_OK, m, rest'))
    \<and> http_ready w f i cy' \<and> fd_of i cy' = fd_of i cy \<and> cn_handler (conn i cy') = H_REQUEST_INIT
    \<and> cn_epollCurEvents (conn i cy') AND CO_EVENT_IN = CO_EVENT_IN \<and> cn_version (conn i cy') = cn_version (conn i cy) + 1
    \<and> cy_requests cy' (cy_nextObject cy) = None \<and> cy_protocols cy' (cy_nextObject cy + 1) = None"
  using request_comes_and_goes [OF assms] by blast

lemma ok_status_line: "take 17 (response_text h new_response) = ''HTTP/1.1 200 OK'' @ crlf"
proof -
  have s: "start_line ''HTTP/1.1'' (to_string 200) (status_phrase 200) = ''HTTP/1.1 200 OK'' @ crlf"
    "length (''HTTP/1.1 200 OK'' @ crlf) = 17" by code_simp+
  have n: "m_version (server_headers new_response) = ''HTTP/1.1''" "m_statuscode (server_headers new_response) = 200" by code_simp+
  show ?thesis unfolding response_text_def server_pieces_def n s(1) using s(2) by simp
qed

text \<open>C40: A request the HTTP parser rejects (its head has more than 8192 bytes) is answered before the
  connection is closed: the response object nobody has filled goes out as it was made, with status
  200 OK, then \<open>request_finalize\<close> closes the connection and it is free again.\<close>

theorem bad_request_gets_200:
  assumes "http_ready w f i cy" and "patient w i (cy_nextObject cy) (cy_nextObject cy + 1)"
    and "cy_in cy (fd_of i cy) = arrivals xs @ later" and "\<forall>x\<in>set xs. snd x \<noteq> [] \<and> length (snd x) \<le> 4096"
    and "4096 * length xs \<le> buf_limit" and "feed server_parse new_request [] (map snd xs) = Inr (status_code eError, m, rest)"
    and "length (response_text (cy_itr cy) new_response) \<le> buf_limit"
    and "cy_out cy (fd_of i cy) = takings ks @ out" and "\<forall>k\<in>set ks. 0 < snd k"
    and "sum_list (map snd ks) = length (response_text (cy_itr cy) new_response)"
  shows "\<exists>cy'. request_init w i cy = Inr cy' \<and> i \<in> set (pl_freeConnections (cy_pool cy'))
    \<and> cy_wire cy' (fd_of i cy) = cy_wire cy (fd_of i cy) @ response_text (cy_itr cy) new_response
    \<and> take 17 (response_text (cy_itr cy) new_response) = ''HTTP/1.1 200 OK'' @ crlf"
proof -
  define r where "r = cy_nextObject cy"
  define n where "n = r + 1"
  let ?l = "local i r n cy" and ?p = "fresh_http (conn i cy)" and ?c1 = "opened r (conn i cy)"
  let ?ev = "read_events (cn_epollCurEvents (conn i cy))"
  have w: "patient w i r n" using assms(2) by (simp add: r_def n_def)
  obtain j where j: "cy_heap cy = full_heap j" "cn_handlerCleanups (conn i cy) = [H_SERVER_CLEANUP]" "cn_serverControl (conn i cy) \<noteq> None" using assms(1) by (auto simp: http_ready_def)
  have lf: "l_heap ?l = full_heap j" "l_out ?l = takings ks @ out" "l_itr ?l = cy_itr cy" "l_wire ?l = cy_wire cy (fd_of i cy)"
    using j(1) assms(8) by (simp_all add: local_def)
  obtain c2 bf ys zs q2 pf' where c2:
    "request_init w i cy = (if status_code eError \<noteq> CO_OK then request_write w r CO_ERROR c2 else request_process w r c2)"
    "buf_inv bf" "xs = ys @ zs" "ys \<noteq> []" "plain_request w i n q2" "rq_userProcess q2 = Some pf'" "w_process w pf' = http_handler f"
    "seen i r n c2 (?l\<lparr>l_conn := ?c1\<lparr>cn_coBuffer := bf\<rparr>, l_events := ?ev, l_in := arrivals zs @ later,
       l_request := Some q2, l_protocol := Some (HttpServer (?p\<lparr>m_reqMsg := m\<rparr>))\<rparr>)"
    by (rule request_init_reads [OF assms(1) w r_def n_def assms(3-6)]) (auto simp: CO_AGAIN_def CO_OK_def)
  let ?p3 = "?p\<lparr>m_reqMsg := m\<rparr>"
  let ?L = "?l\<lparr>l_conn := ?c1\<lparr>cn_coBuffer := bf\<rparr>, l_events := ?ev, l_in := arrivals zs @ later,
    l_request := Some q2, l_protocol := Some (HttpServer ?p3)\<rparr>"
  have sel: "l_request ?L = Some q2" "l_protocol ?L = Some (HttpServer ?p3)" "l_heap ?L = full_heap j" "buf_inv (l_buf ?L)"
    "length (response_text (l_itr ?L) (m_respMsg ?p3)) \<le> buf_limit" "l_out ?L = takings ks @ out"
    "sum_list (map snd ks) = length (response_text (l_itr ?L) (m_respMsg ?p3))"
    using lf c2(2) assms(7,10) fresh_http_messages by simp_all
  obtain c4 b4 q4 where c4: "request_write w r CO_ERROR c2 = request_finalize w r CO_ERROR c4" "plain_request w i n q4" "buf_inv b4" "contents b4 = []"
    "seen i r n c4 (put_buf b4 (?L\<lparr>l_events := sent_events (l_events ?L), l_out := out,
       l_wire := l_wire ?L @ response_text (l_itr ?L) (m_respMsg ?p3), l_request := Some q4,
       l_protocol := Some (HttpServer (?p3\<lparr>m_respMsg := server_headers (m_respMsg ?p3)\<rparr>))\<rparr>))"
    by (rule request_write_sends [OF w c2(8) sel(1) c2(5) sel(2-6) assms(9) sel(7)])
  have fd: "fd_of i c4 = fd_of i cy" using seen_fd [OF c4(5)] by (simp add: opened_def fd_of_def)
  let ?L4 = "put_buf b4 (?L\<lparr>l_events := sent_events (l_events ?L), l_out := out,
       l_wire := l_wire ?L @ response_text (l_itr ?L) (m_respMsg ?p3), l_request := Some q4,
       l_protocol := Some (HttpServer (?p3\<lparr>m_respMsg := server_headers (m_respMsg ?p3)\<rparr>))\<rparr>)"
  have sel4: "l_request ?L4 = Some q4" "CO_ERROR \<noteq> CO_OK" "cn_handlerCleanups (l_conn ?L4) = [H_SERVER_CLEANUP]"
    "l_wire ?L4 = cy_wire cy (fd_of i cy) @ response_text (cy_itr cy) new_response" "cn_serverControl (l_conn ?L4) \<noteq> None"
    using j(2,3) opened_fields lf fresh_http_messages by (simp_all add: CO_ERROR_def CO_OK_def)
  obtain cy' where "request_finalize w r CO_ERROR c4 = Inr cy'" "cy_wire cy' (fd_of i c4) = l_wire ?L4" "i \<in> set (pl_freeConnections (cy_pool cy'))"
    by (rule finalize_closes [OF c4(5) sel4(1) c4(2) sel4(2,3,5)])
  moreover have "take 17 (response_text (cy_itr cy) new_response) = ''HTTP/1.1 200 OK'' @ crlf" by (rule ok_status_line)
  ultimately show ?thesis using c2(1) c4(1) fd sel4(4) by (auto simp: CO_OK_def)
qed

section \<open>A connection that is served\<close>

text \<open>
  The server of these examples answers every request with \<^term>\<open>sample_response\<close>. Its only
  connection waits for a request that arrives in two segments, the second one late, and its
  socket takes ten bytes of the response, late, and then the rest.
\<close>

definition example_world :: world where
  "example_world = \<lparr>w_others = \<lambda>_ cy. cy, w_process = \<lambda>_. http_handler (\<lambda>_ _. Inr sample_response), w_destroy = \<lambda>_ _ cy. Inr (0, cy),
     w_peer = \<lambda>_. None\<rparr>"

definition waiting_cycle :: "(bool \<times> string) list \<Rightarrow> (bool \<times> nat) list \<Rightarrow> CoCycle" where
  "waiting_cycle xs ks = small_cycle\<lparr>
     cy_pool := map_conn 1 (\<lambda>c. c\<lparr>cn_coTcp := new_tcp_fd 9, cn_serverControl := Some 0, cn_handlerCleanups := [H_SERVER_CLEANUP]\<rparr>)
       (small_pool\<lparr>pl_innerSockets := {9}\<rparr>),
     cy_curConnection := Some 1,
     cy_serverControls := [(new_server_control (new_conf_server\<lparr>sv_serverType := PROTOCOL_HTTP_SERVER\<rparr>))\<lparr>
       sc_userFuncs := Some 0, sc_listenConnection := Some 3\<rparr>],
     cy_userFuncs := [(''h'', \<lparr>uf_userProcess = Some 0, uf_userDestroy = None, uf_userData = None\<rparr>)],
     cy_in := \<lambda>_. arrivals xs, cy_out := \<lambda>_. takings ks\<rparr>"

definition get_segments :: "(bool \<times> string) list" where
  "get_segments = [(False, ''GET / HT''), (True, ''TP/1.1'' @ crlf @ ''Host: a'' @ crlf @ crlf)]"

definition bad_segments :: "(bool \<times> string) list" where
  "bad_segments = replicate 3 (True, replicate 4096 CHR ''a'')"

lemma waiting_cycle_facts:
  shows "conn 1 (waiting_cycle xs ks) = (hd (new_pair 0))\<lparr>cn_coTcp := new_tcp_fd 9, cn_serverControl := Some 0,
      cn_handlerCleanups := [H_SERVER_CLEANUP]\<rparr>" (is "?C")
    and "valid_id 1 (waiting_cycle xs ks)" and "fd_of 1 (waiting_cycle xs ks) = 9" and "cy_in (waiting_cycle xs ks) f = arrivals xs"
    and "cy_out (waiting_cycle xs ks) f = takings ks" and "cy_itr (waiting_cycle xs ks) = (\<lambda>h. h)"
proof -
  have p: "length (pl_connections small_pool) = 8" by (simp add: small_pool_free)
  have h: "pl_connections small_pool ! 0 = hd (new_pair 0)" by (simp add: small_pool_connections new_pair_def)
  show ?C using get_map_conn_same [of 1 "small_pool\<lparr>pl_innerSockets := {9}\<rparr>"] p h
    by (simp add: waiting_cycle_def conn_def get_connection_accord_id_def)
  then show "fd_of 1 (waiting_cycle xs ks) = 9" by (simp add: fd_of_def new_tcp_fd_def)
  show "valid_id 1 (waiting_cycle xs ks)" using p by (simp add: valid_id_def waiting_cycle_def)
qed (simp_all add: waiting_cycle_def small_cycle_def)

lemma waiting_cycle_ready:
  assumes "w_process w 0 = http_handler f"
  shows "http_ready w f 1 (waiting_cycle xs ks)"
proof -
  let ?cy = "waiting_cycle xs ks"
  note c = waiting_cycle_facts(1) [of xs ks]
  have f: "cn_blockConn (conn 1 ?cy) = Some (1 + 1)" "cn_handlerCleanups (conn 1 ?cy) = [H_SERVER_CLEANUP]"
    "cn_serverControl (conn 1 ?cy) = Some 0" "cn_coBuffer (conn 1 ?cy) = set_userdata 1 new_buffer" "\<not> cn_flagDying (conn 1 ?cy)"
    "cn_epollCurEvents (conn 1 ?cy) = 0"
    unfolding c by (simp_all add: new_pair_def new_connection_def)
  have b: "buf_inv (set_userdata 1 new_buffer)" "contents (set_userdata 1 new_buffer) = []"
    by (simp_all add: buf_inv_def contents_def set_userdata_def new_buffer_def)
  have k: "control 0 ?cy = (new_server_control (new_conf_server\<lparr>sv_serverType := PROTOCOL_HTTP_SERVER\<rparr>))\<lparr>sc_userFuncs := Some 0, sc_listenConnection := Some 3\<rparr>"
    "cy_curConnection ?cy = Some 1" "cy_interest ?cy = (\<lambda>_. None)" "\<forall>k. \<not> cy_refuse ?cy k" "9 \<in> pl_innerSockets (cy_pool ?cy)"
    "cy_heap ?cy = full_heap (\<lambda>n. NUL)"
    by (simp_all add: waiting_cycle_def control_def small_cycle_def)
  have a: "alive 1 ?cy"
    unfolding alive_def is_inner_socketfd_def waiting_cycle_facts(3) watched_def k(1-3) using waiting_cycle_facts(2) f k by simp
  have u: "uf_userProcess (snd (cy_userFuncs ?cy ! 0)) = Some 0" "quiet_destroy w (uf_userDestroy (snd (cy_userFuncs ?cy ! 0)))"
    "w_process w 0 = http_handler f" "0 < length (cy_serverControls ?cy)"
    by (simp_all add: waiting_cycle_def quiet_destroy_def assms)
  have s: "sv_serverType (sc_confServer (control 0 ?cy)) = PROTOCOL_HTTP_SERVER" "sc_userFuncs (control 0 ?cy) = Some 0"
    unfolding k by (simp_all add: new_server_control_def)
  show ?thesis unfolding http_ready_def buf_of_def f(4) using a f(1-3) b k(6) u s by blast
qed

lemma example_ready: "http_ready example_world (\<lambda>_ _. Inr sample_response) 1 (waiting_cycle xs ks)"
  by (rule waiting_cycle_ready) (simp add: example_world_def)

lemma example_patient: "patient example_world i r n"
  by (simp add: patient_def example_world_def)

lemma get_segments_feed:
  "\<exists>m rest. feed server_parse new_request [] (map snd get_segments) = Inr (CO_OK, m, rest)"
proof -
  have "(case feed server_parse new_request [] (map snd get_segments) of Inl e \<Rightarrow> False | Inr (ret, _, _) \<Rightarrow> ret = CO_OK)"
    by code_simp
  then show ?thesis by (auto split: sum.splits prod.splits)
qed

lemma bad_segments_feed:
  "\<exists>m rest. feed server_parse new_request [] (map snd bad_segments) = Inr (status_code eError, m, rest)"
proof -
  have a: "replicate m c @ replicate k c = replicate (m + k) c" for m k and c :: char by (rule replicate_add [symmetric])
  have wait: "server_parse new_request (replicate k CHR ''a'') = Inr (CO_AGAIN, new_request, Keep)" if "k \<le> 8192" for k
    using that unfolding server_parse_def
    by (simp add: decode_msg_def new_request_def HTTP_MAX_HEADER_LEN_def parse_startline_req_none)
  have bad: "server_parse new_request (replicate 12288 CHR ''a'') = Inr (status_code eError, new_request, Discard)"
    unfolding server_parse_def by (simp add: decode_msg_def new_request_def HTTP_MAX_HEADER_LEN_def)
  have b: "map snd bad_segments = [replicate 4096 CHR ''a'', replicate 4096 CHR ''a'', replicate 4096 CHR ''a'']"
    by (simp add: bad_segments_def numeral_eq_Suc)
  have again: "CO_AGAIN \<noteq> 0" "status_code eError \<noteq> CO_AGAIN" by (simp_all add: CO_AGAIN_def)
  show ?thesis
    unfolding b using wait [of 4096] wait [of 8192] bad again by (simp add: a)
qed

theorem request_answered_witness:
  "\<exists>cy' ys zs. request_init example_world 1 (waiting_cycle get_segments [(True, 10), (False, length (response_text (\<lambda>h. h) sample_response) - 10)]) = Inr cy'
    \<and> get_segments = ys @ zs \<and> ys \<noteq> [] \<and> cy_wire cy' 9 = response_text (\<lambda>h. h) sample_response \<and> cn_handler (conn 1 cy') = H_REQUEST_INIT"
proof -
  let ?n = "length (response_text (\<lambda>h. h) sample_response)"
  have n: "?n > 10" "?n \<le> 8192" by code_simp+
  let ?ks = "[(True, 10), (False, ?n - 10)]"
  let ?cy = "waiting_cycle get_segments ?ks"
  note facts = waiting_cycle_facts [of get_segments ?ks]
  obtain m rest where feed: "feed server_parse new_request [] (map snd get_segments) = Inr (CO_OK, m, rest)" using get_segments_feed by blast
  have io: "cy_in ?cy (fd_of 1 ?cy) = arrivals get_segments @ []" "cy_out ?cy (fd_of 1 ?cy) = takings ?ks @ []" by (simp_all add: facts)
  have segs: "\<forall>x\<in>set get_segments. snd x \<noteq> [] \<and> length (snd x) \<le> 4096" "4096 * length get_segments \<le> buf_limit"
    by (simp_all add: get_segments_def)
  have len: "length (response_text (cy_itr ?cy) sample_response) \<le> buf_limit" "sum_list (map snd ?ks) = length (response_text (cy_itr ?cy) sample_response)"
    "\<forall>k\<in>set ?ks. 0 < snd k" using n by (simp_all add: facts(6))
  obtain cy' ys zs where "request_init example_world 1 ?cy = Inr cy'" "get_segments = ys @ zs" "ys \<noteq> []"
    "cy_wire cy' (fd_of 1 cy') = cy_wire ?cy (fd_of 1 ?cy) @ response_text (cy_itr ?cy) sample_response" "fd_of 1 cy' = fd_of 1 ?cy"
    "cn_handler (conn 1 cy') = H_REQUEST_INIT"
    using request_answered [OF example_ready example_patient io(1) segs feed refl len(1) io(2) len(3,2)] by blast
  moreover have "cy_wire ?cy 9 = []" by (simp add: waiting_cycle_def small_cycle_def)
  ultimately show ?thesis unfolding facts by (intro exI [of _ cy'] exI [of _ ys] exI [of _ zs]) simp
qed

theorem bad_request_gets_200_witness:
  "\<exists>cy'. request_init example_world 1 (waiting_cycle bad_segments [(False, length (response_text (\<lambda>h. h) new_response))]) = Inr cy'
    \<and> 1 \<in> set (pl_freeConnections (cy_pool cy')) \<and> take 17 (cy_wire cy' 9) = ''HTTP/1.1 200 OK'' @ crlf"
proof -
  let ?n = "length (response_text (\<lambda>h. h) new_response)"
  have n: "?n > 17" "?n \<le> 8192" by code_simp+
  let ?ks = "[(False, ?n)]"
  let ?cy = "waiting_cycle bad_segments ?ks"
  note facts = waiting_cycle_facts [of bad_segments ?ks]
  obtain m rest where feed: "feed server_parse new_request [] (map snd bad_segments) = Inr (status_code eError, m, rest)" using bad_segments_feed by blast
  have io: "cy_in ?cy (fd_of 1 ?cy) = arrivals bad_segments @ []" "cy_out ?cy (fd_of 1 ?cy) = takings ?ks @ []" by (simp_all add: facts)
  have segs: "\<forall>x\<in>set bad_segments. snd x \<noteq> [] \<and> length (snd x) \<le> 4096" "4096 * length bad_segments \<le> buf_limit"
    by (simp_all add: bad_segments_def)
  have len: "length (response_text (cy_itr ?cy) new_response) \<le> buf_limit" "sum_list (map snd ?ks) = length (response_text (cy_itr ?cy) new_response)"
    using n by (simp_all add: facts(6))
  have pos: "\<forall>k\<in>set ?ks. 0 < snd k" using n(1) by (cases ?n) simp_all
  from bad_request_gets_200 [OF example_ready example_patient io(1) segs feed len(1) io(2) pos len(2)] obtain cy'
    where "request_init example_world 1 ?cy = Inr cy'" "1 \<in> set (pl_freeConnections (cy_pool cy'))"
      "cy_wire cy' (fd_of 1 ?cy) = cy_wire ?cy (fd_of 1 ?cy) @ response_text (cy_itr ?cy) new_response"
      "take 17 (response_text (cy_itr ?cy) new_response) = ''HTTP/1.1 200 OK'' @ crlf" by blast
  moreover have "cy_wire ?cy 9 = []" by (simp add: waiting_cycle_def small_cycle_def)
  ultimately show ?thesis unfolding facts by auto
qed

end
