(* ===== verification/Keep_Alive.thy ===== *)
theory Keep_Alive
  imports Request_Flow
begin

text \<open>
  A connection over all its requests: \<open>server_init_connection\<close> makes a connection from an accepted descriptor that is
  ready in the sense of \<^theory_text>\<open>Request_Flow\<close> (\<open>accepted_ready\<close>), and \<open>request_init\<close>, which answers one request, leaves it ready
  for the next. So a client is served however many requests it sends (\<open>accepted_client_served\<close>).
\<close>

section \<open>One request after the other\<close>

text \<open>
  The handler runs for a request, then the other coroutines until the dispatcher comes back to the connection, and so
  on: \<open>n\<close> requests.
\<close>

fun serve_requests :: "world \<Rightarrow> nat \<Rightarrow> nat \<Rightarrow> CoCycle \<Rightarrow> CoCycle res" where
  "serve_requests w i 0 cy = Inr cy"
| "serve_requests w i (Suc n) cy = bindr (request_init w i cy) (\<lambda>cy. serve_requests w i n (w_others w i cy))"

text \<open>
  A request and its response: the segments \<open>xs\<close> in which the request comes, which is complete with the last of them, the
  response \<open>m\<close> the user's function gives, and how the socket takes its bytes.
\<close>

definition exchange :: "(CoHTTPRequest \<Rightarrow> CoHTTPResponse \<Rightarrow> CoHTTPResponse res) \<Rightarrow> (headers \<Rightarrow> headers)
    \<Rightarrow> (bool \<times> string) list \<times> CoHTTPResponse \<times> (bool \<times> nat) list \<Rightarrow> bool" where
  "exchange f itr = (\<lambda>(xs, m, ks).
     (\<forall>x\<in>set xs. snd x \<noteq> [] \<and> length (snd x) \<le> 4096) \<and> 4096 * length xs \<le> buf_limit
     \<and> (\<exists>q rest. feed server_parse new_request [] (map snd xs) = Inr (CO_OK, q, rest) \<and> f q new_response = Inr m)
     \<and> (\<exists>q rest. feed server_parse new_request [] (map snd (butlast xs)) = Inr (CO_AGAIN, q, rest))
     \<and> length (response_text itr m) \<le> buf_limit \<and> (\<forall>k\<in>set ks. 0 < snd k) \<and> sum_list (map snd ks) = length (response_text itr m))"

lemma feed_longer:
  "feed dec m s xs = Inr (ret, m', rest) \<Longrightarrow> ret \<noteq> CO_AGAIN \<Longrightarrow> feed dec m s (xs @ ys) = Inr (ret, m', rest @ concat ys)"
  by (induction dec m s xs arbitrary: rest rule: feed.induct) (auto simp: bindr_eq_Inr_conv split: if_splits)

lemma whole_request_read:
  assumes "feed server_parse m [] (map snd ys) = Inr (CO_OK, q, r)" and "feed server_parse m [] (map snd (butlast xs)) = Inr (CO_AGAIN, q', r')"
    and "xs = ys @ zs"
  shows "zs = []"
proof (rule ccontr)
  assume "zs \<noteq> []"
  then have "map snd (butlast xs) = map snd ys @ map snd (butlast zs)" using assms(3) by (simp add: butlast_append)
  then show False using feed_longer [OF assms(1), of "map snd (butlast zs)"] assms(2) by (simp add: CO_OK_def CO_AGAIN_def)
qed

lemma ready_others:
  assumes "http_ready w f i cy" and "\<And>r n. patient w i r n"
  shows "http_ready w f i (w_others w i cy)" and "fd_of i (w_others w i cy) = fd_of i cy"
    and "cy_wire (w_others w i cy) (fd_of i cy) = cy_wire cy (fd_of i cy)" and "cy_in (w_others w i cy) (fd_of i cy) = cy_in cy (fd_of i cy)"
    and "cy_out (w_others w i cy) (fd_of i cy) = cy_out cy (fd_of i cy)" and "cy_itr (w_others w i cy) = cy_itr cy"
    and "cn_version (conn i (w_others w i cy)) = cn_version (conn i cy)"
proof -
  let ?o = "w_others w i cy"
  have "alive i cy" using assms(1) by (simp add: http_ready_def)
  then have a: "alive i ?o" and b: "bare (local i 0 0 ?o) = bare (local i 0 0 cy)" using assms(2) unfolding patient_def by blast+
  have s: "seen i 0 0 ?o (local i 0 0 ?o)" "seen i 0 0 cy (local i 0 0 cy)" using a \<open>alive i cy\<close> by (simp_all add: seen_def)
  show "http_ready w f i ?o" using assms(1) a b unfolding http_ready_local [where r = 0 and n = 0] bare_eq by (simp add: ready_local_def)
  show fd: "fd_of i ?o = fd_of i cy" using b seen_fd [OF s(1)] seen_fd [OF s(2)] by (simp add: bare_eq)
  show "cy_wire ?o (fd_of i cy) = cy_wire cy (fd_of i cy)" "cy_in ?o (fd_of i cy) = cy_in cy (fd_of i cy)"
    "cy_out ?o (fd_of i cy) = cy_out cy (fd_of i cy)" "cy_itr ?o = cy_itr cy" "cn_version (conn i ?o) = cn_version (conn i cy)"
    using b seen_reads(3,8-10,12) [OF s(1)] seen_reads(3,8-10,12) [OF s(2)] unfolding fd bare_eq by simp_all
qed

lemma requests_served:
  "\<lbrakk>http_ready w f i cy; \<And>r n. patient w i r n; \<forall>e\<in>set es. exchange f (cy_itr cy) e;
    cy_in cy (fd_of i cy) = arrivals (concat (map fst es)) @ later; cy_out cy (fd_of i cy) = takings (concat (map (snd \<circ> snd) es)) @ out\<rbrakk> \<Longrightarrow>
   \<exists>cy'. serve_requests w i (length es) cy = Inr cy' \<and> http_ready w f i cy' \<and> fd_of i cy' = fd_of i cy
     \<and> cy_wire cy' (fd_of i cy) = cy_wire cy (fd_of i cy) @ concat (map (\<lambda>e. response_text (cy_itr cy) (fst (snd e))) es)
     \<and> cy_in cy' (fd_of i cy) = later \<and> cn_version (conn i cy') = cn_version (conn i cy) + of_nat (length es)"
proof (induction es arbitrary: cy)
  case (Cons e es)
  obtain xs m ks where e: "e = (xs, m, ks)" by (cases e)
  from Cons.prems(3) have ex: "exchange f (cy_itr cy) (xs, m, ks)" "\<forall>e\<in>set es. exchange f (cy_itr cy) e" by (simp_all add: e)
  then obtain q rest q' rest' where x: "\<forall>x\<in>set xs. snd x \<noteq> [] \<and> length (snd x) \<le> 4096" "4096 * length xs \<le> buf_limit"
    "feed server_parse new_request [] (map snd xs) = Inr (CO_OK, q, rest)" "f q new_response = Inr m"
    "length (response_text (cy_itr cy) m) \<le> buf_limit" "\<forall>k\<in>set ks. 0 < snd k" "sum_list (map snd ks) = length (response_text (cy_itr cy) m)"
    and b: "feed server_parse new_request [] (map snd (butlast xs)) = Inr (CO_AGAIN, q', rest')"
    unfolding exchange_def prod.case by blast
  let ?in = "arrivals (concat (map fst es)) @ later" and ?out = "takings (concat (map (snd \<circ> snd) es)) @ out"
  have io: "cy_in cy (fd_of i cy) = arrivals xs @ ?in" "cy_out cy (fd_of i cy) = takings ks @ ?out" using Cons.prems(4,5) by (simp_all add: e takings_def comp_def)
  obtain c ys zs r where c: "request_init w i cy = Inr c" "xs = ys @ zs" "cy_wire c (fd_of i c) = cy_wire cy (fd_of i cy) @ response_text (cy_itr cy) m"
    "cy_in c (fd_of i c) = arrivals zs @ ?in" "cy_out c (fd_of i c) = ?out" "feed server_parse new_request [] (map snd ys) = Inr (CO_OK, q, r)"
    "http_ready w f i c" "fd_of i c = fd_of i cy" "cn_version (conn i c) = cn_version (conn i cy) + 1" "cy_itr c = cy_itr cy"
    using request_comes_and_goes [OF Cons.prems(1,2) io(1) x(1-5) io(2) x(6,7)] by blast
  have "zs = []" by (rule whole_request_read [OF c(6) b c(2)])
  note o = ready_others [OF c(7) Cons.prems(2)]
  let ?o = "w_others w i c"
  have so: "cy_in ?o (fd_of i ?o) = ?in" "cy_out ?o (fd_of i ?o) = ?out" "\<forall>e\<in>set es. exchange f (cy_itr ?o) e"
    using o c(4,5,8,10) ex(2) \<open>zs = []\<close> by simp_all
  from Cons.IH [OF o(1) Cons.prems(2) so(3,1,2)] obtain cy' where "serve_requests w i (length es) ?o = Inr cy'" "http_ready w f i cy'"
    "fd_of i cy' = fd_of i cy" "cy_wire cy' (fd_of i cy) = cy_wire ?o (fd_of i cy) @ concat (map (\<lambda>e. response_text (cy_itr cy) (fst (snd e))) es)"
    "cy_in cy' (fd_of i cy) = later" "cn_version (conn i cy') = cn_version (conn i ?o) + of_nat (length es)"
    unfolding o(2,6) c(8,10) by blast
  then show ?case using c(1,3,8,9) o(3,7) by (intro exI [of _ cy']) (simp add: e)
qed auto

section \<open>From accepting on\<close>

text \<open>
  The server \<open>k\<close> of HTTP with its functions, a free connection \<open>i\<close> that is as \<open>reset\<close> leaves it, and a descriptor \<open>fd\<close> the
  kernel does not watch yet.
\<close>

definition can_serve :: "world \<Rightarrow> (CoHTTPRequest \<Rightarrow> CoHTTPResponse \<Rightarrow> CoHTTPResponse res) \<Rightarrow> nat \<Rightarrow> nat \<Rightarrow> int \<Rightarrow> CoCycle \<Rightarrow> bool" where
  "can_serve w f k i fd cy \<longleftrightarrow> (\<exists>js. pl_freeConnections (cy_pool cy) = i # js) \<and> valid_id i cy \<and> 0 < fd \<and> cy_interest cy fd = None
     \<and> cn_blockConn (conn i cy) = Some (i + 1) \<and> cn_epollCurEvents (conn i cy) = 0 \<and> \<not> cn_flagDying (conn i cy)
     \<and> cn_handlerCleanups (conn i cy) = [] \<and> buf_inv (buf_of i cy) \<and> contents (buf_of i cy) = []
     \<and> (\<forall>n. \<not> cy_refuse cy n) \<and> (\<exists>j. cy_heap cy = full_heap j)
     \<and> k < length (cy_serverControls cy) \<and> sc_listenConnection (control k cy) \<noteq> None
     \<and> sv_serverType (sc_confServer (control k cy)) = PROTOCOL_HTTP_SERVER
     \<and> (\<exists>u pf. sc_userFuncs (control k cy) = Some u \<and> uf_userProcess (snd (cy_userFuncs cy ! u)) = Some pf
          \<and> quiet_destroy w (uf_userDestroy (snd (cy_userFuncs cy ! u))) \<and> w_process w pf = http_handler f)"

lemma accepted_ready:
  assumes "server_init_connection w k fd cy = Inr (CO_OK, cy')" and s: "can_serve w f k i fd cy"
  shows "http_ready w f i (cy'\<lparr>cy_curConnection := Some i\<rparr>)" and "fd_of i cy' = fd"
    and "cy_delayConnections cy' = cy_delayConnections cy @ [(i, cn_version (conn i cy'))]"
    and "cy_in cy' = cy_in cy" and "cy_out cy' = cy_out cy" and "cy_wire cy' = cy_wire cy" and "cy_itr cy' = cy_itr cy"
proof -
  obtain js where js: "pl_freeConnections (cy_pool cy) = i # js" and v: "valid_id i cy" using s by (auto simp: can_serve_def)
  obtain t where t: "init_client_socketfd fd (w_peer w fd) True (cn_coTcp (conn i cy)) = (CO_OK, t)" "tc_socketfd t = fd"
    by (auto simp: init_client_socketfd_def Let_def split: option.split)
  let ?p = "take_front (now_ms cy) fd (map_conn i (\<lambda>c. c\<lparr>cn_coTcp := t\<rparr>) (cy_pool cy))"
  let ?f = "\<lambda>c. c\<lparr>cn_serverControl := Some k, cn_socketRcvTimeout := sv_readTimeout (sc_confServer (control k cy)),
     cn_socketSndTimeout := sv_writeTimeout (sc_confServer (control k cy)), cn_keepaliveTimeout := sv_keepaliveTimeout (sc_confServer (control k cy)),
     cn_handler := H_REQUEST_INIT, cn_handlerCleanups := cn_handlerCleanups c @ [H_SERVER_CLEANUP]\<rparr>"
  let ?g = "\<lambda>s. s\<lparr>sc_curConnectionSize := sc_curConnectionSize s + 1\<rparr>"
  obtain z where z: "cycle_get_fd w fd cy = Inr (Some i, tick (cy\<lparr>cy_pool := ?p, cy_sys := z\<rparr>))"
    using assms(1) js t(1)
    by (auto simp: server_init_connection_def cycle_get_fd_def get_connection_fd_def ensure_free_def bindr_eq_Inr_conv conn_def Let_def CO_OK_def CO_ERROR_def
        split: prod.splits if_splits)
  let ?c = "tick (cy\<lparr>cy_pool := ?p, cy_sys := z\<rparr>)"
  have k: "control k ?c = control k cy" by (simp add: control_def tick_def)
  then have cy': "cy' = push_delay i (upd_control k ?g (upd_conn i ?f ?c))"
    using assms(1) z by (simp add: server_init_connection_def Let_def)
  have fr: "get_connection_accord_id i (p\<lparr>pl_freeConnections := x, pl_innerSockets := y\<rparr>) = get_connection_accord_id i p" for p x y
    by (simp add: get_connection_accord_id_def)
  have cc: "conn i ?c = (conn i cy)\<lparr>cn_coTcp := t, cn_startTimestamp := now_ms cy\<rparr>" "valid_id i ?c"
    using v js by (simp_all add: conn_def tick_def take_front_def get_map_conn_same valid_id_def fr)
  let ?e = "cy'\<lparr>cy_curConnection := Some i\<rparr>"
  have p: "cy_pool ?e = cy_pool (upd_conn i ?f ?c)" "cy_pool cy' = cy_pool (upd_conn i ?f ?c)" by (simp_all add: cy' push_delay_def upd_control_def)
  have c: "conn i ?e = ?f ((conn i cy)\<lparr>cn_coTcp := t, cn_startTimestamp := now_ms cy\<rparr>)" "conn i cy' = conn i ?e" "valid_id i ?e"
    using conn_upd_same [OF cc(2), of ?f] cc unfolding conn_def p valid_id_def by (simp_all add: upd_conn_def)
  have g: "cy_interest ?e = cy_interest cy" "cy_refuse ?e = cy_refuse cy" "cy_heap ?e = cy_heap cy" "cy_userFuncs ?e = cy_userFuncs cy"
    "cy_serverControls ?e = (cy_serverControls cy)[k := ?g (control k cy)]" "fd \<in> pl_innerSockets (cy_pool ?e)"
    "fd \<in> pl_innerSockets (cy_pool cy')" "cy_curConnection ?e = Some i"
    unfolding p by (simp_all add: cy' push_delay_def upd_control_def upd_conn_def tick_def take_front_def control_def)
  show "fd_of i cy' = fd" unfolding fd_of_def c using t(2) by simp
  have fd: "fd_of i ?e = fd" unfolding fd_of_def c(1) using t(2) by simp
  have kk: "control k ?e = ?g (control k cy)" using s unfolding control_def g(5) by (simp add: can_serve_def)
  have f: "cn_flagDying (conn i ?e) = cn_flagDying (conn i cy)" "cn_epollCurEvents (conn i ?e) = cn_epollCurEvents (conn i cy)"
    "cn_serverControl (conn i ?e) = Some k" "cn_blockConn (conn i ?e) = cn_blockConn (conn i cy)" "cn_coTcp (conn i ?e) = t"
    "cn_handlerCleanups (conn i ?e) = cn_handlerCleanups (conn i cy) @ [H_SERVER_CLEANUP]" "buf_of i ?e = buf_of i cy"
    unfolding buf_of_def c(1) by simp_all
  have "alive i ?e" using s c(3) t(2) unfolding alive_def fd is_inner_socketfd_def watched_def f g can_serve_def by (simp add: kk g(7))
  then show "http_ready w f i ?e" using s unfolding http_ready_def f g can_serve_def by (auto simp: kk)
  have ver: "cn_version (conn i cy') = cn_version (conn i (upd_control k ?g (upd_conn i ?f ?c)))" by (simp add: cy' push_delay_def conn_def)
  show "cy_delayConnections cy' = cy_delayConnections cy @ [(i, cn_version (conn i cy'))]"
    unfolding ver by (simp add: cy' push_delay_def upd_control_def upd_conn_def tick_def)
  show "cy_in cy' = cy_in cy" "cy_out cy' = cy_out cy" "cy_wire cy' = cy_wire cy" "cy_itr cy' = cy_itr cy"
    by (simp_all add: cy' push_delay_def upd_control_def upd_conn_def tick_def)
qed

text \<open>The two together.\<close>

lemma accepted_served:
  assumes "can_serve w f k i fd cy" and "server_init_connection w k fd cy = Inr (CO_OK, cy')"
    and "\<And>r n. patient w i r n" and "\<forall>e\<in>set es. exchange f (cy_itr cy) e"
    and "cy_in cy fd = arrivals (concat (map fst es)) @ later" and "cy_out cy fd = takings (concat (map (snd \<circ> snd) es)) @ out"
  shows "cy_delayConnections cy' = cy_delayConnections cy @ [(i, cn_version (conn i cy'))]
    \<and> (\<exists>cy''. serve_requests w i (length es) (cy'\<lparr>cy_curConnection := Some i\<rparr>) = Inr cy''
         \<and> cy_wire cy'' fd = cy_wire cy fd @ concat (map (\<lambda>e. response_text (cy_itr cy) (fst (snd e))) es)
         \<and> cy_in cy'' fd = later \<and> http_ready w f i cy'' \<and> fd_of i cy'' = fd
         \<and> cn_version (conn i cy'') = cn_version (conn i cy') + of_nat (length es))"
proof -
  let ?e = "cy'\<lparr>cy_curConnection := Some i\<rparr>"
  note a = accepted_ready [OF assms(2,1)]
  have c: "fd_of i ?e = fd" "conn i ?e = conn i cy'" using a(2) by (simp_all add: fd_of_def conn_def)
  have p: "\<forall>e\<in>set es. exchange f (cy_itr ?e) e" "cy_in ?e (fd_of i ?e) = arrivals (concat (map fst es)) @ later"
    "cy_out ?e (fd_of i ?e) = takings (concat (map (snd \<circ> snd) es)) @ out" using assms(4-6) a(4,5,7) c(1) by simp_all
  from requests_served [OF a(1) assms(3) p] show ?thesis using a(3,6,7) c by auto
qed

text \<open>C1: A client that is accepted is served for as long as it sends: \<open>init_connection\<close> takes a free connection for the
  descriptor and puts it into the queue of the dispatcher with the version it has, and from there \<open>request_init\<close>, run once for each
  request, never fails: for every sequence \<open>es\<close> of requests and
  responses, in whatever segments they come and go, the socket has received exactly the responses, one after the other and in the
  order of the requests, nothing of what follows has been read, and the connection is ready for yet another request, its
  version one higher for each. While the coroutine waits, and between two requests, the others may do what they like with other
  connections, requests, protocols and sockets, serve other clients among them; what is assumed of them (\<open>patient\<close>) is that they leave
  this connection, its socket, its own request with its protocol, and the configuration alone, and that it is neither closed nor does a timer of
  its own go off. An exchange is a request that is complete with its last segment, of
  at most 4096 bytes each, and a function of the user that answers it from the request alone; memory does not run out.\<close>

theorem accepted_client_served:
  assumes "can_serve w f k i fd cy" and "server_init_connection w k fd cy = Inr (CO_OK, cy')"
    and "\<And>r n. patient w i r n" and "\<forall>e\<in>set es. exchange f (cy_itr cy) e"
    and "cy_in cy fd = arrivals (concat (map fst es)) @ later" and "cy_out cy fd = takings (concat (map (snd \<circ> snd) es)) @ out"
  shows "cy_delayConnections cy' = cy_delayConnections cy @ [(i, cn_version (conn i cy'))]
    \<and> (\<exists>cy''. serve_requests w i (length es) (cy'\<lparr>cy_curConnection := Some i\<rparr>) = Inr cy''
         \<and> cy_wire cy'' fd = cy_wire cy fd @ concat (map (\<lambda>e. response_text (cy_itr cy) (fst (snd e))) es)
         \<and> cy_in cy'' fd = later \<and> http_ready w f i cy'' \<and> fd_of i cy'' = fd
         \<and> cn_version (conn i cy'') = cn_version (conn i cy') + of_nat (length es))"
  by (rule accepted_served [OF assms])

section \<open>A client with two requests\<close>

text \<open>
  The server of \<^theory_text>\<open>Request_Flow\<close> with all its connections free. The client sends the same request twice; the first
  comes in two segments and its response goes out in two, the second time it comes and goes at once.
\<close>

definition accepting_cycle :: "(bool \<times> string) list \<Rightarrow> (bool \<times> nat) list \<Rightarrow> CoCycle" where
  "accepting_cycle xs ks = small_cycle\<lparr>
     cy_serverControls := [(new_server_control (new_conf_server\<lparr>sv_serverType := PROTOCOL_HTTP_SERVER\<rparr>))\<lparr>
       sc_userFuncs := Some 0, sc_listenConnection := Some 3\<rparr>],
     cy_userFuncs := [(''h'', \<lparr>uf_userProcess = Some 0, uf_userDestroy = None, uf_userData = None\<rparr>)],
     cy_sys := [(CO_OK, 0)], cy_in := \<lambda>_. arrivals xs, cy_out := \<lambda>_. takings ks\<rparr>"

definition two_exchanges :: "((bool \<times> string) list \<times> CoHTTPResponse \<times> (bool \<times> nat) list) list" where
  "two_exchanges =
     (let n = length (response_text (\<lambda>h. h) sample_response)
      in [(get_segments, sample_response, [(True, 10), (False, n - 10)]),
          ([(True, concat (map snd get_segments))], sample_response, [(False, n)])])"

lemma two_exchanges_ok: "\<forall>e\<in>set two_exchanges. exchange (\<lambda>_ _. Inr sample_response) (\<lambda>h. h) e"
proof -
  let ?n = "length (response_text (\<lambda>h. h) sample_response)"
  have n: "?n > 10" "?n \<le> 8192" by code_simp+
  let ?f = "\<lambda>xs. case feed server_parse new_request [] (map snd xs) of Inl e \<Rightarrow> False | Inr (ret, _, _) \<Rightarrow> ret = CO_OK"
  let ?g = "\<lambda>xs. case feed server_parse new_request [] (map snd (butlast xs)) of Inl e \<Rightarrow> False | Inr (ret, _, _) \<Rightarrow> ret = CO_AGAIN"
  let ?one = "[(True, concat (map snd get_segments))]"
  have "?f get_segments" "?f ?one" "?g get_segments" "?g ?one" by code_simp+
  then have d: "\<exists>q rest. feed server_parse new_request [] (map snd xs) = Inr (CO_OK, q, rest)"
    "\<exists>q rest. feed server_parse new_request [] (map snd (butlast xs)) = Inr (CO_AGAIN, q, rest)" if "xs = get_segments \<or> xs = ?one" for xs
    using that by (auto split: sum.splits prod.splits)
  have b: "\<forall>x\<in>set xs. snd x \<noteq> [] \<and> length (snd x) \<le> 4096" "4096 * length xs \<le> buf_limit" if "xs = get_segments \<or> xs = ?one" for xs
    using that by (auto simp: get_segments_def)
  have m: "?n \<le> buf_limit" using n(2) by simp
  have x: "exchange (\<lambda>_ _. Inr sample_response) (\<lambda>h. h) (xs, sample_response, ks)"
    if "xs = get_segments \<or> xs = ?one" and "\<forall>k\<in>set ks. 0 < snd k" and "sum_list (map snd ks) = ?n" for xs ks
    unfolding exchange_def prod.case using b [OF that(1)] d [OF that(1)] m that(2,3) by (intro conjI) simp_all
  have "exchange (\<lambda>_ _. Inr sample_response) (\<lambda>h. h) (get_segments, sample_response, [(True, 10), (False, ?n - 10)])"
    "exchange (\<lambda>_ _. Inr sample_response) (\<lambda>h. h) (?one, sample_response, [(False, ?n)])"
    using n(1) by (auto intro!: x)
  then show ?thesis by (simp add: two_exchanges_def Let_def)
qed

lemma accepting_cycle_can_serve:
  assumes "w_process w 0 = http_handler (\<lambda>_ _. Inr sample_response)"
  shows "can_serve w (\<lambda>_ _. Inr sample_response) 0 1 9 (accepting_cycle xs ks)"
proof -
  have "conn 1 (accepting_cycle xs ks) = hd (new_pair 0)"
    by (simp add: conn_def accepting_cycle_def small_cycle_def get_connection_accord_id_def small_pool_connections new_pair_def)
  then have c: "cn_blockConn (conn 1 (accepting_cycle xs ks)) = Some (1 + 1)" "cn_handlerCleanups (conn 1 (accepting_cycle xs ks)) = []"
    "cn_epollCurEvents (conn 1 (accepting_cycle xs ks)) = 0" "cn_flagDying (conn 1 (accepting_cycle xs ks)) = False"
    "buf_of 1 (accepting_cycle xs ks) = set_userdata 1 new_buffer"
    by (simp_all add: buf_of_def new_pair_def new_connection_def)
  show ?thesis unfolding can_serve_def c
    by (auto simp: valid_id_def accepting_cycle_def small_cycle_def small_pool_free control_def new_server_control_def assms
        quiet_destroy_def buf_inv_def contents_def set_userdata_def new_buffer_def)
qed

lemma accepting_cycle_accepts:
  assumes "w_peer w 9 = None"
  shows "\<exists>cy'. server_init_connection w 0 9 (accepting_cycle xs ks) = Inr (CO_OK, cy')"
proof -
  have p: "cy_pool (accepting_cycle xs ks) = small_pool" "cy_sys (accepting_cycle xs ks) = [(CO_OK, 0)]" "w_peer w 9 = None"
    using assms by (simp_all add: accepting_cycle_def small_cycle_def)
  have "\<exists>cy'. cycle_get_fd w 9 (accepting_cycle xs ks) = Inr (Some 1, cy')"
    unfolding cycle_get_fd_def p get_connection_fd_def
    by (simp add: ensure_free_def small_pool_free init_client_socketfd_def set_nonblock_def CO_OK_def Let_def)
  then show ?thesis by (auto simp: server_init_connection_def Let_def)
qed

text \<open>
  Meanwhile another client is served: the others make a request for connection 3 and send to the descriptor 20, unless that
  is the descriptor of the connection that waits.
\<close>

definition busy_world :: world where
  "busy_world = example_world\<lparr>w_others := \<lambda>i cy.
     if fd_of i cy = 20 \<or> cy_requests cy (cy_nextObject cy) \<noteq> None then cy
     else let (r, cy) = new_request_object CO_REQUEST_NORMAL cy
          in upd_request r (\<lambda>q. q\<lparr>rq_connection := Some 3\<rparr>) (cy\<lparr>cy_wire := (cy_wire cy)(20 := cy_wire cy 20 @ ''x'')\<rparr>)\<rparr>"

lemma busy_patient: "patient busy_world i r n"
  unfolding patient_def
proof (intro allI impI)
  fix cy assume a: "alive i cy"
  let ?o = "w_others busy_world i cy"
  have f: "alive i ?o \<and> conn i ?o = conn i cy \<and> fd_of i ?o = fd_of i cy"
    by (rule alive_local_cong [OF a]) (simp_all add: busy_world_def new_request_object_def new_object_def upd_request_def Let_def)
  have w: "cy_in ?o = cy_in cy" "cy_out ?o = cy_out cy" "cy_wire ?o (fd_of i cy) = cy_wire cy (fd_of i cy)" "cy_protocols ?o = cy_protocols cy"
    "cy_heap ?o = cy_heap cy" "cy_itr ?o = cy_itr cy" "server_setup ?o = server_setup cy" "cy_requests cy r \<noteq> None \<longrightarrow> cy_requests ?o r = cy_requests cy r"
    by (auto simp: busy_world_def new_request_object_def new_object_def upd_request_def Let_def)
  show "alive i ?o \<and> bare (local i r n ?o) = bare (local i r n cy)
    \<and> (own i n (local i r n cy) \<longrightarrow> local i r n ?o = local i r n cy)"
    using f w by (auto simp: local_def bare_def own_def)
qed

lemma busy_fields: "w_process busy_world 0 = http_handler (\<lambda>_ _. Inr sample_response)" "w_peer busy_world 9 = None"
  by (simp_all add: busy_world_def example_world_def)

theorem accepted_client_served_witness:
  "\<exists>cy' cy''. server_init_connection busy_world 0 9 (accepting_cycle (concat (map fst two_exchanges)) (concat (map (snd \<circ> snd) two_exchanges)))
       = Inr (CO_OK, cy')
    \<and> serve_requests busy_world 1 2 (cy'\<lparr>cy_curConnection := Some 1\<rparr>) = Inr cy'' \<and> cy_in cy'' 9 = []
    \<and> cy_wire cy'' 9 = response_text (\<lambda>h. h) sample_response @ response_text (\<lambda>h. h) sample_response"
proof -
  let ?cy = "accepting_cycle (concat (map fst two_exchanges)) (concat (map (snd \<circ> snd) two_exchanges))"
  obtain cy' where a: "server_init_connection busy_world 0 9 ?cy = Inr (CO_OK, cy')" using accepting_cycle_accepts [OF busy_fields(2)] by blast
  have s: "cy_itr ?cy = (\<lambda>h. h)" "cy_wire ?cy 9 = []" "length two_exchanges = 2"
    by (simp_all add: accepting_cycle_def small_cycle_def two_exchanges_def Let_def)
  have io: "cy_in ?cy 9 = arrivals (concat (map fst two_exchanges)) @ []"
    "cy_out ?cy 9 = takings (concat (map (snd \<circ> snd) two_exchanges)) @ []" "\<forall>e\<in>set two_exchanges. exchange (\<lambda>_ _. Inr sample_response) (cy_itr ?cy) e"
    using two_exchanges_ok s(1) by (simp_all add: accepting_cycle_def)
  have t: "concat (map (\<lambda>e. response_text (\<lambda>h. h) (fst (snd e))) two_exchanges) = response_text (\<lambda>h. h) sample_response @ response_text (\<lambda>h. h) sample_response"
    by (simp add: two_exchanges_def Let_def)
  obtain cy'' where "serve_requests busy_world 1 (length two_exchanges) (cy'\<lparr>cy_curConnection := Some 1\<rparr>) = Inr cy''" "cy_in cy'' 9 = []"
    "cy_wire cy'' 9 = cy_wire ?cy 9 @ concat (map (\<lambda>e. response_text (cy_itr ?cy) (fst (snd e))) two_exchanges)"
    using accepted_client_served [OF accepting_cycle_can_serve [OF busy_fields(1)] a busy_patient io(3,1,2)] by blast
  then show ?thesis using a unfolding s t append_Nil by blast
qed

end
