(* ===== verification/Test_Client.thy ===== *)
theory Test_Client
  imports Keep_Alive
begin

text \<open>
  The client of \<^verbatim>\<open>test/tcp_send\<close>: the class \<open>CTcp\<close> (\<^verbatim>\<open>tcp.cpp\<close>), which is close to the library's \<open>CoTCP\<close>, and the program that sends
  requests (\<^verbatim>\<open>main.cpp\<close>). The kernel is as in \<^theory_text>\<open>Tcp_Socket\<close>; one call of \<open>recv\<close> or \<open>send\<close> moves at most \<open>MAX_RW_COUNT\<close> bytes, as
  their manual says. \<open>client_loops_agree\<close>: the loops of the class are those of the library; \<open>test_client_served\<close>: the program against
  the server.
\<close>

section \<open>CTcp\<close>

definition SUCCESS :: int where [simp]: "SUCCESS = 0"
definition FAILURE :: int where [simp]: "FAILURE = - 1"
definition ERR_TIMEOUT :: int where [simp]: "ERR_TIMEOUT = - 2"
definition TCP_DISCONNECT :: int where [simp]: "TCP_DISCONNECT = 0"
abbreviation MAX_RW_COUNT :: nat where "MAX_RW_COUNT \<equiv> 2147479552"

record CTcp =
  ct_fd :: int
  ct_ip :: string
  ct_port :: "16 word"
  ct_timeoutms :: int
  ct_connTimems :: nat
  ct_bconnect :: bool

definition ct_option :: "sys \<Rightarrow> int \<times> sys" where
  "ct_option s = (let ((r, _), s) = syscall s in (if FAILURE = r then FAILURE else SUCCESS, s))"

definition ct_set_timeoutms :: "int \<Rightarrow> CTcp \<Rightarrow> sys \<Rightarrow> bool \<times> CTcp \<times> sys" where
  "ct_set_timeoutms timeoutms t s =
     (let t = t\<lparr>ct_timeoutms := timeoutms\<rparr>; (r, s) = ct_option s
      in if FAILURE = r then (False, t, s)
         else let (r, s) = ct_option s in (FAILURE \<noteq> r, t, s))"

text \<open>The constructors; \<open>None\<close> is the \<open>std::runtime_error\<close>.\<close>

definition new_ctcp :: "16 word \<Rightarrow> string \<Rightarrow> int \<Rightarrow> sys \<Rightarrow> CTcp option \<times> sys" where
  "new_ctcp port ip timeoutms s =
     (let ((fd, _), s) = syscall s;
          t = \<lparr>ct_fd = fd, ct_ip = ip, ct_port = port, ct_timeoutms = timeoutms, ct_connTimems = 0, ct_bconnect = False\<rparr>
      in if fd = - 1 then (None, s)
         else if timeoutms > 0 then let (r, t, s) = ct_set_timeoutms timeoutms t s in (if \<not> r then None else Some t, s)
         else (Some t, s))"

definition new_ctcp_fd :: "int \<Rightarrow> CTcp" where
  "new_ctcp_fd fd = \<lparr>ct_fd = fd, ct_ip = [], ct_port = 0, ct_timeoutms = 0, ct_connTimems = 0, ct_bconnect = True\<rparr>"

definition ct_set_block :: "sys \<Rightarrow> bool \<times> sys" where
  "ct_set_block s = (let ((r, _), s) = syscall s in (r = 0, s))"

definition ct_set_nonblock :: "sys \<Rightarrow> bool \<times> sys" where
  "ct_set_nonblock s = (let ((r, _), s) = syscall s in (r = 0, s))"

definition ct_set_limit :: "int \<Rightarrow> sys \<Rightarrow> int \<times> sys" where
  "ct_set_limit limit s = ct_option s"

definition ct_set_send_buffer :: "nat \<Rightarrow> CTcp \<Rightarrow> sys \<Rightarrow> int \<times> sys" where
  "ct_set_send_buffer room t s = ct_option s"

definition ct_set_recv_buffer :: "nat \<Rightarrow> CTcp \<Rightarrow> sys \<Rightarrow> int \<times> sys" where
  "ct_set_recv_buffer room t s = ct_option s"

definition ct_set_nodelay :: "CTcp \<Rightarrow> sys \<Rightarrow> int \<times> sys" where
  "ct_set_nodelay t s = ct_option s"

definition ct_set_reused :: "CTcp \<Rightarrow> sys \<Rightarrow> int \<times> sys" where
  "ct_set_reused t s = ct_option s"

definition ct_server_bind :: "CTcp \<Rightarrow> sys \<Rightarrow> bool \<times> sys" where
  "ct_server_bind t s = (if ct_port t = 0 then (False, s) else let ((r, _), s) = syscall s in (r \<noteq> - 1, s))"

definition ct_server_listen :: "int \<Rightarrow> CTcp \<Rightarrow> sys \<Rightarrow> bool \<times> sys" where
  "ct_server_listen request_num t s = (let ((r, _), s) = syscall s in (\<not> r < 0, s))"

definition ct_server_accept :: "CTcp \<Rightarrow> sys \<Rightarrow> CTcp option \<times> sys" where
  "ct_server_accept t s =
     (if ct_fd t \<le> 0 then (None, s)
      else let ((cfd, _), s) = syscall s in (if cfd < 0 then None else Some (new_ctcp_fd cfd), s))"

text \<open>\<open>now\<close> is what \<open>time(0)\<close> gives: seconds, although the field is called milliseconds.\<close>

definition ct_client_connect :: "nat \<Rightarrow> CTcp \<Rightarrow> sys \<Rightarrow> int \<times> CTcp \<times> sys" where
  "ct_client_connect now t s =
     (if ct_fd t < 0 \<or> ct_ip t = [] \<or> ct_port t = 0 then (FAILURE, t, s)
      else let ((r, e), s) = syscall s
           in if r < 0 \<and> e = EAGAIN then (ERR_TIMEOUT, t, s)
              else if r < 0 then (FAILURE, t, s)
              else if r = 0 then (SUCCESS, t\<lparr>ct_connTimems := now, ct_bconnect := True\<rparr>, s)
              else (FAILURE, t, s))"

text \<open>The descriptor the call closes, if there is one.\<close>

definition ct_close :: "CTcp \<Rightarrow> int option \<times> CTcp" where
  "ct_close t = (if ct_fd t > 0 then (Some (ct_fd t), t\<lparr>ct_bconnect := False\<rparr>) else (None, t))"

definition ct_reset :: "CTcp \<Rightarrow> sys \<Rightarrow> bool \<times> CTcp \<times> sys" where
  "ct_reset t s = (let ((fd, _), s) = syscall s in (fd \<noteq> - 1, (snd (ct_close t))\<lparr>ct_fd := fd\<rparr>, s))"

definition ct_client_reconnect :: "nat \<Rightarrow> CTcp \<Rightarrow> sys \<Rightarrow> int \<times> CTcp \<times> sys" where
  "ct_client_reconnect now t s =
     (let (r, t, s) = ct_reset t s
      in if \<not> r then (FAILURE, t, s)
         else let (_, t, s) = (if ct_timeoutms t > 0 then ct_set_timeoutms (ct_timeoutms t) t s else (True, t, s))
              in ct_client_connect now t s)"

text \<open>
  \<open>tcp_close\<close> keeps the number of the descriptor: the destructor, which calls it again, closes whatever has got that number since.
\<close>

lemma closed_twice: "0 < ct_fd t \<Longrightarrow> fst (ct_close (snd (ct_close t))) = fst (ct_close t)"
  by (simp add: ct_close_def)

section \<open>Reading and writing\<close>

definition ct_read :: "CTcp \<Rightarrow> nat \<Rightarrow> recv_answer list \<Rightarrow> int \<times> string \<times> recv_answer list" where
  "ct_read t bufsize xs =
     (if bufsize = 0 \<or> ct_fd t \<le> 0 then (FAILURE, [], xs)
      else let (r, xs) = sys_recv (min bufsize MAX_RW_COUNT) xs
           in case r of
                Inl e \<Rightarrow> (if e = EAGAIN then ERR_TIMEOUT else FAILURE, [], xs)
              | Inr s \<Rightarrow> (if s = [] then TCP_DISCONNECT else int (length s), s, xs))"

definition ct_write :: "CTcp \<Rightarrow> string \<Rightarrow> send_answer list \<Rightarrow> int \<times> string \<times> send_answer list" where
  "ct_write t buf xs =
     (if buf = [] \<or> ct_fd t \<le> 0 then (FAILURE, [], xs)
      else let (r, xs) = sys_send (take MAX_RW_COUNT buf) xs
           in case r of
                Inl e \<Rightarrow> (if e = EAGAIN then ERR_TIMEOUT else FAILURE, [], xs)
              | Inr k \<Rightarrow> (int k, take k buf, xs))"

lemma ct_read_length: "ct_read t n xs = (ret, s, ys) \<Longrightarrow> ret > 0 \<Longrightarrow> ret = int (length s) \<and> length s \<le> n"
  by (cases "(min n MAX_RW_COUNT, xs)" rule: sys_recv.cases) (auto simp: ct_read_def split: if_splits)

text \<open>The loops; \<open>got\<close> and \<open>sent\<close> are the bytes so far. \<open>(int)readsize\<close> is negative from \<open>2 ^ 31\<close> on; \<open>ret\<close> is an \<open>int\<close>.\<close>

function ct_readall_loop :: "CTcp \<Rightarrow> nat \<Rightarrow> string \<Rightarrow> recv_answer list \<Rightarrow> int \<times> string \<times> recv_answer list" where
  "ct_readall_loop t readsize got xs =
     (let (ret, s, ys) = ct_read t (readsize - length got) xs
      in if ret > 0
         then (if int (length (got @ s)) \<ge> wrap32 (int readsize) then (int (length (got @ s)), got @ s, ys)
               else ct_readall_loop t readsize (got @ s) ys)
         else (ret, got, ys))"
  by pat_completeness auto
termination
proof (relation "measure (\<lambda>(t, n, got, xs). n - length got)", goal_cases)
  case (2 t n got xs p ret q s ys)
  then show ?case using ct_read_length [of t "n - length got" xs ret s ys] by (auto simp flip: length_greater_0_conv)
qed simp

declare ct_readall_loop.simps [simp del]

definition ct_readall :: "CTcp \<Rightarrow> nat \<Rightarrow> recv_answer list \<Rightarrow> int \<times> string \<times> recv_answer list" where
  "ct_readall t readsize xs = (if readsize = 0 then (FAILURE, [], xs) else ct_readall_loop t readsize [] xs)"

fun ct_writeall_loop :: "CTcp \<Rightarrow> string \<Rightarrow> string \<Rightarrow> send_answer list \<Rightarrow> (int \<times> string \<times> send_answer list) res" where
  "ct_writeall_loop t buf sent [] = Inr (fst (ct_write t (drop (length sent) buf) []), sent, [])"
| "ct_writeall_loop t buf sent (x # xs) =
     (let (ret, s, ys) = ct_write t (drop (length sent) buf) [x]
      in if ret > 0
         then bindr (i32 (int (length sent) + ret))
                (\<lambda>total. if total \<ge> int (length buf) then Inr (total, sent @ s, ys @ xs) else ct_writeall_loop t buf (sent @ s) xs)
         else Inr (ret, sent, ys @ xs))"

definition ct_writeall :: "CTcp \<Rightarrow> string \<Rightarrow> send_answer list \<Rightarrow> (int \<times> string \<times> send_answer list) res" where
  "ct_writeall t buf xs = (if buf = [] then Inr (FAILURE, [], xs) else ct_writeall_loop t buf [] xs)"

text \<open>The two classes have different codes for the end of a connection.\<close>

definition ct_code :: "int \<Rightarrow> int" where
  "ct_code ret = (if ret = CO_CONNECTION_CLOSE then TCP_DISCONNECT else ret)"

lemma ct_read_code:
  assumes "ct_fd c = tc_socketfd t" and "n \<le> MAX_RW_COUNT"
  shows "ct_read c n xs = (let (r, s, ys) = tcp_read t n xs in (ct_code r, s, ys))"
  using assms by (auto simp: ct_read_def tcp_read_def tcp_read_ret_def ct_code_def Let_def min_def split: prod.split sum.split)

lemma ct_write_code: "ct_fd c = tc_socketfd t \<Longrightarrow> length buf \<le> MAX_RW_COUNT \<Longrightarrow> ct_write c buf xs = tcp_write t buf xs"
  by (auto simp: ct_write_def tcp_write_def tcp_write_ret_def Let_def split: prod.split sum.split)

lemma ct_readall_loop_code:
  "\<lbrakk>ct_fd c = tc_socketfd t; n \<le> MAX_RW_COUNT\<rbrakk> \<Longrightarrow> ct_readall_loop c n got xs = (let (r, s, ys) = readall_loop t n got xs in (ct_code r, s, ys))"
proof (induction t n got xs rule: readall_loop.induct)
  case (1 t n got xs)
  obtain r s ys where r: "tcp_read t (n - length got) xs = (r, s, ys)" by (metis prod_cases3)
  have c: "ct_read c (n - length got) xs = (ct_code r, s, ys)" using ct_read_code [of c t "n - length got" xs] "1.prems" r by simp
  have w: "wrap32 (int n) = int n" using "1.prems"(2) by (simp add: in_i32_def)
  have p: "ct_code r > 0 \<longleftrightarrow> r > 0" "r > 0 \<Longrightarrow> ct_code r = r" by (auto simp: ct_code_def)
  show ?case
  proof (cases "r > 0 \<and> length (got @ s) < n")
    case True
    then have "ct_readall_loop c n (got @ s) ys = (let (r, s, ys) = readall_loop t n (got @ s) ys in (ct_code r, s, ys))"
      using "1.IH" [OF r [symmetric] refl] "1.prems" by (simp add: not_le)
    then show ?thesis using True r c w p
      by (simp add: ct_readall_loop.simps [of c n got xs] readall_loop.simps [of t n got xs])
  next
    case False
    then show ?thesis using r c w p
      by (auto simp: ct_readall_loop.simps [of c n got xs] readall_loop.simps [of t n got xs] ct_code_def)
  qed
qed

lemma ct_writeall_loop_code:
  "\<lbrakk>ct_fd c = tc_socketfd t; length buf \<le> MAX_RW_COUNT; length sent \<le> length buf\<rbrakk> \<Longrightarrow> ct_writeall_loop c buf sent xs = Inr (writeall_loop t buf sent xs)"
proof (induction t buf sent xs rule: writeall_loop.induct)
  case (1 t buf sent)
  then show ?case by (simp add: ct_write_code)
next
  case (2 t buf sent x xs)
  obtain r s ys where r: "tcp_write t (drop (length sent) buf) [x] = (r, s, ys)" by (metis prod_cases3)
  have c: "ct_write c (drop (length sent) buf) [x] = (r, s, ys)" using ct_write_code [of c t "drop (length sent) buf"] "2.prems" r by simp
  have l: "r > 0 \<Longrightarrow> r = int (length s)" "length s \<le> length buf - length sent" using tcp_write_prefix [OF r] by auto
  show ?case
  proof (cases "r > 0")
    case True
    have i: "i32 (int (length sent) + r) = Inr (int (length sent) + r)" using l True "2.prems"(2,3) by (simp add: in_i32_def)
    have IH: "\<not> length buf \<le> length (sent @ s) \<Longrightarrow> ct_writeall_loop c buf (sent @ s) xs = Inr (writeall_loop t buf (sent @ s) xs)"
      using "2.IH" [OF r [symmetric] refl refl True] "2.prems" l(2) by simp
    show ?thesis using IH i c r l(1) True by (auto simp: i32_ok)
  next
    case False
    then show ?thesis using c r by simp
  qed
qed

text \<open>C28: The class of the test client is the library's: for up to \<open>MAX_RW_COUNT\<close> bytes, \<open>CTcp::tcp_readall\<close> and \<open>CTcp::tcp_writeall\<close> move
  the same bytes as \<open>CoTCP::tcp_readall\<close> and \<open>CoTCP::tcp_writeall\<close> on the same socket, whatever the kernel answers, and return the same
  codes, but for the end of a connection, which is 0 here; \<open>tcp_writeall\<close> does not overflow its counter. (From \<open>2 ^ 31\<close>
  bytes on, \<open>tcp_readall\<close> is content with what the first read gives.)\<close>

theorem client_loops_agree:
  assumes "ct_fd c = tc_socketfd t" and "n \<le> MAX_RW_COUNT" and "length buf \<le> MAX_RW_COUNT"
  shows "ct_readall c n xs = (let (r, s, ys) = tcp_readall t n xs in (ct_code r, s, ys))
    \<and> ct_writeall c buf zs = Inr (tcp_writeall t buf zs)"
  using ct_readall_loop_code [OF assms(1,2), of "[]" xs] ct_writeall_loop_code [OF assms(1,3), of "[]" zs]
  by (simp add: ct_readall_def tcp_readall_def ct_writeall_def tcp_writeall_def ct_code_def)

theorem client_loops_agree_witness:
  "ct_readall (new_ctcp_fd 9) 3 [Data ''ab'', Data ''cd''] = (3, ''abc'', [Data ''d''])
    \<and> ct_writeall (new_ctcp_fd 9) ''abc'' [Accept 1, SendError EAGAIN] = Inr (ERR_TIMEOUT, ''a'', [])"
  using client_loops_agree [of "new_ctcp_fd 9" "new_tcp_fd 9" 3 "''abc''" "[Data ''ab'', Data ''cd'']" "[Accept 1, SendError EAGAIN]"]
  by (simp add: new_ctcp_fd_def new_tcp_fd_def tcp_readall_def readall_loop.simps tcp_read_def tcp_read_ret_def ct_code_def
      tcp_writeall_def tcp_write_def tcp_write_ret_def)

section \<open>The program\<close>

text \<open>
  \<open>main\<close>: the number of threads and of requests of each (\<open>g_querySize\<close>) from the arguments. The three requests; it sends the last one.
\<close>

definition test_arguments :: "string list \<Rightarrow> int \<times> int" where
  "test_arguments argv = (if 1 < length argv then c_atoi (argv ! 1) else 20, if 2 < length argv then c_atoi (argv ! 2) else 20)"

definition post_head :: string where
  "post_head = ''POST /test_server HTTP/1.1'' @ crlf @ ''Content-Type: application/json'' @ crlf @ ''Content-Length: 1224'' @ crlf
     @ ''Host: test_server'' @ crlf @ crlf"

definition post_body :: string where
  "post_body = concat (replicate 18 ''c74ae009EE264e4-f9197E3BAE7-4f7e-a34301AD66003D1Ee-4bbb2bc50991Acfb6'')"

definition InitSendata :: string where
  "InitSendata = post_head @ post_body"

definition InitSendBigData :: string where
  "InitSendBigData = post_head @ concat (replicate 100 post_body)"

definition InitSendCounterData :: string where
  "InitSendCounterData = ''GET /counter?opt=101&sell_mode=cpm&key_id=11390&price=1000&uniq_id=f73c9e69-9b04-482e-811c-1494ef629d3e''
     @ ''&pvid=f2c207f0-c036-4011-b33e-1e5ad33a3e20&date=20220317&clickid=9424af40-3a86-40ae-970d-2a62d59be6a8&creative_id=156451''
     @ ''&creative_ad_id=308609&agent_id=0&unit_id=11390&x=440000_999900_02_2_4_9_2_2_05_2,2_&v=13.10.0&avc=878&psid=238''
     @ ''&tmplid=10152&deliver_time=1627474164054 HTTP/1.1'' @ crlf @ ''Content-Type: application/json'' @ crlf
     @ ''Content-Length: 0'' @ crlf @ ''Host: test_server'' @ crlf @ crlf"

text \<open>
  The loop of \<open>SendData\<close>: \<open>n\<close> rounds are left and \<open>i\<close> are done; \<open>out\<close> is what has been sent. What \<open>tcp_writeall\<close> returns is not looked at,
  and one read is taken for the response.
\<close>

fun send_rounds :: "nat \<Rightarrow> nat \<Rightarrow> CTcp \<Rightarrow> string \<Rightarrow> string \<Rightarrow> recv_answer list \<Rightarrow> send_answer list
    \<Rightarrow> (nat \<times> CTcp \<times> string \<times> recv_answer list \<times> send_answer list) res" where
  "send_rounds 0 i t request out xs zs = Inr (i, t, out, xs, zs)"
| "send_rounds (Suc n) i t request out xs zs =
     bindr (ct_writeall t request zs)
       (\<lambda>(_, s, zs). let (ret, _, xs) = ct_read t 8096 xs
          in if ret \<le> 0 then Inr (i, snd (ct_close t), out @ s, xs, zs) else send_rounds n (i + 1) t request (out @ s) xs zs)"

text \<open>A thread; \<open>None\<close> is the exception of the constructor, which nothing catches. Whether \<open>connect\<close> succeeds is not looked at.\<close>

definition SendData :: "int \<Rightarrow> string \<Rightarrow> nat \<Rightarrow> sys \<Rightarrow> recv_answer list \<Rightarrow> send_answer list \<Rightarrow> (nat \<times> string) option res" where
  "SendData querySize request now s xs zs =
     (case new_ctcp 15680 ''127.0.0.1'' 500 s of
        (None, s) \<Rightarrow> Inr None
      | (Some t, s) \<Rightarrow>
          let (_, s) = ct_set_nodelay t s; (_, t, s) = ct_client_connect now t s
          in bindr (send_rounds (nat querySize) 0 t request [] xs zs) (\<lambda>(i, _, out, _). Inr (Some (i, out))))"

section \<open>The program against the server\<close>

text \<open>What the server makes of the request.\<close>

definition counter_message :: CoHTTPRequest where
  "counter_message = (case server_parse new_request InitSendCounterData of Inr (_, m, _) \<Rightarrow> m | Inl _ \<Rightarrow> new_request)"

lemma counter_request_parsed: "\<exists>rest. feed server_parse new_request [] [InitSendCounterData] = Inr (CO_OK, counter_message, rest)"
proof -
  have "(case server_parse new_request InitSendCounterData of Inl e \<Rightarrow> False | Inr (ret, _, _) \<Rightarrow> ret = CO_OK)" by code_simp
  then show ?thesis by (auto simp: counter_message_def split: sum.splits prod.splits)
qed

lemma counter_request_length: "0 < length InitSendCounterData" "length InitSendCounterData \<le> 4096"
  by (simp_all add: InitSendCounterData_def)

text \<open>The client's socket takes the request in any pieces, and the response comes in one that fits into its buffer.\<close>

definition accepts :: "nat list \<Rightarrow> send_answer list" where
  "accepts ns = map Accept ns"

lemma ct_writeall_accepts:
  "\<lbrakk>0 < ct_fd t; length buf \<le> 4096; length sent < length buf; \<forall>n\<in>set ns. 0 < n; sum_list ns = length buf - length sent\<rbrakk> \<Longrightarrow>
   ct_writeall_loop t buf sent (accepts ns @ zs) = Inr (int (length buf), sent @ drop (length sent) buf, zs)"
proof (induction ns arbitrary: sent)
  case (Cons n ns)
  have n: "0 < n" "n \<le> length buf - length sent" using Cons.prems by auto
  have w: "ct_write t (drop (length sent) buf) [Accept n] = (int n, take n (drop (length sent) buf), [])"
    using Cons.prems(1-3) n by (simp add: ct_write_def min_def)
  have i: "i32 (int (length sent) + int n) = Inr (int (length sent) + int n)" using n Cons.prems(2,3) by (simp add: in_i32_def)
  show ?case
  proof (cases "length sent + n = length buf")
    case True
    then have "n = length buf - length sent" by simp
    moreover have "ns = []"
      using True Cons.prems(4,5) n by (cases ns) auto
    ultimately show ?thesis using w i n(1) True by (simp add: accepts_def i32_ok)
  next
    case False
    let ?s = "sent @ take n (drop (length sent) buf)"
    have l: "length ?s = length sent + n" using n(2) by simp
    have "ct_writeall_loop t buf ?s (accepts ns @ zs) = Inr (int (length buf), ?s @ drop (length ?s) buf, zs)"
      using Cons.prems n False l by (intro Cons.IH) simp_all
    moreover have "?s @ drop (length ?s) buf = sent @ drop (length sent) buf"
      unfolding l by (simp add: add.commute flip: drop_drop)
    ultimately show ?thesis using w i n False by (simp add: accepts_def i32_ok)
  qed
qed simp

lemma send_rounds_answered:
  assumes "0 < ct_fd t" and "text \<noteq> []" and "length text \<le> 8096" and "request \<noteq> []" and "length request \<le> 4096"
  shows "\<forall>ns\<in>set nss. (\<forall>n\<in>set ns. 0 < n) \<and> sum_list ns = length request \<Longrightarrow>
    send_rounds (length nss) i t request out (map Data (replicate (length nss) text)) (concat (map accepts nss))
    = Inr (i + length nss, t, out @ concat (replicate (length nss) request), [], [])"
proof (induction nss arbitrary: i out)
  case (Cons ns nss)
  have w: "ct_writeall t request (accepts ns @ z) = Inr (int (length request), request, z)" for z
    using ct_writeall_accepts [of t request "[]" ns z] assms Cons.prems by (simp add: ct_writeall_def)
  have r: "ct_read t 8096 (Data text # x) = (int (length text), text, x)" for x using assms by (simp add: ct_read_def)
  show ?case using Cons assms(2) by (simp add: w r)
qed simp

text \<open>
  The two ends of a connection: in each round the client sends, what its socket has taken arrives at the server in one piece, the server
  runs its handler, and what the handler has sent is what the client reads; then the other coroutines of the server run. For each round the
  network gives how the socket of the client takes the request, whether the server waits for it, and how the socket of the server takes the
  response. The result is what the client has read.
\<close>

definition deliver :: "nat \<Rightarrow> (bool \<times> string) list \<Rightarrow> (bool \<times> nat) list \<Rightarrow> CoCycle \<Rightarrow> CoCycle" where
  "deliver i xs ks cy = cy\<lparr>cy_in := (cy_in cy)(fd_of i cy := cy_in cy (fd_of i cy) @ arrivals xs),
     cy_out := (cy_out cy)(fd_of i cy := cy_out cy (fd_of i cy) @ takings ks)\<rparr>"

fun converse :: "world \<Rightarrow> nat \<Rightarrow> CTcp \<Rightarrow> string \<Rightarrow> (nat list \<times> bool \<times> (bool \<times> nat) list) list \<Rightarrow> CoCycle \<Rightarrow> (string list \<times> CoCycle) res" where
  "converse w i t request [] cy = Inr ([], cy)"
| "converse w i t request ((ns, b, ks) # net) cy =
     bindr (ct_writeall t request (accepts ns))
       (\<lambda>(_, sent, _). bindr (request_init w i (deliver i [(b, sent)] ks cy))
         (\<lambda>c. let (ret, got, _) = ct_read t 8096 [Data (drop (length (cy_wire cy (fd_of i cy))) (cy_wire c (fd_of i cy)))]
              in if ret \<le> 0 then Inr ([], c)
                 else bindr (converse w i t request net (w_others w i c)) (\<lambda>(gots, c). Inr (got # gots, c))))"

definition round_ok :: "nat \<Rightarrow> nat \<Rightarrow> nat list \<times> bool \<times> (bool \<times> nat) list \<Rightarrow> bool" where
  "round_ok m n = (\<lambda>(ns, b, ks). (\<forall>n\<in>set ns. 0 < n) \<and> sum_list ns = m \<and> (\<forall>k\<in>set ks. 0 < snd k) \<and> sum_list (map snd ks) = n)"

lemma deliver_ready:
  assumes "http_ready w f i cy"
  shows "http_ready w f i (deliver i xs ks cy)" and "fd_of i (deliver i xs ks cy) = fd_of i cy"
proof -
  have a: "alive i cy" using assms by (simp add: http_ready_def)
  let ?d = "deliver i xs ks cy"
  have f: "alive i ?d \<and> conn i ?d = conn i cy \<and> fd_of i ?d = fd_of i cy"
    by (rule alive_local_cong [OF a]) (simp_all add: deliver_def)
  then show "fd_of i ?d = fd_of i cy" by simp
  have "cy_heap ?d = cy_heap cy" "cy_serverControls ?d = cy_serverControls cy" "cy_userFuncs ?d = cy_userFuncs cy"
    by (simp_all add: deliver_def)
  then show "http_ready w f i ?d" using assms f unfolding http_ready_def buf_of_def control_def by simp
qed

lemma converse_serves:
  "\<lbrakk>http_ready w f i cy; \<And>r n. patient w i r n; f counter_message new_response = Inr resp; text = response_text (cy_itr cy) resp;
    length text \<le> 8096; text \<noteq> []; \<forall>x\<in>set net. round_ok (length InitSendCounterData) (length text) x;
    cy_in cy (fd_of i cy) = []; cy_out cy (fd_of i cy) = []; 0 < ct_fd t\<rbrakk> \<Longrightarrow>
   \<exists>cy'. converse w i t InitSendCounterData net cy = Inr (replicate (length net) text, cy') \<and> http_ready w f i cy'
     \<and> fd_of i cy' = fd_of i cy \<and> cy_in cy' (fd_of i cy) = []
     \<and> cy_wire cy' (fd_of i cy) = cy_wire cy (fd_of i cy) @ concat (replicate (length net) text)"
proof (induction net arbitrary: cy)
  case (Cons x net)
  obtain ns b ks where x: "x = (ns, b, ks)" by (cases x)
  have k: "\<forall>n\<in>set ns. 0 < n" "sum_list ns = length InitSendCounterData" "\<forall>k\<in>set ks. 0 < snd k" "sum_list (map snd ks) = length text"
    using Cons.prems(7) by (auto simp: x round_ok_def)
  have w: "ct_writeall t InitSendCounterData (accepts ns) = Inr (int (length InitSendCounterData), InitSendCounterData, [])"
    using ct_writeall_accepts [of t InitSendCounterData "[]" ns "[]"] counter_request_length Cons.prems(10) k(1,2) by (auto simp: ct_writeall_def)
  obtain rest where p: "feed server_parse new_request [] [InitSendCounterData] = Inr (CO_OK, counter_message, rest)" using counter_request_parsed by blast
  let ?d = "deliver i [(b, InitSendCounterData)] ks cy"
  note d = deliver_ready [OF Cons.prems(1), of "[(b, InitSendCounterData)]" ks]
  have io: "cy_in ?d (fd_of i ?d) = arrivals [(b, InitSendCounterData)] @ []" "cy_out ?d (fd_of i ?d) = takings ks @ []" "cy_itr ?d = cy_itr cy"
    "cy_wire ?d = cy_wire cy" unfolding d(2) using Cons.prems(8,9) by (simp_all add: deliver_def)
  have seg: "\<forall>x\<in>set [(b, InitSendCounterData)]. snd x \<noteq> [] \<and> length (snd x) \<le> 4096" "4096 * length [(b, InitSendCounterData)] \<le> buf_limit"
    "feed server_parse new_request [] (map snd [(b, InitSendCounterData)]) = Inr (CO_OK, counter_message, rest)"
    "length (response_text (cy_itr ?d) resp) \<le> buf_limit" "sum_list (map snd ks) = length (response_text (cy_itr ?d) resp)"
    using counter_request_length p Cons.prems(4,5) k(4) unfolding io by auto
  obtain c ys zs where c: "request_init w i ?d = Inr c" "[(b, InitSendCounterData)] = ys @ zs" "ys \<noteq> []"
    "cy_wire c (fd_of i c) = cy_wire cy (fd_of i cy) @ text" "cy_in c (fd_of i c) = arrivals zs @ []" "cy_out c (fd_of i c) = []"
    "http_ready w f i c" "fd_of i c = fd_of i cy" "cy_itr c = cy_itr cy"
    using request_comes_and_goes [OF d(1) Cons.prems(2) io(1) seg(1-3) Cons.prems(3) seg(4) io(2) k(3) seg(5)] unfolding d(2) io Cons.prems(4) by blast
  have zs: "zs = []" using c(2,3) by (cases ys) auto
  note o = ready_others [OF c(7) Cons.prems(2)]
  let ?o = "w_others w i c"
  have so: "text = response_text (cy_itr ?o) resp" "cy_in ?o (fd_of i ?o) = []" "cy_out ?o (fd_of i ?o) = []"
    "\<forall>x\<in>set net. round_ok (length InitSendCounterData) (length text) x"
    using o c(5,6,9) zs Cons.prems(4,7) by simp_all
  from Cons.IH [OF o(1) Cons.prems(2,3) so(1) Cons.prems(5,6) so(4,2,3) Cons.prems(10)] obtain cy'
    where cy': "converse w i t InitSendCounterData net ?o = Inr (replicate (length net) text, cy')" "http_ready w f i cy'" "fd_of i cy' = fd_of i cy"
      "cy_in cy' (fd_of i cy) = []" "cy_wire cy' (fd_of i cy) = cy_wire ?o (fd_of i cy) @ concat (replicate (length net) text)"
    unfolding o(2) c(8) by blast
  have r: "ct_read t 8096 [Data text] = (int (length text), text, [])" using Cons.prems(5,6,10) by (simp add: ct_read_def)
  have "converse w i t InitSendCounterData (x # net) cy = Inr (text # replicate (length net) text, cy')"
    using w c(1,4,8) r cy'(1) Cons.prems(6) by (simp add: x)
  then show ?case using cy'(2-5) o(3) c(4,8) by (intro exI [of _ cy']) simp
qed simp


lemma accepting_cycle_fields:
  "cy_itr (accepting_cycle xs ks) = (\<lambda>h. h)" "cy_wire (accepting_cycle xs ks) d = []" "cy_in (accepting_cycle xs ks) d = arrivals xs"
  "cy_out (accepting_cycle xs ks) d = takings ks"
  by (simp_all add: accepting_cycle_def small_cycle_def)

text \<open>Three rounds: the socket of the client takes the request in two pieces in the second, that of the server the response in the third.\<close>

definition three_rounds :: "nat \<Rightarrow> nat \<Rightarrow> (nat list \<times> bool \<times> (bool \<times> nat) list) list" where
  "three_rounds m n = [([m], True, [(False, n)]), ([100, m - 100], False, [(False, n)]), ([m], True, [(True, 10), (False, n - 10)])]"


end
