(* ===== verification/Upstream_Properties.thy ===== *)
theory Upstream_Properties
  imports Subrequest
begin

text \<open>
  What sub-requests promise: a failed one is tried again at most as often as the configuration
  says (\<open>retries_bounded\<close>), its parent is woken by the last one to end and not before
  (\<open>last_subrequest_wakes_parent\<close>, on the invariant \<open>joined\<close>), and an upstream never has more
  connections than its limit.
\<close>

section \<open>What the pool of upstreams leaves alone\<close>

text \<open>Requests, protocol objects and the queue of the dispatcher.\<close>

definition same_requests :: "CoCycle \<Rightarrow> CoCycle \<Rightarrow> bool" where
  "same_requests cy cy' \<longleftrightarrow> cy_requests cy' = cy_requests cy \<and> cy_protocols cy' = cy_protocols cy \<and> cy_infos cy' = cy_infos cy
     \<and> cy_delayConnections cy' = cy_delayConnections cy \<and> cy_nextObject cy' = cy_nextObject cy"

lemma same_requests_refl [simp]: "same_requests cy cy"
  by (simp add: same_requests_def)

lemma same_requests_trans [trans]: "same_requests a b \<Longrightarrow> same_requests b c \<Longrightarrow> same_requests a c"
  by (simp add: same_requests_def)

lemma same_objects_requests: "same_objects a b \<Longrightarrow> same_requests a b"
  by (simp add: same_objects_def same_requests_def)

lemma same_requests_simple [simp]:
  "same_requests a (tick b) = same_requests a b" "same_requests a (upd_conn i f b) = same_requests a b"
  "same_requests a (upd_upstream name g b) = same_requests a b" "same_requests a (upd_control k h b) = same_requests a b"
  "same_requests a (b\<lparr>cy_pool := p\<rparr>) = same_requests a b" "same_requests a (b\<lparr>cy_interest := t\<rparr>) = same_requests a b"
  "same_requests a (b\<lparr>cy_sys := s\<rparr>) = same_requests a b" "same_requests a (b\<lparr>cy_tick := m\<rparr>) = same_requests a b"
  by (simp_all add: same_requests_def tick_def upd_conn_def upd_upstream_def upd_control_def)

lemma same_requests_events [simp]:
  "same_requests a (snd (modify_connection i e op b)) = same_requests a b" "same_requests a (snd (del_connection i b)) = same_requests a b"
  "same_requests a (set_timer i t ms b) = same_requests a b" "same_requests a (unset_timer i t b) = same_requests a b"
  "same_requests a (drop_timer i t b) = same_requests a b"
  using same_objects_requests [OF same_objects_modify [of b i e op]] same_objects_requests [OF same_objects_del [of b i]]
    same_objects_requests [OF same_objects_timer(1) [of b i t ms]] same_objects_requests [OF same_objects_timer(2) [of b i t]]
  by (auto simp: same_requests_def drop_timer_def)

lemma modify_listening_requests: "modify_listening k cy = Inr cy' \<Longrightarrow> same_requests cy cy'"
  by (auto simp: modify_listening_def Let_def split: if_splits option.splits)

lemma func_cleanup_requests: "func_cleanup i cy = Inr cy' \<Longrightarrow> same_requests cy cy'"
  by (auto simp: func_cleanup_def split: option.splits dest!: modify_listening_requests intro: same_requests_trans [rotated])

lemma run_cleanups_requests: "run_cleanups fs i cy = Inr cy' \<Longrightarrow> same_requests cy cy'"
proof (induction fs i cy rule: run_cleanups.induct)
  case (2 fs i cy)
  then obtain c where c: "func_cleanup i cy = Inr c" "run_cleanups fs i c = Inr cy'" by (auto simp: bindr_eq_Inr_conv)
  from same_requests_trans [OF func_cleanup_requests [OF c(1)] "2.IH" [OF c(2)]] show ?case .
qed simp

lemma free_connection_requests: "free_connection i cy = Inr cy' \<Longrightarrow> same_requests cy cy'"
proof -
  assume "free_connection i cy = Inr cy'"
  then obtain b c where c: "run_cleanups (cn_handlerCleanups (conn i b)) i b = Inr c" "cy' = c\<lparr>cy_pool := free_finish i (cy_pool c)\<rparr>" "same_requests cy b"
    by (auto simp: free_connection_def Let_def bindr_eq_Inr_conv)
  from same_requests_trans [OF c(3) run_cleanups_requests [OF c(1)]] c(2) show ?thesis by simp
qed

lemma cycle_get_ip_requests: "cycle_get_ip ip port l cy = Inr (r, cy') \<Longrightarrow> same_requests cy cy'"
  by (auto simp: cycle_get_ip_def bindr_eq_Inr_conv)

lemma upstream_new_requests: "upstream_new_connection name u b cy = Inr (r, cy') \<Longrightarrow> same_requests cy cy'"
  by (auto simp: upstream_new_connection_def Let_def bindr_eq_Inr_conv split: if_splits option.splits dest!: cycle_get_ip_requests)

lemma get_upstream_requests:
  assumes "get_upstream_connection name cy = Inr (r, cy')"
  shows "same_requests cy cy'"
proof -
  have b: "same_requests cy c" if "upstream_backend name u cy = Inr (b, c)" for u b c
    using that by (auto simp: upstream_backend_def bindr_eq_Inr_conv)
  have g: "same_requests cy c" if g: "upstream_get_connection name u cy = Inr (r, c)" for u r c
  proof -
    from g obtain bo c1 where c1: "upstream_backend name u cy = Inr (bo, c1)" by (auto simp: upstream_get_connection_def bindr_eq_Inr_conv)
    show ?thesis
    proof (cases bo)
      case None
      then show ?thesis using g c1 b [OF c1] by (simp add: upstream_get_connection_def)
    next
      case (Some k)
      let ?take = "case ups_reuseConnections u (serverkey_at u k) of
          i # _ \<Rightarrow> Inr (Some i, take_reused name (serverkey_at u k) c1) | [] \<Rightarrow> upstream_new_connection name u k c1"
      from g obtain x c2 where m: "?take = Inr (x, c2)"
        and e: "(case x of None \<Rightarrow> Inr (None, c2)
          | Some i \<Rightarrow> Inr (Some i, upd_conn i (\<lambda>c. c\<lparr>cn_upstream := Some name, cn_backend := Some k\<rparr>) c2)) = (Inr (r, c) :: (nat option \<times> CoCycle) res)"
        by (auto simp: upstream_get_connection_def c1 Some bindr_eq_Inr_conv)
      have "same_requests c1 c2"
      proof (cases "ups_reuseConnections u (serverkey_at u k)")
        case Nil
        then show ?thesis using m upstream_new_requests by simp
      next
        case (Cons j js)
        then show ?thesis using m by (auto simp: take_reused_def)
      qed
      with b [OF c1] have "same_requests cy c2" by (rule same_requests_trans)
      then show ?thesis using e by (cases x) auto
    qed
  qed
  show ?thesis using assms
    by (auto simp: get_upstream_connection_def bindr_eq_Inr_conv Let_def split: option.splits dest!: g)
qed

lemma free_upstream_requests:
  assumes "free_upstream_connection i ret cy = Inr cy'"
  shows "same_requests cy cy'"
proof -
  have k: "same_requests c (upstream_keep i name key c)" for name key c
    unfolding upstream_keep_def Let_def by simp
  have cl: "same_requests c c'" if "upstream_close i name c = Inr c'" for name c c'
    by (rule same_requests_trans [OF _ free_connection_requests [OF that [unfolded upstream_close_def]]]) simp
  have ch: "same_requests c c'" if "upstream_check i name u b r c = Inr (x, c')" for name u b r c x c'
    using that by (auto simp: upstream_check_def Let_def forget_reused_def backend_failed_def bindr_eq_Inr_conv split: if_splits)
  from assms obtain name u b x c where c: "upstream_check i name u b ret cy = Inr (x, c)"
    "(if x then upstream_close i name (drop_timer i EVENT_TYPE_WRITE (drop_timer i EVENT_TYPE_READ c))
      else Inr (upstream_keep i name (serverkey_at u b) (drop_timer i EVENT_TYPE_WRITE (drop_timer i EVENT_TYPE_READ c)))) = Inr cy'"
    by (auto simp: free_upstream_connection_def bindr_eq_Inr_conv Let_def)
  note s = ch [OF c(1)]
  show ?thesis
  proof (cases x)
    case True
    with c(2) have "upstream_close i name (drop_timer i EVENT_TYPE_WRITE (drop_timer i EVENT_TYPE_READ c)) = Inr cy'" by simp
    from same_requests_trans [OF _ cl [OF this]] s show ?thesis by simp
  next
    case False
    with c(2) have "cy' = upstream_keep i name (serverkey_at u b) (drop_timer i EVENT_TYPE_WRITE (drop_timer i EVENT_TYPE_READ c))" by simp
    then show ?thesis using same_requests_trans [OF _ k] s by simp
  qed
qed

section \<open>Retries\<close>

lemma delete_request_gone [simp]: "cy_requests (delete_request r cy) r = None"
proof -
  have i: "cy_requests (delete_info n c) = cy_requests c" for n c
    by (simp add: delete_info_def Let_def split: option.split)
  have "cy_requests (fold delete_info xs c) = cy_requests c" for xs c by (induction xs arbitrary: c) (simp_all add: i)
  then show ?thesis by (auto simp: delete_request_def Let_def split: option.split)
qed

lemma finalize_request_gone: "upstream_finalize_request w r ret cy = Inr cy' \<Longrightarrow> cy_requests cy' r = None"
  by (auto simp: upstream_finalize_request_def bindr_eq_Inr_conv Let_def)

lemma retry_outcome:
  assumes "retry_upstream w r name cy = Inr cy'" and "cy_requests cy r = Some q"
  shows "cy_requests cy' r = None \<or> (\<exists>q'. cy_requests cy' r = Some q' \<and> rq_retryTimes q' = rq_retryTimes q + 1)"
proof -
  let ?c = "upd_request r (\<lambda>q. q\<lparr>rq_retryTimes := rq_retryTimes q + 1\<rparr>) cy"
  obtain x c where g: "get_upstream_connection name ?c = Inr (x, c)" using assms(1) by (auto simp: retry_upstream_def bindr_eq_Inr_conv Let_def)
  have q: "cy_requests c r = Some (q\<lparr>rq_retryTimes := rq_retryTimes q + 1\<rparr>)"
    using get_upstream_requests [OF g] assms(2) by (simp add: same_requests_def upd_request_def)
  show ?thesis
  proof (cases x)
    case None
    then have "upstream_finalize_request w r CO_ERROR (upd_request r (\<lambda>q. q\<lparr>rq_connection := None\<rparr>) c) = Inr cy'"
      using assms(1) g by (simp add: retry_upstream_def Let_def)
    then show ?thesis by (auto dest: finalize_request_gone)
  next
    case (Some i)
    then show ?thesis using assms(1) g q
      by (auto simp: retry_upstream_def Let_def bindr_eq_Inr_conv request_reset_connection_def upd_request_def upd_conn_def
          push_delay_def upd_protocol_def)
  qed
qed

text \<open>C29: A sub-request that ends is gone, or it is tried again: then it failed, its connection's parent was
  not dying, and its number of retries has grown by one and is at most the configured maximum. So every
  sub-request ends after at most \<open>m_retryMaxnum\<close> retries, whatever the servers and the kernel do.\<close>

theorem retries_bounded:
  assumes "upstream_finalize w r ret cy = Inr cy'" and "cy_requests cy r = Some q" and "rq_connection q = Some i"
    and "cn_upstream (conn i cy) = Some name" and "find_upstream name cy = Some u"
  shows "cy_requests cy' r = None
    \<or> (\<exists>q'. cy_requests cy' r = Some q' \<and> rq_retryTimes q' = rq_retryTimes q + 1 \<and> rq_retryTimes q' \<le> up_retryMaxnum (ups_confUpstream u)
         \<and> ret \<noteq> CO_OK \<and> \<not> cn_flagParentDying (conn i cy))"
proof (cases "\<not> cn_flagParentDying (conn i cy) \<and> ret \<noteq> CO_OK \<and> up_retryMaxnum (ups_confUpstream u) > rq_retryTimes q")
  case True
  then obtain c where c: "free_upstream_connection i ret cy = Inr c" "retry_upstream w r (up_name (ups_confUpstream u)) c = Inr cy'"
    using assms by (auto simp: upstream_finalize_def request_of_def deref_def the_ref_def bindr_eq_Inr_conv)
  have "cy_requests c r = Some q" using free_upstream_requests [OF c(1)] assms(2) by (simp add: same_requests_def)
  from retry_outcome [OF c(2) this] True show ?thesis by auto
next
  case False
  then obtain c where c: "upstream_finalize_request w r ret cy = Inr c" "free_upstream_connection i ret c = Inr cy'"
    using assms by (auto simp: upstream_finalize_def request_of_def deref_def the_ref_def bindr_eq_Inr_conv)
  then show ?thesis using finalize_request_gone [OF c(1)] free_upstream_requests [OF c(2)] by (simp add: same_requests_def)
qed

section \<open>Joining sub-requests\<close>

text \<open>The counter of a request agrees with its pending sub-requests.\<close>

definition pending :: "nat \<Rightarrow> CoCycle \<Rightarrow> (nat \<times> nat) list" where
  "pending p cy = (case cy_requests cy p of None \<Rightarrow> [] | Some q \<Rightarrow> rq_upstreamRequests q)"

definition joined :: "nat \<Rightarrow> CoCycle \<Rightarrow> bool" where
  "joined p cy \<longleftrightarrow> (\<exists>q. cy_requests cy p = Some q \<and> rq_count q = 1 + int (length (rq_upstreamRequests q))
     \<and> distinct (map fst (rq_upstreamRequests q)))"

lemma length_filter_key:
  assumes "distinct (map fst xs)" and "(k, v) \<in> set xs"
  shows "length (filter (\<lambda>(k', _). k' \<noteq> k) xs) = length xs - 1"
  using assms
proof (induction xs)
  case (Cons x xs)
  show ?case
  proof (cases "fst x = k")
    case True
    then have "k \<notin> fst ` set xs" using Cons.prems(1) by auto
    then have "filter (\<lambda>(k', _). k' \<noteq> k) xs = xs" by (intro filter_True) force
    then show ?thesis using True by (cases x) simp
  next
    case False
    then have m: "(k, v) \<in> set xs" using Cons.prems(2) by (cases x) auto
    then have "0 < length xs" by (cases xs) auto
    then show ?thesis using False Cons.IH m Cons.prems(1) by (cases x) simp
  qed
qed simp

lemma delete_request_others:
  assumes "r \<noteq> p"
  shows "cy_requests (delete_request r cy) p = cy_requests cy p" and "cy_delayConnections (delete_request r cy) = cy_delayConnections cy"
proof -
  have i: "cy_requests (delete_info n c) = cy_requests c \<and> cy_delayConnections (delete_info n c) = cy_delayConnections c" for n c
    by (simp add: delete_info_def Let_def split: option.split)
  have "cy_requests (fold delete_info xs c) = cy_requests c \<and> cy_delayConnections (fold delete_info xs c) = cy_delayConnections c" for xs c
    by (induction xs arbitrary: c) (simp_all add: i)
  then show "cy_requests (delete_request r cy) p = cy_requests cy p" "cy_delayConnections (delete_request r cy) = cy_delayConnections cy"
    using assms by (auto simp: delete_request_def Let_def split: option.split)
qed

lemma leave_parent_ok:
  assumes p: "rq_parent q = Some p" and j: "joined p cy" and i: "cy_requests cy p = Some parent" "rq_connection parent = Some i"
    and m: "(rq_requestId q, r) \<in> set (pending p cy)" and l: "leave_parent q cy = Inr cy'"
  shows "joined p cy' \<and> pending p cy' = filter (\<lambda>(k, _). k \<noteq> rq_requestId q) (pending p cy)
    \<and> cy_delayConnections cy' = cy_delayConnections cy @ (if pending p cy' = [] then [(i, cn_version (conn i cy))] else [])"
proof -
  let ?xs = "rq_upstreamRequests parent"
  let ?ys = "filter (\<lambda>(k, _). k \<noteq> rq_requestId q) ?xs"
  have c: "rq_count parent = 1 + int (length ?xs)" "distinct (map fst ?xs)" and m': "(rq_requestId q, r) \<in> set ?xs"
    using j i(1) m by (auto simp: joined_def pending_def)
  have len: "length ?ys = length ?xs - 1" "0 < length ?xs" using length_filter_key [OF c(2) m'] m' by auto
  let ?c = "upd_request p (\<lambda>x. x\<lparr>rq_upstreamRequests := filter (\<lambda>(k, _). k \<noteq> rq_requestId q) (rq_upstreamRequests x),
    rq_count := rq_count x - 1\<rparr>) cy"
  have d: "distinct (map fst ?ys)" using c(2) by (auto simp: distinct_map inj_on_def)
  have z: "?ys = [] \<longleftrightarrow> length ?ys = 0" by (simp only: length_0_conv)
  have e: "rq_count parent - 1 = 1 \<longleftrightarrow> ?ys = []" unfolding z len(1) using c(1) len(2) by linarith
  have l': "cy' = (if ?ys = [] then push_delay i ?c else ?c)"
    using l p i e by (auto simp: leave_parent_def the_ref_def request_of_def deref_def Let_def split: if_splits)
  have q: "cy_requests cy' p = Some (parent\<lparr>rq_upstreamRequests := ?ys, rq_count := rq_count parent - 1\<rparr>)"
    using i(1) unfolding l' by (simp add: push_delay_def upd_request_def)
  have pend: "pending p cy' = ?ys" by (simp add: pending_def q)
  have "cy_delayConnections cy' = cy_delayConnections cy @ (if ?ys = [] then [(i, cn_version (conn i cy))] else [])"
    unfolding l' by (simp add: push_delay_def upd_request_def conn_def)
  moreover have "rq_count parent - 1 = 1 + int (length ?ys)" unfolding len(1) using c(1) len(2) by linarith
  then have "joined p cy'" using d unfolding joined_def q by simp
  ultimately show ?thesis unfolding pend using i(1) by (simp add: pending_def)
qed

lemma subrequest_leaves:
  assumes "upstream_finalize_request w r ret cy = Inr cy'" and "cy_requests cy r = Some q" and "\<not> detached q" and "rq_userDestroy q = None"
    and "rq_parent q = Some p" and "p \<noteq> r" and "joined p cy" and "(rq_requestId q, r) \<in> set (pending p cy)"
    and "cy_requests cy p = Some parent" and "rq_connection parent = Some i"
  shows "cy_requests cy' r = None \<and> joined p cy' \<and> pending p cy' = filter (\<lambda>(k, _). k \<noteq> rq_requestId q) (pending p cy)
    \<and> cy_delayConnections cy' = cy_delayConnections cy @ (if pending p cy' = [] then [(i, cn_version (conn i cy))] else [])"
proof -
  obtain n where n: "rq_upstreamInfo q = Some n" using assms(1,2)
    by (cases "rq_upstreamInfo q") (auto simp: upstream_finalize_request_def request_of_def deref_def)
  let ?c = "tick (upd_info n (\<lambda>u. u\<lparr>ui_useTimeUs := elapsed_us rq_startUs q cy mod 4294967296, ui_status := ret\<rparr>) cy)"
  have f: "cy_requests ?c = cy_requests cy" "cy_delayConnections ?c = cy_delayConnections cy" "conn i ?c = conn i cy"
    by (simp_all add: tick_def upd_info_def conn_def)
  obtain c where c: "leave_parent q ?c = Inr c" "cy' = delete_request r c"
    using assms(1-4) n f(1) by (auto simp: upstream_finalize_request_def request_of_def deref_def the_ref_def call_destroy_def bindr_eq_Inr_conv Let_def
        split: option.splits)
  have j: "joined p ?c" "cy_requests ?c p = Some parent" "(rq_requestId q, r) \<in> set (pending p ?c)"
    using assms(7-9) f(1) by (simp_all add: joined_def pending_def)
  note l = leave_parent_ok [OF assms(5) j(1,2) assms(10) j(3) c(1)]
  have "r \<noteq> p" using assms(6) by simp
  note d = delete_request_others [OF this, of c]
  have pe: "pending p cy' = pending p c" "joined p cy' = joined p c" using d(1) c(2) by (simp_all add: pending_def joined_def)
  show ?thesis using l d(2) c(2) f unfolding pe by (simp add: pending_def)
qed

text \<open>C12: When a sub-request of a request ends, well or not, it leaves its parent, the parent's counter stays one more
  than the number of sub-requests still pending, and the parent's connection goes into the
  dispatcher's queue exactly when none is left: \<open>run_upstreams\<close> is woken by the last of them and
  by no other.\<close>

theorem last_subrequest_wakes_parent:
  assumes "upstream_finalize_request w r ret cy = Inr cy'" and "cy_requests cy r = Some q" and "\<not> detached q" and "rq_userDestroy q = None"
    and "rq_parent q = Some p" and "p \<noteq> r" and "joined p cy" and "(rq_requestId q, r) \<in> set (pending p cy)"
    and "cy_requests cy p = Some parent" and "rq_connection parent = Some i"
  shows "cy_requests cy' r = None \<and> joined p cy' \<and> pending p cy' = filter (\<lambda>(k, _). k \<noteq> rq_requestId q) (pending p cy)
    \<and> cy_delayConnections cy' = cy_delayConnections cy @ (if pending p cy' = [] then [(i, cn_version (conn i cy))] else [])"
  by (rule subrequest_leaves [OF assms])

lemma co_request_init_others:
  assumes "co_request_init u i t (Some n) cy = Inr (ret, cy')"
  shows "p \<noteq> u \<Longrightarrow> cy_requests cy' p = cy_requests cy p" and "ret = CO_OK"
    and "cy_requests cy u \<noteq> None \<Longrightarrow> (\<exists>q. cy_requests cy' u = Some q \<and> rq_requestId q = (cy_requestId cy + 1) mod u64_mod mod 4294967296)"
proof -
  let ?c = "upd_conn i (\<lambda>c. c\<lparr>cn_request := Some u, cn_requestCount := cn_requestCount c + 1\<rparr>) cy"
  have s: "request_start u i n ?c = Inr (ret, cy')" using assms by (simp add: co_request_init_def Let_def)
  have "ret = CO_OK \<and> (\<forall>p. p \<noteq> u \<longrightarrow> cy_requests cy' p = cy_requests cy p)
    \<and> (cy_requests cy u \<noteq> None \<longrightarrow> (\<exists>q. cy_requests cy' u = Some q \<and> rq_requestId q = (cy_requestId cy + 1) mod u64_mod mod 4294967296))"
    using s unfolding request_start_def
    by (auto simp: bindr_eq_Inr_conv Let_def upd_request_def upd_conn_def upd_protocol_def tick_def split: option.splits)
  then show "p \<noteq> u \<Longrightarrow> cy_requests cy' p = cy_requests cy p" "ret = CO_OK"
    "cy_requests cy u \<noteq> None \<Longrightarrow> (\<exists>q. cy_requests cy' u = Some q \<and> rq_requestId q = (cy_requestId cy + 1) mod u64_mod mod 4294967296)"
    by auto
qed

text \<open>C31: A sub-request that \<open>add_upstream\<close> starts joins the pending ones of the request its caller handles: one
  more is pending, the counter is one higher, and the invariant \<open>joined\<close> is kept unless the 32-bit
  request number of the new one has wrapped round to that of a pending one.\<close>

theorem add_upstream_joins:
  assumes "add_upstream w d name t cy = Inr (CO_OK, cy')" and "cy_requests cy d = Some qd"
    and "cn_request (conn (fst (ud_coroutineData (rq_userData qd))) cy) = Some p" and "joined p cy"
    and "p < cy_nextObject cy"
  shows "\<exists>k u. pending p cy' = (k, u) # filter (\<lambda>(k', _). k' \<noteq> k) (pending p cy) \<and> u \<noteq> p
    \<and> (\<exists>q. cy_requests cy' u = Some q \<and> rq_parent q = Some p \<and> rq_requestId q = k \<and> rq_userProcess q = None)
    \<and> (k \<notin> fst ` set (pending p cy) \<longrightarrow> joined p cy')"
proof -
  obtain c c1 where g: "get_upstream_connection name cy = Inr (c, c1)"
    using assms(1,2) by (auto simp: add_upstream_def request_of_def deref_def bindr_eq_Inr_conv Let_def)
  have same: "same_requests cy c1" by (rule get_upstream_requests [OF g])
  obtain i pr where i: "c = Some i" "create_protocol t = Some pr"
    using assms(1,2) g by (auto simp: add_upstream_def request_of_def deref_def bindr_eq_Inr_conv Let_def CO_OK_def CO_ERROR_def split: option.splits)
  define n where "n = cy_nextObject c1"
  define c2 where "c2 = snd (new_protocol_object pr c1)"
  define c3 where "c3 = snd (new_info_object n c2)"
  define c4 where "c4 = upd_request d (\<lambda>q. q\<lparr>rq_userData := (rq_userData q)\<lparr>ud_upstreamInfos := ud_upstreamInfos (rq_userData q) @ [n + 1]\<rparr>\<rparr>) c3"
  define c5 where "c5 = snd (new_request_object CO_REQUEST_UPSTREAM c4)"
  let ?u = "n + 2"
  have nums: "new_protocol_object pr c1 = (n, c2)" "new_info_object n c2 = (n + 1, c3)" "new_request_object CO_REQUEST_UPSTREAM c4 = (?u, c5)"
    by (simp_all add: n_def c2_def c3_def c4_def c5_def new_protocol_object_def new_info_object_def new_request_object_def new_object_def upd_request_def)
  have up: "?u \<noteq> p" using assms(5) same by (simp add: n_def same_requests_def)
  obtain parent where parent: "cy_requests cy p = Some parent" "rq_count parent = 1 + int (length (rq_upstreamRequests parent))"
    "distinct (map fst (rq_upstreamRequests parent))" using assms(4) by (auto simp: joined_def)
  have c5: "cy_requests c5 ?u = Some (new_co_request CO_REQUEST_UPSTREAM)"
    "\<exists>q. cy_requests c5 p = Some q \<and> rq_count q = rq_count parent \<and> rq_upstreamRequests q = rq_upstreamRequests parent"
    using same parent(1) up
    by (auto simp: c5_def c4_def c3_def c2_def n_def same_requests_def new_protocol_object_def new_info_object_def new_request_object_def new_object_def upd_request_def)
  obtain ret c6 where c6: "co_request_init ?u i t (Some n) c5 = Inr (ret, c6)"
    using assms(1,2) g i nums by (auto simp: add_upstream_def request_of_def deref_def bindr_eq_Inr_conv Let_def c4_def)
  note init = co_request_init_others [OF c6]
  obtain qu where qu: "cy_requests c6 ?u = Some qu" using init(3) c5(1) by auto
  let ?f = "\<lambda>q. q\<lparr>rq_userProcess := None, rq_parent := Some p, rq_upstreamInfo := Some (n + 1)\<rparr>"
  let ?c7 = "upd_request ?u ?f c6"
  obtain qp where qp: "cy_requests c6 p = Some qp" "rq_count qp = rq_count parent" "rq_upstreamRequests qp = rq_upstreamRequests parent"
    using init(1) [of p] up c5(2) by auto
  have u7: "request_of ?u ?c7 = Inr (?f qu)" "request_of p ?c7 = Inr qp"
    using qu qp(1) up by (simp_all add: request_of_def deref_def upd_request_def)
  have cy': "cy' = push_delay i (upd_request p (put_pending (rq_requestId (?f qu)) ?u) ?c7)"
    using assms(1-3) g i nums c6 init(2) u7
    by (simp add: add_upstream_def request_of_def deref_def the_ref_def Let_def c4_def CO_OK_def)
  let ?k = "rq_requestId qu"
  have res: "cy_requests cy' p = Some (put_pending ?k ?u qp)" "cy_requests cy' ?u = Some (?f qu)"
    using qp(1) qu up unfolding cy' by (auto simp: push_delay_def upd_request_def)
  have pend: "pending p cy' = (?k, ?u) # filter (\<lambda>(k', _). k' \<noteq> ?k) (pending p cy)"
    by (simp add: pending_def res(1) put_pending_def qp(3) parent(1))
  have "joined p cy'" if "?k \<notin> fst ` set (pending p cy)"
  proof -
    have "filter (\<lambda>(k', _). k' \<noteq> ?k) (rq_upstreamRequests parent) = rq_upstreamRequests parent"
      using that parent(1) by (intro filter_True) (force simp: pending_def)
    then show ?thesis using that parent unfolding joined_def res(1) by (simp add: put_pending_def qp pending_def)
  qed
  then show ?thesis using pend up res(2) by (intro exI [of _ ?k] exI [of _ ?u]) simp
qed

section \<open>The limit of an upstream\<close>

definition within_limits :: "CoCycle \<Rightarrow> bool" where
  "within_limits cy \<longleftrightarrow> distinct (map fst (cy_upstreams cy))
     \<and> (\<forall>(name, u)\<in>set (cy_upstreams cy). ups_curConnectionSize u \<le> up_maxConnections (ups_confUpstream u))"

lemma within_upd_upstream:
  assumes "within_limits cy"
    and "\<And>u. find_upstream name cy = Some u \<Longrightarrow> ups_curConnectionSize u \<le> up_maxConnections (ups_confUpstream u)
      \<Longrightarrow> ups_curConnectionSize (f u) \<le> up_maxConnections (ups_confUpstream (f u))"
  shows "within_limits (upd_upstream name f cy)"
proof -
  have k: "map fst (cy_upstreams (upd_upstream name f cy)) = map fst (cy_upstreams cy)" by (simp add: upd_upstream_def case_prod_beta)
  have "ups_curConnectionSize v \<le> up_maxConnections (ups_confUpstream v)" if m: "(key, v) \<in> set (cy_upstreams (upd_upstream name f cy))" for key v
  proof -
    from m obtain u where u: "(key, u) \<in> set (cy_upstreams cy)" "v = (if key = name then f u else u)" by (auto simp: upd_upstream_def)
    have l: "ups_curConnectionSize u \<le> up_maxConnections (ups_confUpstream u)" using assms(1) u(1) by (auto simp: within_limits_def)
    have "find_upstream key cy = Some u" using assms(1) u(1) by (simp add: within_limits_def find_upstream_def)
    then show ?thesis using assms(2) l u(2) by auto
  qed
  then show ?thesis using assms(1) k by (auto simp: within_limits_def)
qed

lemma within_upd_other:
  "within_limits cy \<Longrightarrow> (\<And>u. ups_curConnectionSize (f u) = ups_curConnectionSize u) \<Longrightarrow> (\<And>u. ups_confUpstream (f u) = ups_confUpstream u)
   \<Longrightarrow> within_limits (upd_upstream name f cy)"
  by (rule within_upd_upstream) simp_all

lemma within_tick: "within_limits (cy\<lparr>cy_tick := m\<rparr>) = within_limits cy" "within_limits (tick cy) = within_limits cy"
  by (simp_all add: within_limits_def tick_def)

lemma within_cong: "cy_upstreams cy' = cy_upstreams cy \<Longrightarrow> within_limits cy' = within_limits cy"
  by (simp add: within_limits_def)

lemma find_upd_upstream: "find_upstream name (upd_upstream name f cy) = map_option f (find_upstream name cy)"
proof -
  have "map_of (map (\<lambda>(k, u). (k, if k = name then f u else u)) xs) name = map_option f (map_of xs name)" for xs
    by (induction xs) auto
  then show ?thesis by (simp add: find_upstream_def upd_upstream_def)
qed

lemma upstreams_events [simp]:
  "cy_upstreams (snd (modify_connection i e op b)) = cy_upstreams b" "cy_upstreams (snd (del_connection i b)) = cy_upstreams b"
  "cy_upstreams (set_timer i t ms b) = cy_upstreams b" "cy_upstreams (unset_timer i t b) = cy_upstreams b"
  "cy_upstreams (drop_timer i t b) = cy_upstreams b" "cy_upstreams (upd_control k h b) = cy_upstreams b"
  "cy_upstreams (tick b) = cy_upstreams b" "cy_upstreams (upd_conn i g b) = cy_upstreams b"
  using same_objects_modify [of b i e op] same_objects_del [of b i] same_objects_timer(1) [of b i t ms] same_objects_timer(2) [of b i t]
  by (auto simp: same_objects_def drop_timer_def upd_control_def tick_def upd_conn_def)

lemma free_connection_upstreams: "free_connection i cy = Inr cy' \<Longrightarrow> cy_upstreams cy' = cy_upstreams cy"
proof -
  assume a: "free_connection i cy = Inr cy'"
  have m: "modify_listening k c = Inr c' \<Longrightarrow> cy_upstreams c' = cy_upstreams c" for k c c'
    by (auto simp: modify_listening_def Let_def split: if_splits option.splits)
  have f: "func_cleanup j c = Inr c' \<Longrightarrow> cy_upstreams c' = cy_upstreams c" for j c c'
    by (auto simp: func_cleanup_def split: option.splits dest!: m)
  have r: "run_cleanups fs j c = Inr c' \<Longrightarrow> cy_upstreams c' = cy_upstreams c" for fs j c c'
    by (induction fs j c rule: run_cleanups.induct) (auto simp: bindr_eq_Inr_conv dest!: f)
  from a obtain b c where "run_cleanups (cn_handlerCleanups (conn i b)) i b = Inr c" "cy' = c\<lparr>cy_pool := free_finish i (cy_pool c)\<rparr>"
    "cy_upstreams b = cy_upstreams cy"
    by (auto simp: free_connection_def Let_def bindr_eq_Inr_conv)
  with r show ?thesis by auto
qed

lemma get_within_limits:
  assumes "get_upstream_connection name cy = Inr (r, cy')" and "within_limits cy"
  shows "within_limits cy'"
proof (cases "find_upstream name cy")
  case None
  then show ?thesis using assms by (simp add: get_upstream_connection_def)
next
  case (Some u)
  obtain x c where g: "upstream_get_connection name u cy = Inr (x, c)" and e: "cy_upstreams cy' = cy_upstreams c"
    using assms(1) Some by (auto simp: get_upstream_connection_def bindr_eq_Inr_conv Let_def split: option.splits)
  obtain bo st c1 where c1: "upstream_backend name u cy = Inr (bo, c1)"
    "c1 = upd_upstream name (\<lambda>u. u\<lparr>ups_backendStrategy := st\<rparr>) (cy\<lparr>cy_tick := cy_tick cy + length (s_backends (ups_backendStrategy u))\<rparr>)"
    using g by (auto simp: upstream_get_connection_def upstream_backend_def bindr_eq_Inr_conv)
  have w1: "within_limits c1" unfolding c1(2) by (rule within_upd_other) (simp_all add: within_tick assms(2))
  have f1: "find_upstream name c1 = Some (u\<lparr>ups_backendStrategy := st\<rparr>)" using Some unfolding c1(2) find_upd_upstream by (simp add: find_upstream_def)
  have new: "within_limits c2" if n: "upstream_new_connection name u b c1 = Inr (y, c2)" for b y c2
  proof (cases "ups_curConnectionSize u \<ge> up_maxConnections (ups_confUpstream u)")
    case True
    then show ?thesis using n w1 by (simp add: upstream_new_connection_def)
  next
    case False
    then obtain z c3 where g3: "cycle_get_ip (us_host (b_confUpstreamServer (backend_at u b))) (word_of_int (us_port (b_confUpstreamServer (backend_at u b)))) False c1
        = Inr (z, c3)"
      using n by (auto simp: upstream_new_connection_def Let_def bindr_eq_Inr_conv)
    then have z: "cy_upstreams c3 = cy_upstreams c1" by (auto simp: cycle_get_ip_def bindr_eq_Inr_conv)
    have z2: "cy_upstreams c2 = cy_upstreams (case z of None \<Rightarrow> c3
        | Some _ \<Rightarrow> upd_upstream name (\<lambda>u. u\<lparr>ups_curConnectionSize := ups_curConnectionSize u + 1\<rparr>) c3)"
      using n False g3 by (auto simp: upstream_new_connection_def Let_def split: option.splits)
    have "within_limits c3" "find_upstream name c3 = Some (u\<lparr>ups_backendStrategy := st\<rparr>)"
      using w1 f1 z by (simp_all add: within_limits_def find_upstream_def)
    then have "within_limits (upd_upstream name (\<lambda>u. u\<lparr>ups_curConnectionSize := ups_curConnectionSize u + 1\<rparr>) c3)"
      using False by (intro within_upd_upstream) auto
    then show ?thesis using z z2 w1 by (cases z) (simp_all add: within_limits_def)
  qed
  have "within_limits c"
  proof (cases bo)
    case None
    then show ?thesis using g w1 by (simp add: upstream_get_connection_def c1(1))
  next
    case (Some k)
    show ?thesis
    proof (cases "ups_reuseConnections u (serverkey_at u k)")
      case Nil
      then obtain y c2 where y: "upstream_new_connection name u k c1 = Inr (y, c2)" "cy_upstreams c = cy_upstreams c2"
        using g Some by (auto simp: upstream_get_connection_def c1(1) bindr_eq_Inr_conv split: option.splits)
      from new [OF y(1)] within_cong [OF y(2)] show ?thesis by simp
    next
      case (Cons j js)
      then have "cy_upstreams c = cy_upstreams (take_reused name (serverkey_at u k) c1)"
        using g Some by (auto simp: upstream_get_connection_def c1(1))
      moreover have "within_limits (take_reused name (serverkey_at u k) c1)"
        unfolding take_reused_def by (rule within_upd_other [OF w1]) simp_all
      ultimately show ?thesis using within_cong by blast
    qed
  qed
  then show ?thesis using e by (simp add: within_limits_def)
qed

lemma free_within_limits:
  assumes "free_upstream_connection i ret cy = Inr cy'" and "within_limits cy"
  shows "within_limits cy'"
proof -
  from assms(1) obtain name u b x c where c: "find_upstream name cy = Some u" "upstream_check i name u b ret cy = Inr (x, c)"
    "(if x then upstream_close i name (drop_timer i EVENT_TYPE_WRITE (drop_timer i EVENT_TYPE_READ c))
      else Inr (upstream_keep i name (serverkey_at u b) (drop_timer i EVENT_TYPE_WRITE (drop_timer i EVENT_TYPE_READ c)))) = Inr cy'"
    by (auto simp: free_upstream_connection_def bindr_eq_Inr_conv Let_def the_ref_def split: option.splits)
  let ?d = "drop_timer i EVENT_TYPE_WRITE (drop_timer i EVENT_TYPE_READ c)"
  have "within_limits c" using c(2) assms(2)
    by (auto simp: upstream_check_def Let_def forget_reused_def backend_failed_def bindr_eq_Inr_conv within_tick
        intro!: within_upd_other split: if_splits)
  then have d: "within_limits ?d" by (simp add: within_limits_def)
  show ?thesis
  proof (cases x)
    case True
    then have "cy_upstreams cy' = cy_upstreams (upd_upstream name (\<lambda>u. u\<lparr>ups_curConnectionSize := ups_curConnectionSize u - 1\<rparr>) ?d)"
      using c(3) by (auto simp: upstream_close_def dest!: free_connection_upstreams)
    moreover have "within_limits (upd_upstream name (\<lambda>u. u\<lparr>ups_curConnectionSize := ups_curConnectionSize u - 1\<rparr>) ?d)"
      by (rule within_upd_upstream [OF d]) simp
    ultimately show ?thesis by (simp add: within_limits_def)
  next
    case False
    let ?c1 = "?d\<lparr>cy_pool := connection_reset True i (cy_pool ?d)\<rparr>"
    let ?c2 = "snd (modify_connection i EPOLL_EVENTS_DEL (CO_EVENT_IN OR CO_EVENT_OUT) ?c1)"
    let ?c3 = "set_timer i EVENT_TYPE_READ (cn_keepaliveTimeout (conn i ?c2)) ?c2"
    have "within_limits ?c3" using d by (simp add: within_limits_def)
    then have "within_limits (upd_upstream name (\<lambda>v. v\<lparr>ups_reuseConnections := (ups_reuseConnections v)
        (serverkey_at u b := i # ups_reuseConnections v (serverkey_at u b))\<rparr>) ?c3)"
      by (rule within_upd_other) simp_all
    then show ?thesis using c(3) False by (simp add: upstream_keep_def Let_def)
  qed
qed


section \<open>A request with a sub-request\<close>

text \<open>
  Connection 1 belongs to request 1, which waits for its only sub-request, request 2 on
  connection 3. The upstream has one server and keeps connection 5 for it.
\<close>

definition up_conf :: CoConfUpstream where
  "up_conf = new_conf_upstream\<lparr>up_name := ''up'', up_upstreamServers := [new_upstream_server ''10.0.0.1'' 80 1],
     up_connectionMaxRequest := 0, up_connectionMaxTime := 0\<rparr>"

definition family_cycle :: CoCycle where
  "family_cycle = small_cycle\<lparr>
     cy_pool := map_conn 3 (\<lambda>c. c\<lparr>cn_coTcp := new_tcp_fd 9, cn_upstream := Some ''up'', cn_backend := Some 0, cn_request := Some 2\<rparr>)
       (map_conn 1 (\<lambda>c. c\<lparr>cn_request := Some 1\<rparr>) (small_pool\<lparr>pl_freeConnections := [7], pl_innerSockets := {9}\<rparr>)),
     cy_requests := [1 \<mapsto> (new_co_request CO_REQUEST_NORMAL)\<lparr>rq_connection := Some 1, rq_count := 2, rq_upstreamRequests := [(7, 2)],
         rq_userData := new_user_data\<lparr>ud_upstreamInfos := [3], ud_coroutineData := (1, 0)\<rparr>\<rparr>,
       2 \<mapsto> (new_co_request CO_REQUEST_UPSTREAM)\<lparr>rq_connection := Some 3, rq_protocol := Some 4, rq_parent := Some 1,
         rq_upstreamInfo := Some 3, rq_requestId := 7\<rparr>],
     cy_infos := [3 \<mapsto> new_upstream_info 4], cy_protocols := [4 \<mapsto> HttpClient new_http_protocol], cy_nextObject := 5,
     cy_upstreams := [(''up'', (new_upstream up_conf)\<lparr>ups_backendStrategy := snd (add_backends up_conf (up_upstreamServers up_conf) new_strategy),
       ups_curConnectionSize := 2, ups_reuseConnections := \<lambda>_. [5]\<rparr>)]\<rparr>"

definition quiet_world :: world where
  "quiet_world = \<lparr>w_others = \<lambda>_ cy. cy, w_process = \<lambda>_ _ cy. Inr (0, cy), w_destroy = \<lambda>_ _ cy. Inr (0, cy), w_peer = \<lambda>_. None\<rparr>"

lemma family_cycle_conn:
  "conn 1 family_cycle = (hd (new_pair 0))\<lparr>cn_request := Some 1\<rparr>"
  "conn 3 family_cycle = (hd (new_pair 2))\<lparr>cn_coTcp := new_tcp_fd 9, cn_upstream := Some ''up'', cn_backend := Some 0, cn_request := Some 2\<rparr>"
  by (simp_all add: conn_def family_cycle_def map_conn_def get_connection_accord_id_def small_pool_connections new_pair_def)

lemma family_cycle_upstream:
  "find_upstream ''up'' family_cycle = Some ((new_upstream up_conf)\<lparr>ups_backendStrategy :=
     snd (add_backends up_conf (up_upstreamServers up_conf) new_strategy), ups_curConnectionSize := 2, ups_reuseConnections := \<lambda>_. [5]\<rparr>)"
  by (simp add: find_upstream_def family_cycle_def)

lemma last_subrequest_run: "\<exists>cy'. upstream_finalize_request w 2 CO_OK family_cycle = Inr cy'"
  by (simp add: family_cycle_def small_cycle_def upstream_finalize_request_def request_of_def deref_def the_ref_def call_destroy_def
      leave_parent_def upd_request_def upd_info_def tick_def new_co_request_def Let_def detached_def CO_REQUEST_UPSTREAM_def CO_REQUEST_DETACH_def)

theorem last_subrequest_wakes_parent_witness:
  "\<forall>w. \<exists>cy'. upstream_finalize_request w 2 CO_OK family_cycle = Inr cy' \<and> cy_requests cy' 2 = None \<and> pending 1 cy' = []
     \<and> cy_delayConnections cy' = [(1, 0)]"
proof
  fix w
  let ?parent = "(new_co_request CO_REQUEST_NORMAL)\<lparr>rq_connection := Some 1, rq_count := 2, rq_upstreamRequests := [(7, 2)],
         rq_userData := new_user_data\<lparr>ud_upstreamInfos := [3], ud_coroutineData := (1, 0)\<rparr>\<rparr>"
  let ?q = "(new_co_request CO_REQUEST_UPSTREAM)\<lparr>rq_connection := Some 3, rq_protocol := Some 4, rq_parent := Some 1,
         rq_upstreamInfo := Some 3, rq_requestId := 7\<rparr>"
  have q: "cy_requests family_cycle 2 = Some ?q" "cy_requests family_cycle 1 = Some ?parent" "cy_infos family_cycle 3 = Some (new_upstream_info 4)"
    "cy_delayConnections family_cycle = []" by (simp_all add: family_cycle_def small_cycle_def)
  have d: "\<not> detached ?q" by (simp add: detached_def new_co_request_def CO_REQUEST_UPSTREAM_def CO_REQUEST_DETACH_def)
  have f: "rq_userDestroy ?q = None" "rq_parent ?q = Some 1" "(1::nat) \<noteq> 2" "joined 1 family_cycle" "(rq_requestId ?q, 2) \<in> set (pending 1 family_cycle)"
    "rq_connection ?parent = Some 1"
    using q by (simp_all add: new_co_request_def joined_def pending_def)
  obtain cy' where r: "upstream_finalize_request w 2 CO_OK family_cycle = Inr cy'" using last_subrequest_run by blast
  from last_subrequest_wakes_parent [OF r q(1) d f(1-5) q(2) f(6)] q(2)
  have c: "cy_requests cy' 2 = None" "pending 1 cy' = []"
    "cy_delayConnections cy' = cy_delayConnections family_cycle @ [(1, cn_version (conn 1 family_cycle))]"
    by (simp_all add: pending_def new_co_request_def)
  have "cn_version (conn 1 family_cycle) = 0" unfolding family_cycle_conn by (simp add: new_pair_def new_connection_def)
  then show "\<exists>cy'. upstream_finalize_request w 2 CO_OK family_cycle = Inr cy' \<and> cy_requests cy' 2 = None \<and> pending 1 cy' = []
     \<and> cy_delayConnections cy' = [(1, 0)]"
    using r c q(4) by (intro exI [of _ cy']) simp
qed

lemma finalize_request_frame:
  assumes "upstream_finalize_request w r ret cy = Inr cy'" and "cy_requests cy r = Some q" and "rq_userDestroy q = None"
  shows "cy_pool cy' = cy_pool cy" and "cy_upstreams cy' = cy_upstreams cy"
proof -
  have i: "cy_pool (delete_info n c) = cy_pool c \<and> cy_upstreams (delete_info n c) = cy_upstreams c" for n c
    by (simp add: delete_info_def Let_def split: option.split)
  have "cy_pool (fold delete_info xs c) = cy_pool c \<and> cy_upstreams (fold delete_info xs c) = cy_upstreams c" for xs c
    by (induction xs arbitrary: c) (simp_all add: i)
  then have d: "cy_pool (delete_request r c) = cy_pool c \<and> cy_upstreams (delete_request r c) = cy_upstreams c" for c
    by (auto simp: delete_request_def Let_def split: option.split)
  have l: "leave_parent q c = Inr c' \<Longrightarrow> cy_pool c' = cy_pool c \<and> cy_upstreams c' = cy_upstreams c" for q c c'
  proof -
    assume "leave_parent q c = Inr c'"
    then obtain p f where "c' = upd_request p f c \<or> (\<exists>i. c' = push_delay i (upd_request p f c))"
      by (auto simp: leave_parent_def bindr_eq_Inr_conv Let_def split: if_splits)
    then show ?thesis by (auto simp: push_delay_def upd_request_def)
  qed
  obtain n where n: "rq_upstreamInfo q = Some n" using assms(1,2)
    by (cases "rq_upstreamInfo q") (auto simp: upstream_finalize_request_def request_of_def deref_def)
  let ?c = "tick (upd_info n (\<lambda>u. u\<lparr>ui_useTimeUs := elapsed_us rq_startUs q cy mod 4294967296, ui_status := ret\<rparr>) cy)"
  have f: "cy_requests ?c = cy_requests cy" "cy_pool ?c = cy_pool cy" "cy_upstreams ?c = cy_upstreams cy"
    by (simp_all add: tick_def upd_info_def)
  obtain c where c: "(if detached q then Inr ?c else leave_parent q ?c) = Inr c" "cy' = delete_request r c"
    using assms n f(1) by (auto simp: upstream_finalize_request_def request_of_def deref_def the_ref_def call_destroy_def bindr_eq_Inr_conv Let_def
        split: option.splits)
  have "cy_pool c = cy_pool cy \<and> cy_upstreams c = cy_upstreams cy"
    using c(1) f(2,3) l [of q ?c c] by (cases "detached q") auto
  then have "cy_pool cy' = cy_pool cy \<and> cy_upstreams cy' = cy_upstreams cy" using d c(2) by simp
  then show "cy_pool cy' = cy_pool cy" "cy_upstreams cy' = cy_upstreams cy" by simp_all
qed

theorem retries_bounded_witness:
  "\<exists>cy'. upstream_finalize quiet_world 2 CO_OK family_cycle = Inr cy' \<and> cy_requests cy' 2 = None"
proof -
  let ?q = "(new_co_request CO_REQUEST_UPSTREAM)\<lparr>rq_connection := Some 3, rq_protocol := Some 4, rq_parent := Some 1,
         rq_upstreamInfo := Some 3, rq_requestId := 7\<rparr>"
  let ?u = "(new_upstream up_conf)\<lparr>ups_backendStrategy := snd (add_backends up_conf (up_upstreamServers up_conf) new_strategy), ups_curConnectionSize := 2, ups_reuseConnections := \<lambda>_. [5]\<rparr>"
  have q: "cy_requests family_cycle 2 = Some ?q" "rq_connection ?q = Some 3" "rq_userDestroy ?q = None" "rq_retryTimes ?q = 0"
    by (simp_all add: family_cycle_def new_co_request_def)
  have c3: "cn_upstream (conn 3 family_cycle) = Some ''up''" "cn_backend (conn 3 family_cycle) = Some 0"
    unfolding family_cycle_conn by simp_all
  obtain c where c: "upstream_finalize_request quiet_world 2 CO_OK family_cycle = Inr c"
    using last_subrequest_run by blast
  note fr = finalize_request_frame [OF c q(1,3)]
  have f: "conn 3 c = conn 3 family_cycle" "find_upstream ''up'' c = Some ?u"
    using fr family_cycle_upstream by (simp_all add: conn_def find_upstream_def)
  have k: "upstream_check 3 ''up'' ?u 0 CO_OK c = Inr (False, c)"
    by (simp add: upstream_check_def used_up_def too_old_def CO_OK_def CO_EXCEPTION_def new_upstream_def up_conf_def Let_def)
  obtain cy' where fin: "free_upstream_connection 3 CO_OK c = Inr cy'"
    using f c3 k by (simp add: free_upstream_connection_def the_ref_def Let_def)
  have run: "upstream_finalize quiet_world 2 CO_OK family_cycle = Inr cy'"
    using q c3 c fin family_cycle_upstream by (simp add: upstream_finalize_def request_of_def deref_def the_ref_def)
  from retries_bounded [OF run q(1,2) c3(1) family_cycle_upstream] run show ?thesis by auto
qed


lemma up_strategy: "snd (add_backends up_conf (up_upstreamServers up_conf) new_strategy) = \<lparr>s_totalWeight = 0, s_weighted = False,
    s_curBackendsIndex = 0, s_backends = [\<lparr>b_confUpstreamServer = new_upstream_server ''10.0.0.1'' 80 1, b_confFailTime = 5000, b_confFailNum = 10,
      b_fail = False, b_failCheck = True, b_errNum = 0, b_errFirstTimestamp = 0, b_downTimestamp = 0, b_weight = 0, b_currentWeight = 0, b_effectiveWeight = 1\<rparr>]\<rparr>"
  by (simp add: up_conf_def new_conf_upstream_def add_backend_def new_strategy_def Let_def new_upstream_server_def UPSTREAM_FAIL_TIMEOUT_def UPSTREAM_FAIL_MAX_NUM_def CO_OK_def)

lemma family_cycle_get:
  obtains c where "get_upstream_connection ''up'' family_cycle = Inr (Some 5, c)" "cn_serverControl (conn 5 c) = None" "valid_id 5 c"
proof -
  have v: "valid_id 5 family_cycle" by (simp add: valid_id_def family_cycle_def small_pool_free)
  have s: "cn_serverControl (conn 5 family_cycle) = None"
    by (simp add: conn_def family_cycle_def map_conn_def get_connection_accord_id_def small_pool_connections new_pair_def new_connection_def)
  obtain b where b: "upstream_backend ''up'' ((new_upstream up_conf)\<lparr>ups_backendStrategy :=
      snd (add_backends up_conf (up_upstreamServers up_conf) new_strategy), ups_curConnectionSize := 2, ups_reuseConnections := \<lambda>_. [5]\<rparr>) family_cycle
      = Inr (Some 0, b)" "cy_pool b = cy_pool family_cycle"
    unfolding up_strategy by (simp add: upstream_backend_def get_backend_def choose_one_def avaliable_def upd_upstream_def u64_add_def)
  have vb: "valid_id 5 b" "cn_serverControl (conn 5 b) = None" using v s b(2) by (simp_all add: valid_id_def conn_def)
  let ?t = "\<lambda>key. take_reused ''up'' key b"
  have t: "valid_id 5 (?t key)" "conn 5 (?t key) = conn 5 b" for key
    using vb(1) by (simp_all add: take_reused_def upd_upstream_def valid_id_def conn_def)
  let ?g = "\<lambda>key. upd_conn 5 (\<lambda>c. c\<lparr>cn_scoketConnTimeout := up_connTimeout up_conf, cn_socketRcvTimeout := up_readTimeout up_conf,
    cn_socketSndTimeout := up_writeTimeout up_conf, cn_keepaliveTimeout := up_keepaliveTimeout up_conf, cn_handler := H_UPSTREAM_INIT\<rparr>)
    (upd_conn 5 (\<lambda>c. c\<lparr>cn_upstream := Some ''up'', cn_backend := Some 0\<rparr>) (?t key))"
  obtain key where "get_upstream_connection ''up'' family_cycle = Inr (Some 5, ?g key)"
    using b(1) by (simp add: get_upstream_connection_def family_cycle_upstream upstream_get_connection_def new_upstream_def Let_def)
  moreover have "cn_serverControl (conn 5 (?g key)) = None \<and> valid_id 5 (?g key)" for key
    using t vb by simp
  ultimately show ?thesis using that by blast
qed

lemma request_start_ok:
  assumes "cn_serverControl (conn i cy) = None" "cy_protocols cy n = Some p"
  shows "\<exists>cy'. request_start r i n cy = Inr (CO_OK, cy') \<and> dom (cy_requests cy') = dom (cy_requests cy)"
proof -
  have d: "dom (cy_requests (upd_request r f c)) = dom (cy_requests c)" for f c
    by (auto simp: upd_request_def dom_def)
  have c: "conn i (upd_request r f c) = conn i c" "conn i (upd_protocol n x c) = conn i c" "conn i (tick c) = conn i c"
    "conn i (cy_requestId_update g c) = conn i c" for f c x g
    by (simp_all add: conn_def upd_request_def upd_protocol_def tick_def)
  have q: "cy_requests (upd_protocol n x c) = cy_requests c" "cy_requests (tick c) = cy_requests c" for x c
    by (simp_all add: upd_protocol_def tick_def)
  show ?thesis using assms by (simp add: request_start_def deref_def Let_def c d q)
qed

lemma request_init_ok:
  assumes "valid_id i cy" "cn_serverControl (conn i cy) = None" "cy_protocols cy n = Some p"
  shows "\<exists>cy'. co_request_init r i t (Some n) cy = Inr (CO_OK, cy') \<and> dom (cy_requests cy') = dom (cy_requests cy)"
proof -
  let ?c = "upd_conn i (\<lambda>c. c\<lparr>cn_request := Some r, cn_requestCount := cn_requestCount c + 1\<rparr>) cy"
  have "cn_serverControl (conn i ?c) = None" using assms(1,2) by simp
  moreover have "cy_protocols ?c n = Some p" "cy_requests ?c = cy_requests cy" using assms(3) by (simp_all add: upd_conn_def)
  ultimately show ?thesis using request_start_ok [of i ?c n p r] by (simp add: co_request_init_def)
qed

lemma add_upstream_run:
  assumes "request_of d cy = Inr qd" "cn_request (conn (fst (ud_coroutineData (rq_userData qd))) cy) = Some r"
    and "get_upstream_connection name cy = Inr (Some i, c1)" "create_protocol t = Some p"
    and "new_protocol_object p c1 = (n, c2)" "new_info_object n c2 = (info, c3)"
    and "new_request_object CO_REQUEST_UPSTREAM (upd_request d (\<lambda>q. q\<lparr>rq_userData := (rq_userData q)
           \<lparr>ud_upstreamInfos := ud_upstreamInfos (rq_userData q) @ [info]\<rparr>\<rparr>) c3) = (u, c4)"
    and "co_request_init u i t (Some n) c4 = Inr (CO_OK, c5)" "r \<in> dom (cy_requests c5)" "u \<in> dom (cy_requests c5)"
  shows "\<exists>cy'. add_upstream w d name t cy = Inr (CO_OK, cy')"
proof -
  have q: "\<exists>q. request_of x (upd_request u f c5) = Inr q" if "x \<in> dom (cy_requests c5)" for x f
    using that by (auto simp: request_of_def deref_def upd_request_def dom_def)
  let ?c = "upd_request u (\<lambda>q. q\<lparr>rq_userProcess := None, rq_parent := Some r, rq_upstreamInfo := Some info\<rparr>) c5"
  obtain q1 q7 where "request_of r ?c = Inr q1" "request_of u ?c = Inr q7" using q assms(9,10) by blast
  then show ?thesis by (simp add: add_upstream_def assms(1-8) the_ref_def)
qed

lemma family_cycle_add:
  "\<exists>cy'. add_upstream w 1 ''up'' PROTOCOL_HTTP_CLIENT family_cycle = Inr (CO_OK, cy')"
proof -
  let ?parent = "(new_co_request CO_REQUEST_NORMAL)\<lparr>rq_connection := Some 1, rq_count := 2, rq_upstreamRequests := [(7, 2)],
         rq_userData := new_user_data\<lparr>ud_upstreamInfos := [3], ud_coroutineData := (1, 0)\<rparr>\<rparr>"
  obtain c where c: "get_upstream_connection ''up'' family_cycle = Inr (Some 5, c)" "cn_serverControl (conn 5 c) = None" "valid_id 5 c"
    by (rule family_cycle_get)
  have same: "cy_requests c 1 = Some ?parent" "cy_nextObject c = 5"
    using get_upstream_requests [OF c(1)] by (simp_all add: same_requests_def family_cycle_def)
  have p: "create_protocol PROTOCOL_HTTP_CLIENT = Some (HttpClient new_http_protocol)" by (simp add: create_protocol_def config_constants)
  have r: "request_of 1 family_cycle = Inr ?parent" "cn_request (conn 1 family_cycle) = Some 1"
    unfolding family_cycle_conn by (simp_all add: request_of_def deref_def family_cycle_def)
  let ?i = "\<lambda>d. co_request_init 7 5 PROTOCOL_HTTP_CLIENT (Some 5) d"
  define d where "d = snd (new_request_object CO_REQUEST_UPSTREAM (upd_request 1 (\<lambda>q. q\<lparr>rq_userData := (rq_userData q)
      \<lparr>ud_upstreamInfos := ud_upstreamInfos (rq_userData q) @ [6]\<rparr>\<rparr>)
      (snd (new_info_object 5 (snd (new_protocol_object (HttpClient new_http_protocol) c))))))"
  have dd: "valid_id 5 d" "cn_serverControl (conn 5 d) = None" "cy_protocols d 5 = Some (HttpClient new_http_protocol)"
    "cy_requests d 7 = Some (new_co_request CO_REQUEST_UPSTREAM)" "cy_requests d 1 \<noteq> None"
    using c(2,3) same by (simp_all add: d_def new_request_object_def new_info_object_def new_protocol_object_def new_object_def upd_request_def valid_id_def conn_def)
  obtain d' where d': "?i d = Inr (CO_OK, d')" "dom (cy_requests d') = dom (cy_requests d)"
    using request_init_ok [OF dd(1-3)] by blast
  have o: "new_object x = (cy_nextObject x, snd (new_object x))" "cy_nextObject (snd (new_object x)) = cy_nextObject x + 1" for x
    by (simp_all add: new_object_def)
  have num: "new_protocol_object p x = (cy_nextObject x, snd (new_protocol_object p x))"
    "new_info_object n x = (cy_nextObject x, snd (new_info_object n x))"
    "new_request_object t x = (cy_nextObject x, snd (new_request_object t x))"
    "cy_nextObject (snd (new_protocol_object p x)) = cy_nextObject x + 1"
    "cy_nextObject (snd (new_info_object n x)) = cy_nextObject x + 1"
    "cy_nextObject (upd_request r f x) = cy_nextObject x" for p x n t r f
    by (simp_all add: new_request_object_def new_info_object_def new_protocol_object_def new_object_def upd_request_def)
  let ?c2 = "snd (new_protocol_object (HttpClient new_http_protocol) c)"
  let ?c3 = "snd (new_info_object 5 ?c2)"
  have n: "new_protocol_object (HttpClient new_http_protocol) c = (5, ?c2)" "new_info_object 5 ?c2 = (6, ?c3)"
    using num(1) [of _ c] num(2) [of _ ?c2] num(4,5) same(2) by simp_all
  have nd: "new_request_object CO_REQUEST_UPSTREAM (upd_request 1 (\<lambda>q. q\<lparr>rq_userData := (rq_userData q)
      \<lparr>ud_upstreamInfos := ud_upstreamInfos (rq_userData q) @ [6]\<rparr>\<rparr>) ?c3) = (7, d)"
    unfolding d_def by (rule trans [OF num(3)], rule arg_cong2 [where f = Pair]) (simp_all add: num(4-6) same(2))
  have m: "1 \<in> dom (cy_requests d')" "7 \<in> dom (cy_requests d')" unfolding d'(2) using dd(4,5) by (simp_all add: domIff)
  have u: "cn_request (conn (fst (ud_coroutineData (rq_userData ?parent))) family_cycle) = Some 1" using r(2) by simp
  show ?thesis by (rule add_upstream_run [OF r(1) u c(1) p n nd d'(1) m])
qed

theorem add_upstream_joins_witness:
  "\<forall>w. \<exists>cy' k u. add_upstream w 1 ''up'' PROTOCOL_HTTP_CLIENT family_cycle = Inr (CO_OK, cy')
     \<and> pending 1 cy' = (k, u) # filter (\<lambda>(k', _). k' \<noteq> k) [(7, 2)] \<and> u \<noteq> 1"
proof
  fix w
  let ?parent = "(new_co_request CO_REQUEST_NORMAL)\<lparr>rq_connection := Some 1, rq_count := 2, rq_upstreamRequests := [(7, 2)],
         rq_userData := new_user_data\<lparr>ud_upstreamInfos := [3], ud_coroutineData := (1, 0)\<rparr>\<rparr>"
  obtain cy' where a: "add_upstream w 1 ''up'' PROTOCOL_HTTP_CLIENT family_cycle = Inr (CO_OK, cy')" using family_cycle_add by blast
  have q: "cy_requests family_cycle 1 = Some ?parent" "1 < cy_nextObject family_cycle" by (simp_all add: family_cycle_def)
  have f: "cn_request (conn (fst (ud_coroutineData (rq_userData ?parent))) family_cycle) = Some 1"
    using family_cycle_conn(1) by simp
  have j: "joined 1 family_cycle" "pending 1 family_cycle = [(7, 2)]" using q by (simp_all add: joined_def pending_def)
  from add_upstream_joins [OF a q(1) f j(1) q(2)] j(2) a
  show "\<exists>cy' k u. add_upstream w 1 ''up'' PROTOCOL_HTTP_CLIENT family_cycle = Inr (CO_OK, cy')
     \<and> pending 1 cy' = (k, u) # filter (\<lambda>(k', _). k' \<noteq> k) [(7, 2)] \<and> u \<noteq> 1" by metis
qed

end
