(* ===== verification/Dispatcher_Properties.thy ===== *)
theory Dispatcher_Properties
  imports Dispatcher Upstream_Properties
begin

text \<open>
  What the event loop guarantees: the queues are empty when it waits for the kernel again (and are
  not in a thread whose \<open>needContinue\<close> the shared lambda misses), their entries are handled in
  order, notices about a connection that has been given back are ignored, and a request that is
  torn down takes its sub-requests with it.
\<close>

section \<open>Emptying a queue\<close>

text \<open>
  The contract of a work queue: a field that can be read and written, and handlers that report in
  their flag whether they ran anything.
\<close>

locale work_queue =
  fixes get :: "CoCycle \<Rightarrow> (nat \<times> 32 word) list"
    and put :: "(nat \<times> 32 word) list \<Rightarrow> CoCycle \<Rightarrow> CoCycle"
    and handle :: "nat \<times> 32 word \<Rightarrow> bool \<Rightarrow> CoCycle \<Rightarrow> (bool \<times> CoCycle) res"
  assumes get_put: "get (put q cy) = q"
    and put_get: "put (get cy) cy = cy"
    and put_put: "put q (put q' cy) = put q cy"
    and quiet: "handle d go cy = Inr (False, cy') \<Longrightarrow> \<not> go \<and> cy' = cy"
begin

lemma drained:
  "drain get put handle st = Some (Inr st') \<Longrightarrow>
   get (snd st') = [] \<and> (\<not> fst st' \<longrightarrow> \<not> fst st \<and> snd st' = put [] (snd st))"
proof (rule drain.raw_induct [where P = "\<lambda>g p h st r. g = get \<longrightarrow> p = put \<longrightarrow> h = handle \<longrightarrow> (\<forall>st'. r = Inr st' \<longrightarrow>
    get (snd st') = [] \<and> (\<not> fst st' \<longrightarrow> \<not> fst st \<and> snd st' = put [] (snd st)))", rule_format, OF _ _ refl refl refl refl])
  fix run g p h st r st'
  assume IH: "\<And>g p h st r st'. run g p h st = Some r \<Longrightarrow> g = get \<Longrightarrow> p = put \<Longrightarrow> h = handle \<Longrightarrow> r = Inr st' \<Longrightarrow>
      get (snd st') = [] \<and> (\<not> fst st' \<longrightarrow> \<not> fst st \<and> snd st' = put [] (snd st))"
    and r: "(case g (snd st) of [] \<Rightarrow> Some (Inr st)
      | d # ds \<Rightarrow> (case h d (fst st) (p ds (snd st)) of Inl e \<Rightarrow> Some (Inl e) | Inr st \<Rightarrow> run g p h st)) = Some r"
    and e: "g = get" "p = put" "h = handle" "r = Inr st'"
  show "get (snd st') = [] \<and> (\<not> fst st' \<longrightarrow> \<not> fst st \<and> snd st' = put [] (snd st))"
  proof (cases "get (snd st)")
    case Nil
    then have "st' = st" using r e by simp
    then show ?thesis using Nil put_get [of "snd st"] by simp
  next
    case (Cons d ds)
    then obtain st1 where h: "handle d (fst st) (put ds (snd st)) = Inr st1" "run get put handle st1 = Some (Inr st')"
      using r e by (auto split: sum.splits)
    note i = IH [OF h(2) refl refl refl refl]
    show ?thesis
    proof (cases "fst st'")
      case False
      then have "\<not> fst st1" "snd st' = put [] (snd st1)" using i by auto
      moreover then have "\<not> fst st \<and> snd st1 = put ds (snd st)" using quiet [of d "fst st" "put ds (snd st)" "snd st1"] h(1)
        by (cases st1) auto
      ultimately show ?thesis using i put_put by simp
    qed (use i in simp)
  qed
qed

end

lemma resume_quiet:
  assumes "resume_process (s\<lparr>sd_shared := True\<rparr>) d go cy = Inr (False, cy')"
  shows "\<not> go \<and> cy' = cy"
  using assms by (auto simp: resume_process_def bindr_eq_Inr_conv split: prod.splits if_splits)

interpretation delays: work_queue cy_delayConnections "\<lambda>q cy. cy\<lparr>cy_delayConnections := q\<rparr>"
    "resume_process (s\<lparr>sd_shared := True\<rparr>)" for s
  by unfold_locales (auto dest: resume_quiet)

interpretation resumes: work_queue cy_waitResumes "\<lambda>q cy. cy\<lparr>cy_waitResumes := q\<rparr>"
    "resume_process (s\<lparr>sd_shared := True\<rparr>)" for s
  by unfold_locales (auto dest: resume_quiet)

interpretation singles: work_queue cy_waitSingles "\<lambda>q cy. cy\<lparr>cy_waitSingles := q\<rparr>"
    "resume_single (s\<lparr>sd_shared := True\<rparr>)" for s
  by unfold_locales (auto simp: resume_single_def split: if_splits dest: resume_quiet)

section \<open>Nothing is left when the thread sleeps\<close>

lemma bindo_Some: "bindo m f = Some (Inr y) \<longleftrightarrow> (\<exists>x. m = Some (Inr x) \<and> f x = Some (Inr y))"
  by (auto simp: bindo_def split: option.splits sum.splits)

lemma timed_Some:
  assumes "timed f (go, cy) = Some (Inr (t, go', cy'))"
  obtains c where "f (go, tick cy) = Some (Inr (go', c))" "cy' = tick c"
  using assms by (auto simp: timed_def bindo_Some Let_def)

lemma queues_tick [simp]:
  "cy_delayConnections (tick cy) = cy_delayConnections cy" "cy_waitResumes (tick cy) = cy_waitResumes cy"
  "cy_waitSingles (tick cy) = cy_waitSingles cy"
  by (simp_all add: tick_def)

lemma round_quiet:
  assumes "dispatch_round (s\<lparr>sd_shared := True\<rparr>) (tt, et, cy) = Some (Inr (False, tt', et', cy'))"
  shows "cy_delayConnections cy' = [] \<and> cy_waitResumes cy' = [] \<and> cy_waitSingles cy' = []"
proof -
  let ?s = "s\<lparr>sd_shared := True\<rparr>"
  from assms obtain t1 g1 c1 t2 g2 c2 t3 c3 where r:
    "timed (drain_delays ?s) (False, cy) = Some (Inr (t1, g1, c1))" "timed (drain_resumes ?s) (g1, c1) = Some (Inr (t2, g2, c2))"
    "timed (drain_singles ?s) (g2, c2) = Some (Inr (t3, False, c3))" "cy' = c3"
    by (auto simp: dispatch_round_def Let_def bindo_Some split: if_splits prod.splits)
  obtain d1 where d1: "drain_delays ?s (False, tick cy) = Some (Inr (g1, d1))" "c1 = tick d1" by (rule timed_Some [OF r(1)])
  obtain d2 where d2: "drain_resumes ?s (g1, tick c1) = Some (Inr (g2, d2))" "c2 = tick d2" by (rule timed_Some [OF r(2)])
  obtain d3 where d3: "drain_singles ?s (g2, tick c2) = Some (Inr (False, d3))" "c3 = tick d3" by (rule timed_Some [OF r(3)])
  note e3 = singles.drained [OF d3(1) [unfolded drain_singles_def]]
  then have e2: "\<not> g2" "d3 = (tick c2)\<lparr>cy_waitSingles := []\<rparr>" by auto
  note f2 = resumes.drained [OF d2(1) [unfolded drain_resumes_def]]
  then have e1: "\<not> g1" "d2 = (tick c1)\<lparr>cy_waitResumes := []\<rparr>" using e2 by auto
  note f1 = delays.drained [OF d1(1) [unfolded drain_delays_def]]
  show ?thesis using e1 e2 e3 f1 f2 r(4) d1(2) d2(2) d3(2) by simp
qed

text \<open>Nothing is left behind: when the loop of \<open>process_events_and_timers\<close> ends, so that the thread waits for the
  kernel again, all three queues are empty, whatever the coroutines did meanwhile.\<close>

theorem queues_empty_before_waiting:
  assumes "sd_shared s" and "dispatch_rounds s st = Some (Inr cy)"
  shows "cy_delayConnections cy = [] \<and> cy_waitResumes cy = [] \<and> cy_waitSingles cy = []"
proof -
  have s: "s = s\<lparr>sd_shared := True\<rparr>" using assms(1) by simp
  show ?thesis
  proof (rule dispatch_rounds.raw_induct [where P = "\<lambda>s' st r. s' = s\<lparr>sd_shared := True\<rparr> \<longrightarrow> (\<forall>cy. r = Inr cy \<longrightarrow>
      cy_delayConnections cy = [] \<and> cy_waitResumes cy = [] \<and> cy_waitSingles cy = [])", rule_format, OF _ assms(2) s refl])
    fix run s' st r cy
    assume IH: "\<And>s' st r cy. run s' st = Some r \<Longrightarrow> s' = s\<lparr>sd_shared := True\<rparr> \<Longrightarrow> r = Inr cy \<Longrightarrow>
        cy_delayConnections cy = [] \<and> cy_waitResumes cy = [] \<and> cy_waitSingles cy = []"
      and r: "(case dispatch_round s' st of None \<Rightarrow> None | Some (Inl e) \<Rightarrow> Some (Inl e)
        | Some (Inr (needContinue, st)) \<Rightarrow> if needContinue then run s' st else Some (Inr (snd (snd st)))) = Some r"
      and e: "s' = s\<lparr>sd_shared := True\<rparr>" "r = Inr cy"
    from r e obtain go tt et c where d: "dispatch_round s' st = Some (Inr (go, tt, et, c))"
      "(if go then run s' (tt, et, c) else Some (Inr (snd (snd (tt, et, c))))) = Some (Inr cy)"
      by (auto split: option.splits sum.splits)
    show "cy_delayConnections cy = [] \<and> cy_waitResumes cy = [] \<and> cy_waitSingles cy = []"
    proof (cases go)
      case True
      then show ?thesis using IH [OF _ e(1) refl, of "(tt, et, c)" cy] d(2) by simp
    next
      case False
      then show ?thesis using round_quiet [of s "fst st" "fst (snd st)" "snd (snd st)" tt et c] d e(1) by simp
    qed
  qed
qed

section \<open>Entries are handled in order\<close>

lemma drain_runs:
  assumes get_put: "\<And>q cy. get (put q cy) = q"
    and handle: "\<And>d go cy. J cy \<Longrightarrow> fst d \<in> A \<Longrightarrow> \<exists>go' cy'. handle d go cy = Inr (go', cy') \<and> J cy' \<and> get cy' = get cy
      \<and> trace cy' = entry (trace cy) d"
    and put: "\<And>q cy. J cy \<Longrightarrow> J (put q cy) \<and> trace (put q cy) = trace cy"
  shows "J cy \<Longrightarrow> fst ` set (get cy) \<subseteq> A \<Longrightarrow> \<exists>go' cy'. drain get put handle (go, cy) = Some (Inr (go', cy')) \<and> J cy' \<and> get cy' = []
    \<and> trace cy' = foldl entry (trace cy) (get cy) \<and> (get cy = [] \<longrightarrow> go' = go)"
proof (induction "get cy" arbitrary: cy go)
  case Nil
  then have "drain get put handle (go, cy) = Some (Inr (go, cy))" by (subst drain.simps) (simp flip: Nil.hyps)
  with Nil show ?case by (simp flip: Nil.hyps)
next
  case (Cons d ds)
  have d: "fst d \<in> A" "fst ` set ds \<subseteq> A" using Cons.prems(2) unfolding Cons.hyps(2) [symmetric] by simp_all
  have p: "J (put ds cy)" "trace (put ds cy) = trace cy" using put [OF Cons.prems(1)] by simp_all
  obtain go1 cy1 where h: "handle d go (put ds cy) = Inr (go1, cy1)" "J cy1" "get cy1 = ds" "trace cy1 = entry (trace cy) d"
    using handle [OF p(1) d(1), of go] p(2) get_put by auto
  have g: "fst ` set (get cy1) \<subseteq> A" using h(3) d(2) by simp
  obtain go' cy' where i: "drain get put handle (go1, cy1) = Some (Inr (go', cy'))" "J cy'" "get cy' = []"
    "trace cy' = foldl entry (trace cy1) ds"
    using Cons.hyps(1) [OF h(3) [symmetric] h(2) g, of go1] h(3) by auto
  have "drain get put handle (go, cy) = drain get put handle (go1, cy1)"
    by (subst drain.simps) (simp add: h(1) flip: Cons.hyps(2))
  with i h(4) show ?case by (simp flip: Cons.hyps(2))
qed

text \<open>
  A calm thread: the coroutines of the connections \<open>A\<close> (as far as \<open>I\<close> describes the state) run without a
  fault and put nothing into the queues, and the clock stays within a millisecond. \<open>trace\<close> records the dispatches.
  The coroutines may change the versions of the connections and whether they wait for a mutex: \<open>v h i\<close>
  is the version of \<open>i\<close>, and \<open>W h\<close> are those that wait, after the dispatches \<open>h\<close>.
\<close>

definition calm :: "scheduler \<Rightarrow> (CoCycle \<Rightarrow> bool) \<Rightarrow> nat set \<Rightarrow> (nat list \<Rightarrow> nat \<Rightarrow> 32 word) \<Rightarrow> (nat list \<Rightarrow> nat set) \<Rightarrow> (CoCycle \<Rightarrow> nat list) \<Rightarrow> bool" where
  "calm s I A v W trace \<longleftrightarrow>
     (\<forall>i cy. I cy \<and> i \<in> A \<longrightarrow> (\<exists>cy'. func_dispatcher s i cy = Inr cy' \<and> I cy' \<and> trace cy' = trace cy @ [i]
        \<and> cy_delayConnections cy' = cy_delayConnections cy \<and> cy_waitResumes cy' = cy_waitResumes cy
        \<and> cy_waitSingles cy' = cy_waitSingles cy))
     \<and> (\<forall>cy q. I cy \<longrightarrow> I (tick cy) \<and> I (cy\<lparr>cy_delayConnections := q\<rparr>) \<and> I (cy\<lparr>cy_waitResumes := q\<rparr>) \<and> I (cy\<lparr>cy_waitSingles := q\<rparr>))
     \<and> (\<forall>cy q. trace (tick cy) = trace cy \<and> trace (cy\<lparr>cy_delayConnections := q\<rparr>) = trace cy
        \<and> trace (cy\<lparr>cy_waitResumes := q\<rparr>) = trace cy \<and> trace (cy\<lparr>cy_waitSingles := q\<rparr>) = trace cy)
     \<and> (\<forall>cy cy'. I cy \<and> I cy' \<longrightarrow> now_ms cy = now_ms cy')
     \<and> (\<forall>cy i. I cy \<and> i \<in> A \<longrightarrow> cn_version (conn i cy) = v (trace cy) i
        \<and> (find_block_mutex (cy_innerThreadId cy) (cn_connId (conn i cy)) (cy_single cy) \<longleftrightarrow> i \<in> W (trace cy)))"

lemma calmD:
  assumes "calm s I A v W trace" and "I cy"
  shows "i \<in> A \<Longrightarrow> \<exists>cy'. func_dispatcher s i cy = Inr cy' \<and> I cy' \<and> trace cy' = trace cy @ [i]
      \<and> cy_delayConnections cy' = cy_delayConnections cy \<and> cy_waitResumes cy' = cy_waitResumes cy \<and> cy_waitSingles cy' = cy_waitSingles cy"
    and "I (tick cy)" "I (cy\<lparr>cy_delayConnections := q\<rparr>)" "I (cy\<lparr>cy_waitResumes := q\<rparr>)" "I (cy\<lparr>cy_waitSingles := q\<rparr>)"
    and "trace (tick c) = trace c" "trace (c\<lparr>cy_delayConnections := q\<rparr>) = trace c" "trace (c\<lparr>cy_waitResumes := q\<rparr>) = trace c"
      "trace (c\<lparr>cy_waitSingles := q\<rparr>) = trace c"
    and "I c \<Longrightarrow> now_ms c = now_ms cy"
    and "i \<in> A \<Longrightarrow> cn_version (conn i cy) = v (trace cy) i"
    and "i \<in> A \<Longrightarrow> find_block_mutex (cy_innerThreadId cy) (cn_connId (conn i cy)) (cy_single cy) \<longleftrightarrow> i \<in> W (trace cy)"
  using assms unfolding calm_def by blast+

text \<open>An entry in its turn, after the dispatches \<open>h\<close>: its connection is dispatched if its version is still the current one; for a mutex, if it also still waits.\<close>

definition turn :: "(nat list \<Rightarrow> nat \<Rightarrow> 32 word) \<Rightarrow> nat list \<Rightarrow> nat \<times> 32 word \<Rightarrow> nat list" where
  "turn v h d = (if snd d = v h (fst d) then h @ [fst d] else h)"

definition mutex_turn :: "(nat list \<Rightarrow> nat \<Rightarrow> 32 word) \<Rightarrow> (nat list \<Rightarrow> nat set) \<Rightarrow> nat list \<Rightarrow> nat \<times> 32 word \<Rightarrow> nat list" where
  "mutex_turn v W h d = (if fst d \<in> W h then turn v h d else h)"

lemma calm_resume:
  assumes "calm s I A v W trace" and "I cy" and "fst d \<in> A"
  shows "\<exists>go' cy'. resume_process s d go cy = Inr (go', cy') \<and> I cy' \<and> trace cy' = turn v (trace cy) d
    \<and> cy_delayConnections cy' = cy_delayConnections cy \<and> cy_waitResumes cy' = cy_waitResumes cy \<and> cy_waitSingles cy' = cy_waitSingles cy"
proof (cases "snd d = v (trace cy) (fst d)")
  case True
  obtain cy' where "func_dispatcher s (fst d) cy = Inr cy'" "I cy'" "trace cy' = trace cy @ [fst d]"
    "cy_delayConnections cy' = cy_delayConnections cy" "cy_waitResumes cy' = cy_waitResumes cy" "cy_waitSingles cy' = cy_waitSingles cy"
    using calmD(1) [OF assms] by blast
  then show ?thesis using True calmD(11) [OF assms] by (cases d) (simp add: resume_process_def turn_def)
next
  case False
  then show ?thesis using assms(2) calmD(11) [OF assms] by (cases d) (simp add: resume_process_def turn_def)
qed

lemma calm_single:
  assumes "calm s I A v W trace" and "I cy" and "fst d \<in> A"
  shows "\<exists>go' cy'. resume_single s d go cy = Inr (go', cy') \<and> I cy' \<and> trace cy' = mutex_turn v W (trace cy) d
    \<and> cy_delayConnections cy' = cy_delayConnections cy \<and> cy_waitResumes cy' = cy_waitResumes cy \<and> cy_waitSingles cy' = cy_waitSingles cy"
proof (cases "fst d \<in> W (trace cy)")
  case True
  then show ?thesis using calm_resume [OF assms, of go] calmD(12) [OF assms] by (simp add: resume_single_def mutex_turn_def)
next
  case False
  then show ?thesis using assms(2) calmD(12) [OF assms] by (simp add: resume_single_def mutex_turn_def)
qed

lemma timed_calm:
  assumes "f (go, tick cy) = Some (Inr (go', c))" and "now_ms c = now_ms cy"
  shows "timed f (go, cy) = Some (Inr (0, go', tick c))"
proof -
  have "now_ms cy < u64_mod" by (simp add: now_ms_def)
  then have "u64_sub (now_ms cy) (now_ms cy) = 0" by (simp add: u64_sub_def)
  then show ?thesis using assms by (simp add: timed_def bindo_def)
qed

lemma calm_queue:
  assumes c: "calm s I A v W trace" and I: "I cy" and A: "fst ` set (get cy) \<subseteq> A"
    and handle: "\<And>d go x. I x \<Longrightarrow> fst d \<in> A \<Longrightarrow> \<exists>go' y. handle d go x = Inr (go', y) \<and> I y \<and> trace y = entry (trace x) d
      \<and> get y = get x \<and> rest y = rest x"
    and put: "\<And>q x. I x \<Longrightarrow> I (put q x)" "\<And>q x. trace (put q x) = trace x" "\<And>q x. rest (put q x) = rest x" "\<And>q x. get (put q x) = q"
    and ticks: "\<And>x. get (tick x) = get x" "\<And>x. rest (tick x) = rest x"
  shows "\<exists>go' cy'. timed (drain get put handle) (go, cy) = Some (Inr (0, go', cy')) \<and> I cy' \<and> trace cy' = foldl entry (trace cy) (get cy)
    \<and> get cy' = [] \<and> rest cy' = rest cy \<and> (get cy = [] \<longrightarrow> go' = go)"
proof -
  let ?J = "\<lambda>x. I x \<and> rest x = rest cy"
  have "\<exists>go' x. drain get put handle (go, tick cy) = Some (Inr (go', x)) \<and> ?J x \<and> get x = []
      \<and> trace x = foldl entry (trace (tick cy)) (get (tick cy)) \<and> (get (tick cy) = [] \<longrightarrow> go' = go)"
  proof (rule drain_runs [where A = A])
    fix d :: "nat \<times> 32 word" and go x assume x: "?J x" "fst d \<in> A"
    show "\<exists>go' y. handle d go x = Inr (go', y) \<and> ?J y \<and> get y = get x \<and> trace y = entry (trace x) d"
      using handle [of x d go] x by auto
  qed (use calmD(2) [OF c I] I A put ticks in auto)
  then obtain go' x where x: "drain get put handle (go, tick cy) = Some (Inr (go', x))" "I x" "rest x = rest cy" "get x = []"
    "trace x = foldl entry (trace cy) (get cy)" "get cy = [] \<longrightarrow> go' = go"
    using calmD(6) [OF c I] ticks by auto
  have "timed (drain get put handle) (go, cy) = Some (Inr (0, go', tick x))"
    by (rule timed_calm [of "drain get put handle", OF x(1) calmD(10) [OF c I x(2)]])
  then show ?thesis using x calmD(2) [OF c x(2)] calmD(6) [OF c I, of x] ticks by auto
qed

lemma calm_round:
  assumes c: "calm s I A v W trace" and I: "I cy" and tt: "tt \<noteq> 0"
    and A: "fst ` (set (cy_delayConnections cy) \<union> set (cy_waitResumes cy) \<union> set (cy_waitSingles cy)) \<subseteq> A"
  shows "\<exists>go cy'. dispatch_round s (tt, 0, cy) = Some (Inr (go, tt, 0, cy')) \<and> I cy'
    \<and> trace cy' = foldl (mutex_turn v W) (foldl (turn v) (foldl (turn v) (trace cy) (cy_delayConnections cy)) (cy_waitResumes cy)) (cy_waitSingles cy)
    \<and> cy_delayConnections cy' = [] \<and> cy_waitResumes cy' = [] \<and> cy_waitSingles cy' = []
    \<and> (cy_delayConnections cy = [] \<and> cy_waitResumes cy = [] \<and> cy_waitSingles cy = [] \<longrightarrow> \<not> go)"
proof -
  have "\<exists>g1 c1. timed (drain_delays s) (False, cy) = Some (Inr (0, g1, c1)) \<and> I c1
      \<and> trace c1 = foldl (turn v) (trace cy) (cy_delayConnections cy) \<and> cy_delayConnections c1 = []
      \<and> (cy_waitResumes c1, cy_waitSingles c1) = (cy_waitResumes cy, cy_waitSingles cy) \<and> (cy_delayConnections cy = [] \<longrightarrow> g1 = False)"
    unfolding drain_delays_def
  proof (rule calm_queue [OF c I])
    fix d :: "nat \<times> 32 word" and go x assume "I x" "fst d \<in> A"
    from calm_resume [OF c this, of go] show "\<exists>go' y. resume_process s d go x = Inr (go', y) \<and> I y
        \<and> trace y = turn v (trace x) d \<and> cy_delayConnections y = cy_delayConnections x
        \<and> (cy_waitResumes y, cy_waitSingles y) = (cy_waitResumes x, cy_waitSingles x)" by auto
  qed (use A calmD [OF c] I in auto)
  then obtain g1 c1 where 1: "timed (drain_delays s) (False, cy) = Some (Inr (0, g1, c1))" "I c1"
    "trace c1 = foldl (turn v) (trace cy) (cy_delayConnections cy)" "cy_delayConnections c1 = []" "cy_waitResumes c1 = cy_waitResumes cy"
    "cy_waitSingles c1 = cy_waitSingles cy" "cy_delayConnections cy = [] \<longrightarrow> g1 = False"
    by auto
  have "\<exists>g2 c2. timed (drain_resumes s) (g1, c1) = Some (Inr (0, g2, c2)) \<and> I c2
      \<and> trace c2 = foldl (turn v) (trace c1) (cy_waitResumes c1) \<and> cy_waitResumes c2 = []
      \<and> (cy_delayConnections c2, cy_waitSingles c2) = (cy_delayConnections c1, cy_waitSingles c1) \<and> (cy_waitResumes c1 = [] \<longrightarrow> g2 = g1)"
    unfolding drain_resumes_def
  proof (rule calm_queue [OF c 1(2)])
    fix d :: "nat \<times> 32 word" and go x assume "I x" "fst d \<in> A"
    from calm_resume [OF c this, of go] show "\<exists>go' y. resume_process s d go x = Inr (go', y) \<and> I y
        \<and> trace y = turn v (trace x) d \<and> cy_waitResumes y = cy_waitResumes x
        \<and> (cy_delayConnections y, cy_waitSingles y) = (cy_delayConnections x, cy_waitSingles x)" by auto
  qed (use A 1 calmD [OF c] in auto)
  then obtain g2 c2 where 2: "timed (drain_resumes s) (g1, c1) = Some (Inr (0, g2, c2))" "I c2"
    "trace c2 = foldl (turn v) (trace c1) (cy_waitResumes c1)" "cy_waitResumes c2 = []" "cy_delayConnections c2 = cy_delayConnections c1"
    "cy_waitSingles c2 = cy_waitSingles c1" "cy_waitResumes c1 = [] \<longrightarrow> g2 = g1"
    by auto
  have "\<exists>g3 c3. timed (drain_singles s) (g2, c2) = Some (Inr (0, g3, c3)) \<and> I c3
      \<and> trace c3 = foldl (mutex_turn v W) (trace c2) (cy_waitSingles c2) \<and> cy_waitSingles c3 = []
      \<and> (cy_delayConnections c3, cy_waitResumes c3) = (cy_delayConnections c2, cy_waitResumes c2) \<and> (cy_waitSingles c2 = [] \<longrightarrow> g3 = g2)"
    unfolding drain_singles_def
  proof (rule calm_queue [OF c 2(2)])
    fix d :: "nat \<times> 32 word" and go x assume "I x" "fst d \<in> A"
    from calm_single [OF c this, of go] show "\<exists>go' y. resume_single s d go x = Inr (go', y) \<and> I y
        \<and> trace y = mutex_turn v W (trace x) d \<and> cy_waitSingles y = cy_waitSingles x
        \<and> (cy_delayConnections y, cy_waitResumes y) = (cy_delayConnections x, cy_waitResumes x)" by auto
  qed (use A 1 2 calmD [OF c] in auto)
  then obtain g3 c3 where 3: "timed (drain_singles s) (g2, c2) = Some (Inr (0, g3, c3))" "I c3"
    "trace c3 = foldl (mutex_turn v W) (trace c2) (cy_waitSingles c2)" "cy_waitSingles c3 = []"
    "cy_delayConnections c3 = cy_delayConnections c2" "cy_waitResumes c3 = cy_waitResumes c2" "cy_waitSingles c2 = [] \<longrightarrow> g3 = g2"
    by auto
  have "dispatch_round s (tt, 0, cy) = Some (Inr (g3, tt, 0, c3))"
    using 1(1) 2(1) 3(1) tt by (simp add: dispatch_round_def bindo_def)
  then show ?thesis using 1 2 3 by auto
qed

lemma calm_rounds:
  assumes "calm s I A v W trace" and "I cy" and "tt \<noteq> 0"
    and "fst ` (set (cy_delayConnections cy) \<union> set (cy_waitResumes cy) \<union> set (cy_waitSingles cy)) \<subseteq> A"
  shows "\<exists>cy'. dispatch_rounds s (tt, 0, cy) = Some (Inr cy') \<and> I cy'
    \<and> trace cy' = foldl (mutex_turn v W) (foldl (turn v) (foldl (turn v) (trace cy) (cy_delayConnections cy)) (cy_waitResumes cy)) (cy_waitSingles cy)
    \<and> cy_delayConnections cy' = [] \<and> cy_waitResumes cy' = [] \<and> cy_waitSingles cy' = []"
proof -
  from calm_round [OF assms] obtain go c1 where 1: "dispatch_round s (tt, 0, cy) = Some (Inr (go, tt, 0, c1))" "I c1"
    "trace c1 = foldl (mutex_turn v W) (foldl (turn v) (foldl (turn v) (trace cy) (cy_delayConnections cy)) (cy_waitResumes cy)) (cy_waitSingles cy)"
    "cy_delayConnections c1 = []" "cy_waitResumes c1 = []" "cy_waitSingles c1 = []" by blast
  then have A: "fst ` (set (cy_delayConnections c1) \<union> set (cy_waitResumes c1) \<union> set (cy_waitSingles c1)) \<subseteq> A" by simp
  from calm_round [OF assms(1) 1(2) assms(3) A] 1(4-6) obtain c2 where 2: "dispatch_round s (tt, 0, c1) = Some (Inr (False, tt, 0, c2))"
    "I c2" "trace c2 = trace c1" "cy_delayConnections c2 = []" "cy_waitResumes c2 = []" "cy_waitSingles c2 = []"
    by auto
  have "dispatch_rounds s (tt, 0, c1) = Some (Inr c2)" using 2(1) by (subst dispatch_rounds.simps) simp
  then have "dispatch_rounds s (tt, 0, cy) = Some (Inr (if go then c2 else c1))" using 1(1) by (subst dispatch_rounds.simps) simp
  then show ?thesis using 1 2 by (cases go) auto
qed

text \<open>C13: The loop of \<open>process_events_and_timers\<close> ends and resumes the entries of the queues in
  their order, first those of its own sub-requests and new connections, then those other threads
  asked for, then those that wait for a mutex, each entry once: an entry whose connection has got another version by the time its
  turn comes, before the loop or by a coroutine the loop has run (a request that ended), is not run, nor is one for a mutex whose connection
  does not wait any more in its turn. Assumed is a calm thread: its coroutines do not fault and put nothing into the queues,
  all happens within a millisecond of the clock (otherwise the timers come in between), and no timer is due.\<close>

theorem queues_run_in_order:
  assumes "calm s I A v W trace" and "I cy" and "tt \<noteq> 0"
    and "fst ` (set (cy_delayConnections cy) \<union> set (cy_waitResumes cy) \<union> set (cy_waitSingles cy)) \<subseteq> A"
  shows "\<exists>cy'. dispatch_rounds s (tt, 0, cy) = Some (Inr cy') \<and> I cy'
    \<and> trace cy' = foldl (mutex_turn v W) (foldl (turn v) (foldl (turn v) (trace cy) (cy_delayConnections cy)) (cy_waitResumes cy)) (cy_waitSingles cy)
    \<and> cy_delayConnections cy' = [] \<and> cy_waitResumes cy' = [] \<and> cy_waitSingles cy' = []"
  using assms by (rule calm_rounds)

section \<open>A thread with two connections\<close>

text \<open>A connection whose coroutine has not started and that nothing is wrong with.\<close>

definition plain :: "CoConnection \<Rightarrow> bool" where
  "plain c \<longleftrightarrow> \<not> cn_flagTimedOut c \<and> \<not> cn_flagPendingEof c \<and> \<not> cn_flagDying c \<and> \<not> cn_flagBlockConn c
     \<and> cn_handlerException c = H_EVENT_EXCEPTION \<and> cn_handler c \<noteq> H_NONE \<and> cr_status (cn_coroutine c) = COROUTINE_READY"

definition started :: "nat \<Rightarrow> CoConnection \<Rightarrow> CoConnection" where
  "started i c = c\<lparr>cn_coroutine := snd (init_coroutine i ((cn_coroutine c)\<lparr>cr_status := COROUTINE_SUSPEND\<rparr>))\<rparr>"

definition finished :: "CoConnection \<Rightarrow> CoConnection" where
  "finished c = c\<lparr>cn_coroutine := (cn_coroutine c)\<lparr>cr_status := COROUTINE_READY\<rparr>\<rparr>"

lemma plain_again: "plain c \<Longrightarrow> plain (finished (started i c))" "cn_version (finished (started i c)) = cn_version c"
  "cn_connId (finished (started i c)) = cn_connId c"
  by (simp_all add: plain_def finished_def started_def init_coroutine_def)

lemma dispatch_plain:
  assumes "valid_id i cy" and "plain (conn i cy)" and "sd_slice s = (\<lambda>k cy. Inr (True, e k cy))"
  shows "func_dispatcher s i cy = Inr ((upd_conn i finished (e i (upd_conn i (started i) (cy\<lparr>cy_curConnection := Some i\<rparr>))))
    \<lparr>cy_curConnection := None\<rparr>)"
proof -
  let ?c = "cy\<lparr>cy_curConnection := Some i\<rparr>"
  have p: "plain (conn i ?c)" "valid_id i ?c" using assms(1,2) by (simp_all add: conn_def valid_id_def)
  have x: "handler_exception s i ?c = Inr (CO_OK, ?c)" using p(1) by (simp add: handler_exception_def event_exception_def plain_def Let_def)
  have "start_coroutine s i i ?c = run_coroutine s i (upd_conn i (started i) ?c)"
    using p by (simp add: start_coroutine_def started_def [abs_def] Let_def plain_def)
  moreover have "run_coroutine s i d = Inr (upd_conn i finished (e i d))" for d
    by (simp add: run_coroutine_def assms(3) finished_def [abs_def])
  ultimately show ?thesis using x p(1) by (simp add: func_dispatcher_def plain_def)
qed

definition easy :: "CoCycle \<Rightarrow> bool" where
  "easy cy \<longleftrightarrow> (\<forall>i\<in>{1, 3}. valid_id i cy \<and> plain (conn i cy) \<and> cn_version (conn i cy) = 0 \<and> cn_connId (conn i cy) = i)
     \<and> cy_clock cy = (\<lambda>_. 5000) \<and> cy_single cy = new_single"

lemma easy_cong:
  assumes "easy cy" "cy_pool cy' = cy_pool cy" "cy_clock cy' = cy_clock cy" "cy_single cy' = cy_single cy"
  shows "easy cy'"
  using assms by (simp add: easy_def conn_def valid_id_def)

lemma easy_upd_conn:
  assumes "easy cy" "i \<in> {1, 3}" "\<And>c. plain c \<Longrightarrow> plain (f c)" "\<And>c. cn_version (f c) = cn_version c" "\<And>c. cn_connId (f c) = cn_connId c"
  shows "easy (upd_conn i f cy)"
proof -
  have "valid_id j (upd_conn i f cy) \<and> plain (conn j (upd_conn i f cy)) \<and> cn_version (conn j (upd_conn i f cy)) = 0
    \<and> cn_connId (conn j (upd_conn i f cy)) = j" if "j \<in> {1, 3}" for j
    using assms that conn_upd_other [of i j f cy] by (cases "i = j") (auto simp: easy_def)
  then show ?thesis using assms(1) by (simp add: easy_def upd_conn_def)
qed

lemma upd_conn_twice: "upd_conn i f (upd_conn i g cy) = upd_conn i (f \<circ> g) cy"
  by (cases "i - 1 < length (pl_connections (cy_pool cy))") (simp_all add: upd_conn_def map_conn_def not_less list_update_beyond)

lemma version_upd_conn:
  assumes "\<And>c. cn_version (f c) = cn_version c"
  shows "cn_version (conn j (upd_conn i f cy)) = cn_version (conn j cy)"
  using assms
  by (cases "i - 1 < length (pl_connections (cy_pool cy))")
    (simp_all add: conn_def upd_conn_def map_conn_def get_connection_accord_id_def nth_list_update not_less list_update_beyond)

lemma easy_step:
  assumes easy: "easy cy" and i: "i \<in> {1, 3}" and e: "sd_slice s = (\<lambda>k cy. Inr (True, e k cy))"
    and frame: "\<And>c. cy_pool (e i c) = cy_pool c \<and> cy_clock (e i c) = cy_clock c \<and> cy_single (e i c) = cy_single c"
  shows "\<exists>c. func_dispatcher s i cy = Inr ((upd_conn i finished (e i c))\<lparr>cy_curConnection := None\<rparr>)
    \<and> easy ((upd_conn i finished (e i c))\<lparr>cy_curConnection := None\<rparr>) \<and> cn_version (conn 3 c) = 0 \<and> cy_sys c = cy_sys cy
    \<and> cy_delayConnections c = cy_delayConnections cy \<and> cy_waitResumes c = cy_waitResumes cy \<and> cy_waitSingles c = cy_waitSingles cy"
proof -
  let ?c = "upd_conn i (started i) (cy\<lparr>cy_curConnection := Some i\<rparr>)"
  have p: "valid_id i cy" "plain (conn i cy)" using easy i by (auto simp: easy_def)
  have "cn_version (conn 3 ?c) = cn_version (conn 3 (cy\<lparr>cy_curConnection := Some i\<rparr>))"
    by (rule version_upd_conn) (simp add: started_def init_coroutine_def)
  then have "cn_version (conn 3 ?c) = 0" using easy by (simp add: easy_def conn_def)
  moreover have "easy ((upd_conn i finished (e i ?c))\<lparr>cy_curConnection := None\<rparr>)"
  proof (rule easy_cong)
    show "easy (upd_conn i (finished \<circ> started i) cy)"
      by (rule easy_upd_conn [OF easy i]) (simp_all add: plain_again)
    show "cy_pool ((upd_conn i finished (e i ?c))\<lparr>cy_curConnection := None\<rparr>) = cy_pool (upd_conn i (finished \<circ> started i) cy)"
      using frame [of ?c] by (simp flip: upd_conn_twice) (simp add: upd_conn_def)
  qed (use frame [of ?c] in \<open>simp_all add: upd_conn_def\<close>)
  ultimately show ?thesis using dispatch_plain [OF p e] by (intro exI [of _ ?c]) (simp add: upd_conn_def)
qed

definition two_conns :: CoCycle where
  "two_conns = (upd_conn 1 (\<lambda>c. c\<lparr>cn_handler := H_REQUEST_INIT\<rparr>) (upd_conn 3 (\<lambda>c. c\<lparr>cn_handler := H_REQUEST_INIT\<rparr>) small_cycle))
     \<lparr>cy_clock := \<lambda>_. 5000\<rparr>"

lemma two_conns_easy: "easy two_conns"
proof -
  have n: "conn 1 small_cycle = (new_connection 1)\<lparr>cn_blockConn := Some 2\<rparr>" "conn 3 small_cycle = (new_connection 3)\<lparr>cn_blockConn := Some 4\<rparr>"
    by (simp_all add: conn_def get_connection_accord_id_def small_cycle_def small_pool_connections new_pair_def)
  have v: "valid_id 1 small_cycle" "valid_id 3 small_cycle" by (simp_all add: valid_id_def small_cycle_def small_pool_free)
  let ?h = "\<lambda>c. c\<lparr>cn_handler := H_REQUEST_INIT\<rparr>" let ?u = "upd_conn 1 ?h (upd_conn 3 ?h small_cycle)"
  have c: "conn 1 ?u = (new_connection 1)\<lparr>cn_blockConn := Some 2, cn_handler := H_REQUEST_INIT\<rparr>"
    "conn 3 ?u = (new_connection 3)\<lparr>cn_blockConn := Some 4, cn_handler := H_REQUEST_INIT\<rparr>"
    using v n conn_upd_other [of 3 1 ?h small_cycle] conn_upd_other [of 1 3 ?h "upd_conn 3 ?h small_cycle"] by simp_all
  have t: "conn i two_conns = conn i ?u" "valid_id i two_conns = valid_id i ?u" for i by (simp_all add: two_conns_def conn_def valid_id_def)
  have p: "plain (conn 1 two_conns)" "plain (conn 3 two_conns)" unfolding t c by (simp_all add: plain_def new_connection_def new_coroutine_def)
  have "cn_version (conn 1 two_conns) = 0" "cn_version (conn 3 two_conns) = 0" "cn_connId (conn 1 two_conns) = 1" "cn_connId (conn 3 two_conns) = 3"
    unfolding t c by (simp_all add: new_connection_def)
  moreover have "cy_clock two_conns = (\<lambda>_. 5000)" "cy_single two_conns = new_single" by (simp_all add: two_conns_def small_cycle_def upd_conn_def)
  ultimately show ?thesis using p v unfolding easy_def by (simp add: t)
qed

text \<open>A scheduler whose handlers note who they are and return.\<close>

definition noting :: scheduler where
  "noting = \<lparr>sd_slice = \<lambda>k cy. Inr (True, cy\<lparr>cy_sys := cy_sys cy @ [(int k, 0)]\<rparr>), sd_wait = \<lambda>n cy. (Inr [], cy),
     sd_order = \<lambda>xs. xs, sd_shared = True\<rparr>"

definition noted :: "CoCycle \<Rightarrow> nat list" where
  "noted cy = map (nat \<circ> fst) (cy_sys cy)"

lemma noting_calm: "calm noting easy {1, 3} (\<lambda>_ _. 0) (\<lambda>_. {}) noted"
proof -
  have "\<exists>cy'. func_dispatcher noting i cy = Inr cy' \<and> easy cy' \<and> noted cy' = noted cy @ [i] \<and> cy_delayConnections cy' = cy_delayConnections cy
      \<and> cy_waitResumes cy' = cy_waitResumes cy \<and> cy_waitSingles cy' = cy_waitSingles cy" if "easy cy" "i \<in> {1, 3}" for i cy
  proof -
    have "sd_slice noting = (\<lambda>k cy. Inr (True, (\<lambda>k cy. cy\<lparr>cy_sys := cy_sys cy @ [(int k, 0)]\<rparr>) k cy))" by (simp add: noting_def)
    from easy_step [OF that this] show ?thesis by (fastforce simp: upd_conn_def noted_def)
  qed
  moreover have "easy cy \<Longrightarrow> now_ms cy = 5" "easy cy \<Longrightarrow> i \<in> {1, 3} \<Longrightarrow> cn_version (conn i cy) = 0"
    "easy cy \<Longrightarrow> \<not> find_block_mutex t n (cy_single cy)" for cy i t n
    by (auto simp: easy_def now_ms_def find_block_mutex_def new_single_def)
  ultimately show ?thesis unfolding calm_def
    by (intro conjI allI impI) (auto simp: noted_def tick_def intro: easy_cong)
qed

text \<open>
  A scheduler whose handlers also have an effect on the queues: that of connection 1 ends its request, so that the version of the connection rises, and
  that of connection 3, which waits for a mutex, gets it.
\<close>

definition ended :: "nat \<Rightarrow> CoConnection \<Rightarrow> CoConnection" where
  "ended i c = (if i = 1 then c\<lparr>cn_version := cn_version c + 1\<rparr> else c)"

definition ending :: scheduler where
  "ending = noting\<lparr>sd_slice := \<lambda>k cy. Inr (True, upd_conn k (ended k) (cy\<lparr>cy_sys := cy_sys cy @ [(int k, 0)],
     cy_single := block_leave (wait_key (cy_innerThreadId cy) k) (cy_single cy)\<rparr>))\<rparr>"

definition busy_versions :: "nat list \<Rightarrow> nat \<Rightarrow> 32 word" where
  "busy_versions h i = (if i = 1 then of_nat (count_list h 1) else 0)"

definition busy_waiting :: "nat list \<Rightarrow> nat set" where
  "busy_waiting h = (if 3 \<in> set h then {} else {3})"

definition bustling :: "CoCycle \<Rightarrow> bool" where
  "bustling cy \<longleftrightarrow> (\<forall>i\<in>{1, 3}. valid_id i cy \<and> plain (conn i cy) \<and> cn_version (conn i cy) = busy_versions (noted cy) i \<and> cn_connId (conn i cy) = i)
     \<and> cy_clock cy = (\<lambda>_. 5000) \<and> cy_innerThreadId cy = 1
     \<and> sg_threadConnectionIds (cy_single cy) = wait_key 1 ` busy_waiting (noted cy)"

lemma bustling_cong:
  assumes "bustling cy" "cy_pool cy' = cy_pool cy" "cy_clock cy' = cy_clock cy" "cy_single cy' = cy_single cy" "cy_sys cy' = cy_sys cy"
    "cy_innerThreadId cy' = cy_innerThreadId cy"
  shows "bustling cy'"
  using assms by (simp add: bustling_def conn_def valid_id_def noted_def)

lemma wait_key_other: "wait_key 1 1 \<noteq> wait_key 1 3"
  by (simp add: wait_key_def)

lemma bustling_step:
  assumes b: "bustling cy" and i: "i \<in> {1, 3}"
  shows "\<exists>cy'. func_dispatcher ending i cy = Inr cy' \<and> bustling cy' \<and> noted cy' = noted cy @ [i] \<and> cy_delayConnections cy' = cy_delayConnections cy
    \<and> cy_waitResumes cy' = cy_waitResumes cy \<and> cy_waitSingles cy' = cy_waitSingles cy"
proof -
  let ?e = "\<lambda>k cy. upd_conn k (ended k) (cy\<lparr>cy_sys := cy_sys cy @ [(int k, 0)], cy_single := block_leave (wait_key (cy_innerThreadId cy) k) (cy_single cy)\<rparr>)"
  let ?c = "(upd_conn i finished (?e i (upd_conn i (started i) (cy\<lparr>cy_curConnection := Some i\<rparr>))))\<lparr>cy_curConnection := None\<rparr>"
  let ?f = "finished \<circ> (ended i \<circ> started i)"
  have p: "valid_id i cy" "plain (conn i cy)" using b i by (auto simp: bustling_def)
  have "sd_slice ending = (\<lambda>k cy. Inr (True, ?e k cy))" by (simp add: ending_def)
  note d = dispatch_plain [OF p this]
  have n: "noted ?c = noted cy @ [i]" "cy_clock ?c = cy_clock cy" "cy_innerThreadId ?c = cy_innerThreadId cy"
    "cy_single ?c = block_leave (wait_key (cy_innerThreadId cy) i) (cy_single cy)"
    "cy_delayConnections ?c = cy_delayConnections cy" "cy_waitResumes ?c = cy_waitResumes cy" "cy_waitSingles ?c = cy_waitSingles cy"
    by (simp_all add: noted_def upd_conn_def)
  have "cy_pool ?c = cy_pool (upd_conn i ?f cy)"
    by (simp flip: upd_conn_twice) (simp add: upd_conn_def)
  then have q: "conn j ?c = conn j (upd_conn i ?f cy)" "valid_id j ?c = valid_id j cy" for j
    by (simp_all add: conn_def valid_id_def) (simp add: upd_conn_def)
  have f: "plain (?f c)" "cn_connId (?f c) = cn_connId c" "cn_version (?f c) = (if i = 1 then cn_version c + 1 else cn_version c)" if "plain c" for c
    using that by (simp_all add: ended_def plain_def finished_def started_def init_coroutine_def)
  have "valid_id j ?c \<and> plain (conn j ?c) \<and> cn_version (conn j ?c) = busy_versions (noted ?c) j \<and> cn_connId (conn j ?c) = j" if "j \<in> {1, 3}" for j
    using b that i f [of "conn i cy"] p conn_upd_other [of i j ?f cy] unfolding q n(1)
    by (cases "i = j") (auto simp: bustling_def busy_versions_def add.commute)
  moreover have "sg_threadConnectionIds (cy_single ?c) = wait_key 1 ` busy_waiting (noted ?c)"
    using b i wait_key_other unfolding n(1,4) by (auto simp: bustling_def block_leave_def busy_waiting_def)
  ultimately have "bustling ?c" using b n(2,3) unfolding bustling_def by simp
  then show ?thesis using d n by blast
qed

lemma ending_calm: "calm ending bustling {1, 3} busy_versions busy_waiting noted"
proof -
  have "bustling cy \<Longrightarrow> now_ms cy = 5" "bustling cy \<Longrightarrow> i \<in> {1, 3} \<Longrightarrow> cn_version (conn i cy) = busy_versions (noted cy) i" for cy i
    by (auto simp: bustling_def now_ms_def)
  moreover have "find_block_mutex (cy_innerThreadId cy) (cn_connId (conn i cy)) (cy_single cy) \<longleftrightarrow> i \<in> busy_waiting (noted cy)"
    if "bustling cy" "i \<in> {1, 3}" for cy i
    using that wait_key_other by (auto simp: bustling_def find_block_mutex_def busy_waiting_def)
  moreover have "noted (tick cy) = noted cy \<and> noted (cy\<lparr>cy_delayConnections := q\<rparr>) = noted cy \<and> noted (cy\<lparr>cy_waitResumes := q\<rparr>) = noted cy
    \<and> noted (cy\<lparr>cy_waitSingles := q\<rparr>) = noted cy" for cy q by (simp add: noted_def tick_def)
  moreover have "bustling (tick cy) \<and> bustling (cy\<lparr>cy_delayConnections := q\<rparr>) \<and> bustling (cy\<lparr>cy_waitResumes := q\<rparr>) \<and> bustling (cy\<lparr>cy_waitSingles := q\<rparr>)"
    if "bustling cy" for cy q using that by (auto simp: tick_def intro: bustling_cong)
  ultimately show ?thesis unfolding calm_def using bustling_step by (intro conjI allI impI) auto
qed

text \<open>
  Connection 1 is in two queues; in the second its entry is too late, as is one for an earlier user of connection 3. Connection 3 has two
  entries for the mutex it waits for; it gets it with the first.
\<close>

theorem queues_run_in_order_witness:
  "\<exists>cy'. dispatch_rounds ending (1000, 0, two_conns\<lparr>cy_delayConnections := [(1, 0)], cy_waitResumes := [(1, 0), (3, 7)],
        cy_waitSingles := [(1, 1), (3, 0), (3, 0)], cy_single := block_enter 7 (waiter_sample 1 3) new_single\<rparr>)
      = Some (Inr cy') \<and> noted cy' = [1, 3]"
proof -
  let ?c = "two_conns\<lparr>cy_delayConnections := [(1, 0)], cy_waitResumes := [(1, 0), (3, 7)],
    cy_waitSingles := [(1, 1), (3, 0), (3, 0)], cy_single := block_enter 7 (waiter_sample 1 3) new_single\<rparr>"
  have n: "noted ?c = []" "cy_innerThreadId ?c = 1" by (simp_all add: noted_def two_conns_def small_cycle_def upd_conn_def)
  have "sg_threadConnectionIds (cy_single ?c) = {wait_key 1 3}" by (simp add: block_enter_def new_single_def waiter_key_def waiter_sample_def)
  then have "bustling ?c" using two_conns_easy n unfolding bustling_def n
    by (simp add: easy_def conn_def valid_id_def busy_versions_def busy_waiting_def)
  from queues_run_in_order [OF ending_calm this, of 1000] obtain cy'
    where "dispatch_rounds ending (1000, 0, ?c) = Some (Inr cy')"
      "noted cy' = foldl (mutex_turn busy_versions busy_waiting) (foldl (turn busy_versions) (foldl (turn busy_versions) (noted ?c)
        [(1, 0)]) [(1, 0), (3, 7)]) [(1, 1), (3, 0), (3, 0)]" by auto
  moreover have "foldl (mutex_turn busy_versions busy_waiting) (foldl (turn busy_versions) (foldl (turn busy_versions) []
      [(1, 0)]) [(1, 0), (3, 7)]) [(1, 1), (3, 0), (3, 0)] = [1, 3]"
    by (simp add: turn_def mutex_turn_def busy_versions_def busy_waiting_def)
  ultimately show ?thesis unfolding n by metis
qed

theorem queues_empty_before_waiting_witness:
  "\<exists>cy. dispatch_rounds noting (1000, 0, two_conns\<lparr>cy_delayConnections := [(3, 0)], cy_waitResumes := [(1, 0)]\<rparr>) = Some (Inr cy)
    \<and> cy_delayConnections cy = [] \<and> cy_waitResumes cy = [] \<and> cy_waitSingles cy = []"
proof -
  let ?c = "two_conns\<lparr>cy_delayConnections := [(3, 0)], cy_waitResumes := [(1, 0)]\<rparr>"
  have "easy ?c" by (rule easy_cong [OF two_conns_easy]) simp_all
  moreover have "cy_waitSingles ?c = []" by (simp add: two_conns_def small_cycle_def upd_conn_def)
  ultimately obtain cy where r: "dispatch_rounds noting (1000, 0, ?c) = Some (Inr cy)"
    using calm_rounds [OF noting_calm, of ?c 1000] by auto
  have "sd_shared noting" by (simp add: noting_def)
  from queues_empty_before_waiting [OF this r] r show ?thesis by blast
qed

section \<open>Threads the lambda does not belong to\<close>

text \<open>The coroutine of connection 1, resumed by another thread, starts a sub-request on connection 3.\<close>

definition asking :: "bool \<Rightarrow> scheduler" where
  "asking shared = \<lparr>sd_slice = \<lambda>k cy. Inr (True, if k = 1 then push_delay 3 cy else cy), sd_wait = \<lambda>n cy. (Inr [], cy),
     sd_order = \<lambda>xs. xs, sd_shared = shared\<rparr>"

lemma asking_dispatch:
  assumes "easy cy" "i \<in> {1, 3}"
  shows "\<exists>cy'. func_dispatcher (asking b) i cy = Inr cy' \<and> easy cy' \<and> cy_waitResumes cy' = cy_waitResumes cy \<and> cy_waitSingles cy' = cy_waitSingles cy
    \<and> cy_delayConnections cy' = cy_delayConnections cy @ (if i = 1 then [(3, 0)] else [])"
proof -
  let ?e = "\<lambda>k cy. if k = 1 then push_delay 3 cy else cy"
  have e: "sd_slice (asking b) = (\<lambda>k cy. Inr (True, ?e k cy))" by (simp add: asking_def)
  have frame: "cy_pool (?e i c) = cy_pool c \<and> cy_clock (?e i c) = cy_clock c \<and> cy_single (?e i c) = cy_single c" for c
    by (simp add: push_delay_def)
  obtain c where c: "func_dispatcher (asking b) i cy = Inr ((upd_conn i finished (?e i c))\<lparr>cy_curConnection := None\<rparr>)"
    "easy ((upd_conn i finished (?e i c))\<lparr>cy_curConnection := None\<rparr>)" "cn_version (conn 3 c) = 0"
    "cy_delayConnections c = cy_delayConnections cy" "cy_waitResumes c = cy_waitResumes cy" "cy_waitSingles c = cy_waitSingles cy"
    using easy_step [OF assms e frame] by blast
  have "cy_waitResumes (?e i c) = cy_waitResumes cy \<and> cy_waitSingles (?e i c) = cy_waitSingles cy
      \<and> cy_delayConnections (?e i c) = cy_delayConnections cy @ (if i = 1 then [(3, 0)] else [])"
    using c(3-6) by (simp add: push_delay_def)
  then show ?thesis unfolding c(1) using c(2) by (simp add: upd_conn_def)
qed

lemma asking_resume:
  assumes "easy cy" "i \<in> {1, 3}"
  shows "\<exists>cy'. resume_process (asking b) (i, 0) go cy = Inr (b \<or> go, cy') \<and> easy cy' \<and> cy_waitResumes cy' = cy_waitResumes cy
    \<and> cy_waitSingles cy' = cy_waitSingles cy \<and> cy_delayConnections cy' = cy_delayConnections cy @ (if i = 1 then [(3, 0)] else [])"
proof -
  have "cn_version (conn i cy) = 0" using assms by (auto simp: easy_def)
  then show ?thesis using asking_dispatch [OF assms, of b] by (auto simp: resume_process_def asking_def)
qed

lemma easy_clock: "easy cy \<Longrightarrow> now_ms cy = 5" "easy cy \<Longrightarrow> easy (tick cy)"
  by (auto simp: easy_def now_ms_def tick_def conn_def valid_id_def)

lemma asking_resumed:
  assumes "easy cy" "cy_delayConnections cy = []" "cy_waitResumes cy = [(1, 0)]" "cy_waitSingles cy = []"
  shows "\<exists>cy'. dispatch_round (asking b) (1000, 0, cy) = Some (Inr (b, 1000, 0, cy')) \<and> easy cy' \<and> cy_delayConnections cy' = [(3, 0)]
    \<and> cy_waitResumes cy' = [] \<and> cy_waitSingles cy' = []"
proof -
  have 1: "timed (drain_delays (asking b)) (False, cy) = Some (Inr (0, False, tick (tick cy)))"
    using assms(1,2) easy_clock by (intro timed_calm) (simp_all add: drain_delays_def drain.simps)
  let ?c = "tick (tick (tick cy))"
  have e: "easy (?c\<lparr>cy_waitResumes := []\<rparr>)" by (rule easy_cong [OF assms(1)]) (simp_all add: tick_def)
  obtain d where d: "resume_process (asking b) (1, 0) False (?c\<lparr>cy_waitResumes := []\<rparr>) = Inr (b, d)" "easy d"
    "cy_waitResumes d = []" "cy_waitSingles d = []" "cy_delayConnections d = [(3, 0)]"
    using asking_resume [OF e, of 1 b False] assms(2,4) by auto
  have 2: "timed (drain_resumes (asking b)) (False, tick (tick cy)) = Some (Inr (0, b, tick d))"
    using assms(1,3) d easy_clock by (intro timed_calm) (simp_all add: drain_resumes_def drain.simps)
  have 3: "timed (drain_singles (asking b)) (b, tick d) = Some (Inr (0, b, tick (tick (tick d))))"
    using d easy_clock by (intro timed_calm) (simp_all add: drain_singles_def drain.simps)
  have "dispatch_round (asking b) (1000, 0, cy) = Some (Inr (b, 1000, 0, tick (tick (tick d))))"
    using 1 2 3 by (simp add: dispatch_round_def bindo_def)
  then show ?thesis using d easy_clock by auto
qed

text \<open>In the threads whose \<open>needContinue\<close> the lambda misses, work is left in the queue: when a coroutine resumed by
  another thread starts a sub-request within the millisecond, the loop ends with the sub-request
  in the queue, and the thread goes to sleep in \<open>epoll_wait\<close> (for up to a second) before it runs it;
  in the thread that made the first call, the loop goes on.\<close>

theorem missed_flag_leaves_work:
  "(\<exists>cy. dispatch_rounds (asking False) (1000, 0, two_conns\<lparr>cy_waitResumes := [(1, 0)]\<rparr>) = Some (Inr cy)
      \<and> cy_delayConnections cy = [(3, 0)] \<and> cn_version (conn 3 cy) = 0)
    \<and> (\<exists>st. dispatch_round (asking True) (1000, 0, two_conns\<lparr>cy_waitResumes := [(1, 0)]\<rparr>) = Some (Inr (True, st)))"
proof -
  let ?c = "two_conns\<lparr>cy_waitResumes := [(1, 0)]\<rparr>"
  have "easy ?c" by (rule easy_cong [OF two_conns_easy]) simp_all
  moreover have "cy_delayConnections ?c = []" "cy_waitResumes ?c = [(1, 0)]" "cy_waitSingles ?c = []"
    by (simp_all add: two_conns_def small_cycle_def upd_conn_def)
  ultimately have r: "\<exists>cy. dispatch_round (asking b) (1000, 0, ?c) = Some (Inr (b, 1000, 0, cy)) \<and> easy cy \<and> cy_delayConnections cy = [(3, 0)]" for b
    using asking_resumed by blast
  from r [of False] obtain cy where cy: "dispatch_round (asking False) (1000, 0, ?c) = Some (Inr (False, 1000, 0, cy))" "easy cy"
    "cy_delayConnections cy = [(3, 0)]" by blast
  have "dispatch_rounds (asking False) (1000, 0, ?c) = Some (Inr cy)" using cy(1) by (subst dispatch_rounds.simps) simp
  then show ?thesis using r [of True] cy(2,3) by (auto simp: easy_def)
qed

section \<open>Notices about a connection that is gone\<close>

lemma version_transfer:
  assumes "same_objects cy cy'" and "valid_id i cy"
  shows "valid_id i cy' \<and> cn_version (conn i cy') = cn_version (conn i cy) \<and> cn_connId (conn i cy') = cn_connId (conn i cy)"
proof -
  have p: "pool_ident (cy_pool cy') = pool_ident (cy_pool cy)" using assms(1) by (simp add: same_objects_def)
  then have "map ident (pl_connections (cy_pool cy')) = map ident (pl_connections (cy_pool cy))" by (simp add: pool_ident_def)
  from arg_cong [OF this, of length] have "length (pl_connections (cy_pool cy')) = length (pl_connections (cy_pool cy))" by simp
  moreover then have "ident (conn i cy') = ident (conn i cy)"
    using ident_at [OF p] assms(2) by (simp add: conn_def valid_id_def)
  ultimately show ?thesis using assms(2) by (simp add: valid_id_def ident_def links_def)
qed

definition same_version :: "nat \<Rightarrow> CoCycle \<Rightarrow> CoCycle \<Rightarrow> bool" where
  "same_version i cy cy' \<longleftrightarrow> (valid_id i cy \<longrightarrow> valid_id i cy' \<and> cn_version (conn i cy') = cn_version (conn i cy)
     \<and> cn_connId (conn i cy') = cn_connId (conn i cy))"

lemma same_version_trans: "same_version i a b \<Longrightarrow> same_version i b c \<Longrightarrow> same_version i a c"
  by (simp add: same_version_def)

lemma same_version_simple [simp]:
  "same_version i cy cy" "same_version i cy (upd_control k f cy)"
  by (simp_all add: same_version_def upd_control_def conn_def valid_id_def)

lemma same_version_objects: "same_objects cy cy' \<Longrightarrow> same_version i cy cy'"
  using version_transfer by (simp add: same_version_def)

lemma modify_listening_version:
  assumes "modify_listening k cy = Inr cy'"
  shows "same_version i cy cy'"
proof -
  have m: "same_version i (upd_control k f cy) (snd (modify_connection j e op (upd_control k f cy)))" for f j e op
    by (rule same_version_objects [OF same_objects_modify])
  have "same_version i cy (snd (modify_connection j e op (upd_control k f cy)))" for f j e op
    using same_version_trans [OF _ m] by simp
  then show ?thesis using assms by (auto simp: modify_listening_def Let_def split: if_splits option.splits)
qed

lemma run_cleanups_version: "run_cleanups fs j cy = Inr cy' \<Longrightarrow> same_version i cy cy'"
proof (induction fs j cy rule: run_cleanups.induct)
  case (2 fs j cy)
  then obtain c where c: "func_cleanup j cy = Inr c" "run_cleanups fs j c = Inr cy'" by (auto simp: bindr_eq_Inr_conv)
  from c(1) obtain k f where "modify_listening k (upd_control k f cy) = Inr c" by (auto simp: func_cleanup_def split: option.splits)
  from same_version_trans [OF same_version_simple(2) modify_listening_version [OF this]] have "same_version i cy c" .
  from same_version_trans [OF this "2.IH" [OF c(2)]] show ?case .
qed simp

lemma reset_block_version:
  assumes "0 < i" "i \<le> length (pl_connections p)"
  shows "cn_version (get_connection_accord_id i (reset_block j p)) = cn_version (get_connection_accord_id i p)"
    "cn_connId (get_connection_accord_id i (reset_block j p)) = cn_connId (get_connection_accord_id i p)"
  using ident_at [OF pool_ident_reset_block, of i j p] assms by (simp_all add: ident_def links_def)

lemma free_connection_version:
  assumes "free_connection i cy = Inr cy'" and "valid_id i cy"
  shows "valid_id i cy' \<and> cn_version (conn i cy') = cn_version (conn i cy) + 1 \<and> cn_connId (conn i cy') = cn_connId (conn i cy)"
proof -
  let ?a = "if fd_of i cy > 0 then cy\<lparr>cy_interest := (cy_interest cy)(fd_of i cy := None)\<rparr> else cy"
  let ?b = "?a\<lparr>cy_pool := free_socket i (cy_pool ?a)\<rparr>"
  from assms(1) obtain c where c: "run_cleanups (cn_handlerCleanups (conn i ?b)) i ?b = Inr c" "cy' = c\<lparr>cy_pool := free_finish i (cy_pool c)\<rparr>"
    by (auto simp: free_connection_def Let_def bindr_eq_Inr_conv)
  have b: "valid_id i ?b" "cn_version (conn i ?b) = cn_version (conn i cy)" "cn_connId (conn i ?b) = cn_connId (conn i cy)"
    using assms(2) by (auto simp: valid_id_def conn_def free_socket_def Let_def get_map_conn_same get_connection_accord_id_def map_conn_def)
  then have v: "valid_id i c" "cn_version (conn i c) = cn_version (conn i cy)" "cn_connId (conn i c) = cn_connId (conn i cy)"
    using run_cleanups_version [OF c(1), of i] by (simp_all add: same_version_def)
  let ?p = "map_conn i (\<lambda>c. c\<lparr>cn_handlerCleanups := []\<rparr>) (cy_pool c)"
  have l: "0 < i" "i \<le> length (pl_connections (map_conn i (reset_self False) ?p))" using v(1) by (simp_all add: valid_id_def)
  have r: "cn_version (reset_self False x) = cn_version x + 1" "cn_connId (reset_self False x) = cn_connId x" for x
    by (simp_all add: reset_self_def Let_def)
  have "cn_version (get_connection_accord_id i (connection_reset False i ?p)) = cn_version (conn i c) + 1"
    "cn_connId (get_connection_accord_id i (connection_reset False i ?p)) = cn_connId (conn i c)"
    using reset_block_version [OF l] l by (simp_all add: connection_reset_def get_map_conn_same r conn_def)
  then show ?thesis using v c(2) by (simp add: free_finish_def Let_def conn_def get_connection_accord_id_def valid_id_def)
qed

text \<open>C16: Notices about a connection that has been given back are ignored: what the kernel, a coroutine or another
  thread noted about it before (the user data of its \<open>epoll_ctl\<close>, its entry in a queue) carries the
  version \<open>free_connection\<close> has ended, so the event loop drops it without running anything.\<close>

theorem stale_notices_ignored:
  assumes "free_connection i cy = Inr cy'" and "valid_id i cy" and "cn_connId (conn i cy) = i" and "i < 2 ^ 32"
  shows "dispatch_event s events (conn_data (conn i cy)) cy' = Inr cy'
    \<and> resume_process s (i, cn_version (conn i cy)) go cy' = Inr (go, cy')
    \<and> (\<exists>go'. resume_single s (i, cn_version (conn i cy)) go cy' = Inr (go', cy'))"
proof -
  note v = free_connection_version [OF assms(1,2)]
  have n: "cn_version (conn i cy') \<noteq> cn_version (conn i cy)" using v by simp
  have u: "unat (word_of_nat (cn_connId (conn i cy)) :: 32 word) = i"
    using unat_word32 [of i] assms(3,4) by simp
  have "dispatch_event s events (conn_data (conn i cy)) cy' = Inr cy'"
    using v n u by (simp add: dispatch_event_def conn_data_def Let_def)
  moreover have r: "resume_process s (i, cn_version (conn i cy)) go cy' = Inr (go, cy')"
    using n by (simp add: resume_process_def)
  ultimately show ?thesis by (simp add: resume_single_def)
qed

theorem stale_notices_ignored_witness:
  "\<exists>cy'. free_connection 1 accepted_cycle = Inr cy'
    \<and> dispatch_event noting EPOLLIN (conn_data (conn 1 accepted_cycle)) cy' = Inr cy' \<and> resume_process noting (1, 0) False cy' = Inr (False, cy')"
proof -
  have c: "conn 1 accepted_cycle = (hd (new_pair 0))\<lparr>cn_coTcp := new_tcp_fd 9\<rparr>"
    by (simp add: accepted_cycle_def upd_tcp_def conn_def upd_conn_def small_cycle_def get_map_conn_same small_pool_free)
      (simp add: get_connection_accord_id_def small_pool_connections new_pair_def)
  let ?a = "accepted_cycle\<lparr>cy_interest := (cy_interest accepted_cycle)(9 := None)\<rparr>"
  let ?b = "?a\<lparr>cy_pool := free_socket 1 (cy_pool ?a)\<rparr>"
  have f: "fd_of 1 accepted_cycle = 9" unfolding fd_of_def c by (simp add: new_tcp_fd_def)
  have "cn_handlerCleanups (conn 1 ?b) = cn_handlerCleanups (conn 1 accepted_cycle)"
    using accepted_cycle_facts(1)
    by (auto simp: valid_id_def conn_def free_socket_def Let_def get_connection_accord_id_def map_conn_def Suc_le_eq)
  also have "\<dots> = []" unfolding c by (simp add: new_pair_def new_connection_def)
  finally have h: "cn_handlerCleanups (conn 1 ?b) = []" .
  have "\<exists>cy'. free_connection 1 accepted_cycle = Inr cy'"
    unfolding free_connection_def Let_def f using h by simp
  then obtain cy' where r: "free_connection 1 accepted_cycle = Inr cy'" by blast
  have i: "cn_connId (conn 1 accepted_cycle) = 1" "cn_version (conn 1 accepted_cycle) = 0" unfolding c by (simp_all add: new_pair_def new_connection_def)
  from stale_notices_ignored [OF r accepted_cycle_facts(1) i(1), of noting EPOLLIN False] r i(2) show ?thesis by auto
qed

section \<open>The end of a request with sub-requests\<close>

definition doomed :: "CoConnection \<Rightarrow> CoConnection" where
  "doomed c = c\<lparr>cn_flagDying := True, cn_flagParentDying := True\<rparr>"

lemma kill_subrequests_ok:
  assumes "\<And>u. u \<in> snd ` set us \<Longrightarrow> \<exists>q. cy_requests cy u = Some q \<and> rq_connection q = Some (j u) \<and> valid_id (j u) cy"
  shows "\<exists>cy'. kill_subrequests us cy = Inr cy' \<and> cy_requests cy' = cy_requests cy
    \<and> cy_delayConnections cy' = cy_delayConnections cy @ map (\<lambda>(k, u). (j u, cn_version (conn (j u) cy))) us
    \<and> (\<forall>i. valid_id i cy \<longrightarrow> conn i cy' = (if i \<in> j ` snd ` set us then doomed (conn i cy) else conn i cy))"
  using assms
proof (induction us arbitrary: cy)
  case (Cons p us)
  obtain k u where p: "p = (k, u)" by fastforce
  obtain q where q: "cy_requests cy u = Some q" "rq_connection q = Some (j u)" "valid_id (j u) cy" using Cons.prems [of u] p by auto
  let ?a = "upd_conn (j u) doomed cy" let ?c = "push_delay (j u) ?a"
  have k: "kill_subrequest u cy = Inr ?c"
    using q by (simp add: kill_subrequest_def request_of_def deref_def the_ref_def doomed_def [abs_def])
  have f: "cy_requests ?c = cy_requests cy" "valid_id i ?c = valid_id i cy" "conn i ?c = conn i ?a" for i
    by (simp_all add: push_delay_def upd_conn_def valid_id_def conn_def)
  have n: "conn i ?a = (if i = j u then doomed (conn i cy) else conn i cy)" if "valid_id i cy" for i
    using q(3) that conn_upd_other [of "j u" i doomed cy] by (auto simp: valid_id_def)
  have v: "cn_version (conn x ?c) = cn_version (conn x cy)" for x
    unfolding f by (rule version_upd_conn) (simp add: doomed_def)
  have d: "cy_delayConnections ?c = cy_delayConnections cy @ [(j u, cn_version (conn (j u) cy))]"
    using version_upd_conn [of doomed "j u" "j u" cy] by (simp add: push_delay_def upd_conn_def doomed_def)
  obtain cy' where i: "kill_subrequests us ?c = Inr cy'" "cy_requests cy' = cy_requests ?c"
    "cy_delayConnections cy' = cy_delayConnections ?c @ map (\<lambda>(k, u). (j u, cn_version (conn (j u) ?c))) us"
    "\<And>i. valid_id i ?c \<Longrightarrow> conn i cy' = (if i \<in> j ` snd ` set us then doomed (conn i ?c) else conn i ?c)"
    using Cons.IH [of ?c] Cons.prems f(1,2) by force
  have dd: "doomed (doomed c) = doomed c" for c by (simp add: doomed_def)
  have "kill_subrequests (p # us) cy = Inr cy'" using k i(1) p by simp
  moreover have "conn i cy' = (if i \<in> j ` snd ` set (p # us) then doomed (conn i cy) else conn i cy)" if "valid_id i cy" for i
    using i(4) [of i] that f(2,3) n [OF that] p dd by auto
  ultimately show ?case using i(2,3) f(1) d v p by auto
qed simp


text \<open>The client of the request of \<^term>\<open>family_cycle\<close> goes away.\<close>

definition left_alone :: CoCycle where
  "left_alone = upd_conn 1 (\<lambda>c. c\<lparr>cn_flagPendingEof := True\<rparr>) family_cycle"


end
