(* ===== verification/Subrequest_Flow.thy ===== *)
theory Subrequest_Flow
  imports Byte_Flow Dispatcher_Properties
begin

text \<open>
  A sub-request from the connection to the answer, on the local state of its connection: the coroutine
  \<open>upstream_init\<close> connects (or reuses a connection), sends the request, reads the response and ends
  (\<open>subrequest_answered\<close>). What the sub-request belongs to outside its connection, its parent, the
  information the parent reads and the upstream, is the predicate \<open>relatives\<close>; the other coroutines
  keep it (\<open>coroutine_frame\<close>), and so do the loops.
\<close>

section \<open>The loops keep what the other coroutines keep\<close>

lemma same_objects_buf: "same_objects cy (upd_buf i b cy)"
  unfolding upd_buf_def by (rule same_objects_upd_conn) (simp add: ident_def links_def mark_def)

lemma same_objects_errno: "same_objects cy (clear_eagain r cy)"
  by (simp add: clear_eagain_def same_objects_def)

lemma pool_ident_length: "pool_ident p = pool_ident q \<Longrightarrow> length (pl_connections p) = length (pl_connections q)"
  by (rule map_eq_imp_length_eq [of ident _ ident]) (simp add: pool_ident_def)

context coroutine_frame
begin

lemma frame_conn_read:
  assumes "conn_read w i k cy = Inr (ret, s, cy')" and "P cy"
  shows "P cy'"
proof (cases "k = 0 \<or> fd_of i cy \<le> 0")
  case True
  then show ?thesis using assms by (simp add: conn_read_def)
next
  case False
  then obtain x c where c: "hook_recv w (fd_of i cy) k cy = Inr (x, c)" "cy' = clear_eagain x c"
    using assms(1) by (auto simp: conn_read_def bindr_eq_Inr_conv Let_def case_prod_beta)
  have "P c" using frame_read_write_mode [OF assms(2) _ c(1) [unfolded hook_recv_def]] same same_objects_origin(1) by blast
  then show ?thesis using same same_objects_errno c(2) by blast
qed

lemma frame_conn_write:
  assumes "conn_write w i buf cy = Inr (ret, cy')" and "P cy"
  shows "P cy'"
proof (cases "buf = [] \<or> fd_of i cy \<le> 0")
  case True
  then show ?thesis using assms by (auto simp: conn_write_def)
next
  case False
  then obtain x c where c: "hook_send w (fd_of i cy) buf cy = Inr (x, c)" "cy' = clear_eagain x c"
    using assms(1) by (auto simp: conn_write_def bindr_eq_Inr_conv)
  have "P c" using frame_read_write_mode [OF assms(2) _ c(1) [unfolded hook_send_def]] same same_objects_origin(2) by blast
  then show ?thesis using same same_objects_errno c(2) by blast
qed

lemma frame_read_step:
  assumes proto: "\<And>cy p. P cy \<Longrightarrow> P (upd_protocol n p cy)" and "read_step w i n cy = Inr (g, ret, cy')" and "P cy"
  shows "P cy'"
proof -
  note buf = same [OF _ same_objects_buf]
  obtain e b where b: "buffer_expand (cy_heap cy) BUFFER_SIZE_4096 (buf_of i cy) = Inr (e, b)"
    using assms(2) by (auto simp: read_step_def bindr_eq_Inr_conv)
  show ?thesis
  proof (cases "e = CO_OK")
    case False
    then show ?thesis using assms(2) b buf [OF assms(3), of i b] by (auto simp: read_step_def)
  next
    case True
    then obtain x s c where c: "conn_read w i BUFFER_SIZE_4096 (upd_buf i b cy) = Inr (x, s, c)"
      "(if x < CO_OK then Inr (False, x, c) else read_decode i n s c) = Inr (g, ret, cy')"
      using assms(2) b by (auto simp: read_step_def bindr_eq_Inr_conv)
    have p: "P c" by (rule frame_conn_read [OF c(1) buf [OF assms(3)]])
    have "P cy'" if "read_decode i n s c = Inr (g, ret, cy')"
      using that buf [OF p] buf [OF buf [OF p], THEN proto]
      by (auto simp: read_decode_def bindr_eq_Inr_conv Let_def case_prod_beta split: if_splits)
    then show ?thesis using c(2) p by (cases "x < CO_OK") auto
  qed
qed

lemma frame_read_loop:
  assumes proto: "\<And>cy p. P cy \<Longrightarrow> P (upd_protocol n p cy)" and "read_loop w i n cy = Some (Inr (ret, cy'))" and "P cy"
  shows "P cy'"
proof -
  have "\<forall>ret cy'. n' = n \<longrightarrow> w' = w \<longrightarrow> P cy \<longrightarrow> y = Inr (ret, cy') \<longrightarrow> P cy'" if "read_loop w' i n' cy = Some y" for w' n' y
  proof (rule read_loop.raw_induct [where P = "\<lambda>w' i n' cy y. \<forall>ret cy'. n' = n \<longrightarrow> w' = w \<longrightarrow> P cy \<longrightarrow> y = Inr (ret, cy') \<longrightarrow> P cy'", OF _ that])
    fix loop w' i n' cy y
    assume ih: "\<And>w' i n' cy y. loop w' i n' cy = Some y \<Longrightarrow> \<forall>ret cy'. n' = n \<longrightarrow> w' = w \<longrightarrow> P cy \<longrightarrow> y = Inr (ret, cy') \<longrightarrow> P cy'"
      and y: "(case read_step w' i n' cy of Inl e \<Rightarrow> Some (Inl e) | Inr (goon, ret, cy) \<Rightarrow> if goon then loop w' i n' cy else Some (Inr (ret, cy))) = Some y"
    show "\<forall>ret cy'. n' = n \<longrightarrow> w' = w \<longrightarrow> P cy \<longrightarrow> y = Inr (ret, cy') \<longrightarrow> P cy'"
    proof (intro allI impI)
      fix ret cy'
      assume a: "n' = n" "w' = w" "P cy" "y = Inr (ret, cy')"
      obtain g r c where s: "read_step w i n cy = Inr (g, r, c)" using y a by (auto split: sum.splits)
      have "P c" by (rule frame_read_step [OF proto s a(3)])
      then show "P cy'" using y a s ih [of w i n c y] by (cases g) auto
    qed
  qed
  then show ?thesis using assms(2,3) by blast
qed

lemma frame_write_loop:
  assumes "write_loop w i cy = Some (Inr (sent, cy'))" and "P cy"
  shows "P cy'"
proof -
  have step: "P c" if w: "write_step w i cy = Inr (g, x, c)" and p: "P cy" for i cy g x c
  proof (cases "get_buffersize (buf_of i cy) > 0")
    case True
    then obtain k c1 where "conn_write w i (contents (buf_of i cy)) cy = Inr (k, c1)" "c = c1 \<or> (\<exists>b. c = upd_buf i b c1)"
      using w by (auto simp: write_step_def bindr_eq_Inr_conv split: if_splits)
    then show ?thesis using frame_conn_write p same same_objects_buf by metis
  next
    case False
    then show ?thesis using w p by (simp add: write_step_def)
  qed
  have "\<forall>s cy'. w' = w \<longrightarrow> P cy \<longrightarrow> y = Inr (s, cy') \<longrightarrow> P cy'" if "write_loop w' i cy = Some y" for w' y
  proof (rule write_loop.raw_induct [where P = "\<lambda>w' i cy y. \<forall>s cy'. w' = w \<longrightarrow> P cy \<longrightarrow> y = Inr (s, cy') \<longrightarrow> P cy'", OF _ that])
    fix loop w' i cy y
    assume ih: "\<And>w' i cy y. loop w' i cy = Some y \<Longrightarrow> \<forall>s cy'. w' = w \<longrightarrow> P cy \<longrightarrow> y = Inr (s, cy') \<longrightarrow> P cy'"
      and y: "(case write_step w' i cy of Inl e \<Rightarrow> Some (Inl e) | Inr (goon, sent, cy) \<Rightarrow> if goon then loop w' i cy else Some (Inr (sent, cy))) = Some y"
    show "\<forall>s cy'. w' = w \<longrightarrow> P cy \<longrightarrow> y = Inr (s, cy') \<longrightarrow> P cy'"
    proof (intro allI impI)
      fix s cy'
      assume a: "w' = w" "P cy" "y = Inr (s, cy')"
      obtain g r c where st: "write_step w i cy = Inr (g, r, c)" using y a by (auto split: sum.splits)
      then show "P cy'" using y a step [OF st a(2)] ih [of w i c y] by (cases g) auto
    qed
  qed
  then show ?thesis using assms by blast
qed

end

section \<open>What a sub-request belongs to\<close>

text \<open>
  The information \<open>u\<close> with the protocol object \<open>n\<close> the parent reads the result from, the parent \<open>p\<close> on connection \<open>ip\<close>, which has the
  sub-request \<open>e\<close> (its number and its object) among the pending ones, with its user data and its protocol object \<open>a\<close>, and the
  upstream.
\<close>

definition relatives :: "string \<Rightarrow> nat \<Rightarrow> nat \<Rightarrow> nat \<Rightarrow> nat \<Rightarrow> nat \<times> nat \<Rightarrow> CoUserHandlerData \<times> protocol option \<Rightarrow> CoCycle \<Rightarrow> bool" where
  "relatives name u n p ip e a cy \<longleftrightarrow> map_option ui_protocol (cy_infos cy u) = Some (Some n) \<and> valid_id ip cy \<and> joined p cy \<and> e \<in> set (pending p cy)
     \<and> (\<exists>x. cy_requests cy p = Some x \<and> rq_connection x = Some ip \<and> rq_userData x = fst a) \<and> find_upstream name cy \<noteq> None
     \<and> (\<forall>m. ud_protocol (fst a) = Some m \<longrightarrow> m \<noteq> n \<and> cy_protocols cy m = snd a)"

definition sub_request :: "nat \<Rightarrow> nat \<Rightarrow> nat \<Rightarrow> nat \<Rightarrow> nat \<Rightarrow> CoRequest \<Rightarrow> bool" where
  "sub_request i n u p k q \<longleftrightarrow> rq_connection q = Some i \<and> rq_protocol q = Some n \<and> rq_upstreamInfo q = Some u \<and> rq_parent q = Some p
     \<and> rq_requestId q = k \<and> rq_userProcess q = None \<and> rq_userDestroy q = None \<and> ud_upstreamInfos (rq_userData q) = []
     \<and> \<not> rq_flagNeedFreeProtocol q \<and> \<not> detached q"

lemma sub_own: "\<lbrakk>l_request l = Some q; sub_request i n u p k q\<rbrakk> \<Longrightarrow> own i n l"
  by (simp add: own_def sub_request_def)

lemma relatives_cong:
  assumes "cy_infos cy' = cy_infos cy" and "cy_requests cy' p = cy_requests cy p" and "cy_upstreams cy' = cy_upstreams cy"
    and "\<And>m. m \<noteq> n \<Longrightarrow> cy_protocols cy' m = cy_protocols cy m" and "length (pl_connections (cy_pool cy')) = length (pl_connections (cy_pool cy))"
  shows "relatives name u n p ip e a cy' = relatives name u n p ip e a cy"
proof -
  have "(\<forall>m. ud_protocol (fst a) = Some m \<longrightarrow> m \<noteq> n \<and> cy_protocols cy' m = snd a)
    = (\<forall>m. ud_protocol (fst a) = Some m \<longrightarrow> m \<noteq> n \<and> cy_protocols cy m = snd a)" using assms(4) by metis
  then show ?thesis using assms(1-3,5) unfolding relatives_def joined_def pending_def find_upstream_def valid_id_def by simp
qed

lemma relatives_same:
  assumes "same_objects cy cy'"
  shows "relatives name u n p ip e a cy' = relatives name u n p ip e a cy"
proof (rule relatives_cong)
  have "pool_ident (cy_pool cy') = pool_ident (cy_pool cy)" using assms by (simp add: same_objects_def)
  then show "length (pl_connections (cy_pool cy')) = length (pl_connections (cy_pool cy))" by (rule pool_ident_length)
qed (use assms in \<open>simp_all add: same_objects_def\<close>)

lemma relatives_steps:
  "relatives name u n p ip e a (upd_protocol n x cy) = relatives name u n p ip e a cy"
  "r \<noteq> p \<Longrightarrow> relatives name u n p ip e a (upd_request r f cy) = relatives name u n p ip e a cy"
  "relatives name u n p ip e a (tick cy) = relatives name u n p ip e a cy"
  "relatives name u n p ip e a (set_timer i t ms cy) = relatives name u n p ip e a cy"
  "relatives name u n p ip e a (unset_timer i t cy) = relatives name u n p ip e a cy"
  "relatives name u n p ip e a (upd_buf i b cy) = relatives name u n p ip e a cy"
  "relatives name u n p ip e a (snd (modify_connection i m op cy)) = relatives name u n p ip e a cy"
  "relatives name u n p ip e a (upd_tcp i x' cy) = relatives name u n p ip e a cy"
  by (rule relatives_cong; simp add: upd_protocol_def upd_request_def tick_def; fail | rule relatives_same,
    (rule same_objects_timer same_objects_buf same_objects_modify same_objects_upd_tcp))+

section \<open>Connecting\<close>

text \<open>
  What the kernel answers: the connection is there at once, or it comes about while the coroutine waits
  and \<open>getsockopt\<close> finds no error.
\<close>

definition connect_answers :: "world \<Rightarrow> nat \<Rightarrow> CoCycle \<Rightarrow> bool" where
  "connect_answers w i cy \<longleftrightarrow> fst (fst (syscall (cy_sys cy))) = 0
     \<or> snd (fst (syscall (cy_sys cy))) = EINPROGRESS \<and> (\<forall>c. alive i c \<longrightarrow> fst (syscall (cy_sys (w_others w i c))) = (0, 0))"

lemma sys_frame:
  "cy_sys (set_timer i e ms cy) = cy_sys cy" "cy_sys (snd (modify_connection i t op cy)) = cy_sys cy"
proof -
  have u: "cy_sys (upd_conn j g c) = cy_sys c" for j g c by (simp add: upd_conn_def)
  have k: "cy_sys (snd (epoll_ctl p fd ev d c)) = cy_sys c" for p fd ev d c
    by (simp add: epoll_ctl_def Let_def split: option.split)
  show "cy_sys (snd (modify_connection i t op cy)) = cy_sys cy"
    unfolding modify_connection_def Let_def case_prod_beta by (simp_all add: u k)
  show "cy_sys (set_timer i e ms cy) = cy_sys cy"
    unfolding set_timer_def Let_def case_prod_beta by (simp add: u add_timer_def tick_def)
qed

lemma seen_sys: "seen i r n cy l \<Longrightarrow> seen i r n (cy\<lparr>cy_sys := s\<rparr>) l"
  using alive_local_cong [of i cy "cy\<lparr>cy_sys := s\<rparr>"] by (auto simp: seen_def local_def)

lemma seen_tcp:
  assumes "seen i r n cy l" and "tc_socketfd t = fd_of i cy"
  shows "seen i r n (upd_tcp i t cy) (l\<lparr>l_conn := (l_conn l)\<lparr>cn_coTcp := t\<rparr>\<rparr>)"
proof -
  let ?f = "\<lambda>c::CoConnection. c\<lparr>cn_coTcp := t\<rparr>"
  have a: "alive i cy" and l: "local i r n cy = l" using assms(1) by (auto simp: seen_def)
  have v: "valid_id i cy" using a by (simp add: alive_def)
  have c: "conn i (upd_conn i ?f cy) = ?f (conn i cy)" using v by simp
  have p: "cy_curConnection (upd_conn i ?f cy) = cy_curConnection cy" "pl_innerSockets (cy_pool (upd_conn i ?f cy)) = pl_innerSockets (cy_pool cy)"
    "cy_serverControls (upd_conn i ?f cy) = cy_serverControls cy" "cy_interest (upd_conn i ?f cy) = cy_interest cy" "cy_refuse (upd_conn i ?f cy) = cy_refuse cy"
    "cy_in (upd_conn i ?f cy) = cy_in cy" "cy_out (upd_conn i ?f cy) = cy_out cy" "cy_wire (upd_conn i ?f cy) = cy_wire cy"
    "cy_requests (upd_conn i ?f cy) = cy_requests cy" "cy_protocols (upd_conn i ?f cy) = cy_protocols cy"
    "cy_heap (upd_conn i ?f cy) = cy_heap cy" "cy_itr (upd_conn i ?f cy) = cy_itr cy"
    "cy_userFuncs (upd_conn i ?f cy) = cy_userFuncs cy" "valid_id i (upd_conn i ?f cy)"
    using v by (simp_all add: upd_conn_def valid_id_def)
  have fd: "fd_of i (upd_conn i ?f cy) = fd_of i cy" unfolding fd_of_def c using assms(2) by (simp add: fd_of_def)
  have "watched (?f (conn i cy)) tbl = watched (conn i cy) tbl" for tbl
    using assms(2) by (simp add: watched_def fd_of_def)
  then have "alive i (upd_conn i ?f cy)"
    using a unfolding alive_def fd is_inner_socketfd_def p c control_def by simp
  moreover have "local i r n (upd_conn i ?f cy) = l\<lparr>l_conn := (l_conn l)\<lparr>cn_coTcp := t\<rparr>\<rparr>"
    using l unfolding local_def fd p c by (auto simp: core_def)
  ultimately show ?thesis by (simp add: seen_def upd_tcp_def)
qed

lemma conn_connect_ok:
  assumes w: "patient w i r n" and F: "coroutine_frame w P" and s: "seen i r n cy l" and own: "own i n l" and p: "P cy"
    and t: "can_connect (cn_coTcp (l_conn l))" and a: "connect_answers w i cy"
  obtains cy' where "conn_connect w i cy = Inr (CO_OK, cy')" "P cy'"
    "seen i r n cy' (l\<lparr>l_conn := (l_conn l)\<lparr>cn_coTcp := (cn_coTcp (l_conn l))\<lparr>tc_connectState := True\<rparr>\<rparr>\<rparr>)"
proof -
  note same = coroutine_frame.same [OF F]
  have al: "alive i cy" using s by (simp add: seen_def)
  have h: "hook_connect w (fd_of i cy) cy = Inr (connect_inner w i (fd_of i cy) cy)"
    using al by (simp add: hook_connect_def alive_def)
  have sysP: "P (c\<lparr>cy_sys := z\<rparr>)" if "P c" for c z by (rule same [OF that]) (simp add: same_objects_def)
  obtain c where c: "connect_inner w i (fd_of i cy) cy = (Inr (), c)" "seen i r n c l" "P c"
  proof (cases "fst (fst (syscall (cy_sys cy))) = 0")
    case True
    then have "connect_inner w i (fd_of i cy) cy = (Inr (), cy\<lparr>cy_sys := snd (syscall (cy_sys cy))\<rparr>)"
      by (simp add: connect_inner_def origin_connect_def Let_def case_prod_beta)
    then show ?thesis using that seen_sys [OF s] sysP [OF p] by blast
  next
    case False
    then have e: "snd (fst (syscall (cy_sys cy))) = EINPROGRESS" "\<And>c. alive i c \<Longrightarrow> fst (syscall (cy_sys (w_others w i c))) = (0, 0)"
      using a by (auto simp: connect_answers_def)
    let ?c1 = "cy\<lparr>cy_sys := snd (syscall (cy_sys cy)), cy_errno := EINPROGRESS\<rparr>"
    have o: "origin_connect (fd_of i cy) cy = (Inl EINPROGRESS, ?c1)"
      using False e(1) by (simp add: origin_connect_def Let_def case_prod_beta)
    have s1: "seen i r n ?c1 l" using s alive_local_cong [OF al, of ?c1] by (auto simp: seen_def local_def)
    have p1: "P (w_others w i ?c1)"
      by (rule coroutine_frame.others [OF F]) (rule same [OF p], simp add: same_objects_def)
    have s2: "seen i r n (w_others w i ?c1) l" by (rule seen_others [OF w s1 own])
    have "alive i ?c1" using s1 by (simp add: seen_def)
    then have "socket_error (w_others w i ?c1) = (Inr (), (w_others w i ?c1)\<lparr>cy_sys := snd (syscall (cy_sys (w_others w i ?c1)))\<rparr>)"
      using e(2) [of ?c1] by (simp add: socket_error_def Let_def case_prod_beta)
    then have "connect_inner w i (fd_of i cy) cy = (Inr (), (w_others w i ?c1)\<lparr>cy_sys := snd (syscall (cy_sys (w_others w i ?c1)))\<rparr>)"
      using o alive_yield [OF w s1 own, of socket_error] by (simp add: connect_inner_def)
    then show ?thesis using that seen_sys [OF s2] sysP [OF p1] by blast
  qed
  have f: "tc_socketfd ((cn_coTcp (l_conn l))\<lparr>tc_connectState := True\<rparr>) = fd_of i c" using seen_fd [OF c(2)] by simp
  note sc = seen_tcp [OF c(2) f]
  have "conn_connect w i cy = Inr (CO_OK, upd_tcp i ((cn_coTcp (l_conn l))\<lparr>tc_connectState := True\<rparr>) c)"
    using h c(1) t seen_reads(6) [OF s] seen_reads(6) [OF c(2)] by (simp add: conn_connect_def connect_ret_def)
  then show ?thesis using that sc same [OF c(3) same_objects_upd_tcp] by blast
qed

section \<open>From the connection to the end of the response\<close>

text \<open>A sub-request on its way: its connection, its objects and its relatives.\<close>

definition under_way :: "nat \<Rightarrow> nat \<Rightarrow> nat \<Rightarrow> string \<Rightarrow> nat \<Rightarrow> nat \<Rightarrow> nat \<Rightarrow> nat \<Rightarrow> CoUserHandlerData \<times> protocol option \<Rightarrow> CoCycle \<Rightarrow> local_state \<Rightarrow> bool" where
  "under_way i r n name u p ip k a cy l \<longleftrightarrow> seen i r n cy l \<and> r \<noteq> p \<and> cn_request (l_conn l) = Some r
     \<and> (\<exists>q. l_request l = Some q \<and> sub_request i n u p k q) \<and> relatives name u n p ip (k, r) a cy"

lemma seen_request: "seen i r n cy l \<Longrightarrow> cn_request (conn i cy) = cn_request (l_conn l)"
  by (auto simp: seen_def local_def)

lemma under_way_clock:
  assumes "under_way i r n name u p ip k a cy l" and "\<And>q. sub_request i n u p k (f q) = sub_request i n u p k q"
  obtains q where "under_way i r n name u p ip k a (tick (upd_request r f cy)) (l\<lparr>l_request := Some q\<rparr>)"
    "sub_request i n u p k q"
proof -
  obtain q where q: "l_request l = Some q" "sub_request i n u p k q" using assms(1) by (auto simp: under_way_def)
  have s: "seen i r n cy l" using assms(1) by (simp add: under_way_def)
  have "seen i r n (tick (upd_request r f cy)) (l\<lparr>l_request := Some (f q)\<rparr>)"
    using seen_steps(4) [OF seen_steps(6) [OF s, of f]] q(1) by simp
  then have "under_way i r n name u p ip k a (tick (upd_request r f cy)) (l\<lparr>l_request := Some (f q)\<rparr>)"
    using assms q by (simp add: under_way_def relatives_steps)
  then show ?thesis using that assms(2) q(2) by blast
qed

lemma upstream_init_runs:
  assumes w: "patient w i r n" and F: "coroutine_frame w (relatives name u n p ip (k, r) a)" and y: "under_way i r n name u p ip k a cy l"
    and ready: "ev_flagActive (cn_readEvent (conn i cy)) \<or> can_connect (cn_coTcp (l_conn l)) \<and> connect_answers w i cy"
  obtains c t ev q where "upstream_init w i cy = upstream_write w i c" "tc_ipport t = tc_ipport (cn_coTcp (l_conn l))"
    "tc_socketfd t = tc_socketfd (cn_coTcp (l_conn l))" "sub_request i n u p k q"
    "under_way i r n name u p ip k a c (l\<lparr>l_conn := (l_conn l)\<lparr>cn_coTcp := t\<rparr>, l_events := ev, l_request := Some q\<rparr>)"
proof -
  let ?f = "\<lambda>c q. q\<lparr>rq_connectUs := elapsed_us rq_startUs q c\<rparr>"
  have s: "seen i r n cy l" and rc: "cn_request (conn i cy) = Some r" using y seen_request by (auto simp: under_way_def)
  have q': "sub_request i n u p k (?f c q) = sub_request i n u p k q" for c q by (simp add: sub_request_def detached_def)
  note out = that
  have fin: thesis if c: "upstream_init w i cy = bindr (request_of r c) (\<lambda>q. upstream_write w i (tick (upd_request r (?f c) c)))"
      and u: "under_way i r n name u p ip k a c (l\<lparr>l_conn := (l_conn l)\<lparr>cn_coTcp := t\<rparr>, l_events := ev\<rparr>)"
      and t: "tc_ipport t = tc_ipport (cn_coTcp (l_conn l))" "tc_socketfd t = tc_socketfd (cn_coTcp (l_conn l))" for c t ev
  proof -
    obtain q where "under_way i r n name u p ip k a (tick (upd_request r (?f c) c)) (l\<lparr>l_conn := (l_conn l)\<lparr>cn_coTcp := t\<rparr>, l_events := ev, l_request := Some q\<rparr>)"
      "sub_request i n u p k q"
      by (rule under_way_clock [OF u, of "?f c", OF q']) simp
    moreover have "upstream_init w i cy = upstream_write w i (tick (upd_request r (?f c) c))"
      using c u seen_reads(4) [of i r n c] by (auto simp: under_way_def request_of_def deref_def)
    ultimately show thesis using out [OF _ t] by blast
  qed
  show ?thesis
  proof (cases "ev_flagActive (cn_readEvent (conn i cy))")
    case True
    let ?c = "unset_timer i EVENT_TYPE_READ cy"
    have "l\<lparr>l_conn := (l_conn l)\<lparr>cn_coTcp := cn_coTcp (l_conn l)\<rparr>, l_events := l_events l\<rparr> = l" by (cases l) simp
    then have "under_way i r n name u p ip k a ?c (l\<lparr>l_conn := (l_conn l)\<lparr>cn_coTcp := cn_coTcp (l_conn l)\<rparr>, l_events := l_events l\<rparr>)"
      using y seen_steps(2) [OF s] by (simp add: under_way_def relatives_steps)
    moreover have "upstream_init w i cy = bindr (request_of r ?c) (\<lambda>q. upstream_write w i (tick (upd_request r (?f ?c) ?c)))"
      using True rc by (simp add: upstream_init_def the_ref_def)
    ultimately show ?thesis using fin by blast
  next
    case False
    let ?t = "set_timer i EVENT_TYPE_WRITE (cn_scoketConnTimeout (conn i cy)) cy"
    let ?ev = "modify_events EPOLL_EVENTS_ADD CO_EVENT_WRITE (l_events l)"
    have nz: "l_events l \<noteq> 0 \<or> modify_events EPOLL_EVENTS_ADD CO_EVENT_WRITE 0 \<noteq> 0" using add_events_nonzero event_bits(4) by simp
    obtain c1 where c1: "modify_connection i EPOLL_EVENTS_ADD CO_EVENT_WRITE ?t = (CO_OK, c1)" "seen i r n c1 (l\<lparr>l_events := ?ev\<rparr>)"
      by (rule seen_modify [OF seen_steps(1) [OF s] nz])
    have sys: "connect_answers w i c1" and r1: "relatives name u n p ip (k, r) a c1"
      using ready False c1(1) sys_frame [of i] relatives_steps(4,7) y by (simp_all add: connect_answers_def under_way_def) (metis snd_conv)+
    have own: "own i n (l\<lparr>l_events := ?ev\<rparr>)" using y sub_own by (auto simp: under_way_def)
    have can: "can_connect (cn_coTcp (l_conn (l\<lparr>l_events := ?ev\<rparr>)))" using ready False by simp
    obtain c2 where c2: "conn_connect w i c1 = Inr (CO_OK, c2)" "relatives name u n p ip (k, r) a c2"
      "seen i r n c2 (l\<lparr>l_conn := (l_conn l)\<lparr>cn_coTcp := (cn_coTcp (l_conn l))\<lparr>tc_connectState := True\<rparr>\<rparr>, l_events := ?ev\<rparr>)"
      using conn_connect_ok [OF w F c1(2) own r1 can sys] by auto
    let ?c = "unset_timer i EVENT_TYPE_WRITE c2"
    have "under_way i r n name u p ip k a ?c (l\<lparr>l_conn := (l_conn l)\<lparr>cn_coTcp := (cn_coTcp (l_conn l))\<lparr>tc_connectState := True\<rparr>\<rparr>, l_events := ?ev\<rparr>)"
      using y seen_steps(2) [OF c2(3)] c2(2) by (simp add: under_way_def relatives_steps)
    moreover have "upstream_init w i cy = bindr (request_of r ?c) (\<lambda>q. upstream_write w i (tick (upd_request r (?f ?c) ?c)))"
      using False rc c1(1) c2(1) by (simp add: upstream_init_def the_ref_def)
    ultimately show ?thesis using fin by simp
  qed
qed

lemma encode_request_ok:
  assumes "seen i r n cy l" and "l_protocol l = Some (HttpClient h)" and "l_heap l = full_heap j" and "buf_inv (l_buf l)"
    and "length (request_text (l_itr l) (tc_ipport (cn_coTcp (l_conn l))) (m_reqMsg h)) \<le> buf_limit"
  obtains c b where "encode_message i (Some n) cy = Inr c" "buf_inv b"
    "contents b = request_text (l_itr l) (tc_ipport (cn_coTcp (l_conn l))) (m_reqMsg h)"
    "seen i r n c (put_buf b (l\<lparr>l_protocol := Some (HttpClient (h\<lparr>m_reqMsg := client_headers (tc_ipport (cn_coTcp (l_conn l))) (m_reqMsg h)\<rparr>))\<rparr>))"
    "relatives name u n p ip e a c = relatives name u n p ip e a cy"
proof -
  let ?a = "tc_ipport (cn_coTcp (l_conn l))"
  let ?b = "if get_buffersize (buf_of i cy) > 0 then buffer_reset (buf_of i cy) else buf_of i cy"
  have "buf_inv ?b \<and> contents ?b = []"
    using bq.reset_ok [OF assms(4)] assms(4) length_contents [OF assms(4)] seen_reads(1) [OF assms(1)] by (auto simp: get_buffersize_def)
  then obtain b where b: "client_encode (l_itr l) (full_heap j) ?a h ?b = Inr (CO_OK, h\<lparr>m_reqMsg := client_headers ?a (m_reqMsg h)\<rparr>, b)"
    "buf_inv b" "contents b = request_text (l_itr l) ?a (m_reqMsg h)"
    using client_encode_ok [of ?b "l_itr l" ?a h j] assms(5) by auto
  let ?c = "upd_protocol n (HttpClient (h\<lparr>m_reqMsg := client_headers ?a (m_reqMsg h)\<rparr>)) (upd_buf i b cy)"
  have "encode_message i (Some n) cy = Inr ?c"
    using b(1) assms(2,3) seen_reads(2,3,5,6) [OF assms(1)]
    by (simp add: encode_message_def the_ref_def deref_def wrap_protocol_def Let_def)
  moreover have "seen i r n ?c (put_buf b (l\<lparr>l_protocol := Some (HttpClient (h\<lparr>m_reqMsg := client_headers ?a (m_reqMsg h)\<rparr>))\<rparr>))"
    using seen_steps(7) [OF seen_steps(5) [OF assms(1), of b]] by simp
  moreover have "relatives name u n p ip e a ?c = relatives name u n p ip e a cy" by (simp add: relatives_steps)
  ultimately show ?thesis using that b(2,3) by blast
qed

lemma upstream_write_done_ok:
  assumes "under_way i r n name u p ip k a cy l" and "l_events l \<noteq> 0"
  obtains c where "upstream_write_done w i r cy = Inr c"
    "under_way i r n name u p ip k a c (l\<lparr>l_events := modify_events EPOLL_EVENTS_DEL CO_EVENT_OUT (l_events l)\<rparr>)"
proof -
  have s: "seen i r n (unset_timer i EVENT_TYPE_WRITE cy) l" using assms(1) seen_steps(2) by (simp add: under_way_def)
  have nz: "l_events l \<noteq> 0 \<or> modify_events EPOLL_EVENTS_DEL CO_EVENT_OUT 0 \<noteq> 0" using assms(2) by simp
  obtain c where c: "modify_connection i EPOLL_EVENTS_DEL CO_EVENT_OUT (unset_timer i EVENT_TYPE_WRITE cy) = (CO_OK, c)"
    "seen i r n c (l\<lparr>l_events := modify_events EPOLL_EVENTS_DEL CO_EVENT_OUT (l_events l)\<rparr>)"
    by (rule seen_modify [OF s nz])
  have "relatives name u n p ip (k, r) a c"
    using assms(1) relatives_steps(5,7) c(1) unfolding under_way_def by (metis snd_conv)
  then show ?thesis using that c assms(1) by (simp add: upstream_write_done_def under_way_def)
qed

lemma upstream_write_sends:
  assumes w: "patient w i r n" and F: "coroutine_frame w (relatives name u n p ip (k, r) a)" and y: "under_way i r n name u p ip k a cy l"
    and h: "l_protocol l = Some (HttpClient h)" "l_heap l = full_heap j" "buf_inv (l_buf l)"
    and t: "t = request_text (l_itr l) (tc_ipport (cn_coTcp (l_conn l))) (m_reqMsg h)" "length t \<le> buf_limit"
    and out: "l_out l = takings ks @ later" "\<forall>k\<in>set ks. 0 < snd k" "sum_list (map snd ks) = length t"
  obtains c b ev q h' where "upstream_write w i cy = upstream_read w i c" "buf_inv b" "contents b = []" "m_respMsg h' = m_respMsg h"
    "under_way i r n name u p ip k a c (put_buf b (l\<lparr>l_events := ev, l_out := later, l_wire := l_wire l @ t, l_request := Some q,
       l_protocol := Some (HttpClient h')\<rparr>))"
proof -
  let ?ev = "modify_events EPOLL_EVENTS_ADD CO_EVENT_OUT (l_events l)"
  let ?a = "tc_ipport (cn_coTcp (l_conn l))"
  let ?h = "h\<lparr>m_reqMsg := client_headers ?a (m_reqMsg h)\<rparr>"
  have s: "seen i r n cy l" and rc: "cn_request (conn i cy) = Some r" and rel: "relatives name u n p ip (k, r) a cy"
    using y seen_request by (auto simp: under_way_def)
  obtain q where q: "l_request l = Some q" "sub_request i n u p k q" using y by (auto simp: under_way_def)
  let ?t = "set_timer i EVENT_TYPE_WRITE (cn_socketSndTimeout (conn i cy)) cy"
  have nz: "l_events l \<noteq> 0 \<or> modify_events EPOLL_EVENTS_ADD CO_EVENT_OUT 0 \<noteq> 0" using add_events_nonzero event_bits(2) by simp
  obtain c1 where c1: "modify_connection i EPOLL_EVENTS_ADD CO_EVENT_OUT ?t = (CO_OK, c1)" "seen i r n c1 (l\<lparr>l_events := ?ev\<rparr>)"
    by (rule seen_modify [OF seen_steps(1) [OF s] nz])
  have r1: "relatives name u n p ip (k, r) a c1" using rel relatives_steps(4,7) c1(1) by (metis snd_conv)
  let ?l1 = "l\<lparr>l_events := ?ev\<rparr>"
  have sel: "l_protocol ?l1 = Some (HttpClient h)" "l_heap ?l1 = full_heap j" "buf_inv (l_buf ?l1)"
    "length (request_text (l_itr ?l1) (tc_ipport (cn_coTcp (l_conn ?l1))) (m_reqMsg h)) \<le> buf_limit" using h t by simp_all
  obtain c2 b2 where c2: "encode_message i (Some n) c1 = Inr c2" "buf_inv b2" "contents b2 = t"
    "seen i r n c2 (put_buf b2 (l\<lparr>l_events := ?ev, l_protocol := Some (HttpClient ?h)\<rparr>))" "relatives name u n p ip (k, r) a c2"
    using encode_request_ok [OF c1(2) sel, where name = name and u = u and p = p and ip = ip and e = "(k, r)" and a = a] r1 t(1) by auto
  let ?l2 = "put_buf b2 (l\<lparr>l_events := ?ev, l_protocol := Some (HttpClient ?h)\<rparr>)"
  have o2: "l_out ?l2 = takings ks @ later" "buf_inv (l_buf ?l2)" "sum_list (map snd ks) = length (contents (l_buf ?l2))"
    using out c2(2,3) by simp_all
  obtain c3 b3 where c3: "write_loop w i c2 = Some (Inr (True, c3))" "buf_inv b3" "contents b3 = []"
    "seen i r n c3 (put_buf b3 (?l2\<lparr>l_out := later, l_wire := l_wire ?l2 @ contents (l_buf ?l2)\<rparr>))"
    using write_loop_ok [OF w c2(4) _ o2(1) out(2) o2(2,3)] sub_own [OF q] by simp blast
  have r3: "relatives name u n p ip (k, r) a c3" by (rule coroutine_frame.frame_write_loop [OF F c3(1) c2(5)])
  let ?l3 = "put_buf b3 (l\<lparr>l_events := ?ev, l_out := later, l_wire := l_wire l @ t, l_protocol := Some (HttpClient ?h)\<rparr>)"
  have y3: "under_way i r n name u p ip k a c3 ?l3"
    using c3(4) c2(3) r3 y q by (simp add: under_way_def)
  let ?f = "\<lambda>q. q\<lparr>rq_writeUs := elapsed_us rq_startUs q c3\<rparr>"
  obtain q4 where y4: "under_way i r n name u p ip k a (tick (upd_request r ?f c3)) (?l3\<lparr>l_request := Some q4\<rparr>)"
    by (rule under_way_clock [OF y3, of ?f]) (auto simp: sub_request_def detached_def)
  have nz4: "l_events (?l3\<lparr>l_request := Some q4\<rparr>) \<noteq> 0" using add_events_nonzero event_bits(2) by simp
  obtain c where c: "upstream_write_done w i r (tick (upd_request r ?f c3)) = Inr c"
    "under_way i r n name u p ip k a c ((?l3\<lparr>l_request := Some q4\<rparr>)\<lparr>l_events := modify_events EPOLL_EVENTS_DEL CO_EVENT_OUT
       (l_events (?l3\<lparr>l_request := Some q4\<rparr>))\<rparr>)"
    by (rule upstream_write_done_ok [OF y4 nz4])
  have q1: "request_of r c1 = Inr q" "rq_protocol q = Some n" using seen_reads(4) [OF c1(2)] q by (simp_all add: request_of_def deref_def sub_request_def)
  have "upstream_write w i cy = upstream_read w i c"
    using rc c1(1) q1 c2(1) c3(1) c(1) by (simp add: upstream_write_def the_ref_def looped_def Let_def)
  then show ?thesis using that [OF _ c3(2,3), of c ?h] c(2) by simp
qed

lemma upstream_read_runs:
  assumes w: "patient w i r n" and F: "coroutine_frame w (relatives name u n p ip (k, r) a)" and y: "under_way i r n name u p ip k a cy l"
    and h: "l_protocol l = Some (HttpClient h)" "l_heap l = full_heap j" "buf_inv (l_buf l)" "contents (l_buf l) = []"
    and x: "l_in l = arrivals xs @ later" "\<forall>x\<in>set xs. snd x \<noteq> [] \<and> length (snd x) \<le> 4096" "4096 * length xs \<le> buf_limit"
    and f: "feed client_parse (m_respMsg h) [] (map snd xs) = Inr (CO_OK, m, rest)"
  obtains c b ev ys zs q where "upstream_read w i cy = upstream_finalize w r CO_OK c" "xs = ys @ zs" "ys \<noteq> []"
    "under_way i r n name u p ip k a c (put_buf b (l\<lparr>l_events := ev, l_in := arrivals zs @ later, l_request := Some q,
       l_protocol := Some (HttpClient (h\<lparr>m_respMsg := m\<rparr>))\<rparr>))"
proof -
  let ?ev = "modify_events EPOLL_EVENTS_ADD CO_EVENT_IN (l_events l)"
  have s: "seen i r n cy l" and rc: "cn_request (conn i cy) = Some r" and rel: "relatives name u n p ip (k, r) a cy"
    using y seen_request by (auto simp: under_way_def)
  obtain q where q: "l_request l = Some q" "sub_request i n u p k q" using y by (auto simp: under_way_def)
  let ?t = "set_timer i EVENT_TYPE_READ (cn_socketRcvTimeout (conn i cy)) cy"
  have nz: "l_events l \<noteq> 0 \<or> modify_events EPOLL_EVENTS_ADD CO_EVENT_IN 0 \<noteq> 0" using add_events_nonzero event_bits(3) by simp
  obtain c1 where c1: "modify_connection i EPOLL_EVENTS_ADD CO_EVENT_IN ?t = (CO_OK, c1)" "seen i r n c1 (l\<lparr>l_events := ?ev\<rparr>)"
    by (rule seen_modify [OF seen_steps(1) [OF s] nz])
  have r1: "relatives name u n p ip (k, r) a c1" using rel relatives_steps(4,7) c1(1) by (metis snd_conv)
  let ?l1 = "l\<lparr>l_events := ?ev\<rparr>"
  have sel: "l_in ?l1 = arrivals xs @ later" "l_heap ?l1 = full_heap j" "buf_inv (l_buf ?l1)"
    "length (contents (l_buf ?l1)) + 4096 * length xs \<le> buf_limit"
    "l_protocol ?l1 = Some (HttpClient (h\<lparr>m_respMsg := m_respMsg h\<rparr>))"
    "feed client_parse (m_respMsg h) (contents (l_buf ?l1)) (map snd xs) = Inr (CO_OK, m, rest)" "CO_OK \<noteq> CO_AGAIN"
    using x h f by (simp_all add: CO_OK_def CO_AGAIN_def)
  obtain c2 b ys zs where c2: "read_loop w i n c1 = Some (Inr (CO_OK, c2))" "buf_inv b" "xs = ys @ zs" "ys \<noteq> []"
    "seen i r n c2 (put_buf b (?l1\<lparr>l_in := arrivals zs @ later, l_protocol := Some (HttpClient (h\<lparr>m_respMsg := m\<rparr>))\<rparr>))"
    using cli_stream.read_loop_ok [OF w c1(2) _ sel(1) x(2) sel(2-7)] sub_own [OF q] by simp blast
  have r2: "relatives name u n p ip (k, r) a c2"
    by (rule coroutine_frame.frame_read_loop [OF F _ c2(1) r1]) (simp add: relatives_steps)
  let ?l2 = "put_buf b (?l1\<lparr>l_in := arrivals zs @ later, l_protocol := Some (HttpClient (h\<lparr>m_respMsg := m\<rparr>))\<rparr>)"
  have y2: "under_way i r n name u p ip k a c2 ?l2" using c2(5) r2 y q by (simp add: under_way_def)
  let ?f = "\<lambda>q. q\<lparr>rq_readUs := elapsed_us rq_startUs q c2\<rparr>"
  obtain q3 where y3: "under_way i r n name u p ip k a (tick (upd_request r ?f c2)) (?l2\<lparr>l_request := Some q3\<rparr>)" "sub_request i n u p k q3"
    by (rule under_way_clock [OF y2, of ?f]) (auto simp: sub_request_def detached_def)
  let ?c = "read_done i (read_time r CO_OK c2)"
  let ?l = "put_buf b (l\<lparr>l_events := modify_events EPOLL_EVENTS_DEL CO_EVENT_IN ?ev, l_in := arrivals zs @ later, l_request := Some q3,
       l_protocol := Some (HttpClient (h\<lparr>m_respMsg := m\<rparr>))\<rparr>)"
  have rt: "read_time r CO_OK c2 = tick (upd_request r ?f c2)" by (simp add: read_time_def)
  have s3: "seen i r n (tick (upd_request r ?f c2)) (?l2\<lparr>l_request := Some q3\<rparr>)" using y3(1) by (simp add: under_way_def)
  have nz3: "l_events (?l2\<lparr>l_request := Some q3\<rparr>) \<noteq> 0" using add_events_nonzero event_bits(3) by simp
  have sc: "seen i r n ?c ?l" using seen_done(2) [OF s3 nz3] unfolding rt by simp
  moreover have "relatives name u n p ip (k, r) a ?c"
    using y3(1) unfolding rt read_done_def relatives_steps(5,7) by (simp add: under_way_def)
  ultimately have yc: "under_way i r n name u p ip k a ?c ?l" using y y3(2) by (simp add: under_way_def)
  have q1: "request_of r c1 = Inr q" "rq_protocol q = Some n" using seen_reads(4) [OF c1(2)] q by (simp_all add: request_of_def deref_def sub_request_def)
  have "upstream_read w i cy = upstream_process w i ?c"
    using rc c1(1) q1 c2(1) by (simp add: upstream_read_def the_ref_def looped_def Let_def)
  also have "upstream_process w i ?c = upstream_finalize w r CO_OK ?c"
    using seen_request [OF sc] seen_reads(4) [OF sc] y3(2) y
    by (simp add: upstream_process_def the_ref_def request_of_def deref_def sub_request_def under_way_def)
  finally show ?thesis using that c2(3,4) yc by blast
qed

section \<open>The end of a sub-request\<close>

lemma same_version_pool:
  assumes "length (pl_connections p) = length (pl_connections (cy_pool cy))"
    and "valid_id j cy \<Longrightarrow> cn_version (get_connection_accord_id j p) = cn_version (conn j cy) \<and> cn_connId (get_connection_accord_id j p) = cn_connId (conn j cy)"
  shows "same_version j cy (cy\<lparr>cy_pool := p\<rparr>)"
  using assms by (simp add: same_version_def valid_id_def conn_def)

lemma reset_other_version:
  assumes "i \<noteq> j" and "0 < i"
  shows "same_version j cy (cy\<lparr>cy_pool := connection_reset keep i (cy_pool cy)\<rparr>)"
proof (rule same_version_pool)
  show "length (pl_connections (connection_reset keep i (cy_pool cy))) = length (pl_connections (cy_pool cy))"
    by (simp add: connection_reset_def reset_block_def split: option.split)
  assume "valid_id j cy"
  then have "0 < j" "j \<le> length (pl_connections (map_conn i (reset_self keep) (cy_pool cy)))" by (simp_all add: valid_id_def)
  from reset_block_version [OF this, of i] get_map_conn_other [OF assms(2) this(1) assms(1), of "reset_self keep" "cy_pool cy"]
  show "cn_version (get_connection_accord_id j (connection_reset keep i (cy_pool cy))) = cn_version (conn j cy)
    \<and> cn_connId (get_connection_accord_id j (connection_reset keep i (cy_pool cy))) = cn_connId (conn j cy)"
    by (simp add: connection_reset_def conn_def)
qed

lemma free_plain_connection:
  assumes "valid_id i cy" and "cn_handlerCleanups (conn i cy) = []"
  obtains cy' where "free_connection i cy = Inr cy'" "cy_wire cy' = cy_wire cy" "i \<in> set (pl_freeConnections (cy_pool cy'))"
    "\<And>j. j \<noteq> i \<Longrightarrow> same_version j cy cy'"
proof -
  let ?a = "if fd_of i cy > 0 then cy\<lparr>cy_interest := (cy_interest cy)(fd_of i cy := None)\<rparr> else cy"
  let ?b = "?a\<lparr>cy_pool := free_socket i (cy_pool ?a)\<rparr>"
  let ?q = "map_conn i (\<lambda>c. c\<lparr>cn_handlerCleanups := []\<rparr>) (cy_pool ?b)"
  have i: "0 < i" "i \<le> length (pl_connections (cy_pool cy))" using assms(1) by (simp_all add: valid_id_def)
  have pa: "cy_pool ?a = cy_pool cy" by simp
  have fs: "free_socket i p = p\<lparr>pl_innerSockets := x\<rparr> \<or> free_socket i p = map_conn i f (p\<lparr>pl_innerSockets := x\<rparr>)"
    if "x = pl_innerSockets p - {tc_socketfd (cn_coTcp (get_connection_accord_id i p))}" "f = (\<lambda>c. c\<lparr>cn_coTcp := snd (tcp_close (cn_coTcp c))\<rparr>)" for p x f
    using that by (simp add: free_socket_def Let_def)
  have g: "get_connection_accord_id j (p\<lparr>pl_innerSockets := x\<rparr>) = get_connection_accord_id j p" for j p x
    by (simp add: get_connection_accord_id_def)
  have "cn_handlerCleanups (get_connection_accord_id i (free_socket i (cy_pool cy))) = []"
    using fs [OF refl refl, of "cy_pool cy"] i assms(2) by (auto simp: get_map_conn_same g conn_def)
  then have r: "free_connection i cy = Inr (?b\<lparr>cy_pool := free_finish i (cy_pool ?b)\<rparr>)"
    unfolding free_connection_def Let_def by (simp add: conn_def)
  have other: "same_version j cy (?b\<lparr>cy_pool := free_finish i (cy_pool ?b)\<rparr>)" if j: "j \<noteq> i" for j
  proof -
    have o: "get_connection_accord_id j (free_socket i (cy_pool cy)) = conn j cy" if "0 < j"
      using fs [OF refl refl, of "cy_pool cy"] get_map_conn_other [OF i(1) that] j by (auto simp: g conn_def)
    have l: "length (pl_connections (free_socket i (cy_pool cy))) = length (pl_connections (cy_pool cy))"
      using fs [OF refl refl, of "cy_pool cy"] by auto
    have b: "same_version j cy (?b\<lparr>cy_pool := ?q\<rparr>)"
      using o l get_map_conn_other [OF i(1) _ j [symmetric], of _ "free_socket i (cy_pool cy)"]
      by (simp add: same_version_def valid_id_def conn_def)
    have "same_version j (?b\<lparr>cy_pool := ?q\<rparr>) ((?b\<lparr>cy_pool := ?q\<rparr>)\<lparr>cy_pool := connection_reset False i (cy_pool (?b\<lparr>cy_pool := ?q\<rparr>))\<rparr>)"
      by (rule reset_other_version) (use j i in auto)
    moreover have "same_version j ((?b\<lparr>cy_pool := ?q\<rparr>)\<lparr>cy_pool := connection_reset False i (cy_pool (?b\<lparr>cy_pool := ?q\<rparr>))\<rparr>)
      (?b\<lparr>cy_pool := free_finish i (cy_pool ?b)\<rparr>)"
      by (simp add: free_finish_def Let_def same_version_def valid_id_def conn_def get_connection_accord_id_def)
    ultimately show ?thesis using same_version_trans [OF b] same_version_trans by blast
  qed
  show ?thesis using that [OF r _ _ other] by (simp add: free_finish_def Let_def)
qed

lemma free_answered_connection:
  assumes "valid_id i cy" and "cn_upstream (conn i cy) = Some name" and "cn_backend (conn i cy) = Some b"
    and "cn_handlerCleanups (conn i cy) = []" and "find_upstream name cy = Some x"
  obtains cy' where "free_upstream_connection i CO_OK cy = Inr cy'" "cy_wire cy' = cy_wire cy" "\<And>j. j \<noteq> i \<Longrightarrow> same_version j cy cy'"
    "i \<in> set (pl_freeConnections (cy_pool cy')) \<or> (\<exists>v key. find_upstream name cy' = Some v \<and> i \<in> set (ups_reuseConnections v key))"
proof -
  have i: "0 < i" using assms(1) by (simp add: valid_id_def)
  obtain z c where c: "upstream_check i name x b CO_OK cy = Inr (z, c)" "c = cy \<or> c = tick cy"
    by (cases "used_up (ups_confUpstream x) (conn i cy)"; cases "up_connectionMaxTime (ups_confUpstream x) = 0")
      (simp_all add: upstream_check_def CO_EXCEPTION_def CO_OK_def Let_def)
  let ?d = "drop_timer i EVENT_TYPE_WRITE (drop_timer i EVENT_TYPE_READ c)"
  have dt: "same_objects a (drop_timer i e a)" for a e using same_objects_timer(2) by (simp add: drop_timer_def)
  have sc: "same_objects cy c" using c(2) by auto
  have sd: "same_objects cy ?d" using same_objects_trans [OF sc same_objects_trans [OF dt dt]] .
  have wd: "cy_wire ?d = cy_wire cy" using c(2) wire_frame(1) by (auto simp: tick_def)
  have f: "free_upstream_connection i CO_OK cy = (if z then upstream_close i name ?d else Inr (upstream_keep i name (serverkey_at x b) ?d))"
    using assms(2,3,5) c(1) by (simp add: free_upstream_connection_def the_ref_def Let_def)
  show ?thesis
  proof (cases z)
    case True
    let ?e = "upd_upstream name (\<lambda>u. u\<lparr>ups_curConnectionSize := ups_curConnectionSize u - 1\<rparr>) ?d"
    let ?g = "snd (del_connection i ?e)"
    have pe: "cy_pool ?e = cy_pool ?d" "cy_wire ?e = cy_wire ?d" by (simp_all add: upd_upstream_def)
    have pg: "pool_ident (cy_pool ?g) = pool_ident (cy_pool cy)"
      using same_objects_del [of ?e i] sd pe(1) by (simp add: same_objects_def)
    have vg: "valid_id i ?g" using pool_ident_length [OF pg] assms(1) by (simp add: valid_id_def)
    have "ident (conn i ?g) = ident (conn i cy)" using ident_at [OF pg] vg by (simp add: conn_def valid_id_def)
    then have "cn_handlerCleanups (conn i ?g) = []" using assms(4) by (simp add: ident_def mark_def)
    from free_plain_connection [OF vg this] obtain cy' where r: "free_connection i ?g = Inr cy'" "cy_wire cy' = cy_wire ?g"
      "i \<in> set (pl_freeConnections (cy_pool cy'))" "\<And>j. j \<noteq> i \<Longrightarrow> same_version j ?g cy'" by blast
    have vg': "same_version j cy ?g" for j
      using same_version_objects [OF sd, of j] same_version_objects [OF same_objects_del, of j ?e i] pe(1)
      by (simp add: same_version_def valid_id_def conn_def)
    have "free_upstream_connection i CO_OK cy = Inr cy'" using f True r(1) by (simp add: upstream_close_def)
    moreover have "cy_wire cy' = cy_wire cy" using r(2) wire_frame(3) pe(2) wd by simp
    moreover have "same_version j cy cy'" if "j \<noteq> i" for j using same_version_trans [OF vg' r(4) [OF that]] .
    ultimately show ?thesis using that r(3) by blast
  next
    case False
    let ?e = "?d\<lparr>cy_pool := connection_reset True i (cy_pool ?d)\<rparr>"
    let ?g = "snd (modify_connection i EPOLL_EVENTS_DEL (CO_EVENT_IN OR CO_EVENT_OUT) ?e)"
    let ?h = "set_timer i EVENT_TYPE_READ (cn_keepaliveTimeout (conn i ?g)) ?g"
    let ?k = "upd_upstream name (\<lambda>u. u\<lparr>ups_reuseConnections := (ups_reuseConnections u)(serverkey_at x b := i # ups_reuseConnections u (serverkey_at x b))\<rparr>) ?h"
    have k: "upstream_keep i name (serverkey_at x b) ?d = ?k" by (simp add: upstream_keep_def Let_def)
    have h: "same_objects ?e ?h" using same_objects_trans [OF same_objects_modify same_objects_timer(1)] .
    have u: "cy_upstreams ?h = cy_upstreams cy" using h sd by (simp add: same_objects_def)
    then have "find_upstream name ?h = Some x" using assms(5) by (simp add: find_upstream_def)
    then have re: "\<exists>v key. find_upstream name ?k = Some v \<and> i \<in> set (ups_reuseConnections v key)"
      by (intro exI [of _ "x\<lparr>ups_reuseConnections := (ups_reuseConnections x)(serverkey_at x b := i # ups_reuseConnections x (serverkey_at x b))\<rparr>"]
        exI [of _ "serverkey_at x b"]) (simp add: find_upd_upstream)
    have "same_version j cy ?h" if "j \<noteq> i" for j
    proof -
      have "same_version j ?d ?e" by (rule reset_other_version) (use that i in auto)
      from same_version_trans [OF same_version_trans [OF same_version_objects [OF sd] this] same_version_objects [OF h]] show ?thesis .
    qed
    then have ve: "same_version j cy ?k" if "j \<noteq> i" for j
      using that by (simp add: same_version_def valid_id_def conn_def upd_upstream_def)
    have "cy_wire (set_timer i EVENT_TYPE_READ m a) = cy_wire a" for m a
      unfolding set_timer_def Let_def case_prod_beta by (simp add: upd_conn_def add_timer_def tick_def)
    then have "cy_wire ?k = cy_wire cy" using wd wire_frame(2) by (simp add: upd_upstream_def)
    then show ?thesis using that [of ?k] f False k re ve by simp
  qed
qed

text \<open>\<open>finalize_request\<close> runs to its end.\<close>

lemma subrequest_ends:
  assumes "cy_requests cy r = Some q" and "sub_request i n u p k q" and "r \<noteq> p" and "relatives name u n p ip (k, r) a cy"
  obtains cy' where "upstream_finalize_request w r ret cy = Inr cy'" "cy_protocols cy' = cy_protocols cy" "cy_wire cy' = cy_wire cy"
    "\<exists>x. cy_infos cy' u = Some x \<and> ui_status x = ret \<and> ui_protocol x = Some n"
    "\<exists>x. cy_requests cy' p = Some x \<and> rq_userData x = fst a"
proof -
  obtain x y where x: "cy_infos cy u = Some x" "ui_protocol x = Some n" and y: "cy_requests cy p = Some y" "rq_connection y = Some ip" "rq_userData y = fst a"
    using assms(4) by (auto simp: relatives_def)
  let ?c = "tick (upd_info u (\<lambda>u. u\<lparr>ui_useTimeUs := elapsed_us rq_startUs q cy mod 4294967296, ui_status := ret\<rparr>) cy)"
  let ?f = "\<lambda>x. x\<lparr>rq_upstreamRequests := filter (\<lambda>(k, _). k \<noteq> rq_requestId q) (rq_upstreamRequests x), rq_count := rq_count x - 1\<rparr>"
  obtain c where c: "leave_parent q ?c = Inr c" "c = upd_request p ?f ?c \<or> c = push_delay ip (upd_request p ?f ?c)"
  proof -
    have q: "rq_parent q = Some p" "request_of p ?c = Inr y" using y(1) assms(2) by (simp_all add: sub_request_def request_of_def deref_def tick_def upd_info_def)
    show ?thesis using that y(2) unfolding leave_parent_def q the_ref_def option.case bindr_simps Let_def by (cases "rq_count y - 1 = 1") auto
  qed
  have r: "cy_requests c r = Some q" using c(2) assms(1,3) by (auto simp: upd_request_def push_delay_def tick_def upd_info_def)
  have d: "delete_request r c = c\<lparr>cy_requests := (cy_requests c)(r := None)\<rparr>"
    using r assms(2) by (simp add: delete_request_def sub_request_def Let_def)
  have "upstream_finalize_request w r ret cy = Inr (delete_request r c)"
    using assms(1,2) x(1) c(1)
    by (simp add: upstream_finalize_request_def request_of_def deref_def the_ref_def call_destroy_def sub_request_def tick_def upd_info_def Let_def)
  moreover have "cy_protocols c = cy_protocols cy" "cy_wire c = cy_wire cy"
    "cy_infos c u = Some (x\<lparr>ui_useTimeUs := elapsed_us rq_startUs q cy mod 4294967296, ui_status := ret\<rparr>)"
    using c(2) x(1) by (auto simp: upd_request_def push_delay_def tick_def upd_info_def)
  moreover have "cy_requests c p = Some (?f y)" using c(2) y(1) by (auto simp: upd_request_def push_delay_def tick_def upd_info_def)
  ultimately show ?thesis using that x(2) y(3) assms(3) unfolding d by simp
qed

lemma upstream_finalize_ends:
  assumes y: "under_way i r n name u p ip k a cy l" and ip: "ip \<noteq> i"
    and l: "cn_upstream (l_conn l) = Some name" "cn_backend (l_conn l) = Some b" "cn_handlerCleanups (l_conn l) = []"
  obtains cy' where "upstream_finalize w r CO_OK cy = Inr cy'" "cy_wire cy' (fd_of i cy) = l_wire l" "cy_protocols cy' n = l_protocol l"
    "\<exists>x. cy_infos cy' u = Some x \<and> ui_status x = CO_OK \<and> ui_protocol x = Some n" "cy_requests cy' r = None" "joined p cy'"
    "pending p cy' = filter (\<lambda>(k', _). k' \<noteq> k) (pending p cy)"
    "cy_delayConnections cy' = cy_delayConnections cy @ (if pending p cy' = [] then [(ip, cn_version (conn ip cy'))] else [])"
    "i \<in> set (pl_freeConnections (cy_pool cy')) \<or> (\<exists>v key. find_upstream name cy' = Some v \<and> i \<in> set (ups_reuseConnections v key))"
    "\<exists>x. cy_requests cy' p = Some x \<and> rq_userData x = fst a" "\<forall>m. ud_protocol (fst a) = Some m \<longrightarrow> cy_protocols cy' m = snd a"
proof -
  have s: "seen i r n cy l" and rel: "relatives name u n p ip (k, r) a cy" and rp: "r \<noteq> p" using y by (auto simp: under_way_def)
  obtain q where q: "cy_requests cy r = Some q" "sub_request i n u p k q" using y seen_reads(4) [OF s] by (auto simp: under_way_def)
  obtain v x where v: "find_upstream name cy = Some v" and x: "cy_requests cy p = Some x" "rq_connection x = Some ip"
    using rel by (auto simp: relatives_def)
  have lc: "l_conn l = core (conn i cy)" using s by (auto simp: seen_def local_def)
  have vi: "valid_id i cy" using s by (simp add: seen_def alive_def)
  have f: "cn_upstream (conn i cy) = Some name" "cn_backend (conn i cy) = Some b" "cn_handlerCleanups (conn i cy) = []"
    using l unfolding lc by (simp_all add: core_def)
  obtain c where c: "upstream_finalize_request w r CO_OK cy = Inr c" "cy_protocols c = cy_protocols cy" "cy_wire c = cy_wire cy"
    "\<exists>x. cy_infos c u = Some x \<and> ui_status x = CO_OK \<and> ui_protocol x = Some n"
    "\<exists>x. cy_requests c p = Some x \<and> rq_userData x = fst a"
    by (rule subrequest_ends [OF q rp rel])
  have qf: "rq_userDestroy q = None" "\<not> detached q" "rq_parent q = Some p" "rq_requestId q = k" "rq_connection q = Some i"
    using q(2) by (simp_all add: sub_request_def)
  have pr: "p \<noteq> r" "joined p cy" "(rq_requestId q, r) \<in> set (pending p cy)" using rp rel qf(4) by (auto simp: relatives_def)
  note leave = subrequest_leaves [OF c(1) q(1) qf(2,1,3) pr x]
  note fr = finalize_request_frame [OF c(1) q(1) qf(1)]
  have pc: "conn j c = conn j cy" "valid_id j c = valid_id j cy" for j using fr(1) by (simp_all add: conn_def valid_id_def)
  have g: "valid_id i c" "cn_upstream (conn i c) = Some name" "cn_backend (conn i c) = Some b" "cn_handlerCleanups (conn i c) = []" "find_upstream name c = Some v"
    using vi f v fr(2) by (simp_all add: pc find_upstream_def)
  obtain cy' where e: "free_upstream_connection i CO_OK c = Inr cy'" "cy_wire cy' = cy_wire c" "\<And>j. j \<noteq> i \<Longrightarrow> same_version j c cy'"
    "i \<in> set (pl_freeConnections (cy_pool cy')) \<or> (\<exists>v key. find_upstream name cy' = Some v \<and> i \<in> set (ups_reuseConnections v key))"
    using free_answered_connection [OF g] by blast
  note sr = free_upstream_requests [OF e(1), unfolded same_requests_def]
  have "upstream_finalize w r CO_OK cy = Inr cy'"
    using q(1) qf(5) f(1) v c(1) e(1) by (simp add: upstream_finalize_def request_of_def deref_def the_ref_def)
  moreover have "pending p cy' = pending p c" "joined p cy' = joined p c" using sr by (simp_all add: pending_def joined_def)
  moreover have "cn_version (conn ip cy') = cn_version (conn ip cy)"
    using e(3) [OF ip] rel by (simp add: same_version_def relatives_def pc)
  moreover have "\<forall>m. ud_protocol (fst a) = Some m \<longrightarrow> cy_protocols cy m = snd a" using rel by (auto simp: relatives_def)
  ultimately show ?thesis using that [of cy'] leave c(2-5) e(2,4) sr seen_reads(5,10) [OF s] qf(4) by simp
qed

section \<open>From the request to the answer\<close>

text \<open>
  Connection \<open>i\<close> at the start of the coroutine of sub-request \<open>r\<close>, with the request of the HTTP client
  \<open>h\<close> to send: it has been taken from the upstream \<open>name\<close>, is idle and reused or can be connected.
\<close>

definition sub_ready :: "world \<Rightarrow> nat \<Rightarrow> nat \<Rightarrow> nat \<Rightarrow> string \<Rightarrow> nat \<Rightarrow> nat \<Rightarrow> nat \<Rightarrow> nat \<Rightarrow> CoUserHandlerData \<times> protocol option \<Rightarrow> http_protocol \<Rightarrow> CoCycle \<Rightarrow> bool" where
  "sub_ready w i r n name u p ip k a h cy \<longleftrightarrow> alive i cy \<and> r \<noteq> p \<and> ip \<noteq> i \<and> cn_request (conn i cy) = Some r
     \<and> cn_upstream (conn i cy) = Some name \<and> cn_backend (conn i cy) \<noteq> None \<and> cn_handlerCleanups (conn i cy) = []
     \<and> buf_inv (buf_of i cy) \<and> (\<exists>j. cy_heap cy = full_heap j)
     \<and> (\<exists>q. cy_requests cy r = Some q \<and> sub_request i n u p k q) \<and> cy_protocols cy n = Some (HttpClient h) \<and> m_respMsg h = new_response
     \<and> relatives name u n p ip (k, r) a cy
     \<and> (ev_flagActive (cn_readEvent (conn i cy)) \<or> can_connect (cn_coTcp (conn i cy)) \<and> connect_answers w i cy)"

text \<open>From the start of the coroutine to its end.\<close>

lemma subrequest_comes_back:
  assumes "sub_ready w i r n name u p ip k a h cy" and "patient w i r n" and "coroutine_frame w (relatives name u n p ip (k, r) a)"
    and "t = request_text (cy_itr cy) (tc_ipport (cn_coTcp (conn i cy))) (m_reqMsg h)" and "length t \<le> buf_limit"
    and "cy_out cy (fd_of i cy) = takings ks @ out" and "\<forall>k\<in>set ks. 0 < snd k" and "sum_list (map snd ks) = length t"
    and "cy_in cy (fd_of i cy) = arrivals xs @ later" and "\<forall>x\<in>set xs. snd x \<noteq> [] \<and> length (snd x) \<le> 4096"
    and "4096 * length xs \<le> buf_limit" and "feed client_parse new_response [] (map snd xs) = Inr (CO_OK, m, rest)"
  shows "\<exists>cy' x h'. upstream_init w i cy = Inr cy' \<and> cy_wire cy' (fd_of i cy) = cy_wire cy (fd_of i cy) @ t
    \<and> cy_infos cy' u = Some x \<and> ui_status x = CO_OK \<and> ui_protocol x = Some n
    \<and> cy_protocols cy' n = Some (HttpClient h') \<and> m_respMsg h' = m
    \<and> cy_requests cy' r = None \<and> joined p cy' \<and> (k, r) \<notin> set (pending p cy')
    \<and> (\<exists>x. cy_requests cy' p = Some x \<and> rq_userData x = fst a) \<and> (\<forall>m. ud_protocol (fst a) = Some m \<longrightarrow> cy_protocols cy' m = snd a)
    \<and> (pending p cy' = [] \<longrightarrow> (ip, cn_version (conn ip cy')) \<in> set (cy_delayConnections cy'))
    \<and> (i \<in> set (pl_freeConnections (cy_pool cy')) \<or> (\<exists>v key. find_upstream name cy' = Some v \<and> i \<in> set (ups_reuseConnections v key)))"
proof -
  let ?l = "local i r n cy"
  note w = assms(2) and F = assms(3)
  obtain j b where j: "cy_heap cy = full_heap j" "cn_backend (conn i cy) = Some b" using assms(1) by (auto simp: sub_ready_def)
  have y0: "under_way i r n name u p ip k a cy ?l" using assms(1) by (auto simp: sub_ready_def under_way_def seen_def local_def)
  have ready: "ev_flagActive (cn_readEvent (conn i cy)) \<or> can_connect (cn_coTcp (l_conn ?l)) \<and> connect_answers w i cy"
    using assms(1) by (simp add: sub_ready_def local_def)
  obtain c1 tcp ev q1 where c1: "upstream_init w i cy = upstream_write w i c1" "tc_ipport tcp = tc_ipport (cn_coTcp (l_conn ?l))"
    "tc_socketfd tcp = tc_socketfd (cn_coTcp (l_conn ?l))" "sub_request i n u p k q1"
    "under_way i r n name u p ip k a c1 (?l\<lparr>l_conn := (l_conn ?l)\<lparr>cn_coTcp := tcp\<rparr>, l_events := ev, l_request := Some q1\<rparr>)"
    by (rule upstream_init_runs [OF w F y0 ready])
  let ?l1 = "?l\<lparr>l_conn := (l_conn ?l)\<lparr>cn_coTcp := tcp\<rparr>, l_events := ev, l_request := Some q1\<rparr>"
  have sel1: "l_protocol ?l1 = Some (HttpClient h)" "l_heap ?l1 = full_heap j" "buf_inv (l_buf ?l1)"
    "t = request_text (l_itr ?l1) (tc_ipport (cn_coTcp (l_conn ?l1))) (m_reqMsg h)" "l_out ?l1 = takings ks @ out"
    using assms(1,4,6) j(1) c1(2) by (simp_all add: sub_ready_def local_def buf_of_def)
  obtain c2 b2 ev2 q2 h2 where c2: "upstream_write w i c1 = upstream_read w i c2" "buf_inv b2" "contents b2 = []" "m_respMsg h2 = m_respMsg h"
    "under_way i r n name u p ip k a c2 (put_buf b2 (?l1\<lparr>l_events := ev2, l_out := out, l_wire := l_wire ?l1 @ t, l_request := Some q2,
       l_protocol := Some (HttpClient h2)\<rparr>))"
    by (rule upstream_write_sends [OF w F c1(5) sel1(1-4) assms(5) sel1(5) assms(7,8)])
  let ?l2 = "put_buf b2 (?l1\<lparr>l_events := ev2, l_out := out, l_wire := l_wire ?l1 @ t, l_request := Some q2, l_protocol := Some (HttpClient h2)\<rparr>)"
  have sel2: "l_protocol ?l2 = Some (HttpClient h2)" "l_heap ?l2 = full_heap j" "buf_inv (l_buf ?l2)" "contents (l_buf ?l2) = []"
    "l_in ?l2 = arrivals xs @ later" "feed client_parse (m_respMsg h2) [] (map snd xs) = Inr (CO_OK, m, rest)"
    using assms(1,9,12) j(1) c2(2-4) by (simp_all add: sub_ready_def local_def)
  obtain c3 b3 ev3 ys zs q3 where c3: "upstream_read w i c2 = upstream_finalize w r CO_OK c3" "xs = ys @ zs"
    "under_way i r n name u p ip k a c3 (put_buf b3 (?l2\<lparr>l_events := ev3, l_in := arrivals zs @ later, l_request := Some q3,
       l_protocol := Some (HttpClient (h2\<lparr>m_respMsg := m\<rparr>))\<rparr>))"
    by (rule upstream_read_runs [OF w F c2(5) sel2(1-5) assms(10,11) sel2(6)])
  let ?l3 = "put_buf b3 (?l2\<lparr>l_events := ev3, l_in := arrivals zs @ later, l_request := Some q3, l_protocol := Some (HttpClient (h2\<lparr>m_respMsg := m\<rparr>))\<rparr>)"
  have sel3: "cn_upstream (l_conn ?l3) = Some name" "cn_backend (l_conn ?l3) = Some b" "cn_handlerCleanups (l_conn ?l3) = []" "ip \<noteq> i"
    using assms(1) j(2) by (simp_all add: sub_ready_def local_def core_def)
  have "seen i r n c3 ?l3" using c3(3) by (simp add: under_way_def)
  then have fd: "fd_of i c3 = fd_of i cy" using seen_fd c1(3) by (fastforce simp: local_def fd_of_def)
  obtain cy' where e: "upstream_finalize w r CO_OK c3 = Inr cy'" "cy_wire cy' (fd_of i c3) = l_wire ?l3" "cy_protocols cy' n = l_protocol ?l3"
    "\<exists>x. cy_infos cy' u = Some x \<and> ui_status x = CO_OK \<and> ui_protocol x = Some n" "cy_requests cy' r = None" "joined p cy'"
    "pending p cy' = filter (\<lambda>(k', _). k' \<noteq> k) (pending p c3)"
    "cy_delayConnections cy' = cy_delayConnections c3 @ (if pending p cy' = [] then [(ip, cn_version (conn ip cy'))] else [])"
    "i \<in> set (pl_freeConnections (cy_pool cy')) \<or> (\<exists>v key. find_upstream name cy' = Some v \<and> i \<in> set (ups_reuseConnections v key))"
    "\<exists>x. cy_requests cy' p = Some x \<and> rq_userData x = fst a" "\<forall>m. ud_protocol (fst a) = Some m \<longrightarrow> cy_protocols cy' m = snd a"
    by (rule upstream_finalize_ends [OF c3(3) sel3(4) sel3(1-3)])
  have wire: "cy_wire cy' (fd_of i cy) = cy_wire cy (fd_of i cy) @ t" using e(2) fd by (simp add: local_def)
  obtain x where "cy_infos cy' u = Some x" "ui_status x = CO_OK" "ui_protocol x = Some n" using e(4) by blast
  then show ?thesis using c1(1) c2(1) c3(1) e(1,3,5-11) wire
    by (intro exI [of _ cy'] exI [of _ x] exI [of _ "h2\<lparr>m_respMsg := m\<rparr>"]) auto
qed

text \<open>C4: A sub-request is answered: its connection is reused or connects, at once or later; when the bytes
  of a complete response arrive, in any segments and with any waiting in between, \<open>upstream_init\<close> runs
  to its end without a fault. Exactly the encoded request has gone out, however the socket took it; the
  protocol object the parent looks at holds the response and the information says \<open>CO_OK\<close>; the
  sub-request is gone and no longer pending, and what else its parent has is untouched; if it was the last, its parent's connection is in the
  dispatcher's queue with its current version; and the connection waits to be reused or is free.\<close>

theorem subrequest_answered:
  assumes "sub_ready w i r n name u p ip k a h cy" and "patient w i r n" and "coroutine_frame w (relatives name u n p ip (k, r) a)"
    and "t = request_text (cy_itr cy) (tc_ipport (cn_coTcp (conn i cy))) (m_reqMsg h)" and "length t \<le> buf_limit"
    and "cy_out cy (fd_of i cy) = takings ks @ out" and "\<forall>k\<in>set ks. 0 < snd k" and "sum_list (map snd ks) = length t"
    and "cy_in cy (fd_of i cy) = arrivals xs @ later" and "\<forall>x\<in>set xs. snd x \<noteq> [] \<and> length (snd x) \<le> 4096"
    and "4096 * length xs \<le> buf_limit" and "feed client_parse new_response [] (map snd xs) = Inr (CO_OK, m, rest)"
  shows "\<exists>cy' x h'. upstream_init w i cy = Inr cy' \<and> cy_wire cy' (fd_of i cy) = cy_wire cy (fd_of i cy) @ t
    \<and> cy_infos cy' u = Some x \<and> ui_status x = CO_OK \<and> ui_protocol x = Some n
    \<and> cy_protocols cy' n = Some (HttpClient h') \<and> m_respMsg h' = m
    \<and> cy_requests cy' r = None \<and> joined p cy' \<and> (k, r) \<notin> set (pending p cy')
    \<and> (\<exists>x. cy_requests cy' p = Some x \<and> rq_userData x = fst a) \<and> (\<forall>m. ud_protocol (fst a) = Some m \<longrightarrow> cy_protocols cy' m = snd a)
    \<and> (pending p cy' = [] \<longrightarrow> (ip, cn_version (conn ip cy')) \<in> set (cy_delayConnections cy'))
    \<and> (i \<in> set (pl_freeConnections (cy_pool cy')) \<or> (\<exists>v key. find_upstream name cy' = Some v \<and> i \<in> set (ups_reuseConnections v key)))"
  by (rule subrequest_comes_back [OF assms])

text \<open>
  A thread on which the theorem applies: connection 3 has just been taken for sub-request 2 of request 1
  and connects at once; its socket takes seven bytes of the request, late, and then the rest, and the
  response comes in two segments.
\<close>

definition answering_tcp :: CoTCP where
  "answering_tcp = (new_tcp_fd 9)\<lparr>tc_ip := ''10.0.0.1'', tc_port := 80, tc_ipport := ''10.0.0.1:80''\<rparr>"

definition answering_cycle :: "(bool \<times> string) list \<Rightarrow> (bool \<times> nat) list \<Rightarrow> CoCycle" where
  "answering_cycle xs ks = family_cycle\<lparr>cy_pool := map_conn 3 (\<lambda>c. c\<lparr>cn_coTcp := answering_tcp\<rparr>) (cy_pool family_cycle),
     cy_curConnection := Some 3, cy_protocols := [4 \<mapsto> HttpClient (new_http_protocol\<lparr>m_reqMsg := sample_request\<rparr>)],
     cy_sys := [(0, 0)], cy_in := \<lambda>_. arrivals xs, cy_out := \<lambda>_. takings ks\<rparr>"

lemma answering_conn:
  shows "conn 3 (answering_cycle xs ks) = (hd (new_pair 2))\<lparr>cn_coTcp := answering_tcp, cn_upstream := Some ''up'',
      cn_backend := Some 0, cn_request := Some 2\<rparr>"
    and "valid_id j (answering_cycle xs ks) = valid_id j family_cycle" and "fd_of 3 (answering_cycle xs ks) = 9"
proof -
  have "valid_id 3 family_cycle" by (simp add: valid_id_def family_cycle_def small_pool_free)
  then show c: "conn 3 (answering_cycle xs ks) = (hd (new_pair 2))\<lparr>cn_coTcp := answering_tcp, cn_upstream := Some ''up'',
      cn_backend := Some 0, cn_request := Some 2\<rparr>"
    using family_cycle_conn(2) by (simp add: answering_cycle_def conn_def get_map_conn_same valid_id_def)
  show "valid_id j (answering_cycle xs ks) = valid_id j family_cycle" by (simp add: answering_cycle_def valid_id_def)
  show "fd_of 3 (answering_cycle xs ks) = 9" unfolding fd_of_def c by (simp add: answering_tcp_def new_tcp_fd_def)
qed

text \<open>The user data of its parent, which has no protocol object here.\<close>

definition family_data :: "CoUserHandlerData \<times> protocol option" where
  "family_data = (new_user_data\<lparr>ud_upstreamInfos := [3], ud_coroutineData := (1, 0)\<rparr>, None)"

lemma answering_ready:
  "sub_ready quiet_world 3 2 4 ''up'' 3 1 1 7 family_data (new_http_protocol\<lparr>m_reqMsg := sample_request\<rparr>) (answering_cycle xs ks)"
proof -
  let ?cy = "answering_cycle xs ks"
  let ?q = "(new_co_request CO_REQUEST_UPSTREAM)\<lparr>rq_connection := Some 3, rq_protocol := Some 4, rq_parent := Some 1,
         rq_upstreamInfo := Some 3, rq_requestId := 7\<rparr>"
  note c = answering_conn(1) [of xs ks]
  have f: "cn_request (conn 3 ?cy) = Some 2" "cn_upstream (conn 3 ?cy) = Some ''up''" "cn_backend (conn 3 ?cy) = Some 0"
    "cn_handlerCleanups (conn 3 ?cy) = []" "cn_coBuffer (conn 3 ?cy) = set_userdata 3 new_buffer" "\<not> cn_flagDying (conn 3 ?cy)"
    "cn_epollCurEvents (conn 3 ?cy) = 0" "cn_serverControl (conn 3 ?cy) = None" "cn_coTcp (conn 3 ?cy) = answering_tcp"
    unfolding c by (simp_all add: new_pair_def new_connection_def)
  have k: "cy_curConnection ?cy = Some 3" "cy_interest ?cy = (\<lambda>_. None)" "\<forall>k. \<not> cy_refuse ?cy k" "9 \<in> pl_innerSockets (cy_pool ?cy)"
    "cy_heap ?cy = full_heap (\<lambda>n. NUL)" "cy_requests ?cy 2 = Some ?q" "cy_protocols ?cy 4 = Some (HttpClient (new_http_protocol\<lparr>m_reqMsg := sample_request\<rparr>))"
    by (simp_all add: answering_cycle_def family_cycle_def small_cycle_def)
  have v: "valid_id 3 ?cy" "valid_id 1 ?cy" unfolding answering_conn(2) by (simp_all add: valid_id_def family_cycle_def small_pool_free)
  have a: "alive 3 ?cy"
    unfolding alive_def is_inner_socketfd_def answering_conn(3) watched_def f(7,8) k(1,2) using v(1) f(6) k(3,4) by simp
  have rel: "relatives ''up'' 3 4 1 1 (7, 2) family_data ?cy"
  proof -
    have q: "cy_requests ?cy = cy_requests family_cycle" "cy_infos ?cy = cy_infos family_cycle" "cy_upstreams ?cy = cy_upstreams family_cycle"
      by (simp_all add: answering_cycle_def)
    show ?thesis using v(2) family_cycle_upstream unfolding relatives_def joined_def pending_def find_upstream_def q
      by (simp add: family_cycle_def new_upstream_info_def new_co_request_def family_data_def new_user_data_def)
  qed
  have sub: "sub_request 3 4 3 1 7 ?q"
    by (simp add: sub_request_def new_co_request_def new_user_data_def detached_def CO_REQUEST_UPSTREAM_def CO_REQUEST_DETACH_def)
  have con: "can_connect answering_tcp" "connect_answers quiet_world 3 ?cy"
    by (simp_all add: can_connect_def answering_tcp_def new_tcp_fd_def connect_answers_def answering_cycle_def)
  have b: "buf_inv (set_userdata 3 new_buffer)" by (simp add: buf_inv_def set_userdata_def new_buffer_def)
  have h: "\<exists>j. cy_heap ?cy = full_heap j" using k(5) by blast
  show ?thesis unfolding sub_ready_def buf_of_def f(5,9) using a f(1-4) b h k(6,7) rel sub con
    by (simp add: new_http_protocol_def)
qed

definition answer_segments :: "(bool \<times> string) list" where
  "answer_segments = [(False, take 20 (response_text (\<lambda>h. h) sample_response)), (True, drop 20 (response_text (\<lambda>h. h) sample_response))]"

lemma answer_segments_feed:
  "\<exists>m rest. feed client_parse new_response [] (map snd answer_segments) = Inr (CO_OK, m, rest)"
proof -
  have "(case feed client_parse new_response [] (map snd answer_segments) of Inl e \<Rightarrow> False | Inr (ret, _, _) \<Rightarrow> ret = CO_OK)"
    by code_simp
  then show ?thesis by (auto split: sum.splits prod.splits)
qed

theorem subrequest_answered_witness:
  "\<exists>cy' x. upstream_init quiet_world 3 (answering_cycle answer_segments
        [(True, 7), (False, length (request_text (\<lambda>h. h) ''10.0.0.1:80'' sample_request) - 7)]) = Inr cy'
    \<and> cy_wire cy' 9 = request_text (\<lambda>h. h) ''10.0.0.1:80'' sample_request \<and> cy_infos cy' 3 = Some x \<and> ui_status x = CO_OK
    \<and> cy_requests cy' 2 = None \<and> (7, 2) \<notin> set (pending 1 cy')"
proof -
  let ?t = "request_text (\<lambda>h. h) ''10.0.0.1:80'' sample_request"
  have n: "length ?t > 7" "length ?t \<le> 8192" by code_simp+
  have r: "length (response_text (\<lambda>h. h) sample_response) > 20" "length (response_text (\<lambda>h. h) sample_response) \<le> 4096" by code_simp+
  let ?ks = "[(True, 7), (False, length ?t - 7)]"
  let ?cy = "answering_cycle answer_segments ?ks"
  obtain m rest where feed: "feed client_parse new_response [] (map snd answer_segments) = Inr (CO_OK, m, rest)" using answer_segments_feed by blast
  have io: "cy_in ?cy (fd_of 3 ?cy) = arrivals answer_segments @ []" "cy_out ?cy (fd_of 3 ?cy) = takings ?ks @ []" "cy_wire ?cy 9 = []"
    "cy_itr ?cy = (\<lambda>h. h)" "tc_ipport (cn_coTcp (conn 3 ?cy)) = ''10.0.0.1:80''"
    unfolding answering_conn(1) by (simp_all add: answering_cycle_def family_cycle_def small_cycle_def answering_tcp_def)
  have segs: "\<forall>x\<in>set answer_segments. snd x \<noteq> [] \<and> length (snd x) \<le> 4096" "4096 * length answer_segments \<le> buf_limit"
    using r by (auto simp: answer_segments_def)
  have len: "length ?t \<le> buf_limit" "\<forall>k\<in>set ?ks. 0 < snd k" "sum_list (map snd ?ks) = length ?t" using n by simp_all
  have t: "?t = request_text (cy_itr ?cy) (tc_ipport (cn_coTcp (conn 3 ?cy))) (m_reqMsg (new_http_protocol\<lparr>m_reqMsg := sample_request\<rparr>))"
    unfolding io by simp
  have w: "patient quiet_world 3 2 4" by (simp add: patient_def quiet_world_def)
  have F: "coroutine_frame quiet_world (relatives ''up'' 3 4 1 1 (7, 2) family_data)"
    by unfold_locales (simp_all add: quiet_world_def relatives_same)
  from subrequest_answered [OF answering_ready w F t len(1) io(2) len(2,3) io(1) segs feed] io(3) show ?thesis
    unfolding answering_conn(3) by auto
qed

end
