(* ===== verification/Blocking.thy ===== *)
theory Blocking
  imports Hook
begin

text \<open>
  The rest of \<^verbatim>\<open>base/co_hook.cpp\<close> (\<open>sleep\<close>, \<open>usleep\<close>, \<open>select\<close>, \<open>pthread_mutex_lock\<close> and
  \<open>pthread_mutex_unlock\<close>, built with \<^verbatim>\<open>CO_HOOK_SELECT\<close> and \<^verbatim>\<open>CO_HOOK_MUTEX\<close>) and the waiting of
  \<^verbatim>\<open>core/co_single.cpp\<close>. As in \<open>Hook\<close> the thread is a worker thread. The original functions answer
  from \<open>cy_sys\<close>, the original \<open>select\<close> is an argument.
\<close>

section \<open>Sleeping\<close>

text \<open>\<open>time(0)\<close>, and the seconds that are left in an \<open>uint32_t\<close>.\<close>

definition now_s :: "CoCycle \<Rightarrow> nat" where
  "now_s cy = cy_clock cy (cy_tick cy) div 1000000"

definition hook_sleep :: "world \<Rightarrow> 32 word \<Rightarrow> CoCycle \<Rightarrow> (32 word \<times> CoCycle) res" where
  "hook_sleep w seconds cy =
     (case cy_curConnection cy of
        None \<Rightarrow> Inl NullPointer
      | Some i \<Rightarrow>
          let startTime = now_s cy;
              (ret, cy) = yield_timer w i (unat (seconds * 1000)) (tick cy)
          in if ret \<noteq> CO_OK
             then Inr (word_of_int (uint seconds - (int (now_s cy) - int startTime)), tick cy)
             else Inr (0, cy))"

definition hook_usleep :: "world \<Rightarrow> 32 word \<Rightarrow> CoCycle \<Rightarrow> (int \<times> CoCycle) res" where
  "hook_usleep w usec cy =
     (if usec > 1000
      then (case cy_curConnection cy of
              None \<Rightarrow> Inl NullPointer
            | Some i \<Rightarrow>
                let (ret, cy) = yield_timer w i (unat (usec div 1000)) cy
                in Inr (if ret \<noteq> CO_OK then CO_ERROR else CO_OK, cy))
      else let ((r, _), s) = syscall (cy_sys cy) in Inr (r, cy\<lparr>cy_sys := s\<rparr>))"

section \<open>Select\<close>

type_synonym fd_sets = "int set option \<times> int set option \<times> int set option"

definition FD_SETSIZE :: int where "FD_SETSIZE = 1024"

definition isset :: "int \<Rightarrow> int set option \<Rightarrow> bool" where
  "isset i s \<longleftrightarrow> (case s of None \<Rightarrow> False | Some fds \<Rightarrow> i \<in> fds)"

definition select_events :: "fd_sets \<Rightarrow> (int set option \<times> 32 word) list" where
  "select_events sets =
     (let (readfds, writefds, exceptfds) = sets
      in [(readfds, CO_EVENT_READ), (writefds, CO_EVENT_WRITE), (exceptfds, CO_EVENT_HUP)])"

text \<open>
  The two loops: the descriptors that are set, with the event. More than one is left to the original
  function; none leaves \<open>-1\<close> in both variables.
\<close>

definition select_sockets :: "int \<Rightarrow> fd_sets \<Rightarrow> (int \<times> 32 word) list" where
  "select_sockets nfds sets =
     concat (map (\<lambda>i. map (\<lambda>(_, e). (i, e)) (filter (\<lambda>(s, _). isset i s) (select_events sets))) [0..min nfds FD_SETSIZE - 1])"

definition select_wait :: "(int \<times> 32 word) list \<Rightarrow> int \<times> 32 word" where
  "select_wait sockets = (case sockets of [] \<Rightarrow> (- 1, - 1) | x # _ \<Rightarrow> x)"

definition zero_sets :: "fd_sets \<Rightarrow> fd_sets" where
  "zero_sets sets = (let (r, w, x) = sets in (map_option (\<lambda>_. {}) r, map_option (\<lambda>_. {}) w, map_option (\<lambda>_. {}) x))"

definition hook_select ::
  "(int \<Rightarrow> fd_sets \<Rightarrow> (int \<times> int) option \<Rightarrow> CoCycle \<Rightarrow> (int \<times> fd_sets) \<times> CoCycle) \<Rightarrow> world \<Rightarrow> int \<Rightarrow> fd_sets \<Rightarrow> (int \<times> int) option
   \<Rightarrow> CoCycle \<Rightarrow> ((int \<times> fd_sets) \<times> CoCycle) res" where
  "hook_select fnSelect w nfds sets timeout cy =
     (case cy_curConnection cy of
        None \<Rightarrow> Inl NullPointer
      | Some i \<Rightarrow>
          if cn_flagDying (conn i cy) then Inr ((CO_ERROR, sets), cy)
          else let timeoutMs = (case timeout of None \<Rightarrow> - 1 | Some (sec, usec) \<Rightarrow> wrap32 (sec * 1000 + usec div 1000))
               in if timeoutMs = 0 then Inr (fnSelect nfds sets timeout cy)
                  else if nfds = 0 \<and> sets = (None, None, None) \<and> timeout \<noteq> None
                  then (let (ret, cy) = yield_timer w i (nat (timeoutMs mod two32)) cy
                        in Inr ((if ret \<noteq> CO_OK then CO_ERROR else CO_OK, sets), cy))
                  else let n = min nfds FD_SETSIZE; sockets = select_sockets nfds sets
                       in if length sockets > 1 then Inr (fnSelect n sets timeout cy)
                          else let (fd, event) = select_wait sockets
                               in bindr (yield_thirdsocket w fd event timeoutMs i SOCKET_PHASE_CONNECT cy)
                                    (\<lambda>(ret, cy). if ret \<noteq> CO_OK
                                       then Inr (if ret = CO_TIMEOUT then (0, zero_sets sets) else (CO_ERROR, sets), cy)
                                       else Inr (fnSelect n sets (Some (0, 0)) cy)))"

section \<open>Mutexes\<close>

text \<open>The connection as it waits in the one \<open>CoSingle\<close> of the process.\<close>

definition waiter_of :: "nat \<Rightarrow> CoCycle \<Rightarrow> waiter" where
  "waiter_of i cy = \<lparr>wt_thread = cy_innerThreadId cy, wt_conn = cn_connId (conn i cy), wt_version = cn_version (conn i cy)\<rparr>"

definition add_block_mutex :: "world \<Rightarrow> nat \<Rightarrow> nat \<Rightarrow> CoCycle \<Rightarrow> CoCycle" where
  "add_block_mutex w mutex i cy =
     (let key = waiter_key (waiter_of i cy);
          cy = cy\<lparr>cy_single := block_enter mutex (waiter_of i cy) (cy_single cy)\<rparr>;
          cy = snd (yield_timer w i (nat (hk_mutexRetryTime (m_confHook (cy_conf cy)) mod two32)) cy)
      in cy\<lparr>cy_single := block_leave key (cy_single cy)\<rparr>)"

text \<open>
  Built with \<^verbatim>\<open>CO_MUTEX_SLEEP\<close> (\<open>sleeping\<close>), a coroutine only sleeps between two attempts. The answer of
  \<open>pthread_mutex_trylock\<close> is its return value.
\<close>

definition mutex_wait :: "bool \<Rightarrow> world \<Rightarrow> nat \<Rightarrow> nat \<Rightarrow> CoCycle \<Rightarrow> CoCycle" where
  "mutex_wait sleeping w mutex i cy =
     (if sleeping then snd (yield_timer w i (nat (hk_mutexRetryTime (m_confHook (cy_conf cy)) mod two32)) cy)
      else add_block_mutex w mutex i cy)"

partial_function (option) mutex_loop :: "bool \<Rightarrow> world \<Rightarrow> nat \<Rightarrow> nat \<Rightarrow> CoCycle \<Rightarrow> (int \<times> CoCycle) option" where
  "mutex_loop sleeping w mutex i cy =
     (let ((ret, _), s) = syscall (cy_sys cy); cy = cy\<lparr>cy_sys := s\<rparr>
      in if ret = CO_OK then Some (CO_OK, cy)
         else if ret = EBUSY \<or> ret = EAGAIN then mutex_loop sleeping w mutex i (mutex_wait sleeping w mutex i cy)
         else let ((ret, _), s) = syscall (cy_sys cy) in Some (ret, cy\<lparr>cy_sys := s\<rparr>))"

definition hook_mutex_lock :: "bool \<Rightarrow> world \<Rightarrow> nat \<Rightarrow> CoCycle \<Rightarrow> (int \<times> CoCycle) res option" where
  "hook_mutex_lock sleeping w mutex cy =
     (case cy_curConnection cy of
        None \<Rightarrow> Some (Inl NullPointer)
      | Some i \<Rightarrow> map_option Inr (mutex_loop sleeping w mutex i cy))"

text \<open>
  The coroutine to wake belongs to this thread, or to another, whose queue is not part of this
  state: then it is the second result.
\<close>

definition wake_waiter :: "waiter option \<Rightarrow> CoCycle \<Rightarrow> waiter option \<times> CoCycle" where
  "wake_waiter r cy =
     (case r of
        None \<Rightarrow> (None, cy)
      | Some wt \<Rightarrow> if wt_thread wt = cy_innerThreadId cy then (None, snd (resume_single_async (wt_conn wt, wt_version wt) cy))
                  else (Some wt, cy))"

definition hook_mutex_unlock :: "bool \<Rightarrow> nat \<Rightarrow> CoCycle \<Rightarrow> (int \<times> waiter option \<times> CoCycle) res" where
  "hook_mutex_unlock sleeping mutex cy =
     (let ((ret, _), s) = syscall (cy_sys cy); cy = cy\<lparr>cy_sys := s\<rparr>; errnoBak = cy_errno cy
      in if sleeping then Inr (ret, None, cy)
         else bindr (free_block_mutex mutex (cy_single cy))
                (\<lambda>(r, g). let (wt, cy) = wake_waiter r (cy\<lparr>cy_single := g\<rparr>)
                          in Inr (ret, wt, cy\<lparr>cy_errno := errnoBak\<rparr>)))"

section \<open>What they do\<close>

text \<open>The other coroutines leave to this one what the system answers it, its thread and its identity.\<close>

definition undisturbed :: "world \<Rightarrow> nat \<Rightarrow> bool" where
  "undisturbed w i \<longleftrightarrow> (\<forall>cy. cy_sys (w_others w i cy) = cy_sys cy \<and> cy_innerThreadId (w_others w i cy) = cy_innerThreadId cy
     \<and> cn_connId (conn i (w_others w i cy)) = cn_connId (conn i cy) \<and> cn_version (conn i (w_others w i cy)) = cn_version (conn i cy))"

definition same_identity :: "nat \<Rightarrow> CoCycle \<Rightarrow> CoCycle \<Rightarrow> bool" where
  "same_identity i cy cy' \<longleftrightarrow> cy_sys cy' = cy_sys cy \<and> cy_innerThreadId cy' = cy_innerThreadId cy
     \<and> cn_connId (conn i cy') = cn_connId (conn i cy) \<and> cn_version (conn i cy') = cn_version (conn i cy)"

lemma same_identity_trans: "same_identity i a b \<Longrightarrow> same_identity i b c \<Longrightarrow> same_identity i a c"
  by (simp add: same_identity_def)

lemma same_identity_upd_conn:
  assumes "\<And>c. cn_connId (f c) = cn_connId c" "\<And>c. cn_version (f c) = cn_version c"
  shows "same_identity i cy (upd_conn j f cy)"
  using assms
  by (cases "j - 1 < length (pl_connections (cy_pool cy))")
    (simp_all add: same_identity_def conn_def upd_conn_def map_conn_def get_connection_accord_id_def nth_list_update not_less list_update_beyond)

lemma same_identity_timer: "same_identity i cy (set_timer j e ms cy)" "same_identity i cy (unset_timer j e cy)"
proof -
  have p: "cn_connId (put_event e v c) = cn_connId c" "cn_version (put_event e v c) = cn_version c" for v c
    by (simp_all add: put_event_def split: event_type.split)
  have t: "same_identity i cy (tick (snd (add_timer n m ev cy)))" "same_identity i cy (snd (del_timer ev cy))" for n m ev
    by (simp_all add: same_identity_def add_timer_def del_timer_def tick_def conn_def)
  show "same_identity i cy (set_timer j e ms cy)"
    unfolding set_timer_def Let_def case_prod_beta
    using same_identity_trans [OF t(1) same_identity_upd_conn [OF p]] by (simp add: same_identity_def)
  show "same_identity i cy (unset_timer j e cy)"
    unfolding unset_timer_def Let_def case_prod_beta by (rule same_identity_trans [OF t(2) same_identity_upd_conn [OF p]])
qed

lemma same_identity_yield:
  assumes "undisturbed w i"
  shows "same_identity i cy (snd (yield_timer w i ms cy))"
proof -
  let ?a = "set_timer i EVENT_TYPE_SLEEP (int ms) (upd_conn i (\<lambda>c. c\<lparr>cn_flagThirdFuncBlocking := True\<rparr>) cy)"
  let ?b = "upd_conn i (\<lambda>c. c\<lparr>cn_flagThirdFuncBlocking := False\<rparr>) (w_others w i ?a)"
  have "same_identity i cy ?a" by (rule same_identity_trans [OF same_identity_upd_conn same_identity_timer(1)]) simp_all
  moreover have "same_identity i ?a (w_others w i ?a)" using assms by (simp add: undisturbed_def same_identity_def)
  moreover have "same_identity i (w_others w i ?a) ?b" by (rule same_identity_upd_conn) simp_all
  ultimately have b: "same_identity i cy ?b" by (blast intro: same_identity_trans)
  from same_identity_trans [OF b same_identity_timer(2)] b show ?thesis
    unfolding yield_timer_def Let_def by simp
qed

lemma mutex_wait_ok:
  assumes "undisturbed w i"
  shows "same_identity i cy (mutex_wait sleeping w mutex i cy)"
    and "\<not> sleeping \<Longrightarrow> waiter_key (waiter_of i cy) \<notin> sg_threadConnectionIds (cy_single (mutex_wait sleeping w mutex i cy))"
proof -
  let ?a = "cy\<lparr>cy_single := block_enter mutex (waiter_of i cy) (cy_single cy)\<rparr>"
  have s: "same_identity i cy (c\<lparr>cy_single := g\<rparr>) = same_identity i cy c" for c g by (simp add: same_identity_def conn_def)
  have a: "same_identity i ?a c = same_identity i cy c" for c by (simp add: same_identity_def conn_def)
  show "same_identity i cy (mutex_wait sleeping w mutex i cy)"
    using same_identity_yield [OF assms, of cy] same_identity_yield [OF assms, of ?a]
    by (simp add: mutex_wait_def add_block_mutex_def Let_def s a)
  show "\<not> sleeping \<Longrightarrow> waiter_key (waiter_of i cy) \<notin> sg_threadConnectionIds (cy_single (mutex_wait sleeping w mutex i cy))"
    by (simp add: mutex_wait_def add_block_mutex_def Let_def block_leave_def)
qed

lemma mutex_loop_acquires:
  assumes "undisturbed w i" and "\<forall>r\<in>set taken. fst r = EBUSY \<or> fst r = EAGAIN"
    and "cy_sys cy = taken @ (CO_OK, e) # rest"
  shows "\<exists>cy'. mutex_loop sleeping w mutex i cy = Some (CO_OK, cy') \<and> cy_sys cy' = rest
    \<and> waiter_of i cy' = waiter_of i cy
    \<and> (\<not> sleeping \<and> taken \<noteq> [] \<longrightarrow> waiter_key (waiter_of i cy) \<notin> sg_threadConnectionIds (cy_single cy'))"
  using assms(2,3)
proof (induction taken arbitrary: cy)
  case Nil
  then show ?case by (subst mutex_loop.simps) (simp add: waiter_of_def conn_def)
next
  case (Cons b bs)
  let ?c = "cy\<lparr>cy_sys := bs @ (CO_OK, e) # rest\<rparr>"
  let ?d = "mutex_wait sleeping w mutex i ?c"
  have d: "same_identity i ?c ?d" by (rule mutex_wait_ok(1) [OF assms(1)])
  then have "cy_sys ?d = bs @ (CO_OK, e) # rest" by (simp add: same_identity_def)
  from Cons.IH [OF _ this] Cons.prems(1) obtain cy' where r: "mutex_loop sleeping w mutex i ?d = Some (CO_OK, cy')" "cy_sys cy' = rest"
    "waiter_of i cy' = waiter_of i ?d"
    "\<not> sleeping \<and> bs \<noteq> [] \<longrightarrow> waiter_key (waiter_of i ?d) \<notin> sg_threadConnectionIds (cy_single cy')" by auto
  have w: "waiter_of i ?d = waiter_of i cy" using d by (simp add: same_identity_def waiter_of_def conn_def)
  have e: "fst b = EBUSY \<or> fst b = EAGAIN" "fst b \<noteq> CO_OK" using Cons.prems(1) by (auto simp: EBUSY_def EAGAIN_def)
  have step: "mutex_loop sleeping w mutex i cy = mutex_loop sleeping w mutex i ?d"
    using Cons.prems(2) e by (subst mutex_loop.simps) (cases b, simp)
  have n: "waiter_key (waiter_of i cy) \<notin> sg_threadConnectionIds (cy_single cy')" if "\<not> sleeping" "bs = []"
  proof -
    have "cy' = ?d\<lparr>cy_sys := rest\<rparr>" using r(1) that(2) \<open>cy_sys ?d = bs @ (CO_OK, e) # rest\<close> by (subst (asm) mutex_loop.simps) simp
    then show ?thesis using mutex_wait_ok(2) [OF assms(1), of sleeping ?c mutex] that(1) by (simp add: waiter_of_def conn_def)
  qed
  show ?case using step r w n by auto
qed

text \<open>C30: \<open>pthread_mutex_lock\<close> on a worker thread never blocks the thread and gets the mutex: however often
  \<open>pthread_mutex_trylock\<close> finds it taken, as soon as an attempt succeeds the call returns \<open>CO_OK\<close>,
  no answer of the system is used up behind it, and its connection no longer counts as waiting.\<close>

theorem mutex_lock_acquires:
  assumes "cy_curConnection cy = Some i" and "undisturbed w i"
    and "cy_sys cy = taken @ (CO_OK, e) # rest" and "\<forall>r\<in>set taken. fst r = EBUSY \<or> fst r = EAGAIN"
  shows "\<exists>cy'. hook_mutex_lock sleeping w mutex cy = Some (Inr (CO_OK, cy')) \<and> cy_sys cy' = rest
    \<and> (\<not> sleeping \<and> taken \<noteq> [] \<longrightarrow> \<not> find_block_mutex (cy_innerThreadId cy') (cn_connId (conn i cy')) (cy_single cy'))"
proof -
  from mutex_loop_acquires [OF assms(2,4,3)] obtain cy' where "mutex_loop sleeping w mutex i cy = Some (CO_OK, cy')" "cy_sys cy' = rest"
    "waiter_of i cy' = waiter_of i cy" "\<not> sleeping \<and> taken \<noteq> [] \<longrightarrow> waiter_key (waiter_of i cy) \<notin> sg_threadConnectionIds (cy_single cy')" by blast
  then show ?thesis using assms(1)
    by (auto simp: hook_mutex_lock_def find_block_mutex_def waiter_key_def waiter_of_def)
qed

definition alone :: world where
  "alone = \<lparr>w_others = \<lambda>_ cy. cy, w_process = \<lambda>_ _ cy. Inr (0, cy), w_destroy = \<lambda>_ _ cy. Inr (0, cy), w_peer = \<lambda>_. None\<rparr>"

theorem mutex_lock_acquires_witness:
  "\<exists>cy'. hook_mutex_lock False alone 7 (small_cycle\<lparr>cy_curConnection := Some 1, cy_sys := [(EBUSY, 0), (EBUSY, 0), (CO_OK, 0)]\<rparr>) = Some (Inr (CO_OK, cy'))
    \<and> cy_sys cy' = [] \<and> \<not> find_block_mutex (cy_innerThreadId cy') (cn_connId (conn 1 cy')) (cy_single cy')"
proof -
  let ?c = "small_cycle\<lparr>cy_curConnection := Some 1, cy_sys := [(EBUSY, 0), (EBUSY, 0), (CO_OK, 0)]\<rparr>"
  have a: "undisturbed alone 1" by (simp add: undisturbed_def alone_def)
  have c: "cy_curConnection ?c = Some 1" "cy_sys ?c = [(EBUSY, 0), (EBUSY, 0)] @ (CO_OK, 0) # []"
    "\<forall>r\<in>set [(EBUSY, 0::int), (EBUSY, 0)]. fst r = EBUSY \<or> fst r = EAGAIN" by simp_all
  from mutex_lock_acquires [OF c(1) a c(2,3), of False 7] show ?thesis by auto
qed

end
