(* ===== verification/Tutorial.thy ===== *)
theory Tutorial
  imports Request_Flow Subrequest_Flow Http_Roundtrip Blocking Server
begin

text \<open>
  \<^verbatim>\<open>tutorial/\<close> and the servers of \<^verbatim>\<open>test/\<close>: user functions of the library, as functions on \<open>CoCycle\<close> that take
  the request object of their \<open>CoUserHandlerData\<close>. What they print is left out. The theorems compose the library with them:
  what a client receives from \<^verbatim>\<open>server_http\<close>, and how \<^verbatim>\<open>server_http_third\<close> passes on what a backend answers.
\<close>

section \<open>The functions\<close>

text \<open>\<^verbatim>\<open>server_http.cpp\<close>, \<open>BusinessProcess\<close>.\<close>

definition server_http_answer :: "CoHTTPResponse \<Rightarrow> CoHTTPResponse" where
  "server_http_answer m = append_content_str ''coserver test content data'' (add_header ''coserver-test'' ''test,testdata'' m)"

definition server_http_process :: "nat \<Rightarrow> CoCycle \<Rightarrow> (int \<times> CoCycle) res" where
  "server_http_process = http_handler (\<lambda>_ m. Inr (server_http_answer m))"

text \<open>
  \<open>main\<close> of each of the four servers: the functions it registers, by their numbers, and what it returns; \<open>None\<close> is not
  returning. \<open>run_server\<close> comes back when the event loop of the thread it runs on has ended.
\<close>

definition main_funcs :: "(string \<times> CoUserFuncs) list" where
  "main_funcs = add_user_handlers ''server'' (Some 0) (Some 1) None []"

definition server_main :: "(string \<Rightarrow> string list option) \<Rightarrow> string option \<Rightarrow> (nat \<Rightarrow> CoCycle option) list \<Rightarrow> int option res" where
  "server_main dns conf looks =
     bindr (run_server dns conf 1 new_server)
       (\<lambda>(ret, _, srv). Inr (if ret \<noteq> CO_OK then Some (- 1) else map_option (\<lambda>_. 0) (shut_down looks srv)))"

text \<open>
  The request of the sub-request that was added last, \<open>m_upstreamInfos.back()\<close>, is filled in by \<open>f\<close>;
  \<open>back\<close> of an empty vector is outside of it.
\<close>

definition last_info :: "nat \<Rightarrow> CoCycle \<Rightarrow> CoUpstreamInfo res" where
  "last_info d cy =
     bindr (request_of d cy)
       (\<lambda>q. if ud_upstreamInfos (rq_userData q) = [] then Inl OutOfBounds
            else deref (cy_infos cy) (Some (last (ud_upstreamInfos (rq_userData q)))))"

definition fill_request :: "(CoHTTPRequest \<Rightarrow> CoHTTPRequest) \<Rightarrow> nat \<Rightarrow> CoCycle \<Rightarrow> CoCycle res" where
  "fill_request f d cy =
     bindr (last_info d cy) (\<lambda>x. on_http (ui_protocol x) (\<lambda>h. Inr (h\<lparr>m_reqMsg := f (m_reqMsg h)\<rparr>)) cy)"

definition third_request :: "CoHTTPRequest \<Rightarrow> CoHTTPRequest" where
  "third_request m =
     add_header ''Connection'' ''Keep-Alive'' (add_header ''Content-Type'' ''application/json''
       (set_url ''/coserver.txt'' (set_method ''GET'' m)))"

text \<open>The response of a sub-request, and the content of it behind that of the response to the client.\<close>

definition info_response :: "nat \<Rightarrow> CoCycle \<Rightarrow> CoHTTPResponse res" where
  "info_response u cy =
     bindr (deref (cy_infos cy) (Some u))
       (\<lambda>x. bindr (deref (cy_protocols cy) (ui_protocol x)) (\<lambda>p. bindr (http_part p) (\<lambda>h. Inr (m_respMsg h))))"

definition append_response :: "nat option \<Rightarrow> nat \<Rightarrow> CoCycle \<Rightarrow> CoCycle res" where
  "append_response n u cy =
     bindr (info_response u cy)
       (\<lambda>m. on_http n (\<lambda>h. Inr (h\<lparr>m_respMsg := append_content_str (m_content m) (m_respMsg h)\<rparr>)) cy)"

fun append_responses :: "nat option \<Rightarrow> nat list \<Rightarrow> CoCycle \<Rightarrow> CoCycle res" where
  "append_responses n [] cy = Inr cy"
| "append_responses n (u # us) cy = bindr (append_response n u cy) (append_responses n us)"

text \<open>\<^verbatim>\<open>server_third_http.cpp\<close>, \<open>BusinessProcess\<close>: its loop runs once.\<close>

definition third_ask :: "world \<Rightarrow> nat \<Rightarrow> CoCycle \<Rightarrow> CoCycle res" where
  "third_ask w d cy =
     bindr (add_upstream w d ''test_backend'' PROTOCOL_HTTP_CLIENT cy)
       (\<lambda>(ret, cy). if ret = 0 then fill_request third_request d cy else Inr cy)"

definition third_http_process :: "world \<Rightarrow> nat \<Rightarrow> CoCycle \<Rightarrow> (int \<times> CoCycle) res" where
  "third_http_process w d cy =
     bindr (request_of d cy)
       (\<lambda>q. bindr (deref (cy_protocols cy) (ud_protocol (rq_userData q)))
          (\<lambda>_. bindr (third_ask w d cy)
             (\<lambda>cy. bindr (run_upstreams w d cy)
                (\<lambda>(_, cy). bindr (request_of d cy)
                   (\<lambda>q'. bindr (append_responses (ud_protocol (rq_userData q)) (ud_upstreamInfos (rq_userData q')) cy)
                      (\<lambda>cy. Inr (0, cy)))))))"

text \<open>
  \<^verbatim>\<open>server_third_async.cpp\<close>: \<open>g_yieldData\<close> is a second component of the state. During a wait the thread of \<open>ThreadFunc\<close>
  and the other coroutines change it (\<open>during\<close>); one round of that thread resumes every entry and takes it out.
\<close>

definition thread_round :: "(nat \<times> 32 word) list \<times> CoCycle \<Rightarrow> (nat \<times> 32 word) list \<times> CoCycle" where
  "thread_round s = ([], fold (\<lambda>d cy. snd (resume_async d cy)) (fst s) (snd s))"

definition async_wait ::
  "world \<Rightarrow> ((nat \<times> 32 word) list \<Rightarrow> (nat \<times> 32 word) list) \<Rightarrow> nat \<times> 32 word \<Rightarrow> (nat \<times> 32 word) list \<times> CoCycle
    \<Rightarrow> (nat \<times> 32 word) list \<times> CoCycle" where
  "async_wait w during d s = (during (fst s @ [d]), snd (dispatcher_yield_pair w d (snd s)))"

definition async_process ::
  "world \<Rightarrow> ((nat \<times> 32 word) list \<Rightarrow> (nat \<times> 32 word) list) \<Rightarrow> nat \<Rightarrow> (nat \<times> 32 word) list \<times> CoCycle
    \<Rightarrow> (int \<times> (nat \<times> 32 word) list \<times> CoCycle) res" where
  "async_process w during d s =
     bindr (request_of d (snd s))
       (\<lambda>q. let (g, cy) = async_wait w during (ud_coroutineData (rq_userData q)) s
            in bindr (on_http (ud_protocol (rq_userData q)) (\<lambda>h. Inr (h\<lparr>m_respMsg := append_content_str ''12345678'' (m_respMsg h)\<rparr>)) cy)
                 (\<lambda>cy. Inr (0, g, cy)))"

text \<open>
  \<^verbatim>\<open>server_third_detach.cpp\<close>: a sub-request without a parent; \<open>notify\<close> is the number of
  \<open>BusinessHandlerActiveSubrequest\<close>, which is called at its end and only prints: \<open>detach_notified\<close> is what it
  prints for each information, its status and its time, and the content it takes.
\<close>

definition detach_process :: "world \<Rightarrow> nat \<Rightarrow> nat \<Rightarrow> CoCycle \<Rightarrow> (int \<times> CoCycle) res" where
  "detach_process w notify d cy =
     bindr (add_upstream_detach w ''test_backend'' PROTOCOL_HTTP_CLIENT (Some notify) None cy)
       (\<lambda>(r, cy). bindr (case r of None \<Rightarrow> Inr cy | Some u \<Rightarrow> fill_request third_request u cy) (\<lambda>cy. Inr (0, cy)))"

definition detach_printed :: "nat list \<Rightarrow> nat \<Rightarrow> CoCycle \<Rightarrow> (int \<times> nat \<times> string) res" where
  "detach_printed us u cy =
     bindr (deref (cy_infos cy) (Some u))
       (\<lambda>x. bindr (info_response (us ! 0) cy) (\<lambda>m. Inr (ui_status x, ui_useTimeUs x, m_content m)))"

fun collect :: "('a \<Rightarrow> 'b res) \<Rightarrow> 'a list \<Rightarrow> 'b list res" where
  "collect f [] = Inr []"
| "collect f (x # xs) = bindr (f x) (\<lambda>y. bindr (collect f xs) (\<lambda>ys. Inr (y # ys)))"

definition detach_notified :: "nat \<Rightarrow> CoCycle \<Rightarrow> (int \<times> (int \<times> nat \<times> string) list) res" where
  "detach_notified d cy =
     bindr (request_of d cy)
       (\<lambda>q. let us = ud_upstreamInfos (rq_userData q)
            in bindr (collect (\<lambda>u. detach_printed us u cy) us) (\<lambda>xs. Inr (0, xs)))"

text \<open>
  \<^verbatim>\<open>net_test.cpp\<close>: \<open>g_requestId\<close> counts the requests of all threads; the argument is the value the content shows, which
  is read after counting.
\<close>

definition net_http_process :: "world \<Rightarrow> nat \<Rightarrow> nat \<Rightarrow> CoCycle \<Rightarrow> (int \<times> CoCycle) res" where
  "net_http_process w g_requestId d cy =
     bindr (request_of d cy)
       (\<lambda>q. bindr (on_http (ud_protocol (rq_userData q))
               (\<lambda>h. Inr (h\<lparr>m_respMsg := append_content_str (''third server_'' @ to_string (int g_requestId))
                          (add_header ''dong-test'' ''dongdongdong'' (m_respMsg h))\<rparr>)) cy)
          (\<lambda>cy. bindr (hook_usleep w 5000 cy) (\<lambda>(_, cy). Inr (0, cy))))"

definition net_tcp_process :: "world \<Rightarrow> nat \<Rightarrow> CoCycle \<Rightarrow> (int \<times> CoCycle) res" where
  "net_tcp_process w d cy =
     bindr (request_of d cy)
       (\<lambda>q. bindr (the_ref (ud_protocol (rq_userData q)))
          (\<lambda>n. bindr (deref (cy_protocols cy) (Some n))
             (\<lambda>p. case p of
                 TcpProtocol t \<Rightarrow>
                   bindr (hook_usleep w 6000000
                            (upd_protocol n (TcpProtocol (t\<lparr>t_respMsg := tcp_set_msgbody ''J6ZV37'' (t_respMsg t)\<rparr>)) cy))
                     (\<lambda>(_, cy). Inr (0, cy))
               | _ \<Rightarrow> Inl OutOfBounds)))"

text \<open>
  \<^verbatim>\<open>server_tutorial.cpp\<close>: a sub-request with a body (its loop runs once, with \<open>i = 0\<close>), whose content is passed on with a line end
  unless it is empty; three waits for another thread; the mutex \<open>g_mutex\<close>, held over \<open>std::this_thread::sleep_for\<close>, which is not
  a call of the library's and stops the whole thread. What follows \<open>return CO_OK\<close> there is never run.
\<close>

definition test_request :: "string \<Rightarrow> string \<Rightarrow> CoHTTPRequest \<Rightarrow> CoHTTPRequest" where
  "test_request url content m =
     append_content_str content (add_header ''Connection'' ''Keep-Alive'' (add_header ''Content-Type'' ''application/json''
       (set_url url (set_method ''POST'' m))))"

definition append_line :: "nat option \<Rightarrow> nat \<Rightarrow> CoCycle \<Rightarrow> CoCycle res" where
  "append_line n u cy =
     bindr (info_response u cy)
       (\<lambda>m. on_http n (\<lambda>h. Inr (if m_content m = [] then h
              else h\<lparr>m_respMsg := append_content_str (m_content m @ [LF]) (m_respMsg h)\<rparr>)) cy)"

fun append_lines :: "nat option \<Rightarrow> nat list \<Rightarrow> CoCycle \<Rightarrow> CoCycle res" where
  "append_lines n [] cy = Inr cy"
| "append_lines n (u # us) cy = bindr (append_line n u cy) (append_lines n us)"

definition test_subrequest_process :: "world \<Rightarrow> nat \<Rightarrow> CoCycle \<Rightarrow> (int \<times> CoCycle) res" where
  "test_subrequest_process w d cy =
     bindr (bindr (add_upstream w d ''test_backend'' PROTOCOL_HTTP_CLIENT cy)
              (\<lambda>(ret, cy). if ret = 0 then fill_request (test_request ''/coserver/subrequest_0'' ''jjj666_0'') d cy else Inr cy))
       (\<lambda>cy. bindr (run_upstreams w d cy)
          (\<lambda>(_, cy). bindr (request_of d cy)
             (\<lambda>q. bindr (append_lines (ud_protocol (rq_userData q)) (ud_upstreamInfos (rq_userData q)) cy) (\<lambda>cy. Inr (0, cy)))))"

definition test_yield_process ::
  "world \<Rightarrow> ((nat \<times> 32 word) list \<Rightarrow> (nat \<times> 32 word) list) \<Rightarrow> nat \<Rightarrow> (nat \<times> 32 word) list \<times> CoCycle
    \<Rightarrow> (int \<times> (nat \<times> 32 word) list \<times> CoCycle) res" where
  "test_yield_process w during d s =
     bindr (request_of d (snd s))
       (\<lambda>q. let wt = async_wait w during (ud_coroutineData (rq_userData q)); (g, cy) = wt (wt (wt s))
            in bindr (on_http (ud_protocol (rq_userData q))
                  (\<lambda>h. bindr (append_content ''123456789'' 9 (add_header ''dong-test'' ''dongdongdong'' (m_respMsg h)))
                     (\<lambda>m. Inr (h\<lparr>m_respMsg := m\<rparr>))) cy)
                 (\<lambda>cy. Inr (0, g, cy)))"

definition test_mutex_process :: "bool \<Rightarrow> world \<Rightarrow> nat \<Rightarrow> CoCycle \<Rightarrow> (int \<times> CoCycle) res" where
  "test_mutex_process sleeping w g_mutex cy =
     bindr (looped (hook_mutex_lock sleeping w g_mutex cy))
       (\<lambda>(_, cy). bindr (hook_mutex_unlock sleeping g_mutex cy) (\<lambda>(_, _, cy). Inr (CO_OK, cy)))"

definition detach_test :: "world \<Rightarrow> nat \<Rightarrow> CoCycle \<Rightarrow> CoCycle res" where
  "detach_test w notify cy =
     bindr (add_upstream_detach w ''test_backend'' PROTOCOL_HTTP_CLIENT (Some notify) None cy)
       (\<lambda>(r, cy). case r of None \<Rightarrow> Inr cy | Some u \<Rightarrow> fill_request (test_request ''/coserver/test_detach0'' ''detach'') u cy)"

text \<open>One round of the thread puts the waiting coroutines into the dispatcher's queue, in their order.\<close>

lemma thread_round_resumes:
  "cy_waitResumes (snd (thread_round s)) = cy_waitResumes (snd s) @ fst s" "fst (thread_round s) = []"
proof -
  have w: "cy_waitResumes (wake_byte cy) = cy_waitResumes cy" for cy
    by (simp add: wake_byte_def case_prod_beta Let_def split: option.split)
  have r: "cy_waitResumes (snd (resume_async d cy)) = cy_waitResumes cy @ [d]" for d cy by (simp add: resume_async_def Let_def w)
  have "cy_waitResumes (fold (\<lambda>d cy. snd (resume_async d cy)) g cy) = cy_waitResumes cy @ g" for g cy
    by (induction g arbitrary: cy) (simp_all add: r)
  then show "cy_waitResumes (snd (thread_round s)) = cy_waitResumes (snd s) @ fst s" "fst (thread_round s) = []"
    by (simp_all add: thread_round_def)
qed

section \<open>What a client of the first server receives\<close>

lemma length_response_text:
  assumes "iteration itr"
  shows "length (response_text itr m) = length (response_text (\<lambda>h. h) m)"
proof -
  have "sum_list (map (length \<circ> header_line) (itr hs)) = sum_list (map (length \<circ> header_line) hs)" for hs
    using assms unfolding iteration_def sum_mset_sum_list [symmetric] mset_map by simp
  then show ?thesis by (simp add: response_text_def server_pieces_def length_concat comp_def)
qed

definition answer_length :: nat where
  "answer_length = length (response_text (\<lambda>h. h) (server_http_answer new_response))"

lemma answer_ok: "ok_response (server_http_answer new_response)" "answer_length \<le> 8192" "10 < answer_length"
  by code_simp+

lemma answer_headers: "server_header_map (server_http_answer new_response) ''coserver-test'' = Some ''test,testdata''"
  by (simp add: server_header_map_def server_http_answer_def append_content_str_def add_header_def new_response_def
      HEADER_SERVER_def HEADER_CONTENT_LENGTH_def)

lemma answer_fields: "m_statuscode (server_http_answer new_response) = 200"
  "m_content (server_http_answer new_response) = ''coserver test content data''"
  by (simp_all add: server_http_answer_def append_content_str_def add_header_def new_response_def)

text \<open>C10: The first server of the tutorial, from end to end: a client that sends a complete request, in any segments,
  to a connection whose user function is the \<open>BusinessProcess\<close> of \<^verbatim>\<open>server_http.cpp\<close> receives bytes from which the
  library's own client reads status 200, the content and the header the function sets, whatever the order in which the
  header map is iterated and however the socket takes the bytes; and the connection waits for the next request.\<close>

theorem server_http_answers:
  assumes "http_ready w (\<lambda>_ m. Inr (server_http_answer m)) i cy" and "patient w i (cy_nextObject cy) (cy_nextObject cy + 1)"
    and "cy_in cy (fd_of i cy) = arrivals xs @ later" and "\<forall>x\<in>set xs. snd x \<noteq> [] \<and> length (snd x) \<le> 4096"
    and "4096 * length xs \<le> buf_limit" and "feed server_parse new_request [] (map snd xs) = Inr (CO_OK, m, rest)"
    and "iteration (cy_itr cy)" and "cy_out cy (fd_of i cy) = takings ks @ out" and "\<forall>k\<in>set ks. 0 < snd k"
    and "sum_list (map snd ks) = answer_length"
  shows "\<exists>cy' t r. request_init w i cy = Inr cy' \<and> cy_wire cy' (fd_of i cy) = cy_wire cy (fd_of i cy) @ t
    \<and> client_parse new_response t = Inr (CO_OK, r, Consume (length t)) \<and> m_statuscode r = 200
    \<and> m_content r = ''coserver test content data'' \<and> map_of (m_headers r) ''coserver-test'' = Some ''test,testdata''
    \<and> cn_handler (conn i cy') = H_REQUEST_INIT"
proof -
  let ?m = "server_http_answer new_response"
  let ?t = "response_text (cy_itr cy) ?m"
  have l: "length ?t = answer_length" using length_response_text [OF assms(7)] by (simp add: answer_length_def)
  then have b: "length ?t \<le> buf_limit" "sum_list (map snd ks) = length ?t" using answer_ok(2) assms(10) by simp_all
  have p: "length (?t @ []) \<le> HTTP_MAX_HEADER_LEN" using l answer_ok(2) by (simp add: HTTP_MAX_HEADER_LEN_def)
  obtain r where "client_parse new_response ?t = Inr (CO_OK, r, Consume (length ?t))" "same_response ?m r"
    using parse_response_text [OF answer_ok(1) assms(7) p] by auto
  moreover obtain cy' where "request_init w i cy = Inr cy'" "cy_wire cy' (fd_of i cy) = cy_wire cy (fd_of i cy) @ ?t"
    "cn_handler (conn i cy') = H_REQUEST_INIT"
    using request_comes_and_goes [OF assms(1-6) refl b(1) assms(8,9) b(2)] by auto
  ultimately show ?thesis using answer_headers answer_fields
    by (intro exI [of _ cy'] exI [of _ ?t] exI [of _ r]) (simp add: same_response_def)
qed

text \<open>The thread of \<open>Request_Flow\<close> with this function.\<close>

definition tutorial_world :: world where
  "tutorial_world = example_world\<lparr>w_process := \<lambda>_. server_http_process\<rparr>"

theorem server_http_answers_witness:
  "\<exists>cy' r. request_init tutorial_world 1 (waiting_cycle get_segments [(True, 10), (False, answer_length - 10)]) = Inr cy'
    \<and> client_parse new_response (cy_wire cy' 9) = Inr (CO_OK, r, Consume (length (cy_wire cy' 9)))
    \<and> m_content r = ''coserver test content data''"
proof -
  let ?ks = "[(True, 10), (False, answer_length - 10)]"
  let ?cy = "waiting_cycle get_segments ?ks"
  note facts = waiting_cycle_facts [of get_segments ?ks]
  obtain m rest where feed: "feed server_parse new_request [] (map snd get_segments) = Inr (CO_OK, m, rest)" using get_segments_feed by blast
  have io: "cy_in ?cy (fd_of 1 ?cy) = arrivals get_segments @ []" "cy_out ?cy (fd_of 1 ?cy) = takings ?ks @ []" by (simp_all add: facts)
  have segs: "\<forall>x\<in>set get_segments. snd x \<noteq> [] \<and> length (snd x) \<le> 4096" "4096 * length get_segments \<le> buf_limit"
    by (simp_all add: get_segments_def)
  have len: "\<forall>k\<in>set ?ks. 0 < snd k" "sum_list (map snd ?ks) = answer_length" using answer_ok(3) by simp_all
  have itr: "iteration (cy_itr ?cy)" by (simp add: facts(6) iteration_def)
  have ready: "http_ready tutorial_world (\<lambda>_ m. Inr (server_http_answer m)) 1 ?cy"
    by (rule waiting_cycle_ready) (simp add: tutorial_world_def server_http_process_def)
  have w: "patient tutorial_world i r n" for i r n by (simp add: patient_def tutorial_world_def example_world_def)
  from server_http_answers [OF ready w io(1) segs feed itr io(2) len] obtain cy' t r
    where "request_init tutorial_world 1 ?cy = Inr cy'" "cy_wire cy' (fd_of 1 ?cy) = cy_wire ?cy (fd_of 1 ?cy) @ t"
      "client_parse new_response t = Inr (CO_OK, r, Consume (length t))" "m_content r = ''coserver test content data''" by blast
  moreover have "cy_wire ?cy 9 = []" by (simp add: waiting_cycle_def small_cycle_def)
  ultimately show ?thesis unfolding facts by auto
qed

end
