(* ===== verification/Forwarding.thy ===== *)
theory Forwarding
  imports Tutorial
begin

text \<open>
  The server of \<^verbatim>\<open>tutorial/server_http_third\<close> with the library under it: its function adds a sub-request, waits, and appends
  what the backend answered. Two coroutines take part, that of the client's request and that of the sub-request; the
  second runs during the wait of the first.
\<close>

section \<open>Adding the sub-request\<close>

text \<open>Request \<open>p\<close> on connection \<open>ip\<close> with protocol object \<open>np\<close>, which is being processed and has no sub-requests.\<close>

definition handling :: "nat \<Rightarrow> nat \<Rightarrow> nat \<Rightarrow> http_protocol \<Rightarrow> CoCycle \<Rightarrow> bool" where
  "handling p ip np hp cy \<longleftrightarrow> valid_id ip cy \<and> cn_request (conn ip cy) = Some p \<and> cy_protocols cy np = Some (HttpServer hp)
     \<and> p < cy_nextObject cy \<and> np < cy_nextObject cy
     \<and> (\<exists>q. cy_requests cy p = Some q \<and> rq_connection q = Some ip \<and> fst (ud_coroutineData (rq_userData q)) = ip
          \<and> ud_protocol (rq_userData q) = Some np \<and> ud_upstreamInfos (rq_userData q) = []
          \<and> rq_count q = 1 \<and> rq_upstreamRequests q = [])"

definition asked :: "nat \<Rightarrow> nat \<Rightarrow> CoCycle \<Rightarrow> (nat \<Rightarrow> CoRequest option) \<Rightarrow> (nat \<Rightarrow> protocol option) \<Rightarrow> (nat \<Rightarrow> CoUpstreamInfo option)
    \<Rightarrow> nat \<times> nat \<times> nat \<times> (nat \<times> 32 word) list \<Rightarrow> CoCycle" where
  "asked i u c R P I z = c\<lparr>cy_pool := map_conn i (\<lambda>x. x\<lparr>cn_request := Some u, cn_requestCount := cn_requestCount x + 1\<rparr>) (cy_pool c),
     cy_requests := R, cy_protocols := P, cy_infos := I, cy_nextObject := fst z, cy_requestId := fst (snd z),
     cy_tick := fst (snd (snd z)), cy_delayConnections := snd (snd (snd z))\<rparr>"

lemma conn_frames:
  "conn i (upd_request r f c) = conn i c" "conn i (tick c) = conn i c" "conn i (upd_protocol n x c) = conn i c"
  "conn i (c\<lparr>cy_requestId := k\<rparr>) = conn i c"
  by (simp_all add: conn_def tick_def upd_protocol_def upd_request_def)

text \<open>A request object of a client on a connection that belongs to no server.\<close>

lemma client_request_starts:
  assumes v: "valid_id i cy" "cn_serverControl (conn i cy) = None" and p: "cy_protocols cy n = Some (HttpClient new_http_protocol)"
    and q: "cy_requests cy u = Some (new_co_request type)"
  obtains z h q where "co_request_init u i t (Some n) cy = Inr (CO_OK, cy\<lparr>cy_pool := map_conn i (\<lambda>x. x\<lparr>cn_request := Some u, cn_requestCount := cn_requestCount x + 1\<rparr>) (cy_pool cy),
      cy_requests := (cy_requests cy)(u \<mapsto> q), cy_protocols := (cy_protocols cy)(n \<mapsto> HttpClient h), cy_requestId := fst z, cy_tick := snd z\<rparr>)"
    "m_reqMsg h = new_request" "m_respMsg h = new_response" "rq_connection q = Some i" "rq_protocol q = Some n" "rq_requestType q = type"
    "rq_count q = 1" "rq_userProcess q = None" "rq_userDestroy q = None" "ud_upstreamInfos (rq_userData q) = []" "\<not> rq_flagNeedFreeProtocol q"
proof -
  let ?c = "upd_conn i (\<lambda>x. x\<lparr>cn_request := Some u, cn_requestCount := cn_requestCount x + 1\<rparr>) cy"
  let ?h = "set_clientip (tc_ip (cn_coTcp (conn i ?c))) new_http_protocol"
  let ?p = "upd_protocol n (HttpClient ?h) ?c"
  let ?id = "(cy_requestId cy + 1) mod u64_mod"
  let ?q = "(new_co_request type)\<lparr>rq_connection := Some i, rq_protocol := Some n, rq_startUs := now_us ?p, rq_requestId := ?id mod 4294967296,
     rq_count := 1, rq_userData := new_user_data\<lparr>ud_protocol := Some n, ud_coroutineData := (i, cn_version (conn i ?c))\<rparr>\<rparr>"
  have sc: "cn_serverControl (conn i ?c) = None" using v by simp
  have "cy_protocols ?c n = Some (HttpClient new_http_protocol)" "cy_requestId (tick ?p) = cy_requestId cy"
    using p by (simp_all add: upd_conn_def tick_def upd_protocol_def)
  then have "co_request_init u i t (Some n) cy = Inr (CO_OK, upd_request u (\<lambda>q. q\<lparr>rq_connection := Some i, rq_protocol := Some n, rq_startUs := now_us ?p,
     rq_requestId := ?id mod 4294967296, rq_count := rq_count q + 1,
     rq_userData := new_user_data\<lparr>ud_protocol := Some n, ud_coroutineData := (i, cn_version (conn i ?c))\<rparr>\<rparr>) ((tick ?p)\<lparr>cy_requestId := ?id\<rparr>))"
    unfolding co_request_init_def request_start_def Let_def option.case deref_def bindr_simps protocol_set_clientip.simps conn_frames sc by simp
  also have "\<dots> = Inr (CO_OK, cy\<lparr>cy_pool := map_conn i (\<lambda>x. x\<lparr>cn_request := Some u, cn_requestCount := cn_requestCount x + 1\<rparr>) (cy_pool cy),
      cy_requests := (cy_requests cy)(u \<mapsto> ?q), cy_protocols := (cy_protocols cy)(n \<mapsto> HttpClient ?h), cy_requestId := ?id, cy_tick := cy_tick cy + 1\<rparr>)"
    using q by (simp add: upd_request_def upd_conn_def upd_protocol_def tick_def new_co_request_def)
  finally show ?thesis using that [of "(?id, cy_tick cy + 1)" ?h ?q] by (simp add: set_clientip_def new_http_protocol_def new_co_request_def new_user_data_def)
qed

lemma add_upstream_state:
  assumes "request_of d cy = Inr qd" "cn_request (conn (fst (ud_coroutineData (rq_userData qd))) cy) = Some r"
    and "get_upstream_connection name cy = Inr (Some i, c1)" "create_protocol t = Some p"
    and "new_protocol_object p c1 = (n, c2)" "new_info_object n c2 = (info, c3)"
    and "new_request_object CO_REQUEST_UPSTREAM (upd_request d (\<lambda>q. q\<lparr>rq_userData := (rq_userData q)
           \<lparr>ud_upstreamInfos := ud_upstreamInfos (rq_userData q) @ [info]\<rparr>\<rparr>) c3) = (u, c4)"
    and "co_request_init u i t (Some n) c4 = Inr (CO_OK, c5)"
    and "upd_request u (\<lambda>q. q\<lparr>rq_userProcess := None, rq_parent := Some r, rq_upstreamInfo := Some info\<rparr>) c5 = c6"
    and "request_of r c6 = Inr q1" "request_of u c6 = Inr q2" "upd_request r (put_pending (rq_requestId q2) u) c6 = c7"
  shows "add_upstream w d name t cy = Inr (CO_OK, push_delay i c7)"
  by (simp add: add_upstream_def assms the_ref_def)

lemma third_ask_runs:
  assumes h0: "handling p ip np hp cy" and h: "handling p ip np hp c" and i: "i \<noteq> ip"
    and g: "get_upstream_connection ''test_backend'' cy = Inr (Some i, c)" and v: "valid_id i c" "cn_serverControl (conn i c) = None"
    and N: "N = cy_nextObject c"
  obtains R P I z k d h q where "third_ask w p cy = Inr (asked i (N + 2) c R P I z)"
    "R (N + 2) = Some q" "sub_request i N (N + 1) p k q"
    "\<exists>x. R p = Some x \<and> rq_connection x = Some ip \<and> rq_userData x = d \<and> rq_count x = 2 \<and> rq_upstreamRequests x = [(k, N + 2)]"
    "fst (ud_coroutineData d) = ip" "ud_protocol d = Some np" "ud_upstreamInfos d = [N + 1]"
    "P N = Some (HttpClient h)" "m_reqMsg h = third_request new_request" "m_respMsg h = new_response" "P np = Some (HttpServer hp)"
    "I (N + 1) = Some (new_upstream_info N)"
proof -
  obtain q0 where q0: "cy_requests c p = Some q0" "rq_connection q0 = Some ip" "fst (ud_coroutineData (rq_userData q0)) = ip"
    "ud_protocol (rq_userData q0) = Some np" "ud_upstreamInfos (rq_userData q0) = []" "rq_count q0 = 1" "rq_upstreamRequests q0 = []"
    and pn: "p < N" "np < N" "cy_protocols c np = Some (HttpServer hp)" using h N by (auto simp: handling_def)
  have same: "cy_requests cy = cy_requests c" using get_upstream_requests [OF g] by (simp add: same_requests_def)
  have req: "request_of p cy = Inr q0" "cn_request (conn ip cy) = Some p" using q0(1) same h0 by (simp_all add: request_of_def deref_def handling_def)
  define c3 where "c3 = c\<lparr>cy_nextObject := N + 2, cy_protocols := (cy_protocols c)(N \<mapsto> HttpClient new_http_protocol),
    cy_infos := (cy_infos c)(N + 1 \<mapsto> new_upstream_info N)\<rparr>"
  let ?f = "\<lambda>q. q\<lparr>rq_userData := (rq_userData q)\<lparr>ud_upstreamInfos := ud_upstreamInfos (rq_userData q) @ [N + 1]\<rparr>\<rparr>"
  define c5 where "c5 = c3\<lparr>cy_nextObject := N + 3, cy_requests := (cy_requests c)(p \<mapsto> ?f q0, N + 2 \<mapsto> new_co_request CO_REQUEST_UPSTREAM)\<rparr>"
  have create: "create_protocol PROTOCOL_HTTP_CLIENT = Some (HttpClient new_http_protocol)" by (simp add: create_protocol_def config_constants)
  have c3: "new_info_object N (snd (new_protocol_object (HttpClient new_http_protocol) c)) = (N + 1, c3)"
    "new_protocol_object (HttpClient new_http_protocol) c = (N, snd (new_protocol_object (HttpClient new_http_protocol) c))"
    using N by (simp_all add: c3_def new_info_object_def new_protocol_object_def new_object_def)
  have c5: "new_request_object CO_REQUEST_UPSTREAM (upd_request p ?f c3) = (N + 2, c5)"
    using q0(1) pn(1) by (simp add: c5_def c3_def new_request_object_def new_object_def upd_request_def)
  let ?t = "\<lambda>x. x\<lparr>cn_request := Some (N + 2), cn_requestCount := cn_requestCount x + 1\<rparr>"
  have f5: "valid_id i c5" "cn_serverControl (conn i c5) = None" "cy_protocols c5 N = Some (HttpClient new_http_protocol)"
    "cy_requests c5 (N + 2) = Some (new_co_request CO_REQUEST_UPSTREAM)"
    using v by (simp_all add: c5_def c3_def valid_id_def conn_def)
  obtain z hc qu where c6: "co_request_init (N + 2) i PROTOCOL_HTTP_CLIENT (Some N) c5 = Inr (CO_OK, c5\<lparr>cy_pool := map_conn i ?t (cy_pool c5),
      cy_requests := (cy_requests c5)(N + 2 \<mapsto> qu), cy_protocols := (cy_protocols c5)(N \<mapsto> HttpClient hc), cy_requestId := fst z, cy_tick := snd z\<rparr>)"
    and hc: "m_reqMsg hc = new_request" "m_respMsg hc = new_response" and qu: "rq_connection qu = Some i" "rq_protocol qu = Some N"
      "rq_requestType qu = CO_REQUEST_UPSTREAM" "rq_count qu = 1" "rq_userProcess qu = None" "rq_userDestroy qu = None"
      "ud_upstreamInfos (rq_userData qu) = []" "\<not> rq_flagNeedFreeProtocol qu"
    by (rule client_request_starts [OF f5])
  let ?g = "\<lambda>q. q\<lparr>rq_userProcess := None, rq_parent := Some p, rq_upstreamInfo := Some (N + 1)\<rparr>"
  let ?k = "rq_requestId qu"
  let ?R = "(cy_requests c)(N + 2 \<mapsto> ?g qu, p \<mapsto> put_pending ?k (N + 2) (?f q0))"
  define c8 where "c8 = asked i (N + 2) c ?R ((cy_protocols c)(N \<mapsto> HttpClient hc)) ((cy_infos c)(N + 1 \<mapsto> new_upstream_info N))
    (N + 3, fst z, snd z, cy_delayConnections c)"
  let ?c6 = "c5\<lparr>cy_pool := map_conn i ?t (cy_pool c5), cy_requests := (cy_requests c5)(N + 2 \<mapsto> qu), cy_protocols := (cy_protocols c5)(N \<mapsto> HttpClient hc),
     cy_requestId := fst z, cy_tick := snd z\<rparr>"
  have e: "request_of p (upd_request (N + 2) ?g ?c6) = Inr (?f q0)" "request_of (N + 2) (upd_request (N + 2) ?g ?c6) = Inr (?g qu)"
    "upd_request p (put_pending (rq_requestId (?g qu)) (N + 2)) (upd_request (N + 2) ?g ?c6) = c8"
    using pn(1) by (simp_all add: request_of_def deref_def upd_request_def c5_def c3_def c8_def asked_def)
  have r: "cn_request (conn (fst (ud_coroutineData (rq_userData q0))) cy) = Some p" using req(2) q0(3) by simp
  have "add_upstream w p ''test_backend'' PROTOCOL_HTTP_CLIENT cy = Inr (CO_OK, push_delay i c8)"
    by (rule add_upstream_state [OF req(1) r g create c3(2,1) c5 c6 refl e])
  moreover define F where "F = upd_protocol N (HttpClient (hc\<lparr>m_reqMsg := third_request (m_reqMsg hc)\<rparr>)) (push_delay i c8)"
  have "fill_request third_request p (push_delay i c8) = Inr F"
    using pn(1) q0(5) by (simp add: fill_request_def last_info_def on_http_def request_of_def deref_def the_ref_def push_delay_def c8_def asked_def
        put_pending_def new_upstream_info_def F_def)
  ultimately have "third_ask w p cy = Inr F" by (simp add: third_ask_def CO_OK_def)
  moreover have "F = asked i (N + 2) c ?R ((cy_protocols c)(N \<mapsto> HttpClient (hc\<lparr>m_reqMsg := third_request (m_reqMsg hc)\<rparr>)))
      ((cy_infos c)(N + 1 \<mapsto> new_upstream_info N)) (N + 3, fst z, snd z, cy_delayConnections c @ [(i, cn_version (conn i c8))])"
    by (simp add: F_def upd_protocol_def push_delay_def c8_def asked_def)
  moreover have "sub_request i N (N + 1) p ?k (?g qu)"
    using qu by (simp add: sub_request_def detached_def CO_REQUEST_UPSTREAM_def CO_REQUEST_DETACH_def)
  ultimately show ?thesis
    using that [of ?R "(cy_protocols c)(N \<mapsto> HttpClient (hc\<lparr>m_reqMsg := third_request (m_reqMsg hc)\<rparr>))" "(cy_infos c)(N + 1 \<mapsto> new_upstream_info N)"
      "(N + 3, fst z, snd z, cy_delayConnections c @ [(i, cn_version (conn i c8))])" "?g qu" ?k "rq_userData (?f q0)" "hc\<lparr>m_reqMsg := third_request (m_reqMsg hc)\<rparr>"]
      pn q0 hc by (simp add: put_pending_def)
qed

section \<open>The sub-request can start\<close>

text \<open>
  A connection to a backend as \<open>get_upstream_connection\<close> hands it out: idle, and either reused or one that can
  be connected.
\<close>

definition at_hand :: "world \<Rightarrow> nat \<Rightarrow> CoCycle \<Rightarrow> bool" where
  "at_hand w i c \<longleftrightarrow> alive i (c\<lparr>cy_curConnection := Some i\<rparr>) \<and> cn_upstream (conn i c) = Some ''test_backend'' \<and> cn_backend (conn i c) \<noteq> None
     \<and> cn_handlerCleanups (conn i c) = [] \<and> cn_serverControl (conn i c) = None \<and> buf_inv (buf_of i c) \<and> (\<exists>j. cy_heap c = full_heap j)
     \<and> find_upstream ''test_backend'' c \<noteq> None
     \<and> (ev_flagActive (cn_readEvent (conn i c)) \<or> can_connect (cn_coTcp (conn i c)) \<and> connect_answers w i c)"

lemma asked_fields:
  assumes "valid_id i c"
  shows "conn i ((asked i u c R P I z)\<lparr>cy_curConnection := Some i\<rparr>) = (conn i c)\<lparr>cn_request := Some u, cn_requestCount := cn_requestCount (conn i c) + 1\<rparr>"
    and "valid_id j ((asked i u c R P I z)\<lparr>cy_curConnection := Some i\<rparr>) = valid_id j c"
  using assms by (simp_all add: asked_def conn_def valid_id_def get_map_conn_same)

lemma asked_ready:
  assumes a: "at_hand w i c" and ip: "valid_id ip c" "i \<noteq> ip" and r: "r \<noteq> p"
    and q: "R r = Some q" "sub_request i n u p k q"
    and x: "\<exists>x. R p = Some x \<and> rq_connection x = Some ip \<and> rq_userData x = d \<and> rq_count x = 2 \<and> rq_upstreamRequests x = [(k, r)]"
    and d: "ud_protocol d = Some np" "np \<noteq> n" "P np = Some (HttpServer hp)" and h: "P n = Some (HttpClient h)" "m_respMsg h = new_response"
    and info: "I u = Some (new_upstream_info n)"
  shows "sub_ready w i r n ''test_backend'' u p ip k (d, Some (HttpServer hp)) h ((asked i r c R P I z)\<lparr>cy_curConnection := Some i\<rparr>)"
proof -
  let ?c = "(asked i r c R P I z)\<lparr>cy_curConnection := Some i\<rparr>"
  have v: "valid_id i c" using a by (simp add: at_hand_def alive_def valid_id_def)
  note f = asked_fields [OF v, where u = r and R = R and P = P and I = I and z = z]
  have g: "cy_interest ?c = cy_interest c" "cy_refuse ?c = cy_refuse c" "pl_innerSockets (cy_pool ?c) = pl_innerSockets (cy_pool c)"
    "cy_heap ?c = cy_heap c" "cy_sys ?c = cy_sys c" "cy_upstreams ?c = cy_upstreams c" "cy_requests ?c = R" "cy_protocols ?c = P" "cy_infos ?c = I"
    by (simp_all add: asked_def map_conn_def)
  have c0: "conn i (c\<lparr>cy_curConnection := Some i\<rparr>) = conn i c" "fd_of i (c\<lparr>cy_curConnection := Some i\<rparr>) = fd_of i c"
    "valid_id i (c\<lparr>cy_curConnection := Some i\<rparr>) = valid_id i c" "fd_of i ?c = fd_of i c"
    "cy_interest (c\<lparr>cy_curConnection := Some i\<rparr>) = cy_interest c"
    using f(1) by (simp_all add: conn_def fd_of_def valid_id_def)
  have "alive i ?c"
    using a unfolding at_hand_def alive_def is_inner_socketfd_def watched_def c0 f g by (simp add: g)
  moreover have "relatives ''test_backend'' u n p ip (k, r) (d, Some (HttpServer hp)) ?c"
    using a ip x d info unfolding relatives_def joined_def pending_def find_upstream_def f g at_hand_def by (auto simp: new_upstream_info_def)
  moreover have "connect_answers w i ?c = connect_answers w i c" unfolding connect_answers_def g by (rule refl)
  ultimately show ?thesis
    using a r ip(2) q h unfolding sub_ready_def at_hand_def buf_of_def f(1) g by simp
qed

section \<open>From the client to the backend and back\<close>

text \<open>While the request waits on connection \<open>ip\<close> the coroutine of connection \<open>i\<close> runs, and its results are left alone.\<close>

definition runs_meanwhile :: "world \<Rightarrow> world \<Rightarrow> nat \<Rightarrow> nat \<Rightarrow> bool" where
  "runs_meanwhile w v ip i \<longleftrightarrow> (\<forall>c c'. upstream_init v i (c\<lparr>cy_curConnection := Some i\<rparr>) = Inr c' \<longrightarrow>
     cy_requests (w_others w ip c) = cy_requests c' \<and> cy_protocols (w_others w ip c) = cy_protocols c'
     \<and> cy_infos (w_others w ip c) = cy_infos c' \<and> cy_wire (w_others w ip c) = cy_wire c')"

text \<open>C2: The second server of the tutorial forwards what a backend answers: its \<open>BusinessProcess\<close> adds a sub-request to
  \<open>test_backend\<close> and waits; the coroutine of the sub-request, which runs meanwhile, connects or reuses its connection,
  sends exactly the request the function has filled in, and reads the response, in whatever segments it comes; and the function
  ends without a fault with the content of that response behind the content of the response to the client.\<close>

theorem third_http_forwards:
  assumes "handling p ip np hp cy" and "get_upstream_connection ''test_backend'' cy = Inr (Some i, c)" and "handling p ip np hp c" and "i \<noteq> ip"
    and "at_hand v i c" and "patient v i (cy_nextObject c + 2) (cy_nextObject c)"
    and "\<And>k d. coroutine_frame v (relatives ''test_backend'' (cy_nextObject c + 1) (cy_nextObject c) p ip (k, cy_nextObject c + 2) (d, Some (HttpServer hp)))"
    and "runs_meanwhile w v ip i"
    and "t = request_text (cy_itr c) (tc_ipport (cn_coTcp (conn i c))) (third_request new_request)" and "length t \<le> buf_limit"
    and "cy_out c (fd_of i c) = takings ks @ out" and "\<forall>k\<in>set ks. 0 < snd k" and "sum_list (map snd ks) = length t"
    and "cy_in c (fd_of i c) = arrivals xs @ later" and "\<forall>x\<in>set xs. snd x \<noteq> [] \<and> length (snd x) \<le> 4096"
    and "4096 * length xs \<le> buf_limit" and "feed client_parse new_response [] (map snd xs) = Inr (CO_OK, m, rest)"
  shows "\<exists>cy'. third_http_process w p cy = Inr (0, cy') \<and> cy_wire cy' (fd_of i c) = cy_wire c (fd_of i c) @ t
    \<and> cy_protocols cy' np = Some (HttpServer (hp\<lparr>m_respMsg := append_content_str (m_content m) (m_respMsg hp)\<rparr>))"
proof -
  define N where "N = cy_nextObject c"
  have v: "valid_id i c" "cn_serverControl (conn i c) = None" using assms(5) by (simp_all add: at_hand_def alive_def valid_id_def)
  have n: "valid_id ip c" "N + 2 \<noteq> p" "np \<noteq> N" using assms(3) by (auto simp: handling_def N_def)
  obtain R P I z k d h q where ask: "third_ask w p cy = Inr (asked i (N + 2) c R P I z)" and q: "R (N + 2) = Some q" "sub_request i N (N + 1) p k q"
    and x: "\<exists>x. R p = Some x \<and> rq_connection x = Some ip \<and> rq_userData x = d \<and> rq_count x = 2 \<and> rq_upstreamRequests x = [(k, N + 2)]"
    and d: "ud_protocol d = Some np" "ud_upstreamInfos d = [N + 1]" "fst (ud_coroutineData d) = ip"
    and h: "P N = Some (HttpClient h)" "m_reqMsg h = third_request new_request" "m_respMsg h = new_response" "P np = Some (HttpServer hp)"
    and info: "I (N + 1) = Some (new_upstream_info N)"
    by (rule third_ask_runs [OF assms(1,3,4,2) v N_def])
  let ?a = "asked i (N + 2) c R P I z"
  let ?c = "?a\<lparr>cy_curConnection := Some i\<rparr>"
  have ready: "sub_ready v i (N + 2) N ''test_backend'' (N + 1) p ip k (d, Some (HttpServer hp)) h ?c"
    by (rule asked_ready [where I = I and u = "N + 1", OF assms(5) n(1) assms(4) n(2) q x d(1) n(3) h(4,1,3) info])
  note f = asked_fields [OF v(1), where u = "N + 2" and R = R and P = P and I = I and z = z]
  have fd: "fd_of i ?c = fd_of i c" "tc_ipport (cn_coTcp (conn i ?c)) = tc_ipport (cn_coTcp (conn i c))" unfolding fd_of_def f(1) by simp_all
  have g: "cy_itr ?c = cy_itr c" "cy_out ?c = cy_out c" "cy_in ?c = cy_in c" "cy_wire ?c = cy_wire c" by (simp_all add: asked_def)
  have t: "t = request_text (cy_itr ?c) (tc_ipport (cn_coTcp (conn i ?c))) (m_reqMsg h)" using assms(9) h(2) unfolding g fd by simp
  have io: "cy_out ?c (fd_of i ?c) = takings ks @ out" "cy_in ?c (fd_of i ?c) = arrivals xs @ later" using assms(11,14) unfolding g fd by simp_all
  obtain c' x' h' where run: "upstream_init v i ?c = Inr c'" "cy_wire c' (fd_of i ?c) = cy_wire ?c (fd_of i ?c) @ t" "cy_infos c' (N + 1) = Some x'"
    "ui_protocol x' = Some N" "cy_protocols c' N = Some (HttpClient h')" "m_respMsg h' = m"
    "\<exists>x. cy_requests c' p = Some x \<and> rq_userData x = d" "cy_protocols c' np = Some (HttpServer hp)"
    using subrequest_comes_back [OF ready assms(6,7) [folded N_def] t assms(10) io(1) assms(12,13) io(2) assms(15-17)] d(1) by auto
  define e where "e = w_others w ip ?a"
  have w: "cy_requests e = cy_requests c'" "cy_protocols e = cy_protocols c'" "cy_infos e = cy_infos c'" "cy_wire e = cy_wire c'"
    using assms(8) run(1) unfolding runs_meanwhile_def e_def by blast+
  let ?hp = "hp\<lparr>m_respMsg := append_content_str (m_content m) (m_respMsg hp)\<rparr>"
  have rp: "request_of p ?a = Inr (the (R p))" "rq_userData (the (R p)) = d" using x by (auto simp: request_of_def deref_def asked_def)
  have yields: "\<exists>ret. run_upstreams w p ?a = Inr (ret, e)"
    unfolding run_upstreams_def dispatcher_yield_pair_def rp(1) bindr_simps rp(2) d(3) e_def using d(2) by (simp add: Let_def)
  have resp: "append_response (Some np) (N + 1) e = Inr (upd_protocol np (HttpServer ?hp) e)"
    unfolding append_response_def info_response_def on_http_def deref_def the_ref_def w using run(3-6,8) by simp
  obtain qw where qw: "request_of p e = Inr qw" "rq_userData qw = d" using run(7) unfolding request_of_def deref_def w by auto
  obtain q0 where q0: "request_of p cy = Inr q0" "ud_protocol (rq_userData q0) = Some np" "cy_protocols cy np = Some (HttpServer hp)"
    using assms(1) by (auto simp: handling_def request_of_def deref_def)
  have "third_http_process w p cy = Inr (0, upd_protocol np (HttpServer ?hp) e)"
    using yields resp unfolding third_http_process_def q0(1) bindr_simps q0(2) deref_def option.case q0(3) ask by (auto simp: qw d(2))
  moreover have "cy_wire e (fd_of i c) = cy_wire c (fd_of i c) @ t" using run(2) unfolding w g fd by simp
  ultimately show ?thesis by (intro exI [of _ "upd_protocol np (HttpServer ?hp) e"]) (simp add: upd_protocol_def)
qed

section \<open>A thread it applies to\<close>

text \<open>
  Request 1 on connection 1 is being processed; connection 3 of \<open>test_backend\<close> waits to be reused. The socket takes
  seven bytes of the request, late, and then the rest; the response comes in two segments.
\<close>

lemma map_conn_twice: "0 < i \<Longrightarrow> i \<le> length (pl_connections p) \<Longrightarrow> map_conn i f (map_conn i g p) = map_conn i (\<lambda>x. f (g x)) p"
  by (simp add: map_conn_def)

lemma map_of_upd: "map_of (map (\<lambda>(k, u). (k, if k = name then f u else u)) xs) name = map_option f (map_of xs name)"
  by (induction xs) auto

lemma get_reused:
  assumes u: "find_upstream name cy = Some u" and b: "upstream_backend name u cy = Inr (Some b, upd_upstream name g (cy\<lparr>cy_tick := k\<rparr>))"
    and r: "ups_reuseConnections u (serverkey_at u b) = i # js" and v: "valid_id i cy"
  obtains f U where "get_upstream_connection name cy = Inr (Some i, cy\<lparr>cy_pool := map_conn i f (cy_pool cy), cy_upstreams := U, cy_tick := k\<rparr>)"
    "map_of U name \<noteq> None" "\<And>x. \<exists>a d e g. f x = x\<lparr>cn_upstream := Some name, cn_backend := Some b, cn_scoketConnTimeout := a, cn_socketRcvTimeout := d,
       cn_socketSndTimeout := e, cn_keepaliveTimeout := g, cn_handler := H_UPSTREAM_INIT\<rparr>"
proof -
  let ?conf = "ups_confUpstream u"
  let ?f1 = "\<lambda>c. c\<lparr>cn_upstream := Some name, cn_backend := Some b\<rparr>"
  let ?f2 = "\<lambda>c. c\<lparr>cn_scoketConnTimeout := up_connTimeout ?conf, cn_socketRcvTimeout := up_readTimeout ?conf,
     cn_socketSndTimeout := up_writeTimeout ?conf, cn_keepaliveTimeout := up_keepaliveTimeout ?conf, cn_handler := H_UPSTREAM_INIT\<rparr>"
  let ?t = "take_reused name (serverkey_at u b) (upd_upstream name g (cy\<lparr>cy_tick := k\<rparr>))"
  have get: "get_upstream_connection name cy = Inr (Some i, upd_conn i ?f2 (upd_conn i ?f1 ?t))"
    using u b r by (simp add: get_upstream_connection_def upstream_get_connection_def Let_def)
  have m: "map_of (cy_upstreams (upd_upstream name h c)) name = map_option h (map_of (cy_upstreams c) name)" for h c
    by (simp add: upd_upstream_def map_of_upd)
  have "map_of (cy_upstreams ?t) name \<noteq> None" unfolding take_reused_def m using u by (simp add: find_upstream_def)
  moreover have "?t = cy\<lparr>cy_upstreams := cy_upstreams ?t, cy_tick := k\<rparr>" by (simp add: take_reused_def upd_upstream_def)
  ultimately obtain U where U: "?t = cy\<lparr>cy_upstreams := U, cy_tick := k\<rparr>" "map_of U name \<noteq> None" by blast
  have "upd_conn i ?f2 (upd_conn i ?f1 ?t) = cy\<lparr>cy_pool := map_conn i (\<lambda>x. ?f2 (?f1 x)) (cy_pool cy), cy_upstreams := U, cy_tick := k\<rparr>"
    unfolding U using v by (simp add: upd_conn_def map_conn_twice valid_id_def)
  with get have g: "get_upstream_connection name cy = Inr (Some i, cy\<lparr>cy_pool := map_conn i (\<lambda>x. ?f2 (?f1 x)) (cy_pool cy), cy_upstreams := U, cy_tick := k\<rparr>)"
    by (simp only:)
  have "\<exists>a d e g. ?f2 (?f1 x) = x\<lparr>cn_upstream := Some name, cn_backend := Some b, cn_scoketConnTimeout := a, cn_socketRcvTimeout := d,
       cn_socketSndTimeout := e, cn_keepaliveTimeout := g, cn_handler := H_UPSTREAM_INIT\<rparr>" for x by blast
  then show ?thesis by (rule that [where f = "\<lambda>x. ?f2 (?f1 x)", OF g U(2)])
qed

definition backend_upstream :: CoUpstream where
  "backend_upstream = (new_upstream (up_conf\<lparr>up_name := ''test_backend''\<rparr>))\<lparr>ups_backendStrategy :=
     snd (add_backends up_conf (up_upstreamServers up_conf) new_strategy), ups_curConnectionSize := 1, ups_reuseConnections := \<lambda>_. [3]\<rparr>"

definition reusable :: "CoConnection \<Rightarrow> CoConnection" where
  "reusable c = c\<lparr>cn_coTcp := answering_tcp, cn_readEvent := (new_event EVENT_TYPE_READ 3)\<lparr>ev_flagActive := True\<rparr>\<rparr>"

definition forward_cycle :: "(bool \<times> string) list \<Rightarrow> (bool \<times> nat) list \<Rightarrow> CoCycle" where
  "forward_cycle xs ks = small_cycle\<lparr>
     cy_pool := map_conn 3 reusable (map_conn 1 (\<lambda>c. c\<lparr>cn_request := Some 1\<rparr>) (small_pool\<lparr>pl_freeConnections := [5, 7], pl_innerSockets := {9}\<rparr>)),
     cy_curConnection := Some 1, cy_nextObject := 3,
     cy_requests := [1 \<mapsto> (new_co_request CO_REQUEST_NORMAL)\<lparr>rq_connection := Some 1, rq_protocol := Some 2, rq_count := 1,
       rq_userData := new_user_data\<lparr>ud_protocol := Some 2, ud_coroutineData := (1, 0)\<rparr>\<rparr>],
     cy_protocols := [2 \<mapsto> HttpServer new_http_protocol], cy_upstreams := [(''test_backend'', backend_upstream)],
     cy_in := \<lambda>_. arrivals xs, cy_out := \<lambda>_. takings ks\<rparr>"

definition forward_world :: world where
  "forward_world = quiet_world\<lparr>w_others := \<lambda>_ c. case upstream_init quiet_world 3 (c\<lparr>cy_curConnection := Some 3\<rparr>) of Inl _ \<Rightarrow> c | Inr c' \<Rightarrow> c'\<rparr>"

lemma forward_conn:
  "conn 1 (forward_cycle xs ks) = (hd (new_pair 0))\<lparr>cn_request := Some 1\<rparr>"
  "conn 3 (forward_cycle xs ks) = reusable (hd (new_pair 2))"
  by (simp_all add: conn_def forward_cycle_def map_conn_def get_connection_accord_id_def small_pool_connections new_pair_def)

lemma forward_handling:
  assumes "cn_request (conn 1 c) = Some 1" and "valid_id 1 c" and "cy_requests c = cy_requests (forward_cycle xs ks)"
    and "cy_protocols c = cy_protocols (forward_cycle xs ks)" and "cy_nextObject c = 3"
  shows "handling 1 1 2 new_http_protocol c"
  unfolding handling_def assms using assms(1,2) by (simp add: forward_cycle_def new_co_request_def new_user_data_def)

lemma forward_cycle_get:
  obtains c where "get_upstream_connection ''test_backend'' (forward_cycle xs ks) = Inr (Some 3, c)" "handling 1 1 2 new_http_protocol c"
    "at_hand quiet_world 3 c" "fd_of 3 c = 9" "cy_itr c = (\<lambda>h. h)" "cy_in c = (\<lambda>_. arrivals xs)" "cy_out c = (\<lambda>_. takings ks)"
    "cy_wire c 9 = []" "cy_nextObject c = 3" "tc_ipport (cn_coTcp (conn 3 c)) = ''10.0.0.1:80''"
proof -
  let ?cy = "forward_cycle xs ks"
  have v: "valid_id 3 ?cy" "valid_id 1 ?cy" by (simp_all add: valid_id_def forward_cycle_def small_pool_free)
  have u: "find_upstream ''test_backend'' ?cy = Some backend_upstream" by (simp add: find_upstream_def forward_cycle_def)
  have r: "ups_reuseConnections backend_upstream (serverkey_at backend_upstream 0) = 3 # []" by (simp add: backend_upstream_def)
  obtain g k where b: "upstream_backend ''test_backend'' backend_upstream ?cy = Inr (Some 0, upd_upstream ''test_backend'' g (?cy\<lparr>cy_tick := k\<rparr>))"
    unfolding backend_upstream_def up_strategy
    by (simp add: upstream_backend_def get_backend_def choose_one_def avaliable_def u64_add_def)
  obtain f U where c: "get_upstream_connection ''test_backend'' ?cy = Inr (Some 3, ?cy\<lparr>cy_pool := map_conn 3 f (cy_pool ?cy), cy_upstreams := U, cy_tick := k\<rparr>)"
    "map_of U ''test_backend'' \<noteq> None" and f: "\<And>x. \<exists>a d e g. f x = x\<lparr>cn_upstream := Some ''test_backend'', cn_backend := Some 0,
       cn_scoketConnTimeout := a, cn_socketRcvTimeout := d, cn_socketSndTimeout := e, cn_keepaliveTimeout := g, cn_handler := H_UPSTREAM_INIT\<rparr>"
    by (rule get_reused [OF u b r v(1)]) blast
  define c where "c = ?cy\<lparr>cy_pool := map_conn 3 f (cy_pool ?cy), cy_upstreams := U, cy_tick := k\<rparr>"
  obtain a d e h where f3: "f (conn 3 ?cy) = (conn 3 ?cy)\<lparr>cn_upstream := Some ''test_backend'', cn_backend := Some 0,
       cn_scoketConnTimeout := a, cn_socketRcvTimeout := d, cn_socketSndTimeout := e, cn_keepaliveTimeout := h, cn_handler := H_UPSTREAM_INIT\<rparr>"
    using f by blast
  have k: "conn 1 c = (hd (new_pair 0))\<lparr>cn_request := Some 1\<rparr>" "conn 3 c = f (conn 3 ?cy)" "valid_id j c = valid_id j ?cy" for j
    using v forward_conn(1) by (simp_all add: c_def conn_def get_map_conn_same get_map_conn_other valid_id_def)
  have same: "cn_request (conn 1 c) = Some 1" "valid_id 1 c" unfolding k using v(2) by simp_all
  have "cy_requests c = cy_requests ?cy" "cy_protocols c = cy_protocols ?cy" "cy_nextObject c = 3" by (simp_all add: c_def forward_cycle_def)
  with same have hc: "handling 1 1 2 new_http_protocol c" by (rule forward_handling)
  have c3: "fd_of 3 c = 9" "\<not> cn_flagDying (conn 3 c)" "cn_epollCurEvents (conn 3 c) = 0" "cn_serverControl (conn 3 c) = None"
    "cn_upstream (conn 3 c) = Some ''test_backend''" "cn_backend (conn 3 c) = Some 0" "cn_handlerCleanups (conn 3 c) = []"
    "cn_coBuffer (conn 3 c) = set_userdata 3 new_buffer" "ev_flagActive (cn_readEvent (conn 3 c))" "cn_coTcp (conn 3 c) = answering_tcp"
    unfolding fd_of_def k(2) f3 unfolding forward_conn(2) by (simp_all add: reusable_def new_pair_def new_connection_def answering_tcp_def new_tcp_fd_def)
  moreover have g: "cy_interest c = (\<lambda>_. None)" "\<forall>k. \<not> cy_refuse c k" "9 \<in> pl_innerSockets (cy_pool c)" "cy_heap c = full_heap (\<lambda>n. NUL)"
    "cy_upstreams c = U" "cy_itr c = (\<lambda>h. h)" "cy_in c = (\<lambda>_. arrivals xs)" "cy_out c = (\<lambda>_. takings ks)" "cy_wire c 9 = []" "cy_nextObject c = 3"
    by (simp_all add: c_def forward_cycle_def small_cycle_def)
  moreover have "alive 3 (c\<lparr>cy_curConnection := Some 3\<rparr>)"
  proof -
    have e: "conn 3 (c\<lparr>cy_curConnection := Some 3\<rparr>) = conn 3 c" "fd_of 3 (c\<lparr>cy_curConnection := Some 3\<rparr>) = fd_of 3 c"
      "valid_id 3 (c\<lparr>cy_curConnection := Some 3\<rparr>) = valid_id 3 c"
      by (simp_all add: conn_def fd_of_def valid_id_def)
    show ?thesis unfolding alive_def is_inner_socketfd_def watched_def e c3(1,3,4) using c3(2) g k(3) v(1) by simp
  qed
  moreover have "buf_inv (set_userdata 3 new_buffer)" by (simp add: buf_inv_def set_userdata_def new_buffer_def)
  moreover have "\<exists>j. cy_heap c = full_heap j" using g(4) by blast
  ultimately have "at_hand quiet_world 3 c" unfolding at_hand_def buf_of_def find_upstream_def c3 using c(2) by simp
  moreover have "tc_ipport (cn_coTcp (conn 3 c)) = ''10.0.0.1:80''" unfolding c3(10) by (simp add: answering_tcp_def)
  ultimately show ?thesis by (rule that [OF c(1) [folded c_def] hc _ c3(1) g(6-10)])
qed

theorem third_http_forwards_witness:
  "\<exists>cy' m. third_http_process forward_world 1 (forward_cycle answer_segments
        [(True, 7), (False, length (request_text (\<lambda>h. h) ''10.0.0.1:80'' (third_request new_request)) - 7)]) = Inr (0, cy')
    \<and> cy_wire cy' 9 = request_text (\<lambda>h. h) ''10.0.0.1:80'' (third_request new_request)
    \<and> cy_protocols cy' 2 = Some (HttpServer (new_http_protocol\<lparr>m_respMsg := append_content_str m (m_respMsg new_http_protocol)\<rparr>))"
proof -
  let ?t = "request_text (\<lambda>h. h) ''10.0.0.1:80'' (third_request new_request)"
  have n: "length ?t > 7" "length ?t \<le> 8192" by code_simp+
  have r: "length (response_text (\<lambda>h. h) sample_response) > 20" "length (response_text (\<lambda>h. h) sample_response) \<le> 4096" by code_simp+
  let ?ks = "[(True, 7), (False, length ?t - 7)]"
  obtain m rest where feed: "feed client_parse new_response [] (map snd answer_segments) = Inr (CO_OK, m, rest)" using answer_segments_feed by blast
  obtain c where c: "get_upstream_connection ''test_backend'' (forward_cycle answer_segments ?ks) = Inr (Some 3, c)" "handling 1 1 2 new_http_protocol c"
    "at_hand quiet_world 3 c" "fd_of 3 c = 9" "cy_itr c = (\<lambda>h. h)" "cy_in c = (\<lambda>_. arrivals answer_segments)" "cy_out c = (\<lambda>_. takings ?ks)"
    "cy_wire c 9 = []" "cy_nextObject c = 3" "tc_ipport (cn_coTcp (conn 3 c)) = ''10.0.0.1:80''"
    by (rule forward_cycle_get)
  have h: "handling 1 1 2 new_http_protocol (forward_cycle answer_segments ?ks)"
  proof (rule forward_handling)
    show "cn_request (conn 1 (forward_cycle answer_segments ?ks)) = Some 1" unfolding forward_conn by simp
  qed (simp_all add: valid_id_def forward_cycle_def small_pool_free)
  have w: "patient quiet_world 3 a b" for a b by (simp add: patient_def quiet_world_def)
  have F: "coroutine_frame quiet_world (relatives name u n p ip e a)" for name u n p ip e a
    by unfold_locales (simp_all add: quiet_world_def relatives_same)
  have m: "runs_meanwhile forward_world quiet_world 1 3" by (simp add: runs_meanwhile_def forward_world_def)
  have segs: "\<forall>x\<in>set answer_segments. snd x \<noteq> [] \<and> length (snd x) \<le> 4096" "4096 * length answer_segments \<le> buf_limit"
    using r by (auto simp: answer_segments_def)
  have len: "length ?t \<le> buf_limit" "\<forall>k\<in>set ?ks. 0 < snd k" "sum_list (map snd ?ks) = length ?t" using n by simp_all
  have io: "?t = request_text (cy_itr c) (tc_ipport (cn_coTcp (conn 3 c))) (third_request new_request)"
    "cy_out c (fd_of 3 c) = takings ?ks @ []" "cy_in c (fd_of 3 c) = arrivals answer_segments @ []" unfolding c by simp_all
  from third_http_forwards [OF h c(1,2) _ c(3) w F m io(1) len(1) io(2) len(2,3) io(3) segs feed] c(4,8) show ?thesis by auto
qed

end
