(* ===== verification/Wakeup.thy ===== *)
theory Wakeup
  imports Dispatcher
begin

text \<open>
  \<open>resume_async\<close> and \<open>resume_single_async\<close> of \<^verbatim>\<open>core/co_dispatcher.cpp\<close> against the loop that empties
  the queue, as they run on different threads. A thread that resumes a coroutine appends to the
  queue under the spin lock and writes a byte to the dispatcher's socket only if the queue was
  empty; the write is a second step, outside the lock. The dispatcher tests the queue without the
  lock, takes an entry under it, and sleeps in \<open>epoll_wait\<close> once it has found the queue empty. Each
  critical section is one step.
\<close>

section \<open>The two sides\<close>

text \<open>What the critical section of both \<open>resume\<close> functions does: whether a byte is to be written, and the queue.\<close>

definition resume_push :: "nat \<times> 32 word \<Rightarrow> (nat \<times> 32 word) list \<Rightarrow> bool \<times> (nat \<times> 32 word) list" where
  "resume_push coroutineData queue = (queue = [], queue @ [coroutineData])"

lemma resume_async_push:
  "resume_async d cy = (CO_OK, let (writeSocket, q) = resume_push d (cy_waitResumes cy); cy = cy\<lparr>cy_waitResumes := q\<rparr>
     in if writeSocket then wake_byte cy else cy)"
  "resume_single_async d cy = (CO_OK, let (writeSocket, q) = resume_push d (cy_waitSingles cy); cy = cy\<lparr>cy_waitSingles := q\<rparr>
     in if writeSocket then wake_byte cy else cy)"
  by (simp_all add: resume_async_def resume_single_async_def resume_push_def Let_def)

datatype writer_pc = W_Idle | W_Write
datatype reader_pc = R_Test | R_Pop | R_Left | R_Sleep

record wakeup =
  wk_queue :: "(nat \<times> 32 word) list"
  wk_byte :: bool
  wk_writer :: "nat \<Rightarrow> writer_pc"
  wk_reader :: reader_pc

definition new_wakeup :: wakeup where
  "new_wakeup = \<lparr>wk_queue = [], wk_byte = False, wk_writer = \<lambda>_. W_Idle, wk_reader = R_Sleep\<rparr>"

definition writer_push :: "nat \<Rightarrow> nat \<times> 32 word \<Rightarrow> wakeup \<Rightarrow> wakeup" where
  "writer_push t d s =
     (let (writeSocket, q) = resume_push d (wk_queue s)
      in s\<lparr>wk_queue := q, wk_writer := (wk_writer s)(t := if writeSocket then W_Write else W_Idle)\<rparr>)"

text \<open>
  The reader's steps are those of the loops that empty the queues (\<open>drain\<close>): the test of the queue, and the first entry is taken, and
  handled, if there is one.
\<close>

lemma drain_tests_and_pops:
  "drain get put handle (go, cy) = (case get cy of [] \<Rightarrow> Some (Inr (go, cy))
     | d # ds \<Rightarrow> (case handle d go (put ds cy) of Inl e \<Rightarrow> Some (Inl e) | Inr st \<Rightarrow> drain get put handle st))"
  by (subst drain.simps) (simp cong: list.case_cong)

text \<open>
  \<open>wk_byte\<close>: a byte has come since the last time \<open>epoll_wait\<close> reported the socket. \<open>lossy\<close>: a write can
  fail; \<open>timers\<close>: \<open>epoll_wait\<close> can also return for another reason.
\<close>

inductive wake_step :: "bool \<Rightarrow> bool \<Rightarrow> wakeup \<Rightarrow> wakeup \<Rightarrow> bool" for lossy timers where
  push: "wk_writer s t = W_Idle \<Longrightarrow> wake_step lossy timers s (writer_push t d s)"
| byte: "wk_writer s t = W_Write \<Longrightarrow>
    wake_step lossy timers s (s\<lparr>wk_byte := True, wk_writer := (wk_writer s)(t := W_Idle)\<rparr>)"
| byte_lost: "lossy \<Longrightarrow> wk_writer s t = W_Write \<Longrightarrow> wake_step lossy timers s (s\<lparr>wk_writer := (wk_writer s)(t := W_Idle)\<rparr>)"
| test: "wk_reader s = R_Test \<Longrightarrow>
    wake_step lossy timers s (s\<lparr>wk_reader := if wk_queue s = [] then R_Left else R_Pop\<rparr>)"
| pop: "wk_reader s = R_Pop \<Longrightarrow> wk_queue s = d # ds \<Longrightarrow> wake_step lossy timers s (s\<lparr>wk_queue := ds, wk_reader := R_Test\<rparr>)"
| go_on: "wk_reader s = R_Left \<Longrightarrow> wake_step lossy timers s (s\<lparr>wk_reader := R_Test\<rparr>)"
| sleep: "wk_reader s = R_Left \<Longrightarrow> wake_step lossy timers s (s\<lparr>wk_reader := R_Sleep\<rparr>)"
| wake: "wk_reader s = R_Sleep \<Longrightarrow> wk_byte s \<Longrightarrow> wake_step lossy timers s (s\<lparr>wk_byte := False, wk_reader := R_Test\<rparr>)"
| timeout: "timers \<Longrightarrow> wk_reader s = R_Sleep \<Longrightarrow> wake_step lossy timers s (s\<lparr>wk_reader := R_Test\<rparr>)"

inductive_cases wake_stepE: "wake_step lossy timers s s'"

section \<open>No wake-up is lost\<close>

definition wake_inv :: "wakeup \<Rightarrow> bool" where
  "wake_inv s \<longleftrightarrow> (wk_reader s = R_Pop \<longrightarrow> wk_queue s \<noteq> [])
     \<and> (wk_reader s \<in> {R_Left, R_Sleep} \<and> wk_queue s \<noteq> [] \<longrightarrow> wk_byte s \<or> (\<exists>t. wk_writer s t = W_Write))"

lemma wake_inv_step: "wake_step False timers s s' \<Longrightarrow> wake_inv s \<Longrightarrow> wake_inv s'"
proof (induction rule: wake_step.induct)
  case (push s t d)
  then show ?case by (cases "wk_queue s = []") (force simp: wake_inv_def writer_push_def resume_push_def)+
qed (auto simp: wake_inv_def)

lemma wake_inv_reach: "(wake_step False timers)\<^sup>*\<^sup>* new_wakeup s \<Longrightarrow> wake_inv s"
proof (induction rule: rtranclp_induct)
  case base
  show ?case by (simp add: wake_inv_def new_wakeup_def)
next
  case (step s s')
  from wake_inv_step [OF step.hyps(2) step.IH] show ?case .
qed

lemmas wake_trans = converse_rtranclp_into_rtranclp [of "wake_step False False"]

text \<open>The dispatcher takes the first entry by itself, once it is awake.\<close>

lemma awake_pops:
  assumes "wk_reader s = R_Test" and "wk_queue s = d # ds"
  shows "\<exists>s'. (wake_step False False)\<^sup>*\<^sup>* s s' \<and> wk_queue s' = ds"
proof -
  let ?a = "s\<lparr>wk_reader := R_Pop\<rparr>"
  have "wake_step False False s ?a" using wake_step.test [OF assms(1), of False False] assms(2) by simp
  moreover have "wake_step False False ?a (?a\<lparr>wk_queue := ds, wk_reader := R_Test\<rparr>)"
    by (rule wake_step.pop) (simp_all add: assms(2))
  ultimately have "(wake_step False False)\<^sup>*\<^sup>* s (?a\<lparr>wk_queue := ds, wk_reader := R_Test\<rparr>)"
    by (blast intro: wake_trans)
  then show ?thesis by fastforce
qed

lemma byte_wakes:
  assumes "wk_reader s = R_Sleep" and "wk_byte s" and "wk_queue s = d # ds"
  shows "\<exists>s'. (wake_step False False)\<^sup>*\<^sup>* s s' \<and> wk_queue s' = ds"
  using wake_step.wake [OF assms(1,2), of False False] awake_pops [of "s\<lparr>wk_byte := False, wk_reader := R_Test\<rparr>" d ds] assms(3)
  by (auto intro: wake_trans)

lemma sleeper_wakes:
  assumes "wk_reader s = R_Sleep" and "wk_byte s \<or> (\<exists>t. wk_writer s t = W_Write)" and "wk_queue s = d # ds"
  shows "\<exists>s'. (wake_step False False)\<^sup>*\<^sup>* s s' \<and> wk_queue s' = ds"
proof (cases "wk_byte s")
  case True
  then show ?thesis using byte_wakes assms by blast
next
  case False
  then obtain t where "wk_writer s t = W_Write" using assms(2) by blast
  from wake_step.byte [OF this, of False False] show ?thesis
    using byte_wakes [of "s\<lparr>wk_byte := True, wk_writer := (wk_writer s)(t := W_Idle)\<rparr>" d ds] assms(1,3)
    by (auto intro: wake_trans)
qed


text \<open>Two threads have resumed coroutines and only the first one writes; the dispatcher is asleep.\<close>

definition two_resumed :: wakeup where
  "two_resumed = \<lparr>wk_queue = [(1, 0), (3, 0)], wk_byte = False, wk_writer = (\<lambda>_. W_Idle)(1 := W_Write), wk_reader = R_Sleep\<rparr>"

lemma two_resumed_reached: "(wake_step lossy False)\<^sup>*\<^sup>* new_wakeup two_resumed"
proof -
  let ?a = "writer_push 1 (1, 0) new_wakeup"
  have a: "wake_step lossy False new_wakeup ?a" by (rule wake_step.push) (simp add: new_wakeup_def)
  have b: "wake_step lossy False ?a (writer_push 2 (3, 0) ?a)"
    by (rule wake_step.push) (simp add: new_wakeup_def writer_push_def resume_push_def)
  have "writer_push 2 (3, 0) ?a = two_resumed"
    by (simp add: new_wakeup_def writer_push_def resume_push_def two_resumed_def fun_eq_iff)
  with a b show ?thesis by (metis (no_types, lifting) r_into_rtranclp rtranclp.rtrancl_into_rtrancl)
qed


text \<open>
  The write is a call of the hooked \<open>send\<close>, which fails at once when the connection of the calling
  coroutine is dying. Then the entries wait for the next time-out of the dispatcher.
\<close>

lemma failed_write_leaves_queue:
  "\<exists>s. (wake_step True False)\<^sup>*\<^sup>* new_wakeup s \<and> wk_queue s \<noteq> [] \<and> wk_reader s = R_Sleep
     \<and> \<not> wk_byte s \<and> (\<forall>t. wk_writer s t = W_Idle)"
proof -
  let ?s = "two_resumed\<lparr>wk_writer := (wk_writer two_resumed)(1 := W_Idle)\<rparr>"
  have "wake_step True False two_resumed ?s" by (rule wake_step.byte_lost) (simp_all add: two_resumed_def)
  with two_resumed_reached [of True] have "(wake_step True False)\<^sup>*\<^sup>* new_wakeup ?s"
    by (rule rtranclp.rtrancl_into_rtrancl)
  moreover have "wk_queue ?s \<noteq> [] \<and> wk_reader ?s = R_Sleep \<and> \<not> wk_byte ?s \<and> (\<forall>t. wk_writer ?s t = W_Idle)"
    by (simp add: two_resumed_def)
  ultimately show ?thesis by blast
qed

end
