(* ===== verification/Third_Socket.thy ===== *)
theory Third_Socket
  imports Hook
begin

text \<open>
  The other hooked calls of \<^verbatim>\<open>base/co_hook.cpp\<close>, and what the hook promises for a socket that is not
  the server's own (one a library opened inside a handler): the original function never runs on it
  while it blocks, and the socket is as it was when the call returns. \<open>origin\<close> is the original
  function on its other arguments.
\<close>

section \<open>The calls\<close>

definition hook_read :: "world \<Rightarrow> int \<Rightarrow> (CoCycle \<Rightarrow> string sys_result) \<Rightarrow> CoCycle \<Rightarrow> string sys_result res" where
  "hook_read w fd origin = read_write_mode w fd CO_EVENT_READ f_rcvtimeo origin"

definition hook_readv :: "world \<Rightarrow> int \<Rightarrow> (CoCycle \<Rightarrow> string list sys_result) \<Rightarrow> CoCycle \<Rightarrow> string list sys_result res" where
  "hook_readv w fd origin = read_write_mode w fd CO_EVENT_READ f_rcvtimeo origin"

definition hook_recvfrom :: "world \<Rightarrow> int \<Rightarrow> (CoCycle \<Rightarrow> (string \<times> string) sys_result) \<Rightarrow> CoCycle \<Rightarrow> (string \<times> string) sys_result res" where
  "hook_recvfrom w fd origin = read_write_mode w fd CO_EVENT_READ f_rcvtimeo origin"

definition hook_recvmsg :: "world \<Rightarrow> int \<Rightarrow> (CoCycle \<Rightarrow> string list sys_result) \<Rightarrow> CoCycle \<Rightarrow> string list sys_result res" where
  "hook_recvmsg w fd origin = read_write_mode w fd CO_EVENT_READ f_rcvtimeo origin"

definition hook_write :: "world \<Rightarrow> int \<Rightarrow> (CoCycle \<Rightarrow> nat sys_result) \<Rightarrow> CoCycle \<Rightarrow> nat sys_result res" where
  "hook_write w fd origin = read_write_mode w fd CO_EVENT_WRITE f_sndtimeo origin"

definition hook_writev :: "world \<Rightarrow> int \<Rightarrow> (CoCycle \<Rightarrow> nat sys_result) \<Rightarrow> CoCycle \<Rightarrow> nat sys_result res" where
  "hook_writev w fd origin = read_write_mode w fd CO_EVENT_WRITE f_sndtimeo origin"

definition hook_sendto :: "world \<Rightarrow> int \<Rightarrow> (CoCycle \<Rightarrow> nat sys_result) \<Rightarrow> CoCycle \<Rightarrow> nat sys_result res" where
  "hook_sendto w fd origin = read_write_mode w fd CO_EVENT_WRITE f_sndtimeo origin"

definition hook_sendmsg :: "world \<Rightarrow> int \<Rightarrow> (CoCycle \<Rightarrow> nat sys_result) \<Rightarrow> CoCycle \<Rightarrow> nat sys_result res" where
  "hook_sendmsg w fd origin = read_write_mode w fd CO_EVENT_WRITE f_sndtimeo origin"

section \<open>The bookkeeping leaves the files alone\<close>

lemma files_frames [simp]:
  "cy_files (upd_conn j f cy) = cy_files cy" "cy_files (upd_tcp j t cy) = cy_files cy" "cy_files (leave_block i cy) = cy_files cy"
  "cy_files (set_timer j e ms cy) = cy_files cy" "cy_files (unset_timer j e cy) = cy_files cy"
  "cy_files (snd (modify_connection j ch op cy)) = cy_files cy"
proof -
  have e: "cy_files (snd (epoll_ctl ctl f v d c)) = cy_files c" for ctl f v d c by (simp add: epoll_ctl_def Let_def split: option.split)
  show u: "cy_files (upd_conn j f cy) = cy_files cy" for j f and cy by (simp add: upd_conn_def)
  show "cy_files (upd_tcp j t cy) = cy_files cy" by (simp add: upd_tcp_def u)
  show "cy_files (leave_block i cy) = cy_files cy" by (simp add: leave_block_def Let_def u)
  show "cy_files (set_timer j e ms cy) = cy_files cy"
    unfolding set_timer_def Let_def case_prod_beta by (simp add: u tick_def add_timer_def)
  show "cy_files (unset_timer j e cy) = cy_files cy"
    unfolding unset_timer_def Let_def case_prod_beta by (simp add: u del_timer_def)
  show "cy_files (snd (modify_connection j ch op cy)) = cy_files cy"
    unfolding modify_connection_def Let_def case_prod_beta by (simp add: e u)
qed

text \<open>
  The other coroutines leave the file \<open>g\<close> as it is, and the original function only reads or writes: it changes no flags of a file and
  nothing in the pool.
\<close>

definition keeps_file :: "world \<Rightarrow> nat \<Rightarrow> int \<Rightarrow> bool" where
  "keeps_file w i g \<longleftrightarrow> (\<forall>cy. cy_files (w_others w i cy) g = cy_files cy g)"

definition only_io :: "(CoCycle \<Rightarrow> 'a sys_result) \<Rightarrow> bool" where
  "only_io origin \<longleftrightarrow> (\<forall>cy. cy_files (snd (origin cy)) = cy_files cy \<and> cy_pool (snd (origin cy)) = cy_pool cy)"

lemma yield_thirdsocket_files:
  assumes "cn_blockConn (conn i cy) = Some b"
  shows "\<exists>ret cy'. yield_thirdsocket w fd op ms i ph cy = Inr (ret, cy') \<and> (\<forall>g. keeps_file w i g \<longrightarrow> cy_files cy' g = cy_files cy g)"
proof -
  have r: "fst (init_client_socketfd fd peer g t) = CO_OK" for peer g t by (simp add: init_client_socketfd_def Let_def)
  show ?thesis using assms unfolding yield_thirdsocket_def Let_def case_prod_beta r by (simp add: keeps_file_def)
qed

lemma blocking_socket_cong: "cy_files cy' fd = cy_files cy fd \<Longrightarrow> blocking_socket fd cy' = blocking_socket fd cy"
  by (simp add: blocking_socket_def)

lemma nonblock_set: "\<not> blocking_socket fd (socket_set_nonblock fd cy)"
  by (simp add: blocking_socket_def socket_set_nonblock_def split: option.split)

lemma nonblock_back:
  assumes "blocking_socket fd cy" and "cy_files cy' fd = cy_files (socket_set_nonblock fd cy) fd"
  shows "cy_files (socket_remove_nonblock fd cy') fd = cy_files cy fd"
  using assms by (auto simp: blocking_socket_def socket_set_nonblock_def socket_remove_nonblock_def split: option.splits)

lemma nonblock_elsewhere:
  "g \<noteq> fd \<Longrightarrow> cy_files (socket_set_nonblock fd cy) g = cy_files cy g" "g \<noteq> fd \<Longrightarrow> cy_files (socket_remove_nonblock fd cy) g = cy_files cy g"
  by (simp_all add: socket_set_nonblock_def socket_remove_nonblock_def)

lemma after_wait_files:
  "only_io origin \<Longrightarrow> cy_files (snd (after_wait (ret, cy) origin)) = cy_files cy"
  by (simp add: after_wait_def only_io_def Let_def)

text \<open>C17: A handler may use a blocking socket of its own as if it had the thread to itself, as long as no other
  coroutine changes the flags of that socket meanwhile: the hooked call never
  runs the original function while the socket blocks (any other function that agrees on
  non-blocking sockets would do), it never faults, and when it returns, at once, after waiting,
  after a time-out or with an error, the socket blocks again as before. It changes no other file either: every file the
  other coroutines have left alone is as it was.\<close>

theorem third_socket_restored:
  assumes "cy_curConnection cy = Some i" and "\<not> cn_flagDying (conn i cy)" and "cn_blockConn (conn i cy) = Some b"
    and "\<not> is_inner_socketfd fd (cy_pool cy)" and "blocking_socket fd cy"
    and "keeps_file w i fd" and "only_io origin" and agree: "\<And>c. \<not> blocking_socket fd c \<Longrightarrow> origin' c = origin c"
  shows "\<exists>r cy'. read_write_mode w fd eventOP so origin cy = Inr (r, cy') \<and> cy_files cy' fd = cy_files cy fd
    \<and> (\<forall>g. keeps_file w i g \<longrightarrow> cy_files cy' g = cy_files cy g)
    \<and> read_write_mode w fd eventOP so origin' cy = Inr (r, cy')"
proof -
  let ?n = "socket_set_nonblock fd cy"
  obtain v cy1 where o: "origin ?n = (v, cy1)" by fastforce
  have c1: "cy_files cy1 = cy_files ?n" "cy_pool cy1 = cy_pool ?n" using assms(7) o by (metis only_io_def snd_conv)+
  have o': "origin' ?n = (v, cy1)" using agree [OF nonblock_set] o by simp
  have "cn_blockConn (conn i cy1) = Some b" using assms(3) c1(2) by (simp add: conn_def socket_set_nonblock_def)
  from yield_thirdsocket_files [OF this, of w fd eventOP "file_timeout so fd cy1" SOCKET_PHASE_NONE]
  obtain ret cy2 where y: "yield_thirdsocket w fd eventOP (file_timeout so fd cy1) i SOCKET_PHASE_NONE cy1 = Inr (ret, cy2)"
    "\<And>g. keeps_file w i g \<Longrightarrow> cy_files cy2 g = cy_files ?n g" using c1(1) by auto
  have "\<not> blocking_socket fd cy2" using nonblock_set blocking_socket_cong y(2) [OF assms(6)] by metis
  then have a: "after_wait (ret, cy2) origin' = after_wait (ret, cy2) origin" by (simp add: after_wait_def Let_def agree)
  have b: "cy_files (socket_remove_nonblock fd c) g = cy_files cy g"
    if "\<And>g. keeps_file w i g \<Longrightarrow> cy_files c g = cy_files ?n g" and "keeps_file w i g" for c g
    using nonblock_back [OF assms(5)] nonblock_elsewhere that by (cases "g = fd") auto
  have f: "\<And>g. keeps_file w i g \<Longrightarrow> cy_files (snd (after_wait (ret, cy2) origin)) g = cy_files ?n g"
    using after_wait_files [OF assms(7)] y(2) by simp
  have n: "\<And>g. keeps_file w i g \<Longrightarrow> cy_files cy1 g = cy_files ?n g" using c1(1) by simp
  have t: "read_write_mode w fd eventOP so g cy = io_third w i fd eventOP so g cy" for g :: "CoCycle \<Rightarrow> 'a sys_result"
    using assms(1,2,4,5) by (simp add: read_write_mode_def)
  show ?thesis unfolding t io_third_def Let_def o o'
    using y(1) a b [OF f] b [OF n] assms(6) by (auto simp: case_prod_beta split: sum.split)
qed

text \<open>A handler that reads from a blocking socket of its own; nothing has come yet.\<close>

definition own_socket_cycle :: CoCycle where
  "own_socket_cycle = small_cycle\<lparr>cy_curConnection := Some 1,
     cy_files := (\<lambda>_. None)(20 \<mapsto> \<lparr>f_socket = True, f_nonblock = False, f_setfl = True, f_rcvtimeo = None, f_sndtimeo = None\<rparr>),
     cy_in := (\<lambda>_. [])(20 := [RecvError EAGAIN, Data ''abc''])\<rparr>"

text \<open>Meanwhile another handler opens the file 21.\<close>

definition opening_world :: world where
  "opening_world = \<lparr>w_others = \<lambda>_ cy. cy\<lparr>cy_files := (cy_files cy)(21 \<mapsto>
       \<lparr>f_socket = False, f_nonblock = False, f_setfl = True, f_rcvtimeo = None, f_sndtimeo = None\<rparr>)\<rparr>, w_process = \<lambda>_ _ cy. Inr (0, cy), w_destroy = \<lambda>_ _ cy. Inr (0, cy), w_peer = \<lambda>_. None\<rparr>"

theorem third_socket_restored_witness:
  "\<exists>r cy'. hook_recv opening_world 20 10 own_socket_cycle = Inr (r, cy') \<and> cy_files cy' 20 = cy_files own_socket_cycle 20
    \<and> read_write_mode opening_world 20 CO_EVENT_READ f_rcvtimeo
        (\<lambda>c. if blocking_socket 20 c then (Inl EPIPE, c) else origin_recv 20 10 c) own_socket_cycle = Inr (r, cy')"
proof -
  have c: "conn 1 own_socket_cycle = hd (new_pair 0)"
    by (simp add: own_socket_cycle_def small_cycle_def conn_def get_connection_accord_id_def small_pool_connections new_pair_def)
  have i: "cy_curConnection own_socket_cycle = Some 1" "\<not> cn_flagDying (conn 1 own_socket_cycle)" "cn_blockConn (conn 1 own_socket_cycle) = Some 2"
    unfolding c by (simp_all add: own_socket_cycle_def new_pair_def new_connection_def)
  have "pl_innerSockets small_pool = {}" by (simp add: small_pool_def new_pool_def numeral_eq_Suc)
  then have n: "\<not> is_inner_socketfd 20 (cy_pool own_socket_cycle)" "blocking_socket 20 own_socket_cycle"
    by (simp_all add: own_socket_cycle_def small_cycle_def is_inner_socketfd_def blocking_socket_def)
  have k: "keeps_file opening_world 1 20" by (simp add: keeps_file_def opening_world_def)
  have "only_io (origin_recv 20 10)" by (auto simp: only_io_def origin_recv_def Let_def split: sum.split prod.split)
  from third_socket_restored [OF i n k this, of "\<lambda>c. if blocking_socket 20 c then (Inl EPIPE, c) else origin_recv 20 10 c" CO_EVENT_READ f_rcvtimeo]
  show ?thesis unfolding hook_recv_def by auto
qed

end
