(* ===== verification/Spinlock.thy ===== *)
theory Spinlock
  imports Prelude
begin

text \<open>
  \<^verbatim>\<open>base/co_spinlock.h\<close>: the lock of the queues other threads write to. The operations are steps
  of threads on one \<open>atomic_flag\<close>; \<open>test_and_set\<close> and \<open>clear\<close> are atomic, everything between two
  of them belongs to one thread. A thread calls \<open>unlock\<close> only where it holds the lock, as every
  caller under \<^verbatim>\<open>src/\<close> does.
\<close>

section \<open>One thread\<close>

text \<open>Where a thread is: \<open>Spin i\<close> is in front of the \<open>i\<close>-th of the four attempts of a round.\<close>

datatype lock_pc = Outside | Spin_First | Spin nat | Spin_Yield | Inside

definition test_and_set :: "bool \<Rightarrow> bool \<times> bool" where
  "test_and_set flag = (flag, True)"

definition spin_lock :: "lock_pc \<Rightarrow> bool \<Rightarrow> lock_pc \<times> bool" where
  "spin_lock pc flag =
     (case pc of
        Spin_First \<Rightarrow> let (old, flag) = test_and_set flag in (if \<not> old then Inside else Spin 0, flag)
      | Spin i \<Rightarrow>
          if i < 4 then let (old, flag) = test_and_set flag in (if \<not> old then Inside else Spin (i + 1), flag)
          else (Spin_Yield, flag)
      | Spin_Yield \<Rightarrow> (Spin 0, flag)
      | _ \<Rightarrow> (pc, flag))"

definition spin_try_lock :: "bool \<Rightarrow> bool \<times> bool" where
  "spin_try_lock flag = (let (old, flag) = test_and_set flag in (\<not> old, flag))"

definition spin_unlock :: bool where "spin_unlock = False"

definition spinning :: "lock_pc \<Rightarrow> bool" where
  "spinning pc \<longleftrightarrow> pc \<noteq> Outside \<and> pc \<noteq> Inside"

section \<open>All threads\<close>

record CoSpinlock =
  sl_lock :: bool
  sl_pc :: "nat \<Rightarrow> lock_pc"

definition new_spinlock :: CoSpinlock where
  "new_spinlock = \<lparr>sl_lock = False, sl_pc = \<lambda>_. Outside\<rparr>"

definition spin_turn :: "nat \<Rightarrow> CoSpinlock \<Rightarrow> CoSpinlock" where
  "spin_turn t s = (let (pc, flag) = spin_lock (sl_pc s t) (sl_lock s) in s\<lparr>sl_lock := flag, sl_pc := (sl_pc s)(t := pc)\<rparr>)"

inductive spin_step :: "CoSpinlock \<Rightarrow> CoSpinlock \<Rightarrow> bool" where
  enter: "sl_pc s t = Outside \<Longrightarrow> spin_step s (s\<lparr>sl_pc := (sl_pc s)(t := Spin_First)\<rparr>)"
| turn: "spinning (sl_pc s t) \<Longrightarrow> spin_step s (spin_turn t s)"
| attempt: "sl_pc s t = Outside \<Longrightarrow> spin_try_lock (sl_lock s) = (ok, flag) \<Longrightarrow>
    spin_step s (s\<lparr>sl_lock := flag, sl_pc := (sl_pc s)(t := if ok then Inside else Outside)\<rparr>)"
| leave: "sl_pc s t = Inside \<Longrightarrow> spin_step s (s\<lparr>sl_lock := spin_unlock, sl_pc := (sl_pc s)(t := Outside)\<rparr>)"

inductive_cases spin_stepE: "spin_step s s'"

section \<open>Mutual exclusion\<close>

text \<open>The flag is set exactly when one thread is inside.\<close>

definition spin_inv :: "CoSpinlock \<Rightarrow> bool" where
  "spin_inv s \<longleftrightarrow> (if sl_lock s then \<exists>t. \<forall>u. sl_pc s u = Inside \<longleftrightarrow> u = t else \<forall>u. sl_pc s u \<noteq> Inside)"

lemma spin_inv_new: "spin_inv new_spinlock"
  by (simp add: spin_inv_def new_spinlock_def)

lemma spin_inv_free: "spin_inv s \<Longrightarrow> \<not> sl_lock s \<Longrightarrow> sl_pc s u \<noteq> Inside"
  by (simp add: spin_inv_def)

lemma spin_inv_take:
  "spin_inv s \<Longrightarrow> \<not> sl_lock s \<Longrightarrow> spin_inv (s\<lparr>sl_lock := True, sl_pc := (sl_pc s)(t := Inside)\<rparr>)"
  by (auto simp: spin_inv_def)

lemma spin_inv_cong:
  assumes "sl_lock s' = sl_lock s" "\<And>u. sl_pc s' u = Inside \<longleftrightarrow> sl_pc s u = Inside"
  shows "spin_inv s' = spin_inv s"
  by (simp add: spin_inv_def assms)

lemma spin_inv_turn:
  assumes "spin_inv s" "spinning (sl_pc s t)"
  shows "spin_inv (spin_turn t s)"
proof -
  have o: "sl_pc s t \<noteq> Inside" using assms(2) by (simp add: spinning_def)
  obtain pc flag where l: "spin_lock (sl_pc s t) (sl_lock s) = (pc, flag)" by fastforce
  then have "(pc = Inside \<and> flag \<and> \<not> sl_lock s) \<or> (pc \<noteq> Inside \<and> flag = sl_lock s)"
    using assms(2) by (auto simp: spin_lock_def test_and_set_def spinning_def split: lock_pc.splits if_splits)
  then show ?thesis
  proof
    assume "pc = Inside \<and> flag \<and> \<not> sl_lock s"
    then show ?thesis using spin_inv_take [OF assms(1), of t] l by (simp add: spin_turn_def)
  next
    assume "pc \<noteq> Inside \<and> flag = sl_lock s"
    then have "spin_inv (spin_turn t s) = spin_inv s" using l o by (intro spin_inv_cong) (auto simp: spin_turn_def)
    then show ?thesis using assms(1) by simp
  qed
qed

lemma spin_inv_step: "spin_step s s' \<Longrightarrow> spin_inv s \<Longrightarrow> spin_inv s'"
proof (induction rule: spin_step.induct)
  case (enter s t)
  have "spin_inv (s\<lparr>sl_pc := (sl_pc s)(t := Spin_First)\<rparr>) = spin_inv s"
    by (rule spin_inv_cong) (use enter.hyps in auto)
  then show ?case using enter.prems by simp
next
  case (turn s t)
  then show ?case by (rule spin_inv_turn [rotated])
next
  case (attempt s t ok flag)
  have f: "flag" "ok = (\<not> sl_lock s)" using attempt.hyps(2) by (auto simp: spin_try_lock_def test_and_set_def)
  show ?case
  proof (cases "sl_lock s")
    case True
    have "spin_inv (s\<lparr>sl_lock := flag, sl_pc := (sl_pc s)(t := if ok then Inside else Outside)\<rparr>) = spin_inv s"
      by (rule spin_inv_cong) (use True f attempt.hyps(1) in auto)
    then show ?thesis using attempt.prems by simp
  next
    case False
    then show ?thesis using spin_inv_take [OF attempt.prems, of t] f by simp
  qed
next
  case (leave s t)
  then show ?case by (auto simp: spin_inv_def spin_unlock_def split: if_splits)
qed

lemma spin_inv_reach: "spin_step\<^sup>*\<^sup>* s s' \<Longrightarrow> spin_inv s \<Longrightarrow> spin_inv s'"
  by (induction rule: rtranclp_induct) (auto intro: spin_inv_step)

lemma spin_turn_free:
  assumes "spinning (sl_pc s t)" "\<not> sl_lock s"
  shows "\<exists>n\<le>3. sl_pc ((spin_turn t ^^ n) s) t = Inside"
proof -
  have first: "sl_pc ((spin_turn t ^^ 1) s) t = Inside" if "sl_pc s t = Spin_First \<or> (\<exists>i<4. sl_pc s t = Spin i)"
    using that assms(2) by (auto simp: spin_turn_def spin_lock_def test_and_set_def)
  have yield: "sl_pc ((spin_turn t ^^ 2) s) t = Inside" if "sl_pc s t = Spin_Yield"
    using that assms(2) by (simp add: spin_turn_def spin_lock_def test_and_set_def numeral_2_eq_2)
  have round: "sl_pc ((spin_turn t ^^ 3) s) t = Inside" if "sl_pc s t = Spin i" "\<not> i < 4" for i
    using that assms(2) by (simp add: spin_turn_def spin_lock_def test_and_set_def numeral_3_eq_3)
  show ?thesis
  proof (cases "sl_pc s t")
    case (Spin i)
    then show ?thesis using first round by (cases "i < 4") (auto intro: exI [of _ 1])
  qed (use assms(1) first yield in \<open>auto simp: spinning_def intro: exI [of _ 1] exI [of _ 2]\<close>)
qed

text \<open>C19: The spin lock is a lock. However the threads that call \<open>lock\<close>, \<open>try_lock\<close> and \<open>unlock\<close> are interleaved, at
  most one is inside, and the flag is set exactly then; and when nobody is inside, any
  thread that spins is inside after at most three steps of its own, if the others let it take them.\<close>

theorem spinlock_excludes:
  assumes "spin_step\<^sup>*\<^sup>* new_spinlock s"
  shows "(\<forall>t u. sl_pc s t = Inside \<and> sl_pc s u = Inside \<longrightarrow> t = u) \<and> (sl_lock s \<longleftrightarrow> (\<exists>t. sl_pc s t = Inside))
    \<and> (\<forall>t. spinning (sl_pc s t) \<and> (\<forall>u. sl_pc s u \<noteq> Inside) \<longrightarrow> (\<exists>n\<le>3. sl_pc ((spin_turn t ^^ n) s) t = Inside))"
proof -
  have inv: "spin_inv s" by (rule spin_inv_reach [OF assms spin_inv_new])
  then have flag: "sl_lock s \<longleftrightarrow> (\<exists>t. sl_pc s t = Inside)" by (auto simp: spin_inv_def split: if_splits)
  have one: "t = u" if "sl_pc s t = Inside" "sl_pc s u = Inside" for t u
  proof -
    have "sl_lock s" using that flag by blast
    then obtain v where "\<forall>u. sl_pc s u = Inside \<longleftrightarrow> u = v" using inv unfolding spin_inv_def by (simp only: if_True) blast
    then show ?thesis using that by metis
  qed
  have live: "\<exists>n\<le>3. sl_pc ((spin_turn t ^^ n) s) t = Inside" if "spinning (sl_pc s t)" "\<forall>u. sl_pc s u \<noteq> Inside" for t
    by (rule spin_turn_free) (use that flag in auto)
  show ?thesis
  proof (intro conjI allI impI)
    show "t = u" if "sl_pc s t = Inside \<and> sl_pc s u = Inside" for t u using that one by blast
    show "\<exists>n\<le>3. sl_pc ((spin_turn t ^^ n) s) t = Inside" if "spinning (sl_pc s t) \<and> (\<forall>u. sl_pc s u \<noteq> Inside)" for t
      using that by (elim conjE) (rule live)
  qed (rule flag)
qed

text \<open>Thread 1 is inside, thread 2 has tried once.\<close>

definition contended :: CoSpinlock where
  "contended = \<lparr>sl_lock = True, sl_pc = (\<lambda>_. Outside)(1 := Inside, 2 := Spin 0)\<rparr>"

lemma contended_reached: "spin_step\<^sup>*\<^sup>* new_spinlock contended"
proof -
  let ?s1 = "new_spinlock\<lparr>sl_lock := True, sl_pc := (sl_pc new_spinlock)(1 := if True then Inside else Outside)\<rparr>"
  let ?s2 = "?s1\<lparr>sl_pc := (sl_pc ?s1)(2 := Spin_First)\<rparr>"
  have a: "spin_step new_spinlock ?s1"
    by (rule spin_step.attempt) (simp_all add: new_spinlock_def spin_try_lock_def test_and_set_def)
  have b: "spin_step ?s1 ?s2" by (rule spin_step.enter) (simp add: new_spinlock_def)
  have c: "spin_step ?s2 (spin_turn 2 ?s2)" by (rule spin_step.turn) (simp add: spinning_def)
  have d: "spin_turn 2 ?s2 = contended"
    by (simp add: contended_def new_spinlock_def spin_turn_def spin_lock_def test_and_set_def)
  note r_into_rtranclp [of spin_step, OF a]
  from rtranclp.rtrancl_into_rtrancl [OF this b] have "spin_step\<^sup>*\<^sup>* new_spinlock (spin_turn 2 ?s2)"
    using c by (rule rtranclp.rtrancl_into_rtrancl)
  then show ?thesis by (simp only: d)
qed

theorem spinlock_excludes_witness:
  "sl_lock contended \<and> {t. sl_pc contended t = Inside} = {1}"
proof -
  have "sl_pc contended 1 = Inside" by (simp add: contended_def)
  with spinlock_excludes [OF contended_reached] show ?thesis by blast
qed

end
