(* ===== verification/Startup.thy ===== *)
theory Startup
  imports Config_Parser
begin

text \<open>
  What the process needs before and around the worker threads: the names of hosts (\<^verbatim>\<open>base/co_dns.h\<close>), the original
  functions behind the hooked ones (the end of \<^verbatim>\<open>base/co_hook.cpp\<close>), the numbers of the threads (the end of
  \<^verbatim>\<open>core/co_cycle.cpp\<close>), and the log (\<^verbatim>\<open>base/co_log.h\<close>).
\<close>

section \<open>Names of hosts\<close>

text \<open>
  \<open>gethostbyname\<close> is a parameter: no entry, or the texts of the addresses of the host. \<open>inet_ntop\<close> writes the text of an
  address with its NUL into \<open>room\<close> bytes, or nothing.
\<close>

definition inet_ntop :: "string \<Rightarrow> nat \<Rightarrow> string option" where
  "inet_ntop address room = (if length address < room then Some address else None)"

definition IP_SIZE :: nat where "IP_SIZE = 16"

fun resolve_loop :: "string list \<Rightarrow> string list \<Rightarrow> string list" where
  "resolve_loop [] ips = ips"
| "resolve_loop (p # ps) ips = resolve_loop ps (case inet_ntop p IP_SIZE of None \<Rightarrow> ips | Some ip \<Rightarrow> ips @ [ip])"

definition resolve_dns :: "(string \<Rightarrow> string list option) \<Rightarrow> string \<Rightarrow> string list \<Rightarrow> int \<times> string list" where
  "resolve_dns gethostbyname dns ips =
     (case gethostbyname dns of
        None \<Rightarrow> (CO_ERROR, ips)
      | Some [] \<Rightarrow> (CO_ERROR, ips)
      | Some addrs \<Rightarrow> (CO_OK, resolve_loop addrs ips))"

text \<open>What the configuration parser makes of it.\<close>

definition parser_dns :: "(string \<Rightarrow> string list option) \<Rightarrow> string \<Rightarrow> string list option" where
  "parser_dns gethostbyname host = (case resolve_dns gethostbyname host [] of (ret, ips) \<Rightarrow> if CO_OK = ret then Some ips else None)"

lemma resolve_loop_filter: "resolve_loop ps ips = ips @ filter (\<lambda>p. length p < IP_SIZE) ps"
  by (induction ps ips rule: resolve_loop.induct) (simp_all add: inet_ntop_def)

lemma parser_dns_eq:
  "parser_dns g host = (case g host of None \<Rightarrow> None | Some [] \<Rightarrow> None | Some ps \<Rightarrow> Some (filter (\<lambda>p. length p < IP_SIZE) ps))"
  by (auto simp: parser_dns_def resolve_dns_def resolve_loop_filter split: option.split list.split)

text \<open>
  A line \<open>server host:port;\<close> with a name as its host: one backend for each address of the host that fits into 16
  bytes (every one of IPv4), in the order of the resolver; a host the resolver does not know is no error and no backend.
\<close>

lemma server_by_name:
  assumes "la_args line = [''server'', host @ CHR '':'' # port]" and "CHR '':'' \<notin> set host" and "host \<noteq> []" and "is_alpha (hd host)"
    and "CheckNumber port"
  shows "server_entry (parser_dns g) line
    = Some (map (\<lambda>ip. new_upstream_server ip (c_atoi port) 1) (filter (\<lambda>p. length p < IP_SIZE) (case g host of None \<Rightarrow> [] | Some ps \<Rightarrow> ps)))"
  using assms strstr_char_append [OF assms(2), of port]
  by (auto simp: server_entry_def Let_def parser_dns_eq split: option.split list.split)

section \<open>The original functions\<close>

text \<open>
  Every hooked call starts with \<open>if (!fnX) init_coroutine_hook();\<close>, and a static variable lets \<open>init_hook\<close> run once in a process.
  \<open>dlsym\<close> gives the address of a function; \<open>exit(1)\<close> ends the process.
\<close>

datatype 'a started = Exit int | Running 'a

record hook_table =
  hk_fns :: "string \<Rightarrow> nat option"
  hk_isInit :: bool

definition no_hooks :: hook_table where
  "no_hooks = \<lparr>hk_fns = \<lambda>_. None, hk_isInit = False\<rparr>"

definition hooked_names :: "string list" where
  "hooked_names = [''connect'', ''read'', ''readv'', ''recv'', ''recvfrom'', ''recvmsg'', ''write'', ''writev'', ''send'', ''sendto'',
     ''sendmsg'', ''accept'', ''sleep'', ''usleep'']"

text \<open>The ones \<open>init_hook\<close> checks: \<open>recv\<close>, \<open>recvfrom\<close> and \<open>recvmsg\<close> are not among them.\<close>

definition checked_names :: "string list" where
  "checked_names = [''connect'', ''read'', ''write'', ''readv'', ''writev'', ''send'', ''sendto'', ''sendmsg'', ''accept'', ''sleep'', ''usleep'']"

definition mutex_names :: "string list" where
  "mutex_names = [''pthread_mutex_lock'', ''pthread_mutex_unlock'']"

definition missing :: "string list \<Rightarrow> (string \<Rightarrow> nat option) \<Rightarrow> bool" where
  "missing names fns = list_ex (\<lambda>n. fns n = None) names"

fun find_all :: "(string \<Rightarrow> nat option) \<Rightarrow> string list \<Rightarrow> (string \<Rightarrow> nat option) \<Rightarrow> string \<Rightarrow> nat option" where
  "find_all dlsym [] fns = fns"
| "find_all dlsym (n # ns) fns = find_all dlsym ns (fns(n := dlsym n))"

definition init_hook :: "bool \<Rightarrow> bool \<Rightarrow> (string \<Rightarrow> nat option) \<Rightarrow> (string \<Rightarrow> nat option) \<Rightarrow> (int \<times> (string \<Rightarrow> nat option)) started" where
  "init_hook hookSelect hookMutex dlsym fns =
     (let fns = find_all dlsym hooked_names fns
      in if missing checked_names fns then Exit 1
         else let fns = (if hookSelect then find_all dlsym [''select''] fns else fns)
              in if hookSelect \<and> missing [''select''] fns then Exit 1
                 else let fns = (if hookMutex then find_all dlsym mutex_names fns else fns)
                      in if hookMutex \<and> missing mutex_names fns then Exit 1 else Running (CO_OK, fns))"

definition init_coroutine_hook :: "bool \<Rightarrow> bool \<Rightarrow> (string \<Rightarrow> nat option) \<Rightarrow> hook_table \<Rightarrow> hook_table started" where
  "init_coroutine_hook hookSelect hookMutex dlsym t =
     (if hk_isInit t then Running t
      else case init_hook hookSelect hookMutex dlsym (hk_fns t) of
             Exit k \<Rightarrow> Exit k
           | Running (_, fns) \<Rightarrow> Running (t\<lparr>hk_fns := fns, hk_isInit := True\<rparr>))"

text \<open>The function a hooked call goes on to call, by its name.\<close>

definition original :: "bool \<Rightarrow> bool \<Rightarrow> (string \<Rightarrow> nat option) \<Rightarrow> string \<Rightarrow> hook_table \<Rightarrow> (nat \<times> hook_table) res started" where
  "original hookSelect hookMutex dlsym n t =
     (case (if hk_fns t n = None then init_coroutine_hook hookSelect hookMutex dlsym t else Running t) of
        Exit k \<Rightarrow> Exit k
      | Running t \<Rightarrow> Running (case hk_fns t n of None \<Rightarrow> Inl NullPointer | Some f \<Rightarrow> Inr (f, t)))"

definition found_names :: "bool \<Rightarrow> bool \<Rightarrow> string set" where
  "found_names hookSelect hookMutex =
     set hooked_names \<union> (if hookSelect then {''select''} else {}) \<union> (if hookMutex then set mutex_names else {})"

definition needed_names :: "bool \<Rightarrow> bool \<Rightarrow> string set" where
  "needed_names hookSelect hookMutex = found_names hookSelect hookMutex - {''recv'', ''recvfrom'', ''recvmsg''}"

text \<open>A table is empty, or holds what \<open>dlsym\<close> says of every name the process uses.\<close>

definition table_ok :: "bool \<Rightarrow> bool \<Rightarrow> (string \<Rightarrow> nat option) \<Rightarrow> hook_table \<Rightarrow> bool" where
  "table_ok s m dlsym t \<longleftrightarrow>
     (if hk_isInit t then (\<forall>n\<in>found_names s m. hk_fns t n = dlsym n) \<and> (\<forall>n\<in>needed_names s m. dlsym n \<noteq> None) else hk_fns t = (\<lambda>_. None))"

lemma find_all_eq: "find_all dlsym ns fns n = (if n \<in> set ns then dlsym n else fns n)"
  by (induction ns arbitrary: fns) simp_all

lemma missing_iff: "missing ns fns \<longleftrightarrow> (\<exists>n\<in>set ns. fns n = None)"
  by (simp add: missing_def list_ex_iff)

lemma needed_checked: "set hooked_names - {''recv'', ''recvfrom'', ''recvmsg''} \<subseteq> set checked_names"
  by (simp add: hooked_names_def checked_names_def insert_Diff_if)

lemma init_hook_ok:
  assumes "init_hook s m dlsym fns = Running (r, fns')"
  shows "r = CO_OK" and "\<And>n. n \<in> found_names s m \<Longrightarrow> fns' n = dlsym n" and "\<And>n. n \<in> needed_names s m \<Longrightarrow> dlsym n \<noteq> None"
proof -
  let ?a = "find_all dlsym hooked_names fns"
  let ?b = "if s then find_all dlsym [''select''] ?a else ?a"
  have e: "r = CO_OK" "fns' = (if m then find_all dlsym mutex_names ?b else ?b)" and c: "\<not> missing checked_names ?a" "s \<Longrightarrow> \<not> missing [''select''] ?b"
    "m \<Longrightarrow> \<not> missing mutex_names (find_all dlsym mutex_names ?b)"
    using assms by (simp_all add: init_hook_def Let_def split: if_splits)
  show "r = CO_OK" by (rule e)
  show "fns' n = dlsym n" if "n \<in> found_names s m" for n
    using that unfolding e(2) found_names_def by (auto simp: find_all_eq split: if_splits)
  have sub: "set checked_names \<subseteq> set hooked_names" by (simp add: hooked_names_def checked_names_def)
  have "\<forall>n\<in>set checked_names. dlsym n \<noteq> None" using c(1) subsetD [OF sub] by (simp add: missing_iff find_all_eq)
  moreover have "s \<Longrightarrow> dlsym ''select'' \<noteq> None" using c(2) by (auto simp: missing_iff find_all_eq)
  moreover have "m \<Longrightarrow> \<forall>n\<in>set mutex_names. dlsym n \<noteq> None" using c(3) by (auto simp: missing_iff find_all_eq)
  moreover have "n \<in> set checked_names \<or> s \<and> n = ''select'' \<or> m \<and> n \<in> set mutex_names" if "n \<in> needed_names s m" for n
  proof -
    have "n \<in> found_names s m" "n \<notin> {''recv'', ''recvfrom'', ''recvmsg''}" using that unfolding needed_names_def by blast+
    moreover from this have "n \<in> set hooked_names \<or> s \<and> n = ''select'' \<or> m \<and> n \<in> set mutex_names"
      unfolding found_names_def by (auto split: if_splits)
    ultimately have "n \<in> set hooked_names - {''recv'', ''recvfrom'', ''recvmsg''} \<or> s \<and> n = ''select'' \<or> m \<and> n \<in> set mutex_names" by blast
    then show ?thesis using subsetD [OF needed_checked] by blast
  qed
  ultimately show "dlsym n \<noteq> None" if "n \<in> needed_names s m" for n using that by blast
qed

lemma original_ok:
  assumes "table_ok s m dlsym t" and "original s m dlsym n t = Running r" and "n \<in> found_names s m"
  shows "(\<exists>f t'. dlsym n = Some f \<and> r = Inr (f, t') \<and> table_ok s m dlsym t') \<or> (dlsym n = None \<and> n \<notin> needed_names s m \<and> r = Inl NullPointer)"
proof (cases "hk_fns t n")
  case (Some f)
  with assms show ?thesis by (auto simp: original_def table_ok_def split: if_splits)
next
  case None
  show ?thesis
  proof (cases "hk_isInit t")
    case True
    with None assms show ?thesis by (auto simp: original_def init_coroutine_hook_def table_ok_def)
  next
    case False
    then obtain k fns where i: "init_hook s m dlsym (hk_fns t) = Running (k, fns)"
      using None assms(2) by (auto simp: original_def init_coroutine_hook_def split: started.splits)
    have "table_ok s m dlsym (t\<lparr>hk_fns := fns, hk_isInit := True\<rparr>)" using init_hook_ok [OF i] by (simp add: table_ok_def)
    moreover have "fns n = dlsym n" "n \<in> needed_names s m \<longrightarrow> dlsym n \<noteq> None" using init_hook_ok [OF i] assms(3) by simp_all
    ultimately show ?thesis using i False None assms(2) by (cases "dlsym n") (simp_all add: original_def init_coroutine_hook_def, blast)
  qed
qed

text \<open>
  Without \<open>recv\<close> the server starts and every \<open>recv\<close> calls address 0.
\<close>

lemma missing_recv_found_late:
  "\<exists>t. init_coroutine_hook False False (\<lambda>n. if n = ''recv'' then None else Some 1) no_hooks = Running t
     \<and> original False False (\<lambda>n. if n = ''recv'' then None else Some 1) ''recv'' t = Running (Inl NullPointer)"
  by (simp add: init_coroutine_hook_def init_hook_def original_def no_hooks_def missing_iff find_all_eq checked_names_def hooked_names_def)

text \<open>
  \<open>get_socket_ipport\<close>: the kernel's answers for the two ends of a socket are the family of the address, the address and the port, or nothing.
\<close>

definition socket_end :: "(bool \<times> string \<times> 16 word) option \<Rightarrow> string \<times> int \<Rightarrow> string \<times> int" where
  "socket_end answer old = (case answer of Some (True, ip, port) \<Rightarrow> (ip, uint port) | _ \<Rightarrow> old)"

definition get_socket_ipport ::
  "(int \<Rightarrow> (bool \<times> string \<times> 16 word) option) \<Rightarrow> (int \<Rightarrow> (bool \<times> string \<times> 16 word) option) \<Rightarrow> int
    \<Rightarrow> (string \<times> int) \<times> (string \<times> int) \<Rightarrow> (string \<times> int) \<times> (string \<times> int)" where
  "get_socket_ipport getsockname getpeername socketFd = (\<lambda>(here, there).
     (socket_end (getsockname socketFd) here, socket_end (getpeername socketFd) there))"

section \<open>Numbers of threads\<close>

text \<open>
  \<open>GET_TLS\<close>: the first call of a thread makes its \<open>CoThreadLocalInfo\<close>, which takes the next number of \<open>g_threadId\<close>, a
  counter of the process; a number is kept in an \<open>int32_t\<close>.
\<close>

record thread_infos =
  g_threadId :: "32 word"
  g_innerThreadId :: "nat \<Rightarrow> int option"

definition no_threads :: thread_infos where
  "no_threads = \<lparr>g_threadId = 0, g_innerThreadId = \<lambda>_. None\<rparr>"

definition new_thread_info :: "nat \<Rightarrow> thread_infos \<Rightarrow> thread_infos" where
  "new_thread_info t s = s\<lparr>g_threadId := g_threadId s + 1, g_innerThreadId := (g_innerThreadId s)(t := Some (sint (g_threadId s)))\<rparr>"

definition GET_TLS :: "nat \<Rightarrow> thread_infos \<Rightarrow> thread_infos" where
  "GET_TLS t s = (if g_innerThreadId s t = None then new_thread_info t s else s)"

text \<open>The threads that have asked, in their order.\<close>

definition numbered :: "nat list \<Rightarrow> thread_infos \<Rightarrow> bool" where
  "numbered ts s \<longleftrightarrow> distinct ts \<and> g_threadId s = word_of_nat (length ts)
     \<and> (\<forall>k<length ts. g_innerThreadId s (ts ! k) = Some (sint (word_of_nat k :: 32 word))) \<and> (\<forall>t. t \<notin> set ts \<longrightarrow> g_innerThreadId s t = None)"

lemma GET_TLS_numbered:
  assumes "numbered ts s"
  shows "numbered (if t \<in> set ts then ts else ts @ [t]) (GET_TLS t s)"
proof (cases "t \<in> set ts")
  case True
  then obtain k where "k < length ts" "ts ! k = t" by (auto simp: in_set_conv_nth)
  then show ?thesis using assms True by (auto simp: numbered_def GET_TLS_def)
next
  case False
  have "t \<noteq> ts ! k" if "k < length ts" for k using that False by auto
  then show ?thesis using assms False by (auto simp: numbered_def GET_TLS_def new_thread_info_def nth_append less_Suc_eq)
qed

lemma threads_numbered: "\<exists>ts. set ts = set calls \<and> numbered ts (fold GET_TLS calls no_threads)"
proof (induction calls rule: rev_induct)
  case Nil
  show ?case by (rule exI [of _ "[]"]) (simp add: numbered_def no_threads_def)
next
  case (snoc t calls)
  then obtain ts where "set ts = set calls" "numbered ts (fold GET_TLS calls no_threads)" by blast
  then show ?case using GET_TLS_numbered [of ts _ t] by (intro exI [of _ "if t \<in> set ts then ts else ts @ [t]"]) auto
qed

lemma small_words_differ: "i < 2 ^ 32 \<Longrightarrow> j < 2 ^ 32 \<Longrightarrow> sint (word_of_nat i :: 32 word) = sint (word_of_nat j :: 32 word) \<Longrightarrow> i = j"
  by (drule signed_word_eqI) (simp add: word_of_nat_eq_iff take_bit_nat_eq_self)

text \<open>Up to \<open>2 ^ 32\<close> threads have different numbers, whatever the order in which they ask, and however often.\<close>

lemma thread_numbers_differ:
  assumes "card (set calls) \<le> 2 ^ 32"
  shows "inj_on (g_innerThreadId (fold GET_TLS calls no_threads)) (set calls)"
    and "t \<in> set calls \<Longrightarrow> g_innerThreadId (fold GET_TLS calls no_threads) t \<noteq> None"
proof -
  obtain ts where ts: "set ts = set calls" "numbered ts (fold GET_TLS calls no_threads)" using threads_numbered by blast
  have l: "length ts \<le> 2 ^ 32" using assms ts distinct_card [of ts] by (simp add: numbered_def)
  show "inj_on (g_innerThreadId (fold GET_TLS calls no_threads)) (set calls)"
    unfolding ts(1) [symmetric]
  proof (rule inj_onI)
    fix t u assume "t \<in> set ts" "u \<in> set ts" and e: "g_innerThreadId (fold GET_TLS calls no_threads) t = g_innerThreadId (fold GET_TLS calls no_threads) u"
    then obtain i j where n: "i < length ts" "ts ! i = t" "j < length ts" "ts ! j = u" by (auto simp: in_set_conv_nth)
    then have "sint (word_of_nat i :: 32 word) = sint (word_of_nat j :: 32 word)" using ts(2) e by (auto simp: numbered_def)
    then have "i = j" using n l by (intro small_words_differ) simp_all
    then show "t = u" using n by simp
  qed
  show "g_innerThreadId (fold GET_TLS calls no_threads) t \<noteq> None" if "t \<in> set calls"
  proof -
    have "t \<in> set ts" using that ts(1) by simp
    then obtain k where "k < length ts" "ts ! k = t" by (auto simp: in_set_conv_nth)
    then show ?thesis using ts(2) by (auto simp: numbered_def)
  qed
qed

section \<open>The log\<close>

text \<open>
  \<open>STDOUT_LOG\<close>: what one message adds to the standard output. The caller's format and arguments are the text \<open>msg\<close>; the
  time is as \<open>gettimeofday\<close> and \<open>localtime_r\<close> give it.
\<close>

record log_time =
  tm_year :: nat
  tm_mon :: nat
  tm_mday :: nat
  tm_hour :: nat
  tm_min :: nat
  tm_sec :: nat
  tv_usec :: nat

definition g_logLevelString :: "string list" where
  "g_logLevelString = [''DEBUG'', ''INFO'', ''WARN'', ''ERROR'', ''FATAL'']"

text \<open>\<open>%0wd\<close> for a number that is not negative, and \<open>filename\<close>: what stands behind the last slash.\<close>

definition padded :: "nat \<Rightarrow> nat \<Rightarrow> string" where
  "padded w n = (let s = to_string (int n) in replicate (w - length s) CHR ''0'' @ s)"

definition filename :: "string \<Rightarrow> string" where
  "filename x = rev (takeWhile (\<lambda>c. c \<noteq> CHR ''/'') (rev x))"

definition log_line :: "int \<Rightarrow> log_time \<Rightarrow> int \<Rightarrow> string \<Rightarrow> nat \<Rightarrow> string \<Rightarrow> string res" where
  "log_line level tm innerThreadId path line msg =
     (if level < 1 \<or> level > 5 then Inl OutOfBounds
      else Inr (padded 4 (tm_year tm + 1900) @ ''-'' @ padded 2 (tm_mon tm + 1) @ ''-'' @ padded 2 (tm_mday tm) @ '' ''
        @ padded 2 (tm_hour tm) @ '':'' @ padded 2 (tm_min tm) @ '':'' @ padded 2 (tm_sec tm) @ ''.'' @ padded 3 (tv_usec tm div 1000)
        @ '' ['' @ to_string (innerThreadId mod two32) @ ''] ['' @ g_logLevelString ! nat (level - 1) @ ''] ('' @ filename path
        @ '':'' @ to_string (int line) @ '') '' @ msg @ [LF]))"

definition STDOUT_LOG :: "int \<Rightarrow> int \<Rightarrow> log_time \<Rightarrow> int \<Rightarrow> string \<Rightarrow> nat \<Rightarrow> string \<Rightarrow> string res" where
  "STDOUT_LOG logLevel level tm innerThreadId path line msg =
     (if level \<ge> logLevel then log_line level tm innerThreadId path line msg else Inr [])"

text \<open>The macros; \<open>CO_SERVER_LOG_DEBUG\<close> is empty without \<open>CO_DEBUG\<close>.\<close>

definition CO_SERVER_LOG_DEBUG :: "bool \<Rightarrow> int \<Rightarrow> log_time \<Rightarrow> int \<Rightarrow> string \<Rightarrow> nat \<Rightarrow> string \<Rightarrow> string res" where
  "CO_SERVER_LOG_DEBUG coDebug logLevel tm th path line msg = (if coDebug then STDOUT_LOG logLevel 1 tm th path line msg else Inr [])"

definition CO_SERVER_LOG_INFO :: "int \<Rightarrow> log_time \<Rightarrow> int \<Rightarrow> string \<Rightarrow> nat \<Rightarrow> string \<Rightarrow> string res" where
  "CO_SERVER_LOG_INFO logLevel = STDOUT_LOG logLevel 2"

definition CO_SERVER_LOG_WARN :: "int \<Rightarrow> log_time \<Rightarrow> int \<Rightarrow> string \<Rightarrow> nat \<Rightarrow> string \<Rightarrow> string res" where
  "CO_SERVER_LOG_WARN logLevel = STDOUT_LOG logLevel 3"

definition CO_SERVER_LOG_ERROR :: "int \<Rightarrow> log_time \<Rightarrow> int \<Rightarrow> string \<Rightarrow> nat \<Rightarrow> string \<Rightarrow> string res" where
  "CO_SERVER_LOG_ERROR logLevel = STDOUT_LOG logLevel 4"

definition CO_SERVER_LOG_FATAL :: "int \<Rightarrow> log_time \<Rightarrow> int \<Rightarrow> string \<Rightarrow> nat \<Rightarrow> string \<Rightarrow> string res" where
  "CO_SERVER_LOG_FATAL logLevel = STDOUT_LOG logLevel 5"

text \<open>With \<open>log_level 3\<close> a warning is printed and an information is not.\<close>

lemma log_filtered: "CO_SERVER_LOG_INFO 3 t th f l m = Inr []" "\<exists>text. CO_SERVER_LOG_WARN 3 t th f l m = Inr (text @ m @ [LF])"
  by (simp_all add: CO_SERVER_LOG_INFO_def CO_SERVER_LOG_WARN_def STDOUT_LOG_def log_line_def)

lemma log_sample:
  "CO_SERVER_LOG_WARN 3 \<lparr>tm_year = 122, tm_mon = 2, tm_mday = 7, tm_hour = 9, tm_min = 5, tm_sec = 59, tv_usec = 42999\<rparr> 1 ''base/co_dns.h'' 30 ''x''
     = Inr (''2022-03-07 09:05:59.042 [1] [WARN] (co_dns.h:30) x'' @ [LF])"
  by (simp add: CO_SERVER_LOG_WARN_def STDOUT_LOG_def log_line_def padded_def Let_def to_string_def nat_digits.simps digit_char_def filename_def
      g_logLevelString_def, code_simp)

end
