(* ===== verification/Spec2Isabelle.thy ===== *)
theory Spec2Isabelle
  imports Accepting Request_Flow Test_Client Subrequest_Flow Forwarding Dispatcher_Properties Wakeup Blocking Third_Socket Spinlock Backend Startup
begin

text \<open>
  CoServer is a server framework in C++: user functions written as if every call could block run as
  coroutines on a few worker threads. This development models its library, \<^verbatim>\<open>src/coserver\<close>.

  \<^bold>\<open>The program.\<close> \<^verbatim>\<open>CoServer\<close> reads the configuration and starts the worker threads. A worker thread owns
  a \<^verbatim>\<open>CoCycle\<close>: a pool of connections, an epoll descriptor, timers, a stack for coroutines, a
  dispatcher, its servers and its upstreams. The dispatcher waits for the kernel, runs the coroutines of
  the connections something has happened to, those noted in its three queues (new connections and
  sub-requests; coroutines other threads resume; coroutines that wait for a mutex) and those whose timers
  are due. The handler of a client's connection reads a request with the protocol object of its server,
  calls the user's function and writes the response; the function may add sub-requests to upstreams
  and wait for them. Calls of the C library that would block are hooked and switch the coroutine out.

  \<^bold>\<open>The theories,\<close> from the bottom up; each opens with what it models and how.

    \<^item> \<^theory_text>\<open>Prelude\<close>, \<^theory_text>\<open>Common\<close> (\<^verbatim>\<open>base/co_common.h\<close>): faults, \<open>int32_t\<close> arithmetic, return codes, and the
      lemmas on results, lists and numbers the others share.
    \<^item> \<^theory_text>\<open>Buffer\<close> (\<^verbatim>\<open>base/co_buffer\<close>): the buffer of a connection; it refines a queue of bytes.
    \<^item> \<^theory_text>\<open>Config\<close>, \<^theory_text>\<open>Config_Parser\<close> (\<^verbatim>\<open>base/co_config.h\<close>, \<^verbatim>\<open>base/co_configparser\<close>).
    \<^item> \<^theory_text>\<open>Startup\<close> (\<^verbatim>\<open>base/co_dns.h\<close>, \<^verbatim>\<open>base/co_log.h\<close>, the ends of \<^verbatim>\<open>base/co_hook.cpp\<close> and \<^verbatim>\<open>core/co_cycle.cpp\<close>): names of hosts, the log,
      finding the hooked functions, the numbers of threads.
    \<^item> \<^theory_text>\<open>Http_Message\<close>, \<^theory_text>\<open>Http_Codec\<close>, \<^theory_text>\<open>Http_Decode\<close>, \<^theory_text>\<open>Http_Body\<close>, \<^theory_text>\<open>Http_Server\<close>, \<^theory_text>\<open>Http_Client\<close>,
      \<^theory_text>\<open>Http_Roundtrip\<close>, \<^theory_text>\<open>Http_Properties\<close>, \<^theory_text>\<open>Tcp_Protocol\<close>, \<^theory_text>\<open>Protocol_Factory\<close> (\<^verbatim>\<open>protocol/\<close>): messages, incremental
      parsers, both directions of both protocols; what one side encodes the other decodes, in
      whatever segments it arrives.
    \<^item> \<^theory_text>\<open>Backend\<close> (\<^verbatim>\<open>upstream/co_upstream_backend\<close>): weighted round robin and backends that are down.
    \<^item> \<^theory_text>\<open>Tcp_Socket\<close>, \<^theory_text>\<open>Timer\<close>, \<^theory_text>\<open>Coroutine\<close>, \<^theory_text>\<open>Spinlock\<close>, \<^theory_text>\<open>Single\<close> (\<^verbatim>\<open>base/co_tcp\<close>, \<^verbatim>\<open>base/co_timer\<close> and \<^verbatim>\<open>core/co_event\<close>,
      \<^verbatim>\<open>base/co_coroutine\<close>, \<^verbatim>\<open>base/co_spinlock.h\<close>, \<^verbatim>\<open>core/co_single\<close>).
    \<^item> \<^theory_text>\<open>Connection\<close>, \<^theory_text>\<open>Connection_Pool\<close> (\<^verbatim>\<open>core/co_connection\<close>): connections and who owns them. The locale
      \<open>object_pool\<close> is the contract of a pool; the pool of connections interprets it.
    \<^item> \<^theory_text>\<open>Cycle\<close> (\<^verbatim>\<open>core/co_cycle\<close>): the state \<open>CoCycle\<close> of a worker thread. Pointers are numbers of objects.
    \<^item> \<^theory_text>\<open>Epoll\<close>, \<^theory_text>\<open>Yield\<close>, \<^theory_text>\<open>Hook\<close>, \<^theory_text>\<open>Third_Socket\<close>, \<^theory_text>\<open>Blocking\<close>, \<^theory_text>\<open>Frame\<close> (\<^verbatim>\<open>base/co_epoll\<close>, \<^verbatim>\<open>base/co_hook\<close>, the part of
      \<^verbatim>\<open>core/co_dispatcher\<close> a coroutine calls): registering events, switching out, the hooked calls, and
      what they leave alone (the locale \<open>coroutine_frame\<close>).
    \<^item> \<^theory_text>\<open>Server_Control\<close>, \<^theory_text>\<open>Server_Limit\<close> (\<^verbatim>\<open>core/co_server_control\<close>): accepting, and the limit of each server as an
      invariant of the whole pool.
    \<^item> \<^theory_text>\<open>Request\<close>, \<^theory_text>\<open>Local_State\<close>, \<^theory_text>\<open>Byte_Flow\<close>, \<^theory_text>\<open>Request_Flow\<close>, \<^theory_text>\<open>Keep_Alive\<close> (\<^verbatim>\<open>core/co_request\<close>,
      \<^verbatim>\<open>core/co_callback_request\<close>): a request from its first byte to its last, and a client from being accepted on over all its requests; the handlers on \<open>CoCycle\<close> are related to functions on the few
      fields of one connection, on which the loops are followed. The read loop is followed once, for a
      protocol object that decodes a stream (the locale \<open>stream_protocol\<close>, interpreted by the server's and the
      client's side of HTTP).
    \<^item> \<^theory_text>\<open>Upstream\<close>, \<^theory_text>\<open>Subrequest\<close>, \<^theory_text>\<open>Upstream_Properties\<close>, \<^theory_text>\<open>Subrequest_Flow\<close> (\<^verbatim>\<open>upstream/co_upstream\<close>,
      \<^verbatim>\<open>upstream/co_callback_upstream\<close>): connections to backends, sub-requests, retries, how the last one wakes
      its parent, and a sub-request from connecting to the answer its parent reads.
    \<^item> \<^theory_text>\<open>Dispatcher\<close>, \<^theory_text>\<open>Dispatcher_Properties\<close>, \<^theory_text>\<open>Wakeup\<close> (\<^verbatim>\<open>core/co_dispatcher\<close>, \<^verbatim>\<open>core/co_callback_event\<close>): the event
      loop. The locale \<open>work_queue\<close> is interpreted by its three queues. \<^theory_text>\<open>Wakeup\<close> has the threads that fill a
      queue against the one that empties it.
    \<^item> \<^theory_text>\<open>Server\<close>, \<^theory_text>\<open>Server_Properties\<close> (\<^verbatim>\<open>core/co_server\<close>): the server object, setting a worker thread up, and
      the state it starts in, which is the one the invariants above start from; the theorem at the end of this
      theory puts the two together.
    \<^item> \<^theory_text>\<open>Tutorial\<close>, \<^theory_text>\<open>Forwarding\<close> (\<^verbatim>\<open>tutorial/\<close>, the servers of \<^verbatim>\<open>test/\<close>): user functions on the model of the library. What a
      client receives from the first server is the composition of \<^theory_text>\<open>Request_Flow\<close> with \<^theory_text>\<open>Http_Roundtrip\<close>; that the second
      forwards what a backend answers follows two coroutines, one of which runs while the other waits.
    \<^item> \<^theory_text>\<open>Test_Client\<close> (\<^verbatim>\<open>test/tcp_send\<close>): the client that puts load on a server, and its requests against \<^theory_text>\<open>Keep_Alive\<close>.

  \<^bold>\<open>How the code is represented.\<close> A class is a record, an enumeration a datatype, a function a function on the
  state. A function that can dereference NULL, overflow a signed integer, build a string of a negative
  length or read outside a block has the result type \<open>fault + 'a\<close>, and theorems say that no fault
  occurs or which input causes one. Return codes stay return codes. \<open>int32_t\<close> is \<open>int\<close> with the range
  checked (\<open>i32\<close>) or wrapped (\<open>wrap32\<close>), \<open>uint32_t\<close> and flags are \<open>32 word\<close>.

  \<^bold>\<open>What comes from outside.\<close> The kernel's answers are lists in the state, used up in order: \<open>cy_sys\<close> for system calls,
  \<open>cy_in\<close> and \<open>cy_out\<close> for the bytes of sockets; what goes out is \<open>cy_wire\<close>. \<open>epoll_ctl\<close> follows its
  manual on a table of the kernel and may also fail. The clock is a function of the number of readings. The
  allocator and the order of unordered maps are fields or arguments. User functions are fields of a
  \<open>world\<close>. Coroutines are seen from both sides: the handlers are followed through their waits, and the
  rest of the thread during a wait is \<open>w_others\<close> of the \<open>world\<close>, restricted by hypotheses that say
  what it leaves alone; the event loop is followed over coroutines given by a \<open>scheduler\<close>. Threads meet in the
  spin lock, the waiters of mutexes and the queue of a dispatcher; these are step relations over all
  interleavings.

  \<^bold>\<open>Loops that may not end\<close> (the event loop, \<open>do\<close>-\<open>while\<close> over the queues, the timers, the read and write loops, waiting for
  a mutex, accepting) are \<open>partial_function (option)\<close>: \<open>None\<close> is not returning. That they return is proved
  where it holds, under the hypotheses it needs, and that \<open>accept\<close> does not where it fails for ever. No fuel is used.

  \<^bold>\<open>Not modelled.\<close> The messages the server logs while it runs (they have no effect on its state); the resolver of the system; saving
  and restoring the processor context; destructors that only release memory; memory orders weaker than sequential consistency; threads that are
  not worker threads, for which a hooked call is the original one; what the tutorials and the test client print.
\<close>

section \<open>From the configuration to the connections of a running thread\<close>

text \<open>C5: The limits of the configuration hold on a running worker thread: from the moment \<open>run_server_thread\<close> has set
  the thread up, after any sequence of what its coroutines do to the servers between two waits, in any order (\<open>serve\<close>: the
  handler of a listening connection looks at its limit, gets a socket or an error from \<open>accept\<close> as often as the limit
  allowed, with the steps of all others in between; a connection is given back, or taken for an upstream; everything that leaves the
  server objects and what their connections are marked with alone), the \<open>k\<close>-th server of the configuration has at most
  \<open>m_maxConnections\<close> connections in the pool, counts them rightly, and listens whenever it has fewer.\<close>

theorem configured_limits_hold:
  assumes "thread_setup w junk (new_cycle threadId conf userFuncs env) = Inr (Some cy0)"
    and "(serve w)\<^sup>*\<^sup>* (cy0, \<lambda>_. 0) (cy, p)" and "k < length (m_confServers conf)"
  shows "sc_curConnectionSize (control k cy) = int (card {i \<in> busy (cy_pool cy). cn_serverControl (conn i cy) = Some k})
    \<and> int (card {i \<in> busy (cy_pool cy). cn_serverControl (conn i cy) = Some k}) \<le> max 0 (sv_maxConnections (m_confServers conf ! k))
    \<and> (int (card {i \<in> busy (cy_pool cy). cn_serverControl (conn i cy) = Some k}) < sv_maxConnections (m_confServers conf ! k)
        \<longrightarrow> sc_listening (control k cy))"
proof -
  have "accepting_ok (cy0, \<lambda>_. 0)" "server_confs cy0 = m_confServers conf"
    using thread_setup_core [OF assms(1)] by (simp_all add: accepting_ok_def server_confs_def)
  then have ok: "servers_ok cy" "server_confs cy = m_confServers conf"
    using serve_reach [OF assms(2)] by (simp_all add: accepting_ok_def)
  have l: "length (cy_serverControls cy) = length (m_confServers conf)" using arg_cong [OF ok(2), of length] by (simp add: server_confs_def)
  then have c: "sc_confServer (control k cy) = m_confServers conf ! k"
    using arg_cong [OF ok(2), of "\<lambda>xs. xs ! k"] assms(3) by (simp add: server_confs_def control_def)
  have "server_ok {} (cy_pool cy) k (control k cy)"
    using ok(1) l assms(3) by (simp add: servers_ok_def servers_but_def server_inv_def control_def)
  then show ?thesis unfolding server_ok_def served_def c by (simp add: tag_def mark_def conn_def)
qed

theorem configured_limits_hold_witness:
  "\<exists>cy cy' p. thread_setup lone_world (\<lambda>_. NUL) one_server_cycle = Inr (Some cy) \<and> (serve lone_world)\<^sup>*\<^sup>* (cy, \<lambda>_. 0) (cy', p)
    \<and> sv_maxConnections (m_confServers one_server ! 0) = 1
    \<and> card {i \<in> busy (cy_pool cy'). cn_serverControl (conn i cy') = Some 0} = 1"
proof -
  obtain cy cy' p where t: "thread_setup lone_world (\<lambda>_. NUL) one_server_cycle = Inr (Some cy)"
    and r: "(serve lone_world)\<^sup>*\<^sup>* (cy, \<lambda>_. 0) (cy', p)" and n: "sc_curConnectionSize (control 0 cy') = 1"
    using one_server_accepts by blast
  have k: "0 < length (m_confServers one_server)" and m: "sv_maxConnections (m_confServers one_server ! 0) = 1" by (simp_all add: one_server_def)
  from configured_limits_hold [OF t [unfolded one_server_cycle_def] r k] n
  have "card {i \<in> busy (cy_pool cy'). cn_serverControl (conn i cy') = Some 0} = 1" by linarith
  with t r m show ?thesis by blast
qed

end
